(* ===== verification/Prelude.thy ===== *)
theory Prelude
  imports Complex_Main "HOL-Library.Option_ord" "HOL-Library.Product_Lexorder"
    "HOL-Library.List_Lexorder" "HOL-Library.Char_ord" "HOL-Library.AList" "HOL-Library.Multiset"
begin

text \<open>
  Shared vocabulary of the development: decimal rendering of Python integers, the JSON
  encoding of SQLite column values (\<open>json.dumps\<close> with compact separators and
  \<open>ensure_ascii\<close>), database rows as Python sees them (\<open>dict(sqlite3.Row)\<close>), the tables that
  hold them, and the lemma collections \<open>row_simps\<close> (reading a row after writing it) and
  \<open>table_simps\<close> (a table after an insert or an update) that the component proofs share.

  Python \<open>str\<close> values are modelled as \<open>string\<close>, so code points above 255 are not represented;
  finite Python floats are their exact rational value, and the text \<open>float.__repr__\<close> gives
  for one is a parameter \<open>fr\<close>.
\<close>

named_theorems row_simps "reading a column of an updated row"
named_theorems table_simps "the rows of a table after an operation"

section \<open>Decimal rendering\<close>

definition digit_char :: "nat \<Rightarrow> char" where
  "digit_char d = char_of (48 + d)"

fun nat_str :: "nat \<Rightarrow> string" where
  "nat_str n = (if n < 10 then [digit_char n] else nat_str (n div 10) @ [digit_char (n mod 10)])"

declare nat_str.simps [simp del]

definition int_str :: "int \<Rightarrow> string" where
  "int_str i = (if i < 0 then CHR ''-'' # nat_str (nat (- i)) else nat_str (nat i))"

definition digits_val :: "string \<Rightarrow> nat" where
  "digits_val s = foldl (\<lambda>acc c. 10 * acc + (of_char c - 48)) 0 s"

lemma of_digit_char [simp]: "d < 10 \<Longrightarrow> (of_char (digit_char d) :: nat) = 48 + d"
  by (simp add: digit_char_def)

lemma digits_val_nat_str: "digits_val (nat_str n) = n"
proof (induction n rule: nat_str.induct)
  case (1 n)
  show ?case
  proof (cases "n < 10")
    case True
    then show ?thesis by (subst nat_str.simps) (simp add: digits_val_def)
  next
    case False
    then have "digits_val (nat_str (n div 10)) = n div 10" by (rule "1.IH")
    with False show ?thesis by (subst nat_str.simps) (simp add: digits_val_def)
  qed
qed

lemma nat_str_inject [simp]: "nat_str m = nat_str n \<longleftrightarrow> m = n"
  by (metis digits_val_nat_str)

lemma nat_str_not_Nil [simp]: "nat_str n \<noteq> []"
  by (subst nat_str.simps) simp

lemma set_nat_str: "c \<in> set (nat_str n) \<Longrightarrow> (48::nat) \<le> of_char c \<and> (of_char c :: nat) < 58"
proof (induction n rule: nat_str.induct)
  case (1 n)
  show ?case
  proof (cases "n < 10")
    case True
    with "1.prems" show ?thesis by (simp add: nat_str.simps [of n])
  next
    case False
    with "1.prems" have "c \<in> set (nat_str (n div 10)) \<or> c = digit_char (n mod 10)"
      by (auto simp: nat_str.simps [of n])
    with False "1.IH" show ?thesis by auto
  qed
qed

lemma set_int_str:
  "c \<in> set (int_str i) \<Longrightarrow> c = CHR ''-'' \<or> ((48::nat) \<le> of_char c \<and> (of_char c :: nat) < 58)"
  by (auto simp: int_str_def dest: set_nat_str split: if_splits)

lemma digit_range: "48 \<le> n \<Longrightarrow> n < 58 \<Longrightarrow>
    n \<in> {48, 49, 50, 51, 52, 53, 54, 55, 56, 57 :: nat}"
  by (simp, presburger)

lemma int_str_chars: "set (int_str i) \<subseteq> set ''0123456789-''"
proof
  fix c assume "c \<in> set (int_str i)"
  from set_int_str [OF this] consider "c = CHR ''-''"
    | "(of_char c :: nat) \<in> {48, 49, 50, 51, 52, 53, 54, 55, 56, 57}" using digit_range by blast
  then show "c \<in> set ''0123456789-''"
  proof cases
    case 2
    have "c = char_of (of_char c :: nat)" by simp
    with 2 have "c \<in> char_of ` {48, 49, 50, 51, 52, 53, 54, 55, 56, 57 :: nat}" by blast
    moreover have "char_of ` {48, 49, 50, 51, 52, 53, 54, 55, 56, 57 :: nat} \<subseteq> set ''0123456789-''" by code_simp
    ultimately show ?thesis by blast
  qed simp
qed

lemma dash_not_in_nat_str: "CHR ''-'' \<notin> set (nat_str n)"
  using set_nat_str [of "CHR ''-''" n] by auto

lemma int_str_inject [simp]: "int_str i = int_str j \<longleftrightarrow> i = j"
proof
  assume eq: "int_str i = int_str j"
  have nd: "nat_str m \<noteq> CHR ''-'' # s" for m s
    using dash_not_in_nat_str [of m] by (metis list.set_intros(1))
  show "i = j"
    using eq nd nd [symmetric]
    by (auto simp: int_str_def split: if_splits)
qed simp

lemma int_str_not_Nil [simp]: "int_str i \<noteq> []"
  by (simp add: int_str_def)

lemma newline_not_in_int_str: "CHR 0x0A \<notin> set (int_str i)"
  using set_int_str [of "CHR 0x0A" i] by auto

section \<open>SQLite values and rows\<close>

text \<open>
  A column value as \<open>sqlite3\<close> returns it. \<open>SReal\<close> carries the exact value of a finite double.
  A row is \<open>dict(row)\<close>: a map from column names to values; \<open>rget\<close> is \<open>row.get(name)\<close>, which
  gives None both for a missing key and for a stored NULL.
\<close>

datatype sqlval = SNull | SInt int | SReal rat | SText string

type_synonym row = "string \<rightharpoonup> sqlval"

definition rget :: "row \<Rightarrow> string \<Rightarrow> sqlval" where
  "rget r c = (case r c of None \<Rightarrow> SNull | Some v \<Rightarrow> v)"

lemma rget_upd_same [row_simps, simp]: "rget (r(c \<mapsto> v)) c = v"
  by (simp add: rget_def)

lemma rget_upd_other [row_simps, simp]: "c \<noteq> d \<Longrightarrow> rget (r(c \<mapsto> v)) d = rget r d"
  by (simp add: rget_def)

lemma rget_empty [row_simps, simp]: "rget Map.empty c = SNull"
  by (simp add: rget_def)

definition as_int :: "sqlval \<Rightarrow> int option" where
  "as_int v = (case v of SInt i \<Rightarrow> Some i | _ \<Rightarrow> None)"

lemma as_int_simps [simp]:
  "as_int SNull = None" "as_int (SInt i) = Some i" "as_int (SReal q) = None" "as_int (SText s) = None"
  by (simp_all add: as_int_def)

lemma as_int_Some [simp]: "as_int v = Some i \<longleftrightarrow> v = SInt i"
  by (cases v) auto

definition text_opt :: "string option \<Rightarrow> sqlval" where
  "text_opt v = (case v of None \<Rightarrow> SNull | Some s \<Rightarrow> SText s)"

lemma text_opt_simps [simp]: "text_opt None = SNull" "text_opt (Some s) = SText s"
  by (simp_all add: text_opt_def)

lemma text_opt_inject [simp]: "text_opt a = text_opt b \<longleftrightarrow> a = b"
  by (cases a; cases b) auto

section \<open>Tables\<close>

text \<open>
  A table with \<open>INTEGER PRIMARY KEY AUTOINCREMENT\<close>: the rows in rowid order and the next id,
  which is larger than every id ever handed out. A column the INSERT does not name is NULL.
\<close>

record table =
  next_id :: int
  trows :: "row list"

definition empty_table :: table where
  "empty_table = \<lparr>next_id = 1, trows = []\<rparr>"

definition insert_row :: "row \<Rightarrow> table \<Rightarrow> int \<times> table" where
  "insert_row r t =
     (next_id t, \<lparr>next_id = next_id t + 1, trows = trows t @ [r(''id'' \<mapsto> SInt (next_id t))]\<rparr>)"

definition update_where :: "(row \<Rightarrow> bool) \<Rightarrow> (row \<Rightarrow> row) \<Rightarrow> table \<Rightarrow> table" where
  "update_where p f t = t\<lparr>trows := map (\<lambda>r. if p r then f r else r) (trows t)\<rparr>"

definition find_row :: "int \<Rightarrow> table \<Rightarrow> row option" where
  "find_row i t = find (\<lambda>r. rget r ''id'' = SInt i) (trows t)"

definition row_ids :: "table \<Rightarrow> int list" where
  "row_ids t = map (\<lambda>r. case as_int (rget r ''id'') of None \<Rightarrow> 0 | Some i \<Rightarrow> i) (trows t)"

definition ids_ok :: "table \<Rightarrow> bool" where
  "ids_ok t \<longleftrightarrow> (\<forall>r \<in> set (trows t). \<exists>i. rget r ''id'' = SInt i \<and> i < next_id t)
     \<and> sorted_wrt (<) (row_ids t)"

lemma ids_ok_empty [simp]: "ids_ok empty_table"
  by (simp add: ids_ok_def empty_table_def row_ids_def)

lemma trows_empty [table_simps, simp]: "trows empty_table = []"
  by (simp add: empty_table_def)

lemma fst_insert_row [table_simps, simp]: "fst (insert_row r t) = next_id t"
  by (simp add: insert_row_def)

lemma trows_insert_row [table_simps, simp]:
  "trows (snd (insert_row r t)) = trows t @ [r(''id'' \<mapsto> SInt (next_id t))]"
  by (simp add: insert_row_def)

lemma next_id_insert_row [table_simps, simp]: "next_id (snd (insert_row r t)) = next_id t + 1"
  by (simp add: insert_row_def)

lemma trows_update_where [table_simps, simp]:
  "trows (update_where p f t) = map (\<lambda>r. if p r then f r else r) (trows t)"
  by (simp add: update_where_def)

lemma next_id_update_where [table_simps, simp]: "next_id (update_where p f t) = next_id t"
  by (simp add: update_where_def)

lemma ids_ok_insert_row: "ids_ok t \<Longrightarrow> ids_ok (snd (insert_row r t))"
  by (fastforce simp: ids_ok_def row_ids_def sorted_wrt_append)

lemma ids_ok_update_where:
  assumes "ids_ok t" and "\<And>r. rget (f r) ''id'' = rget r ''id''"
  shows "ids_ok (update_where p f t)"
proof -
  have "row_ids (update_where p f t) = row_ids t"
    using assms(2) by (simp add: row_ids_def)
  with assms show ?thesis by (fastforce simp: ids_ok_def)
qed

lemma ids_ok_cong:
  assumes "next_id t = next_id u" and "map (\<lambda>r. rget r ''id'') (trows t) = map (\<lambda>r. rget r ''id'') (trows u)"
  shows "ids_ok t \<longleftrightarrow> ids_ok u"
proof -
  have "row_ids t = row_ids u"
    using arg_cong [OF assms(2), of "map (\<lambda>v. case as_int v of None \<Rightarrow> 0 | Some i \<Rightarrow> i)"]
    by (simp add: row_ids_def comp_def)
  moreover have "(\<lambda>r. rget r ''id'') ` set (trows t) = (\<lambda>r. rget r ''id'') ` set (trows u)"
    using arg_cong [OF assms(2), of set] by simp
  then have "(\<forall>v \<in> (\<lambda>r. rget r ''id'') ` set (trows t). \<exists>i. v = SInt i \<and> i < next_id u) \<longleftrightarrow>
    (\<forall>v \<in> (\<lambda>r. rget r ''id'') ` set (trows u). \<exists>i. v = SInt i \<and> i < next_id u)" by (simp only:)
  ultimately show ?thesis by (simp add: ids_ok_def assms(1))
qed

lemma map_if_none: "\<forall>r \<in> set rs. \<not> p r \<Longrightarrow> map (\<lambda>r. if p r then f r else r) rs = rs"
  by (induction rs) auto

lemma ids_ok_fresh: "ids_ok t \<Longrightarrow> r \<in> set (trows t) \<Longrightarrow> rget r ''id'' \<noteq> SInt (next_id t)"
  by (force simp: ids_ok_def)

lemma find_row_fresh: "ids_ok t \<Longrightarrow> find_row (next_id t) t = None"
  by (auto simp: find_row_def find_None_iff dest: ids_ok_fresh)

lemma find_append: "find p (xs @ ys) = (case find p xs of None \<Rightarrow> find p ys | Some x \<Rightarrow> Some x)"
  by (induction xs) auto

lemma find_row_inserted:
  "ids_ok t \<Longrightarrow> find_row (next_id t) (snd (insert_row r t)) = Some (r(''id'' \<mapsto> SInt (next_id t)))"
  using find_row_fresh [of t] by (simp add: find_row_def find_append)

lemma trows_sorted_by_id:
  assumes "ids_ok t"
  shows "sort_key (\<lambda>r. as_int (rget r ''id'')) (trows t) = trows t"
proof -
  have srt: "sorted_wrt (<) (row_ids t)" and has: "\<forall>r \<in> set (trows t). \<exists>i. rget r ''id'' = SInt i"
    using assms by (auto simp: ids_ok_def)
  have "as_int (rget r ''id'') \<le> as_int (rget s ''id'')"
    if "r \<in> set (trows t)" "s \<in> set (trows t)" and lt: "(case as_int (rget r ''id'') of None \<Rightarrow> 0 | Some i \<Rightarrow> i)
      < (case as_int (rget s ''id'') of None \<Rightarrow> 0 | Some i \<Rightarrow> i)" for r s
  proof -
    obtain i j where "rget r ''id'' = SInt i" "rget s ''id'' = SInt j"
      using has \<open>r \<in> set (trows t)\<close> \<open>s \<in> set (trows t)\<close> by force
    with lt show ?thesis by (simp add: less_eq_option_def)
  qed
  then have "sorted_wrt (\<lambda>r s. as_int (rget r ''id'') \<le> as_int (rget s ''id'')) (trows t)"
    using srt unfolding row_ids_def sorted_wrt_map by (blast intro: sorted_wrt_mono_rel [rotated])
  then show ?thesis by (intro sort_key_id_if_sorted) (simp add: sorted_map)
qed

lemma length_filter_conj_le: "length (filter (\<lambda>x. p x \<and> q x) xs) \<le> length (filter p xs)"
  by (induction xs) auto

lemma filter_length_strict:
  assumes "\<And>e. p e \<Longrightarrow> q e" and "x \<in> set xs" and "q x" and "\<not> p x"
  shows "length (filter p xs) < length (filter q xs)"
proof -
  have "filter p xs = filter p (filter q xs)" using assms(1) by (induction xs) auto
  also have "length \<dots> < length (filter q xs)" using assms(2-4) by (intro length_filter_less) auto
  finally show ?thesis .
qed

section \<open>Queries\<close>

text \<open>
  \<open>ORDER BY id ASC\<close>; \<open>ORDER BY id DESC\<close> is its reverse, ids being unique. \<open>sql_key\<close> is SQLite's
  order on values: NULL, then numbers by value (INTEGER and REAL compare numerically), then text
  by bytes. \<open>order_by k dir\<close> is \<open>ORDER BY k dir, id ASC\<close>; \<open>page\<close> is \<open>LIMIT n OFFSET m\<close>.
\<close>

definition order_by_id :: "row list \<Rightarrow> row list" where
  "order_by_id rs = sort_key (\<lambda>r. as_int (rget r ''id'')) rs"

definition sql_key :: "sqlval \<Rightarrow> nat \<times> rat \<times> string" where
  "sql_key v = (case v of SNull \<Rightarrow> (0, 0, []) | SInt i \<Rightarrow> (1, of_int i, []) | SReal q \<Rightarrow> (1, q, []) | SText s \<Rightarrow> (2, 0, s))"

definition order_by :: "(row \<Rightarrow> nat \<times> rat \<times> string) \<Rightarrow> bool \<Rightarrow> row list \<Rightarrow> row list" where
  "order_by k desc rs =
     (if desc then rev (sort_key k (rev (order_by_id rs))) else sort_key k (order_by_id rs))"

definition page :: "nat \<Rightarrow> nat \<Rightarrow> 'a list \<Rightarrow> 'a list" where
  "page limit offset xs = take limit (drop offset xs)"

definition int_col :: "row \<Rightarrow> string \<Rightarrow> int" where
  "int_col r c = (case as_int (rget r c) of None \<Rightarrow> 0 | Some i \<Rightarrow> i)"

lemma order_by_id_ids_ok [simp]: "ids_ok t \<Longrightarrow> order_by_id (trows t) = trows t"
  by (simp add: order_by_id_def trows_sorted_by_id)

lemma mset_order_by [simp]: "mset (order_by k d rs) = mset rs"
  by (simp add: order_by_def order_by_id_def)

lemma length_order_by [simp]: "length (order_by k d rs) = length rs"
  using mset_order_by by (metis size_mset)

lemma set_order_by [simp]: "set (order_by k d rs) = set rs"
  using mset_order_by by (metis set_mset_mset)

lemma sorted_order_by:
  "sorted (map k (if desc then rev (order_by k desc rs) else order_by k desc rs))"
  by (simp add: order_by_def)

lemma length_page: "length (page n m xs) \<le> n"
  by (simp add: page_def)

text \<open>Pages of one size tile the result: reading page after page gives every row once, in order.\<close>

lemma pages_tile: "concat (map (\<lambda>i. page n (i * n) xs) [0..<k]) = take (k * n) xs"
proof (induction k)
  case (Suc k)
  have "take (k * n) xs @ take n (drop (k * n) xs) = take (k * n + n) xs" by (simp add: take_add)
  with Suc show ?case by (simp add: page_def add.commute)
qed simp

section \<open>Text\<close>

text \<open>\<open>str.lower\<close> and \<open>str.strip\<close> on ASCII text.\<close>

definition lower_char :: "char \<Rightarrow> char" where
  "lower_char c = (if (65::nat) \<le> of_char c \<and> (of_char c :: nat) \<le> 90 then char_of (of_char c + 32 :: nat) else c)"

definition lower :: "string \<Rightarrow> string" where
  "lower s = map lower_char s"

definition upper_char :: "char \<Rightarrow> char" where
  "upper_char c = (if (97::nat) \<le> of_char c \<and> (of_char c :: nat) \<le> 122 then char_of (of_char c - 32 :: nat) else c)"

definition upper :: "string \<Rightarrow> string" where
  "upper s = map upper_char s"

definition is_space :: "char \<Rightarrow> bool" where
  "is_space c \<longleftrightarrow> c = CHR '' '' \<or> (9::nat) \<le> of_char c \<and> (of_char c :: nat) \<le> 13 \<or>
     (28::nat) \<le> of_char c \<and> (of_char c :: nat) \<le> 31"

definition strip :: "string \<Rightarrow> string" where
  "strip s = rev (dropWhile is_space (rev (dropWhile is_space s)))"

section \<open>Errors\<close>

text \<open>
  The exceptions the modelled code raises, with the constant part of the message; a result type
  \<open>py_error + 'a\<close> makes every \<open>raise\<close> a branch.
\<close>

datatype py_error =
    Value_Error string
  | Key_Error string
  | Type_Error string
  | Runtime_Error string
  | Integrity_Error string
  | Attribute_Error string

text \<open>Inversion of a guard and of a propagated error, used on every result-typed operation.\<close>

lemma Inr_ifD: "(if b then Inl e else x) = Inr y \<Longrightarrow> \<not> b \<and> x = Inr y"
  by (simp split: if_splits)

lemma Inr_bindD: "(case x of Inl e \<Rightarrow> Inl e | Inr u \<Rightarrow> g u) = Inr y \<Longrightarrow> \<exists>u. x = Inr u \<and> g u = Inr y"
  by (cases x) simp_all

section \<open>Joining texts\<close>

fun join_text :: "string \<Rightarrow> string list \<Rightarrow> string" where
  "join_text sep [] = []"
| "join_text sep [x] = x"
| "join_text sep (x # y # ys) = x @ sep @ join_text sep (y # ys)"

text \<open>Python's \<open>needle in text\<close> on strings.\<close>

fun contains :: "string \<Rightarrow> string \<Rightarrow> bool" where
  "contains needle [] \<longleftrightarrow> needle = []"
| "contains needle (c # cs) \<longleftrightarrow> take (length needle) (c # cs) = needle \<or> contains needle cs"

section \<open>Association lists\<close>

lemma length_update_le: "length (AList.update k v xs) \<le> Suc (length xs)"
  by (induction xs) auto

lemma update_fresh: "k \<notin> fst ` set xs \<Longrightarrow> AList.update k v xs = xs @ [(k, v)]"
  by (induction xs) auto

section \<open>JSON text\<close>

text \<open>
  \<open>json.encoder.py_encode_basestring_ascii\<close>: printable ASCII is copied, quote and backslash
  and the five short escapes take a backslash, everything else is \<open>\u00XX\<close>.
\<close>

definition hex_char :: "nat \<Rightarrow> char" where
  "hex_char d = (if d < 10 then char_of (48 + d) else char_of (87 + d))"

definition hex_val :: "char \<Rightarrow> nat" where
  "hex_val c = (let n = of_char c in if n < 58 then n - 48 else n - 87)"

lemma hex_val_char [simp]: "d < 16 \<Longrightarrow> hex_val (hex_char d) = d"
  by (simp add: hex_val_def hex_char_def Let_def)

definition json_escape :: "char \<Rightarrow> string" where
  "json_escape c =
     (if c = CHR 0x22 then [CHR 0x5C, CHR 0x22]
      else if c = CHR 0x5C then [CHR 0x5C, CHR 0x5C]
      else if c = CHR 0x0A then [CHR 0x5C, CHR ''n'']
      else if c = CHR 0x0D then [CHR 0x5C, CHR ''r'']
      else if c = CHR 0x09 then [CHR 0x5C, CHR ''t'']
      else if c = CHR 0x0C then [CHR 0x5C, CHR ''f'']
      else if c = CHR 0x08 then [CHR 0x5C, CHR ''b'']
      else if (32::nat) \<le> of_char c \<and> (of_char c :: nat) < 127 then [c]
      else [CHR 0x5C, CHR ''u'', CHR ''0'', CHR ''0'',
            hex_char (of_char c div 16), hex_char (of_char c mod 16)])"

definition json_string :: "string \<Rightarrow> string" where
  "json_string s = CHR 0x22 # concat (map json_escape s) @ [CHR 0x22]"

text \<open>The inverse used in the injectivity proof: read one escaped character.\<close>

fun unescape1 :: "string \<Rightarrow> (char \<times> string) option" where
  "unescape1 [] = None"
| "unescape1 (c # r) =
     (if c \<noteq> CHR 0x5C then Some (c, r)
      else (case r of
          [] \<Rightarrow> None
        | d # r' \<Rightarrow>
            if d = CHR ''n'' then Some (CHR 0x0A, r')
            else if d = CHR ''r'' then Some (CHR 0x0D, r')
            else if d = CHR ''t'' then Some (CHR 0x09, r')
            else if d = CHR ''f'' then Some (CHR 0x0C, r')
            else if d = CHR ''b'' then Some (CHR 0x08, r')
            else if d = CHR ''u'' then
              Some (char_of (16 * hex_val (r' ! 2) + hex_val (r' ! 3)), drop 4 r')
            else Some (d, r')))"

lemma unescape1_escape: "unescape1 (json_escape c @ r) = Some (c, r)"
proof -
  have lt: "(of_char c :: nat) div 16 < 16" using nat_of_char_less_256 [of c] by linarith
  have "char_of (16 * (of_char c div 16) + of_char c mod 16 :: nat) = c"
    by (simp add: mult.commute [of 16])
  with lt show ?thesis
    by (auto simp: json_escape_def numeral_2_eq_2 numeral_3_eq_3)
qed

lemma json_escape_hd: "json_escape c = d # r \<Longrightarrow> d \<noteq> CHR 0x22"
  by (auto simp: json_escape_def split: if_splits)

lemma json_escape_not_Nil [simp]: "json_escape c \<noteq> []"
  by (simp add: json_escape_def)

lemma escape_unique:
  "concat (map json_escape s) @ CHR 0x22 # r = concat (map json_escape s') @ CHR 0x22 # r'
   \<Longrightarrow> s = s' \<and> r = r'"
proof (induction s arbitrary: s')
  case Nil
  show ?case
  proof (cases s')
    case Nil
    with Nil.prems show ?thesis by simp
  next
    case (Cons c t)
    then obtain d e where "json_escape c = d # e" by (meson json_escape_not_Nil neq_Nil_conv)
    with Nil.prems Cons json_escape_hd show ?thesis by fastforce
  qed
next
  case (Cons c t)
  show ?case
  proof (cases s')
    case Nil
    obtain d e where "json_escape c = d # e" by (meson json_escape_not_Nil neq_Nil_conv)
    with Cons.prems Nil json_escape_hd show ?thesis by fastforce
  next
    case (Cons c' t')
    from Cons.prems Cons
    have eq: "json_escape c @ concat (map json_escape t) @ CHR 0x22 # r =
      json_escape c' @ concat (map json_escape t') @ CHR 0x22 # r'" by simp
    then have "c = c' \<and> concat (map json_escape t) @ CHR 0x22 # r =
      concat (map json_escape t') @ CHR 0x22 # r'"
      by (metis unescape1_escape option.inject prod.inject)
    with Cons.IH Cons show ?thesis by blast
  qed
qed

lemma json_string_unique: "json_string s @ r = json_string s' @ r' \<Longrightarrow> s = s' \<and> r = r'"
  using escape_unique [of s r s' r'] by (simp add: json_string_def)

definition json_value :: "(rat \<Rightarrow> string) \<Rightarrow> sqlval \<Rightarrow> string" where
  "json_value fr v = (case v of
       SNull \<Rightarrow> ''null'' | SInt i \<Rightarrow> int_str i | SReal q \<Rightarrow> fr q | SText s \<Rightarrow> json_string s)"

text \<open>
  What the development relies on of \<open>float.__repr__\<close> on finite floats: it is injective, uses
  only digits, sign, point and exponent, and always has a point or an exponent.
\<close>

definition float_repr_ok :: "(rat \<Rightarrow> string) \<Rightarrow> bool" where
  "float_repr_ok fr \<longleftrightarrow> inj fr \<and>
     (\<forall>q. set (fr q) \<subseteq> set ''0123456789.e+-'' \<and> (CHR ''.'' \<in> set (fr q) \<or> CHR ''e'' \<in> set (fr q)))"

lemma split_at_char:
  "a @ c # r = b @ c # r' \<Longrightarrow> c \<notin> set a \<Longrightarrow> c \<notin> set b \<Longrightarrow> a = b \<and> r = r'"
proof (induction a arbitrary: b)
  case Nil
  then show ?case by (cases b) auto
next
  case (Cons x a)
  then show ?case by (cases b) auto
qed

lemma json_value_chars:
  assumes "float_repr_ok fr"
  shows "\<forall>s. v \<noteq> SText s \<Longrightarrow> CHR '']'' \<notin> set (json_value fr v) \<and> CHR 0x22 \<notin> set (json_value fr v)"
proof (cases v)
  case (SInt i)
  then show ?thesis using set_int_str [of "CHR '']''" i] set_int_str [of "CHR 0x22" i]
    by (auto simp: json_value_def)
next
  case (SReal q)
  have "set (fr q) \<subseteq> set ''0123456789.e+-''" using assms by (simp add: float_repr_ok_def)
  with SReal show ?thesis by (auto simp: json_value_def)
qed (simp_all add: json_value_def)

lemma json_value_inject:
  assumes fr: "float_repr_ok fr" and "\<forall>s. v \<noteq> SText s" and "\<forall>s. w \<noteq> SText s"
    and eq: "json_value fr v = json_value fr w"
  shows "v = w"
proof -
  have int_no: "CHR ''.'' \<notin> set (int_str i) \<and> CHR ''e'' \<notin> set (int_str i) \<and> CHR ''n'' \<notin> set (int_str i)" for i
    using set_int_str [of "CHR ''.''" i] set_int_str [of "CHR ''e''" i] set_int_str [of "CHR ''n''" i] by auto
  have fr_no: "CHR ''n'' \<notin> set (fr q)" and fr_dot: "CHR ''.'' \<in> set (fr q) \<or> CHR ''e'' \<in> set (fr q)" for q
  proof -
    have "set (fr q) \<subseteq> set ''0123456789.e+-''" using fr by (simp add: float_repr_ok_def)
    then show "CHR ''n'' \<notin> set (fr q)" by auto
    show "CHR ''.'' \<in> set (fr q) \<or> CHR ''e'' \<in> set (fr q)" using fr by (simp add: float_repr_ok_def)
  qed
  have inj: "fr p = fr q \<longleftrightarrow> p = q" for p q using fr by (auto simp: float_repr_ok_def dest: injD)
  have ni: "''null'' \<noteq> int_str i" for i
  proof
    assume "''null'' = int_str i"
    then have "CHR ''n'' \<in> set (int_str i)" by (metis list.set_intros(1))
    with int_no show False by blast
  qed
  have nf: "''null'' \<noteq> fr q" for q
  proof
    assume "''null'' = fr q"
    then have "CHR ''n'' \<in> set (fr q)" by (metis list.set_intros(1))
    with fr_no show False by blast
  qed
  have if_ne: "int_str i \<noteq> fr q" for i q using int_no [of i] fr_dot [of q] by metis
  note ne = ni ni [symmetric] nf nf [symmetric] if_ne if_ne [symmetric]
  show ?thesis
    using assms(2,3) eq ne by (cases v; cases w) (auto simp: json_value_def inj)
qed

lemma json_value_unique:
  assumes fr: "float_repr_ok fr"
    and eq: "json_value fr v @ CHR '']'' # r = json_value fr v' @ CHR '']'' # r'"
  shows "v = v' \<and> r = r'"
proof -
  have hd_text: "\<exists>u. json_value fr (SText s) = CHR 0x22 # u" for s
    by (auto simp: json_value_def json_string_def)
  have mixed: False
    if "json_value fr (SText s) @ CHR '']'' # a = json_value fr w @ CHR '']'' # b" "\<forall>s. w \<noteq> SText s" for s w a b
    using that json_value_chars [OF fr, of w] hd_text [of s]
    by (cases "json_value fr w") auto
  consider (tt) s s' where "v = SText s" "v' = SText s'" | (tn) s where "v = SText s" "\<forall>s. v' \<noteq> SText s"
    | (nt) s where "v' = SText s" "\<forall>s. v \<noteq> SText s" | (nn) "\<forall>s. v \<noteq> SText s" "\<forall>s. v' \<noteq> SText s"
    by blast
  then show ?thesis
  proof cases
    case tt
    then show ?thesis using eq json_string_unique [of s "CHR '']'' # r" s' "CHR '']'' # r'"]
      by (simp add: json_value_def)
  next
    case tn
    then show ?thesis using eq mixed by blast
  next
    case nt
    then show ?thesis using eq [symmetric] mixed by blast
  next
    case nn
    with eq json_value_chars [OF fr] have "json_value fr v = json_value fr v' \<and> r = r'"
      by (blast dest: split_at_char)
    with nn json_value_inject [OF fr] show ?thesis by blast
  qed
qed

end
