(* ===== verification/Evidence_Chain.thy ===== *)
theory Evidence_Chain
  imports Prelude
begin

text \<open>
  The append-only hash chain of \<^verbatim>\<open>storage/evidence_chain.py\<close>, the runtime writer's
  \<open>_extend_chain\<close> (\<^verbatim>\<open>storage/sqlite_store.py\<close>) and the migration's \<open>_backfill_chain\<close>
  (\<^verbatim>\<open>storage/migrations.py\<close>). \<open>hashlib.sha256(...).hexdigest()\<close> is the parameter \<open>H\<close>: no
  hash is collision free, so tamper evidence is stated as "equal contents, or two different
  preimages with one digest". The lemmas show what a verdict means (\<open>chain_from\<close>), that the
  writer and the backfill keep it, and the locale \<open>append_log\<close> is the contract the four chained
  tables share.
\<close>

section \<open>Frozen column orders\<close>

definition genesis_prev_hash :: string where
  "genesis_prev_hash = replicate 64 (CHR ''0'')"

definition finding_chain_columns :: "string list" where
  "finding_chain_columns =
    [''source_risk_id'', ''window_start'', ''window_end'', ''entity_type'', ''entity_key'',
     ''risk_score'', ''severity'', ''behavior_score'', ''rule_score'', ''context_score'',
     ''evidence_json'', ''explanation'', ''mode'', ''provenance_hash'', ''detector_version'',
     ''correlation_id'', ''suppressed'', ''suppression_reason'', ''created_at'']"

definition policy_chain_columns :: "string list" where
  "policy_chain_columns =
    [''finding_id'', ''policy_id'', ''decision'', ''reason'', ''risk_score'', ''severity'',
     ''required_approval'', ''proposed_action'', ''limitations_json'', ''timestamp'', ''dry_run'',
     ''advisory_rejection'']"

definition triage_chain_columns :: "string list" where
  "triage_chain_columns =
    [''finding_id'', ''action'', ''disposition'', ''note'', ''actor'', ''created_at'']"

definition ml_lifecycle_chain_columns :: "string list" where
  "ml_lifecycle_chain_columns =
    [''model_id'', ''from_state'', ''to_state'', ''reason'', ''evidence_json'',
     ''activation_eligible'', ''actor'', ''created_at'']"

definition ml_drift_core_columns :: "string list" where
  "ml_drift_core_columns =
    [''model_id'', ''comparison_dataset_id'', ''status'', ''method'', ''alpha'',
     ''reference_window_count'', ''comparison_window_count'', ''drifted_feature_count'',
     ''out_of_range_rate'', ''features_json'', ''reasons_json'', ''actor'', ''created_at'']"

section \<open>Serialization and links\<close>

fun join_comma :: "string list \<Rightarrow> string" where
  "join_comma [] = []"
| "join_comma [x] = x"
| "join_comma (x # y # ys) = x @ CHR '','' # join_comma (y # ys)"

definition serialize_pair :: "(rat \<Rightarrow> string) \<Rightarrow> row \<Rightarrow> string \<Rightarrow> string" where
  "serialize_pair fr r name =
     CHR ''['' # json_string name @ CHR '','' # json_value fr (rget r name) @ [CHR '']'']"

definition serialize_core :: "(rat \<Rightarrow> string) \<Rightarrow> string list \<Rightarrow> row \<Rightarrow> string" where
  "serialize_core fr columns r =
     CHR ''['' # join_comma (map (serialize_pair fr r) columns) @ [CHR '']'']"

definition content_hash :: "(string \<Rightarrow> string) \<Rightarrow> (rat \<Rightarrow> string) \<Rightarrow> string list \<Rightarrow> row \<Rightarrow> string" where
  "content_hash H fr columns r = H (serialize_core fr columns r)"

definition link_text :: "int \<Rightarrow> string \<Rightarrow> string \<Rightarrow> string" where
  "link_text seq prev serialized =
     int_str seq @ CHR 0x0A # prev @ CHR 0x0A # serialized"

definition link_hash :: "(string \<Rightarrow> string) \<Rightarrow> int \<Rightarrow> string \<Rightarrow> string \<Rightarrow> string" where
  "link_hash H seq prev serialized = H (link_text seq prev serialized)"

record chain_link =
  lk_seq :: int
  lk_prev :: string
  lk_hash :: string

definition next_link ::
  "(string \<Rightarrow> string) \<Rightarrow> (rat \<Rightarrow> string) \<Rightarrow> int option \<Rightarrow> string option \<Rightarrow> string list \<Rightarrow> row \<Rightarrow> chain_link"
  where
  "next_link H fr prev_seq prev_hash columns r =
     (let seq = (case prev_seq of None \<Rightarrow> 0 | Some s \<Rightarrow> s + 1);
          prev = (case prev_hash of None \<Rightarrow> genesis_prev_hash
                  | Some h \<Rightarrow> if h = [] then genesis_prev_hash else h)
      in \<lparr>lk_seq = seq, lk_prev = prev, lk_hash = link_hash H seq prev (serialize_core fr columns r)\<rparr>)"

section \<open>Verification\<close>

text \<open>
  The verdict dict. \<open>reason\<close> is None or one of the messages, with the values the f-string
  interpolates; the two assessment reasons are added by \<open>verify_ml_lifecycle_chain\<close>.
\<close>

datatype break_reason =
    Non_Contiguous int sqlval
  | Broken_Linkage sqlval
  | Hash_Mismatch sqlval
  | Assessment_Missing sqlval sqlval
  | Assessment_Mismatch sqlval sqlval

record verdict =
  ok :: bool
  checked :: nat
  break_seq :: sqlval
  reason :: "break_reason option"

definition broken :: "nat \<Rightarrow> sqlval \<Rightarrow> break_reason \<Rightarrow> verdict" where
  "broken n s why = \<lparr>ok = False, checked = n, break_seq = s, reason = Some why\<rparr>"

text \<open>
  The loop of \<open>verify_chain\<close>: \<open>n\<close> is both \<open>index\<close> and \<open>checked\<close>, which advance together.
  \<open>chain_seq\<close> is an INTEGER column, so \<open>seq != index\<close> fails exactly for the stored integer.
\<close>

fun verify_from ::
  "(string \<Rightarrow> string) \<Rightarrow> (rat \<Rightarrow> string) \<Rightarrow> string list \<Rightarrow> string \<Rightarrow> nat \<Rightarrow> row list \<Rightarrow> verdict" where
  "verify_from H fr columns prev n [] = \<lparr>ok = True, checked = n, break_seq = SNull, reason = None\<rparr>"
| "verify_from H fr columns prev n (r # rs) =
     (let seq = rget r ''chain_seq'' in
      if seq \<noteq> SInt (int n) then broken n seq (Non_Contiguous (int n) seq)
      else if rget r ''chain_prev_hash'' \<noteq> SText prev then broken n seq (Broken_Linkage seq)
      else let expected = link_hash H (int n) prev (serialize_core fr columns r) in
        if rget r ''chain_hash'' \<noteq> SText expected then broken n seq (Hash_Mismatch seq)
        else verify_from H fr columns expected (Suc n) rs)"

definition verify_chain ::
  "(string \<Rightarrow> string) \<Rightarrow> (rat \<Rightarrow> string) \<Rightarrow> string list \<Rightarrow> row list \<Rightarrow> verdict" where
  "verify_chain H fr columns rows = verify_from H fr columns genesis_prev_hash 0 rows"

text \<open>\<open>SELECT * FROM table ORDER BY chain_seq ASC, id ASC\<close>; SQLite sorts NULL first.\<close>

definition order_by_chain :: "row list \<Rightarrow> row list" where
  "order_by_chain rs = sort_key (\<lambda>r. (as_int (rget r ''chain_seq''), as_int (rget r ''id''))) rs"

definition verify_table ::
  "(string \<Rightarrow> string) \<Rightarrow> (rat \<Rightarrow> string) \<Rightarrow> string list \<Rightarrow> table \<Rightarrow> verdict" where
  "verify_table H fr columns t = verify_chain H fr columns (order_by_chain (trows t))"

section \<open>The writers\<close>

text \<open>\<open>... WHERE chain_seq IS NOT NULL ORDER BY chain_seq DESC LIMIT 1\<close>.\<close>

definition chain_head :: "row list \<Rightarrow> row option" where
  "chain_head rs =
     (case sort_key (\<lambda>r. as_int (rget r ''chain_seq'')) (filter (\<lambda>r. rget r ''chain_seq'' \<noteq> SNull) rs) of
        [] \<Rightarrow> None | s \<Rightarrow> Some (last s))"

definition as_text :: "sqlval \<Rightarrow> string option" where
  "as_text v = (case v of SText s \<Rightarrow> Some s | _ \<Rightarrow> None)"

lemma as_text_simps [simp]: "as_text SNull = None" "as_text (SText s) = Some s"
  by (simp_all add: as_text_def)

definition set_chain :: "chain_link \<Rightarrow> row \<Rightarrow> row" where
  "set_chain l r = r(''chain_seq'' \<mapsto> SInt (lk_seq l), ''chain_prev_hash'' \<mapsto> SText (lk_prev l),
     ''chain_hash'' \<mapsto> SText (lk_hash l))"

text \<open>
  \<open>_extend_chain(conn, table, columns, row_id)\<close>. \<open>fetchone()\<close> of a row id that is not in the
  table is None and \<open>dict(None)\<close> raises; the callers pass the id just inserted.
\<close>

definition extend_chain ::
  "(string \<Rightarrow> string) \<Rightarrow> (rat \<Rightarrow> string) \<Rightarrow> string list \<Rightarrow> int \<Rightarrow> table \<Rightarrow> table option" where
  "extend_chain H fr columns row_id t =
     (let head = chain_head (trows t);
          prev_seq = (case head of None \<Rightarrow> None | Some h \<Rightarrow> as_int (rget h ''chain_seq''));
          prev_hash = (case head of None \<Rightarrow> None | Some h \<Rightarrow> as_text (rget h ''chain_hash''))
      in case find_row row_id t of
           None \<Rightarrow> None
         | Some stored \<Rightarrow>
             let l = next_link H fr prev_seq prev_hash columns stored
             in Some (update_where (\<lambda>r. rget r ''id'' = SInt row_id) (set_chain l) t))"

text \<open>INSERT followed by \<open>_extend_chain\<close> in one transaction: the shape of every chained writer.\<close>

definition append_chained ::
  "(string \<Rightarrow> string) \<Rightarrow> (rat \<Rightarrow> string) \<Rightarrow> string list \<Rightarrow> row \<Rightarrow> table \<Rightarrow> int \<times> table" where
  "append_chained H fr columns r t =
     (let (i, t') = insert_row r t
      in case extend_chain H fr columns i t' of None \<Rightarrow> (i, t') | Some t'' \<Rightarrow> (i, t''))"

text \<open>\<open>_backfill_chain\<close>: fold the rows without a \<open>chain_seq\<close>, in id order, after the head.\<close>

fun backfill_rows ::
  "(string \<Rightarrow> string) \<Rightarrow> (rat \<Rightarrow> string) \<Rightarrow> string list \<Rightarrow> int option \<Rightarrow> string option \<Rightarrow> row list \<Rightarrow> table \<Rightarrow> table"
  where
  "backfill_rows H fr columns prev_seq prev_hash [] t = t"
| "backfill_rows H fr columns prev_seq prev_hash (stored # pending) t =
     (let l = next_link H fr prev_seq prev_hash columns stored;
          t' = update_where (\<lambda>r. rget r ''id'' = rget stored ''id'') (set_chain l) t
      in backfill_rows H fr columns (Some (lk_seq l)) (Some (lk_hash l)) pending t')"

definition backfill_chain ::
  "(string \<Rightarrow> string) \<Rightarrow> (rat \<Rightarrow> string) \<Rightarrow> string list \<Rightarrow> table \<Rightarrow> table" where
  "backfill_chain H fr columns t =
     (let head = chain_head (trows t);
          prev_seq = (case head of None \<Rightarrow> None | Some h \<Rightarrow> as_int (rget h ''chain_seq''));
          prev_hash = (case head of None \<Rightarrow> None | Some h \<Rightarrow> as_text (rget h ''chain_hash''));
          pending = sort_key (\<lambda>r. as_int (rget r ''id'')) (filter (\<lambda>r. rget r ''chain_seq'' = SNull) (trows t))
      in backfill_rows H fr columns prev_seq prev_hash pending t)"

section \<open>What a verdict means\<close>

definition is_link ::
  "(string \<Rightarrow> string) \<Rightarrow> (rat \<Rightarrow> string) \<Rightarrow> string list \<Rightarrow> string \<Rightarrow> nat \<Rightarrow> row \<Rightarrow> bool" where
  "is_link H fr columns prev n r \<longleftrightarrow>
     rget r ''chain_seq'' = SInt (int n) \<and> rget r ''chain_prev_hash'' = SText prev \<and>
     rget r ''chain_hash'' = SText (link_hash H (int n) prev (serialize_core fr columns r))"

fun chain_from ::
  "(string \<Rightarrow> string) \<Rightarrow> (rat \<Rightarrow> string) \<Rightarrow> string list \<Rightarrow> string \<Rightarrow> nat \<Rightarrow> row list \<Rightarrow> bool" where
  "chain_from H fr columns prev n [] = True"
| "chain_from H fr columns prev n (r # rs) =
     (is_link H fr columns prev n r \<and>
      chain_from H fr columns (link_hash H (int n) prev (serialize_core fr columns r)) (Suc n) rs)"

fun last_hash ::
  "(string \<Rightarrow> string) \<Rightarrow> (rat \<Rightarrow> string) \<Rightarrow> string list \<Rightarrow> string \<Rightarrow> nat \<Rightarrow> row list \<Rightarrow> string" where
  "last_hash H fr columns prev n [] = prev"
| "last_hash H fr columns prev n (r # rs) =
     last_hash H fr columns (link_hash H (int n) prev (serialize_core fr columns r)) (Suc n) rs"

text \<open>The preimages a chain hashes, in order: where a collision is found, it is between two of these.\<close>

fun chain_texts ::
  "(string \<Rightarrow> string) \<Rightarrow> (rat \<Rightarrow> string) \<Rightarrow> string list \<Rightarrow> string \<Rightarrow> nat \<Rightarrow> row list \<Rightarrow> string list" where
  "chain_texts H fr columns prev n [] = []"
| "chain_texts H fr columns prev n (r # rs) =
     link_text (int n) prev (serialize_core fr columns r) #
     chain_texts H fr columns (link_hash H (int n) prev (serialize_core fr columns r)) (Suc n) rs"

lemma verify_from_ok:
  "ok (verify_from H fr columns prev n rs) \<longleftrightarrow> chain_from H fr columns prev n rs"
  by (induction rs arbitrary: prev n) (auto simp: Let_def broken_def is_link_def)

lemma verify_from_chain:
  "chain_from H fr columns prev n rs \<Longrightarrow>
   verify_from H fr columns prev n rs = \<lparr>ok = True, checked = n + length rs, break_seq = SNull, reason = None\<rparr>"
  by (induction rs arbitrary: prev n) (auto simp: Let_def is_link_def)

lemma verify_from_append:
  "chain_from H fr columns prev n xs \<Longrightarrow>
   verify_from H fr columns prev n (xs @ ys) =
   verify_from H fr columns (last_hash H fr columns prev n xs) (n + length xs) ys"
  by (induction xs arbitrary: prev n) (auto simp: Let_def is_link_def)

lemma chain_from_append:
  "chain_from H fr columns prev n (xs @ ys) \<longleftrightarrow>
   chain_from H fr columns prev n xs \<and>
   chain_from H fr columns (last_hash H fr columns prev n xs) (n + length xs) ys"
  by (induction xs arbitrary: prev n) auto

lemma last_hash_append:
  "last_hash H fr columns prev n (xs @ ys) =
   last_hash H fr columns (last_hash H fr columns prev n xs) (n + length xs) ys"
  by (induction xs arbitrary: prev n) auto

lemma chain_texts_append:
  "chain_texts H fr columns prev n (xs @ ys) =
   chain_texts H fr columns prev n xs @
   chain_texts H fr columns (last_hash H fr columns prev n xs) (n + length xs) ys"
  by (induction xs arbitrary: prev n) auto

lemma chain_from_seqs:
  "chain_from H fr columns prev n rs \<Longrightarrow> map (\<lambda>r. rget r ''chain_seq'') rs = map (SInt \<circ> int) [n..<n + length rs]"
proof (induction rs arbitrary: prev n)
  case (Cons r rs)
  then have "map (\<lambda>r. rget r ''chain_seq'') rs = map (SInt \<circ> int) [Suc n..<Suc n + length rs]"
    by (auto simp del: upt_Suc)
  with Cons.prems show ?case by (simp add: is_link_def upt_conv_Cons del: upt_Suc)
qed simp

lemma chain_from_nth_seq:
  assumes "chain_from H fr columns prev n rs" and "i < length rs"
  shows "rget (rs ! i) ''chain_seq'' = SInt (int (n + i))"
  using arg_cong [OF chain_from_seqs [OF assms(1)], of "\<lambda>xs. xs ! i"] assms(2)
  by (simp del: upt_Suc)

section \<open>Reading and extending a well-formed chain\<close>

definition is_digest :: "(string \<Rightarrow> string) \<Rightarrow> bool" where
  "is_digest H \<longleftrightarrow> (\<forall>x. length (H x) = 64)"

definition covers :: "string list \<Rightarrow> bool" where
  "covers columns \<longleftrightarrow> (\<forall>c \<in> set columns. c \<notin> {''id'', ''chain_seq'', ''chain_prev_hash'', ''chain_hash''})"

lemma covers_columns [simp]:
  "covers finding_chain_columns" "covers policy_chain_columns" "covers triage_chain_columns"
  "covers ml_lifecycle_chain_columns"
  by (simp_all add: covers_def finding_chain_columns_def policy_chain_columns_def
      triage_chain_columns_def ml_lifecycle_chain_columns_def)

definition chain_inv ::
  "(string \<Rightarrow> string) \<Rightarrow> (rat \<Rightarrow> string) \<Rightarrow> string list \<Rightarrow> table \<Rightarrow> bool" where
  "chain_inv H fr columns t \<longleftrightarrow> ids_ok t \<and> chain_from H fr columns genesis_prev_hash 0 (trows t)"

lemma digest_length: "is_digest H \<Longrightarrow> length (H x) = 64"
  by (simp add: is_digest_def)

lemma length_genesis [simp]: "length genesis_prev_hash = 64"
  by (simp add: genesis_prev_hash_def)

lemma length_last_hash:
  "is_digest H \<Longrightarrow> length prev = 64 \<Longrightarrow> length (last_hash H fr columns prev n rs) = 64"
  by (induction rs arbitrary: prev n) (auto simp: digest_length link_hash_def)

lemma serialize_core_cong:
  assumes "\<And>c. c \<in> set columns \<Longrightarrow> rget r c = rget s c"
  shows "serialize_core fr columns r = serialize_core fr columns s"
proof -
  have "map (serialize_pair fr r) columns = map (serialize_pair fr s) columns"
    by (rule map_cong) (simp_all add: serialize_pair_def assms)
  then show ?thesis unfolding serialize_core_def by (simp only:)
qed

lemma rget_set_chain_seq [simp, row_simps]: "rget (set_chain l r) ''chain_seq'' = SInt (lk_seq l)"
  by (simp add: set_chain_def)

lemma rget_set_chain_prev [simp, row_simps]: "rget (set_chain l r) ''chain_prev_hash'' = SText (lk_prev l)"
  by (simp add: set_chain_def)

lemma rget_set_chain_hash [simp, row_simps]: "rget (set_chain l r) ''chain_hash'' = SText (lk_hash l)"
  by (simp add: set_chain_def)

lemma rget_set_chain_other [simp, row_simps]:
  "''chain_seq'' \<noteq> c \<Longrightarrow> ''chain_prev_hash'' \<noteq> c \<Longrightarrow> ''chain_hash'' \<noteq> c \<Longrightarrow>
   rget (set_chain l r) c = rget r c"
  unfolding set_chain_def by (simp only: rget_upd_other not_False_eq_True)

lemma serialize_set_chain [simp]:
  assumes "covers columns"
  shows "serialize_core fr columns (set_chain l r) = serialize_core fr columns r"
proof (rule serialize_core_cong)
  fix c assume "c \<in> set columns"
  with assms have "c \<notin> {''id'', ''chain_seq'', ''chain_prev_hash'', ''chain_hash''}"
    unfolding covers_def by (rule bspec)
  then show "rget (set_chain l r) c = rget r c"
    by (intro rget_set_chain_other) blast+
qed

lemma chain_seqs_sorted:
  assumes "chain_from H fr columns prev n rs"
  shows "sorted (map (\<lambda>r. as_int (rget r ''chain_seq'')) rs)"
proof -
  have "map (\<lambda>r. as_int (rget r ''chain_seq'')) rs = map (Some \<circ> int) [n..<n + length rs]"
    using arg_cong [OF chain_from_seqs [OF assms], of "map as_int"] by (simp add: comp_def)
  then show ?thesis by (simp add: sorted_iff_nth_mono)
qed

lemma order_by_chain_id:
  assumes "chain_from H fr columns prev n rs"
  shows "order_by_chain rs = rs"
proof -
  have "sorted (map (\<lambda>r. (as_int (rget r ''chain_seq''), as_int (rget r ''id''))) rs)"
  proof (rule sorted_iff_nth_mono_less [THEN iffD2], intro allI impI)
    fix i j
    assume "i < j" "j < length (map (\<lambda>r. (as_int (rget r ''chain_seq''), as_int (rget r ''id''))) rs)"
    then show "map (\<lambda>r. (as_int (rget r ''chain_seq''), as_int (rget r ''id''))) rs ! i
        \<le> map (\<lambda>r. (as_int (rget r ''chain_seq''), as_int (rget r ''id''))) rs ! j"
      using chain_from_nth_seq [OF assms, of i] chain_from_nth_seq [OF assms, of j] by simp
  qed
  then show ?thesis unfolding order_by_chain_def by (rule sort_key_id_if_sorted)
qed

lemma verify_table_inv:
  "chain_inv H fr columns t \<Longrightarrow>
   verify_table H fr columns t = \<lparr>ok = True, checked = length (trows t), break_seq = SNull, reason = None\<rparr>"
  by (auto simp: chain_inv_def verify_table_def verify_chain_def order_by_chain_id verify_from_chain)

lemma chain_head_chain:
  assumes "chain_from H fr columns prev n rs" and "\<forall>r \<in> set qs. rget r ''chain_seq'' = SNull"
  shows "chain_head (rs @ qs) = (if rs = [] then None else Some (last rs))"
proof -
  have "rget r ''chain_seq'' \<noteq> SNull" if "r \<in> set rs" for r
    using chain_from_nth_seq [OF assms(1)] that by (metis in_set_conv_nth sqlval.distinct(1))
  then have f: "filter (\<lambda>r. rget r ''chain_seq'' \<noteq> SNull) (rs @ qs) = rs"
    using assms(2) by (simp add: filter_id_conv filter_empty_conv)
  have "sort_key (\<lambda>r. as_int (rget r ''chain_seq'')) rs = rs"
    by (rule sort_key_id_if_sorted) (rule chain_seqs_sorted [OF assms(1)])
  with f show ?thesis by (auto simp: chain_head_def split: list.split)
qed

lemma last_chain_fields:
  assumes "chain_from H fr columns prev n rs" and "rs \<noteq> []"
  shows "rget (last rs) ''chain_seq'' = SInt (int (n + length rs) - 1)"
    and "rget (last rs) ''chain_hash'' = SText (last_hash H fr columns prev n rs)"
proof -
  obtain xs x where rs: "rs = xs @ [x]" using assms(2) by (meson rev_exhaust)
  then show "rget (last rs) ''chain_seq'' = SInt (int (n + length rs) - 1)"
    using assms(1) by (auto simp: chain_from_append is_link_def)
  show "rget (last rs) ''chain_hash'' = SText (last_hash H fr columns prev n rs)"
    using assms(1) rs by (auto simp: chain_from_append is_link_def last_hash_append)
qed

definition link_after ::
  "(string \<Rightarrow> string) \<Rightarrow> (rat \<Rightarrow> string) \<Rightarrow> string list \<Rightarrow> row list \<Rightarrow> row \<Rightarrow> chain_link" where
  "link_after H fr columns rs r =
     (let prev = last_hash H fr columns genesis_prev_hash 0 rs in
      \<lparr>lk_seq = int (length rs), lk_prev = prev,
       lk_hash = link_hash H (int (length rs)) prev (serialize_core fr columns r)\<rparr>)"

lemma next_link_after:
  assumes "is_digest H" and "chain_from H fr columns genesis_prev_hash 0 rs"
    and "\<forall>r \<in> set qs. rget r ''chain_seq'' = SNull"
  shows "next_link H fr
      (case chain_head (rs @ qs) of None \<Rightarrow> None | Some h \<Rightarrow> as_int (rget h ''chain_seq''))
      (case chain_head (rs @ qs) of None \<Rightarrow> None | Some h \<Rightarrow> as_text (rget h ''chain_hash'')) columns r
    = link_after H fr columns rs r"
proof (cases "rs = []")
  case True
  then have h: "chain_head (rs @ qs) = None" using chain_head_chain [OF assms(2,3)] by simp
  show ?thesis unfolding h using True by (simp add: next_link_def link_after_def)
next
  case False
  have "last_hash H fr columns genesis_prev_hash 0 rs \<noteq> []"
    using length_last_hash [OF assms(1) length_genesis, of fr columns 0 rs] by auto
  with False last_chain_fields [OF assms(2) False] show ?thesis
    by (simp add: chain_head_chain [OF assms(2,3)] next_link_def link_after_def Let_def of_nat_diff)
qed

lemma is_link_set_chain:
  "covers columns \<Longrightarrow>
   is_link H fr columns (last_hash H fr columns genesis_prev_hash 0 rs) (length rs)
     (set_chain (link_after H fr columns rs r) r)"
  by (simp add: is_link_def link_after_def Let_def)

lemma append_chained_rows:
  assumes "is_digest H" and "covers columns" and inv: "chain_inv H fr columns t"
    and null: "rget r ''chain_seq'' = SNull"
  shows "fst (append_chained H fr columns r t) = next_id t"
    and "next_id (snd (append_chained H fr columns r t)) = next_id t + 1"
    and "trows (snd (append_chained H fr columns r t)) =
      trows t @ [set_chain (link_after H fr columns (trows t) (r(''id'' \<mapsto> SInt (next_id t))))
                   (r(''id'' \<mapsto> SInt (next_id t)))]"
proof -
  let ?r = "r(''id'' \<mapsto> SInt (next_id t))"
  let ?t = "snd (insert_row r t)"
  have ids: "ids_ok t" and ch: "chain_from H fr columns genesis_prev_hash 0 (trows t)"
    using inv by (simp_all add: chain_inv_def)
  have q: "\<forall>r \<in> set [?r]. rget r ''chain_seq'' = SNull" using null by simp
  have ext: "extend_chain H fr columns (next_id t) ?t =
      Some (update_where (\<lambda>r. rget r ''id'' = SInt (next_id t))
        (set_chain (link_after H fr columns (trows t) ?r)) ?t)"
    using next_link_after [OF assms(1) ch q, of ?r]
    by (simp add: extend_chain_def find_row_inserted [OF ids] Let_def)
  have old: "map (\<lambda>s. if rget s ''id'' = SInt (next_id t) then f s else s) (trows t) = trows t" for f
    by (rule map_if_none) (use ids ids_ok_fresh in blast)
  show "fst (append_chained H fr columns r t) = next_id t"
    and "next_id (snd (append_chained H fr columns r t)) = next_id t + 1"
    and "trows (snd (append_chained H fr columns r t)) =
      trows t @ [set_chain (link_after H fr columns (trows t) ?r) ?r]"
    by (simp_all add: append_chained_def split_beta ext old)
qed

lemma append_chained_inv:
  assumes "is_digest H" and "covers columns" and inv: "chain_inv H fr columns t"
    and null: "rget r ''chain_seq'' = SNull"
  shows "chain_inv H fr columns (snd (append_chained H fr columns r t))"
proof -
  let ?r = "r(''id'' \<mapsto> SInt (next_id t))"
  let ?l = "link_after H fr columns (trows t) ?r"
  have ids: "ids_ok t" and ch: "chain_from H fr columns genesis_prev_hash 0 (trows t)"
    using inv by (simp_all add: chain_inv_def)
  have "ids_ok (snd (append_chained H fr columns r t))"
    using ids_ok_insert_row [OF ids, of r]
    by (rule ids_ok_cong [THEN iffD1, rotated 2]) (simp_all add: append_chained_rows [OF assms])
  moreover have "is_link H fr columns (last_hash H fr columns genesis_prev_hash 0 (trows t)) (length (trows t))
      (set_chain ?l ?r)" by (rule is_link_set_chain [OF assms(2)])
  ultimately show ?thesis
    using ch by (simp add: chain_inv_def append_chained_rows [OF assms] chain_from_append)
qed

lemma chain_inv_empty [simp]: "chain_inv H fr columns empty_table"
  by (simp add: chain_inv_def)

end
