(* ===== verification/Chain_Tamper.thy ===== *)
theory Chain_Tamper
  imports Evidence_Chain
begin

text \<open>
  What the hash chain of \<^theory_text>\<open>Evidence_Chain\<close> detects. Serialization and link text are injective, so
  two verifying chains with one head hash agree on every covered column, or the run exhibits two
  preimages with one digest; a row removed from the middle is always found; a chain cut at its
  end still verifies; and the migration's backfill writes the links the runtime writer writes.
\<close>

section \<open>Injectivity of the hashed text\<close>

lemma serialize_pair_append:
  "serialize_pair fr r c @ x = CHR ''['' # json_string c @ CHR '','' # json_value fr (rget r c) @ CHR '']'' # x"
  by (simp add: serialize_pair_def)

lemma serialize_pair_unique:
  assumes "float_repr_ok fr" and "serialize_pair fr r c @ x = serialize_pair fr s c @ y"
  shows "rget r c = rget s c \<and> x = y"
proof -
  have "json_value fr (rget r c) @ CHR '']'' # x = json_value fr (rget s c) @ CHR '']'' # y"
    using assms(2) by (simp add: serialize_pair_append)
  then show ?thesis by (rule json_value_unique [OF assms(1)])
qed

lemma join_pairs_unique:
  assumes fr: "float_repr_ok fr"
  shows "join_comma (map (serialize_pair fr r) cs) @ CHR '']'' # x =
         join_comma (map (serialize_pair fr s) cs) @ CHR '']'' # y \<Longrightarrow>
         (\<forall>c \<in> set cs. rget r c = rget s c) \<and> x = y"
proof (induction cs rule: induct_list012)
  case 1
  then show ?case by simp
next
  case (2 c)
  then show ?case using serialize_pair_unique [OF fr, of r c "CHR '']'' # x" s "CHR '']'' # y"] by simp
next
  case (3 c d ds)
  have "serialize_pair fr r c @ CHR '','' # join_comma (map (serialize_pair fr r) (d # ds)) @ CHR '']'' # x =
        serialize_pair fr s c @ CHR '','' # join_comma (map (serialize_pair fr s) (d # ds)) @ CHR '']'' # y"
    using "3.prems" by simp
  from serialize_pair_unique [OF fr this]
  have "rget r c = rget s c"
    and "join_comma (map (serialize_pair fr r) (d # ds)) @ CHR '']'' # x =
         join_comma (map (serialize_pair fr s) (d # ds)) @ CHR '']'' # y" by simp_all
  with "3.IH"(2) show ?case by simp
qed

lemma serialize_core_inject:
  assumes "float_repr_ok fr"
  shows "serialize_core fr columns r = serialize_core fr columns s \<longleftrightarrow> (\<forall>c \<in> set columns. rget r c = rget s c)"
    (is "?l \<longleftrightarrow> ?r")
proof
  assume ?l
  then have "join_comma (map (serialize_pair fr r) columns) @ CHR '']'' # [] =
    join_comma (map (serialize_pair fr s) columns) @ CHR '']'' # []" by (simp add: serialize_core_def)
  then show ?r using join_pairs_unique [OF assms] by blast
next
  assume ?r
  then show ?l by (intro serialize_core_cong) simp
qed

lemma link_text_inject:
  assumes "length p = 64" and "length q = 64" and "link_text m p s = link_text n q t"
  shows "m = n \<and> p = q \<and> s = t"
proof -
  have "int_str m @ CHR 0x0A # (p @ CHR 0x0A # s) = int_str n @ CHR 0x0A # (q @ CHR 0x0A # t)"
    using assms(3) by (simp add: link_text_def)
  then have "int_str m = int_str n" and "p @ CHR 0x0A # s = q @ CHR 0x0A # t"
    using newline_not_in_int_str [of m] newline_not_in_int_str [of n]
    by (metis split_at_char)+
  with assms(1,2) show ?thesis by (simp add: append_eq_append_conv)
qed

lemma join_comma_snoc: "length (join_comma (xs @ [x])) \<ge> length (join_comma xs) + length x"
  by (induction xs rule: join_comma.induct) (auto split: list.split)

lemma serialize_core_longer: "serialize_core fr (cols @ [c]) r \<noteq> serialize_core fr cols r"
proof -
  have "length (serialize_pair fr r c) > 0" by (simp add: serialize_pair_def)
  then have "length (serialize_core fr (cols @ [c]) r) > length (serialize_core fr cols r)"
    using join_comma_snoc [of "map (serialize_pair fr r) cols" "serialize_pair fr r c"]
    by (simp add: serialize_core_def del: length_greater_0_conv)
  then show ?thesis by auto
qed

section \<open>Tamper evidence\<close>

definition collision :: "(string \<Rightarrow> string) \<Rightarrow> string list \<Rightarrow> string list \<Rightarrow> bool" where
  "collision H xs ys \<longleftrightarrow> (\<exists>x \<in> set xs. \<exists>y \<in> set ys. x \<noteq> y \<and> H x = H y)"

lemma collision_mono:
  "collision H xs ys \<Longrightarrow> set xs \<subseteq> set xs' \<Longrightarrow> set ys \<subseteq> set ys' \<Longrightarrow> collision H xs' ys'"
  by (auto simp: collision_def)

definition same_content :: "string list \<Rightarrow> row list \<Rightarrow> row list \<Rightarrow> bool" where
  "same_content columns rs ss \<longleftrightarrow>
     list_all2 (\<lambda>r s. \<forall>c \<in> set columns. rget r c = rget s c) rs ss"

lemma same_head_same_content:
  assumes fr: "float_repr_ok fr" and H: "is_digest H"
  shows "chain_from H fr cols genesis_prev_hash 0 rs \<Longrightarrow> chain_from H fr cols genesis_prev_hash 0 ss \<Longrightarrow>
    rs \<noteq> [] \<Longrightarrow> ss \<noteq> [] \<Longrightarrow> rget (last rs) ''chain_hash'' = rget (last ss) ''chain_hash'' \<Longrightarrow>
    same_content cols rs ss \<or>
    collision H (chain_texts H fr cols genesis_prev_hash 0 rs) (chain_texts H fr cols genesis_prev_hash 0 ss)"
proof (induction rs arbitrary: ss rule: rev_induct)
  case Nil
  then show ?case by simp
next
  case (snoc r rs)
  obtain ss' s where ss: "ss = ss' @ [s]" using snoc.prems(4) by (meson rev_exhaust)
  let ?g = genesis_prev_hash
  let ?p = "last_hash H fr cols ?g 0 rs" and ?q = "last_hash H fr cols ?g 0 ss'"
  let ?x = "link_text (int (length rs)) ?p (serialize_core fr cols r)"
  let ?y = "link_text (int (length ss')) ?q (serialize_core fr cols s)"
  let ?tx = "chain_texts H fr cols ?g 0 rs" and ?ty = "chain_texts H fr cols ?g 0 ss'"
  have r: "chain_from H fr cols ?g 0 rs" "is_link H fr cols ?p (length rs) r"
    and s: "chain_from H fr cols ?g 0 ss'" "is_link H fr cols ?q (length ss') s"
    using snoc.prems(1,2) by (simp_all add: ss chain_from_append)
  have Hxy: "H ?x = H ?y"
    using snoc.prems(5) r(2) s(2) by (simp add: ss is_link_def link_hash_def)
  show ?case
  proof (cases "?x = ?y")
    case False
    with Hxy show ?thesis by (auto simp: collision_def chain_texts_append ss)
  next
    case True
    then have eq: "length rs = length ss'" "?p = ?q" "serialize_core fr cols r = serialize_core fr cols s"
      using link_text_inject [OF length_last_hash [OF H length_genesis] length_last_hash [OF H length_genesis] True]
      by (simp_all only: of_nat_eq_iff simp_thms)
    have row: "\<forall>c \<in> set cols. rget r c = rget s c"
      using eq(3) serialize_core_inject [OF fr] by blast
    show ?thesis
    proof (cases "rs = []")
      case True
      with eq(1) row show ?thesis by (simp add: ss same_content_def)
    next
      case False
      with eq(1) have "ss' \<noteq> []" by auto
      have "rget (last rs) ''chain_hash'' = rget (last ss') ''chain_hash''"
        using last_chain_fields(2) [OF r(1) False] last_chain_fields(2) [OF s(1) \<open>ss' \<noteq> []\<close>] eq(2)
        by (simp only:)
      with snoc.IH [OF r(1) s(1) False \<open>ss' \<noteq> []\<close>]
      have "same_content cols rs ss' \<or> collision H ?tx ?ty" by blast
      then show ?thesis
      proof
        assume "same_content cols rs ss'"
        with row show ?thesis by (simp add: ss same_content_def list_all2_appendI)
      next
        assume "collision H ?tx ?ty"
        then have "collision H (chain_texts H fr cols ?g 0 (rs @ [r])) (chain_texts H fr cols ?g 0 ss)"
          by (rule collision_mono) (auto simp: chain_texts_append ss)
        then show ?thesis ..
      qed
    qed
  qed
qed

lemma removed_row_detected:
  assumes "chain_from H fr cols genesis_prev_hash 0 (xs @ r # y # ys)"
  shows "verify_chain H fr cols (xs @ y # ys) =
    broken (length xs) (SInt (int (length xs) + 1)) (Non_Contiguous (int (length xs)) (SInt (int (length xs) + 1)))"
proof -
  have xs: "chain_from H fr cols genesis_prev_hash 0 xs"
    and y: "rget y ''chain_seq'' = SInt (int (length xs) + 1)"
    using assms by (simp_all add: chain_from_append is_link_def add.commute)
  show ?thesis by (simp add: verify_chain_def verify_from_append [OF xs] y Let_def broken_def)
qed

lemma changed_row_detected:
  assumes fr: "float_repr_ok fr" and H: "is_digest H"
    and ch: "chain_from H fr cols genesis_prev_hash 0 (xs @ r # ys)"
    and same: "rget r' ''chain_seq'' = rget r ''chain_seq''"
      "rget r' ''chain_prev_hash'' = rget r ''chain_prev_hash''" "rget r' ''chain_hash'' = rget r ''chain_hash''"
    and diff: "\<exists>c \<in> set cols. rget r' c \<noteq> rget r c"
  shows "verify_chain H fr cols (xs @ r' # ys) =
      broken (length xs) (SInt (int (length xs))) (Hash_Mismatch (SInt (int (length xs)))) \<or>
    collision H [link_text (int (length xs)) (last_hash H fr cols genesis_prev_hash 0 xs) (serialize_core fr cols r')]
      [link_text (int (length xs)) (last_hash H fr cols genesis_prev_hash 0 xs) (serialize_core fr cols r)]"
proof -
  let ?p = "last_hash H fr cols genesis_prev_hash 0 xs" and ?n = "int (length xs)"
  have xs: "chain_from H fr cols genesis_prev_hash 0 xs" and r: "is_link H fr cols ?p (length xs) r"
    using ch by (simp_all add: chain_from_append)
  have ne: "link_text ?n ?p (serialize_core fr cols r') \<noteq> link_text ?n ?p (serialize_core fr cols r)"
    using diff serialize_core_inject [OF fr, of cols r' r] by (auto simp: link_text_def)
  show ?thesis
  proof (cases "link_hash H ?n ?p (serialize_core fr cols r') = link_hash H ?n ?p (serialize_core fr cols r)")
    case True
    with ne show ?thesis unfolding link_hash_def collision_def by simp
  next
    case False
    with r show ?thesis
      by (simp add: verify_chain_def verify_from_append [OF xs] same is_link_def Let_def)
  qed
qed

lemma prefix_verifies:
  assumes "chain_from H fr cols genesis_prev_hash 0 (xs @ ys)"
  shows "verify_chain H fr cols xs = \<lparr>ok = True, checked = length xs, break_seq = SNull, reason = None\<rparr>"
  using assms by (simp add: chain_from_append verify_chain_def verify_from_chain)

section \<open>The backfill writes the runtime writer's links\<close>

lemma update_one:
  assumes "ids_ok t" and "trows t = xs @ q # ys"
  shows "trows (update_where (\<lambda>r. rget r ''id'' = rget q ''id'') f t) = xs @ f q # ys"
proof -
  have srt: "sorted_wrt (<) (row_ids t)" and has: "\<forall>r \<in> set (trows t). \<exists>i. rget r ''id'' = SInt i"
    using assms(1) by (auto simp: ids_ok_def)
  have "rget x ''id'' \<noteq> rget q ''id''" if "x \<in> set xs \<union> set ys" for x
    using srt has that by (fastforce simp: assms(2) row_ids_def sorted_wrt_append)
  then have "map (\<lambda>r. if rget r ''id'' = rget q ''id'' then f r else r) xs = xs"
    and "map (\<lambda>r. if rget r ''id'' = rget q ''id'' then f r else r) ys = ys"
    by (auto intro!: map_if_none)
  then show ?thesis by (simp add: assms(2))
qed

fun chain_rows :: "(string \<Rightarrow> string) \<Rightarrow> (rat \<Rightarrow> string) \<Rightarrow> string list \<Rightarrow> row list \<Rightarrow> row list \<Rightarrow> row list" where
  "chain_rows H fr cols xs [] = xs"
| "chain_rows H fr cols xs (q # qs) =
     chain_rows H fr cols (xs @ [set_chain (link_after H fr cols xs q) q]) qs"

lemma chain_from_link_after:
  assumes "covers cols" and "chain_from H fr cols genesis_prev_hash 0 xs"
  shows "chain_from H fr cols genesis_prev_hash 0 (xs @ [set_chain (link_after H fr cols xs q) q])"
  using is_link_set_chain [OF assms(1), of H fr xs q] assms(2) by (simp add: chain_from_append)

lemma next_link_step:
  assumes "is_digest H" and "covers cols" and "chain_from H fr cols genesis_prev_hash 0 xs"
  shows "next_link H fr (Some (lk_seq (link_after H fr cols xs q))) (Some (lk_hash (link_after H fr cols xs q))) cols q'
    = link_after H fr cols (xs @ [set_chain (link_after H fr cols xs q) q]) q'"
proof -
  let ?xs = "xs @ [set_chain (link_after H fr cols xs q) q]"
  have ch: "chain_from H fr cols genesis_prev_hash 0 ?xs" by (rule chain_from_link_after [OF assms(2,3)])
  show ?thesis
    using next_link_after [OF assms(1) ch, of "[]" q'] chain_head_chain [OF ch, of "[]"] by simp
qed

lemma backfill_rows_chain:
  assumes "is_digest H" and "covers cols"
  shows "ids_ok t \<Longrightarrow> trows t = xs @ qs \<Longrightarrow> chain_from H fr cols genesis_prev_hash 0 xs \<Longrightarrow>
    \<forall>q. next_link H fr ps ph cols q = link_after H fr cols xs q \<Longrightarrow>
    trows (backfill_rows H fr cols ps ph qs t) = chain_rows H fr cols xs qs \<and>
    next_id (backfill_rows H fr cols ps ph qs t) = next_id t"
proof (induction qs arbitrary: t xs ps ph)
  case Nil
  then show ?case by simp
next
  case (Cons q qs)
  let ?l = "link_after H fr cols xs q"
  let ?t = "update_where (\<lambda>r. rget r ''id'' = rget q ''id'') (set_chain ?l) t"
  have l: "next_link H fr ps ph cols q = ?l" using Cons.prems(4) by blast
  have ids: "ids_ok ?t" by (rule ids_ok_update_where [OF Cons.prems(1)]) simp
  have rows: "trows ?t = (xs @ [set_chain ?l q]) @ qs"
    using update_one [OF Cons.prems(1,2)] by simp
  show ?case
    using Cons.IH [OF ids rows chain_from_link_after [OF assms(2) Cons.prems(3)]]
      next_link_step [OF assms Cons.prems(3)]
    by (simp add: l Let_def)
qed

lemma pending_in_id_order:
  assumes "ids_ok t" and rows: "trows t = xs @ qs" and "chain_from H fr cols genesis_prev_hash 0 xs"
    and null: "\<forall>q \<in> set qs. rget q ''chain_seq'' = SNull"
  shows "sort_key (\<lambda>r. as_int (rget r ''id'')) (filter (\<lambda>r. rget r ''chain_seq'' = SNull) (trows t)) = qs"
proof -
  have "rget r ''chain_seq'' \<noteq> SNull" if "r \<in> set xs" for r
    using chain_from_nth_seq [OF assms(3)] that by (metis in_set_conv_nth sqlval.distinct(1))
  then have f: "filter (\<lambda>r. rget r ''chain_seq'' = SNull) (trows t) = qs"
    using null by (simp add: rows filter_id_conv filter_empty_conv)
  have srt: "sorted_wrt (<) (row_ids t)" and has: "\<forall>r \<in> set (trows t). \<exists>i. rget r ''id'' = SInt i"
    using assms(1) by (auto simp: ids_ok_def)
  have "sorted_wrt (<) (map (\<lambda>r. case as_int (rget r ''id'') of None \<Rightarrow> 0 | Some i \<Rightarrow> i) qs)"
    using srt by (simp add: row_ids_def rows sorted_wrt_append)
  moreover have "as_int (rget r ''id'') \<le> as_int (rget s ''id'')"
    if "r \<in> set qs" "s \<in> set qs" and lt: "(case as_int (rget r ''id'') of None \<Rightarrow> 0 | Some i \<Rightarrow> i)
      < (case as_int (rget s ''id'') of None \<Rightarrow> 0 | Some i \<Rightarrow> i)" for r s
  proof -
    obtain i j where "rget r ''id'' = SInt i" "rget s ''id'' = SInt j" using has \<open>r \<in> set qs\<close> \<open>s \<in> set qs\<close> by (force simp: rows)
    with lt show ?thesis by (simp add: less_eq_option_def)
  qed
  ultimately have "sorted_wrt (\<lambda>r s. as_int (rget r ''id'') \<le> as_int (rget s ''id'')) qs"
    unfolding sorted_wrt_map by (blast intro: sorted_wrt_mono_rel [rotated])
  then have "sorted (map (\<lambda>r. as_int (rget r ''id'')) qs)" by (simp add: sorted_map)
  with f show ?thesis by (simp add: sort_key_id_if_sorted)
qed

lemma backfill_chain_rows:
  assumes H: "is_digest H" and c: "covers cols" and "ids_ok t" and "trows t = xs @ qs"
    and ch: "chain_from H fr cols genesis_prev_hash 0 xs" and null: "\<forall>q \<in> set qs. rget q ''chain_seq'' = SNull"
  shows "trows (backfill_chain H fr cols t) = chain_rows H fr cols xs qs"
    and "next_id (backfill_chain H fr cols t) = next_id t"
proof -
  have "\<forall>q. next_link H fr
      (case chain_head (trows t) of None \<Rightarrow> None | Some h \<Rightarrow> as_int (rget h ''chain_seq''))
      (case chain_head (trows t) of None \<Rightarrow> None | Some h \<Rightarrow> as_text (rget h ''chain_hash'')) cols q
    = link_after H fr cols xs q"
    using next_link_after [OF H ch null] by (simp add: assms(4))
  from backfill_rows_chain [OF H c assms(3,4) ch this]
  show "trows (backfill_chain H fr cols t) = chain_rows H fr cols xs qs"
    and "next_id (backfill_chain H fr cols t) = next_id t"
    by (simp_all add: backfill_chain_def Let_def pending_in_id_order [OF assms(3,4) ch null])
qed

definition insert_all :: "row list \<Rightarrow> table \<Rightarrow> table" where
  "insert_all rs t = fold (\<lambda>r t. snd (insert_row r t)) rs t"

definition append_all ::
  "(string \<Rightarrow> string) \<Rightarrow> (rat \<Rightarrow> string) \<Rightarrow> string list \<Rightarrow> row list \<Rightarrow> table \<Rightarrow> table" where
  "append_all H fr cols rs t = fold (\<lambda>r t. snd (append_chained H fr cols r t)) rs t"

fun number_rows :: "int \<Rightarrow> row list \<Rightarrow> row list" where
  "number_rows i [] = []"
| "number_rows i (r # rs) = r(''id'' \<mapsto> SInt i) # number_rows (i + 1) rs"

lemma insert_all_rows:
  "trows (insert_all rs t) = trows t @ number_rows (next_id t) rs \<and> next_id (insert_all rs t) = next_id t + int (length rs)"
  by (induction rs arbitrary: t) (simp_all add: insert_all_def)

lemma ids_ok_insert_all: "ids_ok t \<Longrightarrow> ids_ok (insert_all rs t)"
  by (induction rs arbitrary: t) (simp_all add: insert_all_def ids_ok_insert_row)

lemma number_rows_null: "\<forall>r \<in> set rs. rget r ''chain_seq'' = SNull \<Longrightarrow>
    \<forall>r \<in> set (number_rows i rs). rget r ''chain_seq'' = SNull"
  by (induction rs arbitrary: i) auto

lemma append_all_rows:
  assumes "is_digest H" and "covers cols"
  shows "chain_inv H fr cols t \<Longrightarrow> \<forall>r \<in> set rs. rget r ''chain_seq'' = SNull \<Longrightarrow>
    trows (append_all H fr cols rs t) = chain_rows H fr cols (trows t) (number_rows (next_id t) rs) \<and>
    next_id (append_all H fr cols rs t) = next_id t + int (length rs)"
proof (induction rs arbitrary: t)
  case Nil
  then show ?case by (simp add: append_all_def)
next
  case (Cons r rs)
  have null: "rget r ''chain_seq'' = SNull" using Cons.prems(2) by simp
  note step = append_chained_rows [OF assms Cons.prems(1) null]
  have "append_all H fr cols (r # rs) t = append_all H fr cols rs (snd (append_chained H fr cols r t))"
    by (simp add: append_all_def)
  moreover have "chain_inv H fr cols (snd (append_chained H fr cols r t))"
    by (rule append_chained_inv [OF assms Cons.prems(1) null])
  ultimately show ?case using Cons.IH Cons.prems(2) by (simp add: step)
qed

lemma backfill_matches_writer:
  assumes "is_digest H" and "covers cols" and inv: "chain_inv H fr cols t"
    and null: "\<forall>r \<in> set rs. rget r ''chain_seq'' = SNull"
  shows "backfill_chain H fr cols (insert_all rs t) = append_all H fr cols rs t"
proof -
  have ids: "ids_ok t" and ch: "chain_from H fr cols genesis_prev_hash 0 (trows t)"
    using inv by (simp_all add: chain_inv_def)
  have rows: "trows (insert_all rs t) = trows t @ number_rows (next_id t) rs"
    using insert_all_rows [of rs t] by blast
  note b = backfill_chain_rows [OF assms(1,2) ids_ok_insert_all [OF ids] rows ch number_rows_null [OF null]]
  have "trows (backfill_chain H fr cols (insert_all rs t)) = trows (append_all H fr cols rs t)"
    and "next_id (backfill_chain H fr cols (insert_all rs t)) = next_id (append_all H fr cols rs t)"
    using b append_all_rows [OF assms(1,2) inv null] insert_all_rows [of rs t] by simp_all
  then show ?thesis by (simp add: table.equality)
qed

lemma append_all_inv:
  assumes "is_digest H" and "covers cols"
  shows "chain_inv H fr cols t \<Longrightarrow> \<forall>r \<in> set rs. rget r ''chain_seq'' = SNull \<Longrightarrow>
    chain_inv H fr cols (append_all H fr cols rs t)"
  by (induction rs arbitrary: t) (simp_all add: append_all_def append_chained_inv [OF assms])

section \<open>The contract of a chained log\<close>

text \<open>
  What \<open>/api/integrity\<close> and the alert loop rely on of each chained table: an append keeps every
  earlier entry in place and the table verifying. \<open>append\<close> may also refuse or deduplicate.
\<close>

locale append_log =
  fixes inv :: "'t \<Rightarrow> bool"
    and entries :: "'t \<Rightarrow> row list"
    and append :: "'a \<Rightarrow> 't \<Rightarrow> 't"
    and verify :: "'t \<Rightarrow> verdict"
  assumes inv_append: "inv t \<Longrightarrow> inv (append a t)"
    and grows: "inv t \<Longrightarrow> \<exists>rs. entries (append a t) = entries t @ rs"
    and verifies: "inv t \<Longrightarrow> ok (verify t) \<and> checked (verify t) = length (entries t)"
begin

lemma inv_run: "inv t \<Longrightarrow> inv (fold append as t)"
  by (induction as arbitrary: t) (simp_all add: inv_append)

lemma run_verifies: "inv t \<Longrightarrow> ok (verify (fold append as t))"
  using inv_run verifies by blast

lemma run_checked: "inv t \<Longrightarrow> checked (verify (fold append as t)) = length (entries (fold append as t))"
  using inv_run verifies by blast

lemma run_grows: "inv t \<Longrightarrow> \<exists>rs. entries (fold append as t) = entries t @ rs"
proof (induction as arbitrary: t)
  case (Cons a as)
  then obtain rs where "entries (fold append as (append a t)) = entries (append a t) @ rs"
    using inv_append by blast
  with grows [OF Cons.prems, of a] show ?case by auto
qed simp

lemma run_keeps: "inv t \<Longrightarrow> i < length (entries t) \<Longrightarrow> entries (fold append as t) ! i = entries t ! i"
  using run_grows [of t as] by (auto simp: nth_append)

end

section \<open>Concrete parameters\<close>

text \<open>A 64-character digest and an injective float rendering: the hypotheses on both can hold.\<close>

definition demo_hash :: "string \<Rightarrow> string" where
  "demo_hash s = take 64 (rev s @ replicate 64 (CHR ''x''))"

definition demo_repr :: "rat \<Rightarrow> string" where
  "demo_repr q = int_str (fst (quotient_of q)) @ CHR ''.'' # int_str (snd (quotient_of q))"

lemma is_digest_demo [simp]: "is_digest demo_hash"
  unfolding is_digest_def demo_hash_def by (simp add: min_def)

lemma float_repr_ok_demo [simp]: "float_repr_ok demo_repr"
proof -
  have no_dot: "CHR ''.'' \<notin> set (int_str i)" for i using set_int_str [of "CHR ''.''" i] by auto
  have "inj demo_repr"
  proof (rule injI)
    fix p q assume "demo_repr p = demo_repr q"
    then have "int_str (fst (quotient_of p)) = int_str (fst (quotient_of q))
        \<and> int_str (snd (quotient_of p)) = int_str (snd (quotient_of q))"
      unfolding demo_repr_def by (rule split_at_char) (rule no_dot)+
    then have "quotient_of p = quotient_of q" by (simp add: prod_eq_iff)
    then show "p = q" by (rule quotient_of_inject)
  qed
  moreover have "set (demo_repr q) \<subseteq> set ''0123456789.e+-''" for q
  proof -
    have "set (int_str i) \<subseteq> set ''0123456789.e+-''" for i using int_str_chars [of i] by (rule order_trans) simp
    then show ?thesis by (simp only: demo_repr_def set_append list.set(2) Un_subset_iff insert_subset) simp
  qed
  moreover have "CHR ''.'' \<in> set (demo_repr q)" for q by (simp add: demo_repr_def)
  ultimately show ?thesis unfolding float_repr_ok_def by blast
qed

lemma chain_from_chain_rows:
  "covers cols \<Longrightarrow> chain_from H fr cols genesis_prev_hash 0 xs \<Longrightarrow>
   chain_from H fr cols genesis_prev_hash 0 (chain_rows H fr cols xs qs)"
  by (induction qs arbitrary: xs) (simp_all add: chain_from_link_after)

definition demo_row :: "int \<Rightarrow> int \<Rightarrow> row" where
  "demo_row i j = [''a'' \<mapsto> SInt i, ''b'' \<mapsto> SInt j]"

definition demo_chain :: "row list \<Rightarrow> row list" where
  "demo_chain rs = chain_rows demo_hash demo_repr [''a''] [] rs"

lemma covers_demo [simp]: "covers [''a'']"
  by (simp add: covers_def)

lemma demo_chain_ok: "ok (verify_chain demo_hash demo_repr [''a''] (demo_chain rs))"
  by (simp add: verify_chain_def verify_from_ok demo_chain_def chain_from_chain_rows)

lemma demo_row_simps [simp]:
  "rget (demo_row i j) ''a'' = SInt i" "rget (demo_row i j) ''chain_seq'' = SNull"
  by (simp_all add: demo_row_def rget_def)

lemma demo_chain_cons: "demo_chain (q # qs) =
    chain_rows demo_hash demo_repr [''a''] [set_chain (link_after demo_hash demo_repr [''a''] [] q) q] qs"
  by (simp add: demo_chain_def)

section \<open>Properties\<close>

text \<open>C1: two row lists that both verify and end in the same \<open>chain_hash\<close> hold the same values in
  every covered column of every row, or the two lists exhibit two different preimages with one
  digest: recording the head hash is enough to detect any rewrite, reordering, removal or insertion.\<close>

theorem tamper_evident:
  assumes "float_repr_ok fr" and "is_digest H"
    and "ok (verify_chain H fr cols rs)" and "ok (verify_chain H fr cols ss)"
    and "rs \<noteq> []" and "ss \<noteq> []"
    and "rget (last rs) ''chain_hash'' = rget (last ss) ''chain_hash''"
  shows "same_content cols rs ss \<or>
    collision H (chain_texts H fr cols genesis_prev_hash 0 rs) (chain_texts H fr cols genesis_prev_hash 0 ss)"
  using assms by (simp add: verify_chain_def verify_from_ok same_head_same_content)

theorem tamper_evident_witness:
  "same_content [''a''] (demo_chain [demo_row 1 1]) (demo_chain [demo_row 1 2]) \<or>
   collision demo_hash
     (chain_texts demo_hash demo_repr [''a''] genesis_prev_hash 0 (demo_chain [demo_row 1 1]))
     (chain_texts demo_hash demo_repr [''a''] genesis_prev_hash 0 (demo_chain [demo_row 1 2]))"
proof (rule tamper_evident)
  show "rget (last (demo_chain [demo_row 1 1])) ''chain_hash'' = rget (last (demo_chain [demo_row 1 2])) ''chain_hash''"
    by (simp add: demo_chain_cons link_after_def Let_def serialize_core_def serialize_pair_def)
qed (simp_all add: demo_chain_ok, simp_all add: demo_chain_cons)

text \<open>Editing one covered column of one row of a verifying chain, with the stored link fields
  left alone, is reported at exactly that row, or the row's old and new text have one digest.\<close>

theorem edit_detected:
  assumes "float_repr_ok fr" and "is_digest H" and "ok (verify_chain H fr cols (xs @ r # ys))"
    and "rget r' ''chain_seq'' = rget r ''chain_seq''" and "rget r' ''chain_prev_hash'' = rget r ''chain_prev_hash''"
    and "rget r' ''chain_hash'' = rget r ''chain_hash''" and "\<exists>c \<in> set cols. rget r' c \<noteq> rget r c"
  shows "verify_chain H fr cols (xs @ r' # ys) =
      broken (length xs) (SInt (int (length xs))) (Hash_Mismatch (SInt (int (length xs)))) \<or>
    collision H [link_text (int (length xs)) (last_hash H fr cols genesis_prev_hash 0 xs) (serialize_core fr cols r')]
      [link_text (int (length xs)) (last_hash H fr cols genesis_prev_hash 0 xs) (serialize_core fr cols r)]"
  using assms(3) by (intro changed_row_detected [OF assms(1,2) _ assms(4-7)])
    (simp add: verify_chain_def verify_from_ok)

theorem edit_detected_witness:
  "let r = hd (demo_chain [demo_row 1 1]) in
   verify_chain demo_hash demo_repr [''a''] ([] @ r(''a'' \<mapsto> SInt 2) # []) = broken (length ([] :: row list))
      (SInt (int (length ([] :: row list)))) (Hash_Mismatch (SInt (int (length ([] :: row list))))) \<or>
   collision demo_hash
     [link_text (int (length ([] :: row list))) (last_hash demo_hash demo_repr [''a''] genesis_prev_hash 0 [])
       (serialize_core demo_repr [''a''] (r(''a'' \<mapsto> SInt 2)))]
     [link_text (int (length ([] :: row list))) (last_hash demo_hash demo_repr [''a''] genesis_prev_hash 0 [])
       (serialize_core demo_repr [''a''] r)]"
  unfolding Let_def
proof (rule edit_detected)
  show "ok (verify_chain demo_hash demo_repr [''a''] ([] @ hd (demo_chain [demo_row 1 1]) # []))"
    using demo_chain_ok [of "[demo_row 1 1]"] by (simp add: demo_chain_cons)
qed (simp_all add: demo_chain_cons)

text \<open>A row removed from before the end of a verifying chain is reported as the first gap in
  the sequence numbers, whatever the digest.\<close>

theorem removal_detected:
  assumes "ok (verify_chain H fr cols (xs @ r # y # ys))"
  shows "verify_chain H fr cols (xs @ y # ys) =
    broken (length xs) (SInt (int (length xs) + 1)) (Non_Contiguous (int (length xs)) (SInt (int (length xs) + 1)))"
  using assms by (intro removed_row_detected) (simp add: verify_chain_def verify_from_ok)

theorem removal_detected_witness:
  "verify_chain demo_hash demo_repr [''a''] ([] @ demo_chain [demo_row 1 1, demo_row 2 2] ! 1 # []) =
    broken (length ([] :: row list)) (SInt (int (length ([] :: row list)) + 1))
      (Non_Contiguous (int (length ([] :: row list))) (SInt (int (length ([] :: row list)) + 1)))"
proof (rule removal_detected)
  show "ok (verify_chain demo_hash demo_repr [''a'']
      ([] @ hd (demo_chain [demo_row 1 1, demo_row 2 2]) # demo_chain [demo_row 1 1, demo_row 2 2] ! 1 # []))"
    using demo_chain_ok [of "[demo_row 1 1, demo_row 2 2]"] by (simp add: demo_chain_cons)
qed

text \<open>A verifying chain cut at its end verifies: deleting the newest rows is not detected by
  \<open>verify_chain\<close> alone, which records neither a length nor a head.\<close>

theorem truncation_undetected:
  assumes "ok (verify_chain H fr cols (xs @ ys))"
  shows "verify_chain H fr cols xs = \<lparr>ok = True, checked = length xs, break_seq = SNull, reason = None\<rparr>"
  using assms by (intro prefix_verifies) (simp add: verify_chain_def verify_from_ok)

theorem truncation_undetected_witness:
  "verify_chain demo_hash demo_repr [''a''] (demo_chain [demo_row 1 1]) =
    \<lparr>ok = True, checked = length (demo_chain [demo_row 1 1]), break_seq = SNull, reason = None\<rparr>"
proof (rule truncation_undetected)
  show "ok (verify_chain demo_hash demo_repr [''a''] (demo_chain [demo_row 1 1] @ tl (demo_chain [demo_row 1 1, demo_row 2 2])))"
    using demo_chain_ok [of "[demo_row 1 1, demo_row 2 2]"] by (simp add: demo_chain_cons)
qed

text \<open>Verification re-serializes every row with the column list it is given, so appending a column to
  a frozen list breaks every chain already written under the old list at its first row, whatever the
  new column is, unless the first row's old and new text have one digest.\<close>

theorem column_append_breaks_chains:
  assumes "ok (verify_chain H fr cols (r # rs))"
  shows "verify_chain H fr (cols @ [c]) (r # rs) = broken 0 (SInt 0) (Hash_Mismatch (SInt 0)) \<or>
    collision H [link_text 0 genesis_prev_hash (serialize_core fr (cols @ [c]) r)]
      [link_text 0 genesis_prev_hash (serialize_core fr cols r)]"
proof (cases "link_hash H 0 genesis_prev_hash (serialize_core fr (cols @ [c]) r) =
    link_hash H 0 genesis_prev_hash (serialize_core fr cols r)")
  case True
  then show ?thesis
    using serialize_core_longer [of fr cols c r] by (auto simp: collision_def link_hash_def link_text_def)
next
  case False
  with assms show ?thesis by (simp add: verify_chain_def Let_def broken_def split: if_splits)
qed

theorem column_append_breaks_chains_witness:
  "let r = hd (demo_chain [demo_row 1 1]) in
   verify_chain demo_hash demo_repr ([''a''] @ [''b'']) (r # []) = broken 0 (SInt 0) (Hash_Mismatch (SInt 0)) \<or>
    collision demo_hash [link_text 0 genesis_prev_hash (serialize_core demo_repr ([''a''] @ [''b'']) r)]
      [link_text 0 genesis_prev_hash (serialize_core demo_repr [''a''] r)]"
  unfolding Let_def
proof (rule column_append_breaks_chains)
  show "ok (verify_chain demo_hash demo_repr [''a''] (hd (demo_chain [demo_row 1 1]) # []))"
    using demo_chain_ok [of "[demo_row 1 1]"] by (simp add: demo_chain_cons)
qed

text \<open>The migration's backfill of rows written before the chain columns existed produces the
  table the runtime writer would have produced appending the same rows one by one.\<close>

theorem backfill_is_append:
  assumes "is_digest H" and "covers cols" and "chain_inv H fr cols t"
    and "\<forall>r \<in> set rs. rget r ''chain_seq'' = SNull"
  shows "backfill_chain H fr cols (insert_all rs t) = append_all H fr cols rs t"
  by (rule backfill_matches_writer [OF assms])

theorem backfill_is_append_witness:
  "backfill_chain demo_hash demo_repr [''a''] (insert_all [demo_row 1 1, demo_row 2 2] empty_table) =
   append_all demo_hash demo_repr [''a''] [demo_row 1 1, demo_row 2 2] empty_table"
  by (rule backfill_is_append) (simp_all add: chain_inv_empty)

end
