(* ===== verification/Triage.thy ===== *)
theory Triage
  imports Chain_Tamper
begin

text \<open>
  The analyst triage layer of \<^verbatim>\<open>storage/sqlite_store.py\<close>: the append-only writer
  (\<open>write_triage_annotation\<close>), its readers, the fold \<open>read_latest_triage_state\<close>, and the SQL
  subqueries of \<open>read_detection_findings_page\<close> that compute the same state; and the review
  measurement of \<^verbatim>\<open>detection/operational_efficacy.py\<close> over the folded state.
\<close>

section \<open>The writer\<close>

definition triage_actions :: "string list" where
  "triage_actions = [''acknowledge'', ''annotate'', ''disposition'', ''suppress'', ''unsuppress'']"

definition triage_dispositions :: "string list" where
  "triage_dispositions = [''true-positive'', ''false-positive'', ''benign'']"

definition triage_row :: "int \<Rightarrow> string \<Rightarrow> string option \<Rightarrow> string option \<Rightarrow> string option \<Rightarrow> rat \<Rightarrow> row" where
  "triage_row finding action disposition note actor created =
     [''finding_id'' \<mapsto> SInt finding, ''action'' \<mapsto> SText action, ''disposition'' \<mapsto> text_opt disposition,
      ''note'' \<mapsto> text_opt note, ''actor'' \<mapsto> text_opt actor, ''created_at'' \<mapsto> SReal created]"

text \<open>
  \<open>now\<close> is the clock read when no \<open>created_at\<close> is passed. The result is the stored row, re-read
  after the chain columns were written, and the new table.
\<close>

definition write_triage_annotation ::
  "(string \<Rightarrow> string) \<Rightarrow> (rat \<Rightarrow> string) \<Rightarrow> rat \<Rightarrow> int \<Rightarrow> string \<Rightarrow> string option \<Rightarrow> string option \<Rightarrow>
   string option \<Rightarrow> rat option \<Rightarrow> table \<Rightarrow> py_error + (row option \<times> table)" where
  "write_triage_annotation H fr now finding action disposition note actor created_at t =
     (if action \<notin> set triage_actions then Inl (Value_Error ''unknown triage action'')
      else let disposition = (if action = ''disposition'' then disposition else None) in
      if action = ''disposition'' \<and> disposition = None
        then Inl (Value_Error ''disposition action requires a disposition value'')
      else if (case disposition of None \<Rightarrow> False | Some d \<Rightarrow> d \<notin> set triage_dispositions)
        then Inl (Value_Error ''unknown disposition'')
      else let created = (case created_at of Some c \<Rightarrow> c | None \<Rightarrow> now);
               (i, t') = append_chained H fr triage_chain_columns
                 (triage_row finding action disposition note actor created) t
           in Inr (find_row i t', t'))"

definition verify_triage_chain :: "(string \<Rightarrow> string) \<Rightarrow> (rat \<Rightarrow> string) \<Rightarrow> table \<Rightarrow> verdict" where
  "verify_triage_chain H fr t = verify_table H fr triage_chain_columns t"

text \<open>\<open>limit = max(1, min(int(limit), MAX_TRIAGE_ANNOTATION_LIMIT))\<close>, then the oldest rows first.\<close>

definition max_triage_annotation_limit :: int where
  "max_triage_annotation_limit = 5000"

definition read_triage_annotations :: "int option \<Rightarrow> int \<Rightarrow> table \<Rightarrow> row list" where
  "read_triage_annotations finding limit t =
     (let n = nat (max 1 (min limit max_triage_annotation_limit)) in
      case finding of
        None \<Rightarrow> take n (order_by_id (trows t))
      | Some f \<Rightarrow> take n (filter (\<lambda>r. rget r ''finding_id'' = SInt f) (order_by_id (trows t))))"

section \<open>The folded state\<close>

record triage_entry =
  te_disposition :: sqlval
  te_acknowledged :: bool
  te_suppressed :: bool
  te_count :: nat

definition triage_default :: triage_entry where
  "triage_default = \<lparr>te_disposition = SNull, te_acknowledged = False, te_suppressed = False, te_count = 0\<rparr>"

definition apply_annotation :: "row \<Rightarrow> triage_entry \<Rightarrow> triage_entry" where
  "apply_annotation r e =
     (let e = e\<lparr>te_count := te_count e + 1\<rparr>; action = rget r ''action'' in
      if action = SText ''acknowledge'' then e\<lparr>te_acknowledged := True\<rparr>
      else if action = SText ''disposition'' then e\<lparr>te_disposition := rget r ''disposition''\<rparr>
      else if action = SText ''suppress'' then e\<lparr>te_suppressed := True\<rparr>
      else if action = SText ''unsuppress'' then e\<lparr>te_suppressed := False\<rparr>
      else e)"

text \<open>One loop step; the dict is an association list in insertion order.\<close>

definition triage_step :: "row \<Rightarrow> (int \<times> triage_entry) list \<Rightarrow> (int \<times> triage_entry) list" where
  "triage_step r state =
     (let f = int_col r ''finding_id'';
          e = (case map_of state f of None \<Rightarrow> triage_default | Some e \<Rightarrow> e)
      in AList.update f (apply_annotation r e) state)"

definition read_latest_triage_state :: "table \<Rightarrow> (int \<times> triage_entry) list" where
  "read_latest_triage_state t = fold triage_step (order_by_id (trows t)) []"

section \<open>The same state as SQL subqueries\<close>

definition annotations_of :: "int \<Rightarrow> table \<Rightarrow> row list" where
  "annotations_of f t = filter (\<lambda>r. rget r ''finding_id'' = SInt f) (trows t)"

definition sql_disposition :: "int \<Rightarrow> table \<Rightarrow> sqlval" where
  "sql_disposition f t =
     (case rev (order_by_id (filter (\<lambda>r. rget r ''action'' = SText ''disposition'') (annotations_of f t))) of
        [] \<Rightarrow> SNull | d # _ \<Rightarrow> rget d ''disposition'')"

definition sql_acknowledged :: "int \<Rightarrow> table \<Rightarrow> bool" where
  "sql_acknowledged f t \<longleftrightarrow> (\<exists>r \<in> set (annotations_of f t). rget r ''action'' = SText ''acknowledge'')"

definition sql_analyst_suppressed :: "int \<Rightarrow> table \<Rightarrow> bool" where
  "sql_analyst_suppressed f t =
     (case rev (order_by_id (filter (\<lambda>r. rget r ''action'' \<in> {SText ''suppress'', SText ''unsuppress''})
                (annotations_of f t))) of
        [] \<Rightarrow> False | s # _ \<Rightarrow> rget s ''action'' = SText ''suppress'')"

definition sql_annotation_count :: "int \<Rightarrow> table \<Rightarrow> nat" where
  "sql_annotation_count f t = length (annotations_of f t)"

text \<open>\<open>NULL\<close> or \<open>suppressed = 1\<close> on the finding row is config suppression.\<close>

definition sql_bool :: "bool \<Rightarrow> sqlval" where
  "sql_bool b = SInt (if b then 1 else 0)"

definition enrich_finding :: "table \<Rightarrow> row \<Rightarrow> row" where
  "enrich_finding ann f =
     (let i = int_col f ''id'' in
      f(''triage_disposition'' \<mapsto> sql_disposition i ann,
        ''triage_acknowledged'' \<mapsto> sql_bool (sql_acknowledged i ann),
        ''triage_suppressed'' \<mapsto>
          sql_bool (rget f ''suppressed'' = SInt 1 \<or> sql_analyst_suppressed i ann),
        ''triage_annotation_count'' \<mapsto> SInt (int (sql_annotation_count i ann))))"

section \<open>The findings page\<close>

record finding_filter =
  ff_severity :: "string option"
  ff_entity_type :: "string option"
  ff_disposition :: "string option"
  ff_acknowledged :: "bool option"
  ff_suppressed :: "bool option"
  ff_window_start :: "rat option"
  ff_window_end :: "rat option"

definition no_filter :: finding_filter where
  "no_filter = \<lparr>ff_severity = None, ff_entity_type = None, ff_disposition = None, ff_acknowledged = None,
     ff_suppressed = None, ff_window_start = None, ff_window_end = None\<rparr>"

definition severity_rank :: "row \<Rightarrow> sqlval" where
  "severity_rank r =
     (let s = rget r ''severity'' in
      if s = SText ''CRITICAL'' then SInt 4 else if s = SText ''HIGH'' then SInt 3
      else if s = SText ''MEDIUM'' then SInt 2 else if s = SText ''LOW'' then SInt 1 else SInt 0)"

definition finding_sort_expression :: "string \<Rightarrow> (row \<Rightarrow> sqlval) option" where
  "finding_sort_expression field =
     (if field \<in> set [''id'', ''window_start'', ''window_end'', ''risk_score'', ''entity_type'']
        then Some (\<lambda>r. rget r field)
      else if field = ''severity'' then Some severity_rank else None)"

text \<open>A comparison with NULL is not true, so a row with a NULL column fails the clause.\<close>

definition sql_le :: "sqlval \<Rightarrow> sqlval \<Rightarrow> bool" where
  "sql_le v w \<longleftrightarrow> v \<noteq> SNull \<and> w \<noteq> SNull \<and> sql_key v \<le> sql_key w"

definition filter_clauses :: "finding_filter \<Rightarrow> (row \<Rightarrow> bool) list" where
  "filter_clauses q =
     (case ff_severity q of None \<Rightarrow> [] | Some s \<Rightarrow> [\<lambda>r. rget r ''severity'' = SText s]) @
     (case ff_entity_type q of None \<Rightarrow> [] | Some s \<Rightarrow> [\<lambda>r. rget r ''entity_type'' = SText s]) @
     (case ff_disposition q of None \<Rightarrow> []
      | Some d \<Rightarrow> if d = ''none'' then [\<lambda>r. rget r ''triage_disposition'' = SNull]
                 else [\<lambda>r. rget r ''triage_disposition'' = SText d]) @
     (case ff_acknowledged q of None \<Rightarrow> [] | Some b \<Rightarrow> [\<lambda>r. rget r ''triage_acknowledged'' = sql_bool b]) @
     (case ff_suppressed q of None \<Rightarrow> [] | Some b \<Rightarrow> [\<lambda>r. rget r ''triage_suppressed'' = sql_bool b]) @
     (case ff_window_start q of None \<Rightarrow> [] | Some w \<Rightarrow> [\<lambda>r. sql_le (SReal w) (rget r ''window_start'')]) @
     (case ff_window_end q of None \<Rightarrow> [] | Some w \<Rightarrow> [\<lambda>r. sql_le (rget r ''window_start'') (SReal w)])"

definition matching_findings :: "finding_filter \<Rightarrow> table \<Rightarrow> table \<Rightarrow> row list" where
  "matching_findings q ann findings =
     filter (\<lambda>r. \<forall>p \<in> set (filter_clauses q). p r) (map (enrich_finding ann) (trows findings))"

definition read_detection_findings_page ::
  "int \<Rightarrow> int \<Rightarrow> string \<Rightarrow> string \<Rightarrow> finding_filter \<Rightarrow> table \<Rightarrow> table \<Rightarrow> py_error + (row list \<times> nat)" where
  "read_detection_findings_page limit offset sort_field order q ann findings =
     (let limit = nat (max 1 (min limit 500)); offset = nat (max 0 offset) in
      case finding_sort_expression sort_field of
        None \<Rightarrow> Inl (Value_Error ''unsortable field'')
      | Some expr \<Rightarrow>
          if lower order \<noteq> ''asc'' \<and> lower order \<noteq> ''desc'' then Inl (Value_Error ''invalid sort order'')
          else let rows = matching_findings q ann findings in
            Inr (page limit offset (order_by (\<lambda>r. sql_key (expr r)) (lower order = ''desc'') rows), length rows))"

section \<open>Operational efficacy\<close>

record efficacy =
  ef_total :: int
  ef_reviewed :: nat
  ef_unreviewed :: int
  ef_acknowledged :: nat
  ef_suppressed :: nat
  ef_true_positive :: nat
  ef_false_positive :: nat
  ef_benign :: nat
  ef_precision :: "rat option"
  ef_reviewed_fpr :: "rat option"

definition count_disposition :: "string \<Rightarrow> (int \<times> triage_entry) list \<Rightarrow> nat" where
  "count_disposition d state = length (filter (\<lambda>(_, e). te_disposition e = SText d) state)"

definition compute_operational_efficacy :: "int \<Rightarrow> (int \<times> triage_entry) list \<Rightarrow> efficacy" where
  "compute_operational_efficacy findings state =
     (let tp = count_disposition ''true-positive'' state;
          fp = count_disposition ''false-positive'' state;
          be = count_disposition ''benign'' state;
          reviewed = tp + fp + be;
          fpl = reviewed - tp
      in \<lparr>ef_total = findings, ef_reviewed = reviewed, ef_unreviewed = max 0 (findings - int reviewed),
          ef_acknowledged = length (filter (\<lambda>(_, e). te_acknowledged e) state),
          ef_suppressed = length (filter (\<lambda>(_, e). te_suppressed e) state),
          ef_true_positive = tp, ef_false_positive = fp, ef_benign = be,
          ef_precision = (if reviewed = 0 then None else Some (of_nat tp / of_nat reviewed)),
          ef_reviewed_fpr = (if reviewed = 0 then None else Some (of_nat fpl / of_nat reviewed))\<rparr>)"

definition operational_efficacy_from_store :: "table \<Rightarrow> table \<Rightarrow> py_error + efficacy" where
  "operational_efficacy_from_store ann findings =
     (case read_detection_findings_page 1 0 ''window_start'' ''desc'' no_filter ann findings of
        Inl e \<Rightarrow> Inl e
      | Inr (_, n) \<Rightarrow> Inr (compute_operational_efficacy (int n) (read_latest_triage_state ann)))"

section \<open>The fold computes the subqueries\<close>

lemma order_by_id_filter [simp]: "ids_ok t \<Longrightarrow> order_by_id (filter p (trows t)) = filter p (trows t)"
  using order_by_id_ids_ok [of t] by (simp add: order_by_id_def filter_sort [symmetric])

lemma annotations_filter: "ids_ok t \<Longrightarrow> order_by_id (filter p (annotations_of f t)) = filter p (annotations_of f t)"
  by (simp add: annotations_of_def)

lemma map_of_triage_fold:
  "map_of (fold triage_step rs []) f =
     (if filter (\<lambda>r. int_col r ''finding_id'' = f) rs = [] then None
      else Some (fold apply_annotation (filter (\<lambda>r. int_col r ''finding_id'' = f) rs) triage_default))"
  by (induction rs rule: rev_induct) (auto simp: triage_step_def Let_def update_conv)

lemma fold_count: "te_count (fold apply_annotation rs e) = te_count e + length rs"
  by (induction rs arbitrary: e) (auto simp: apply_annotation_def Let_def)

lemma fold_acknowledged:
  "te_acknowledged (fold apply_annotation rs e) \<longleftrightarrow>
     te_acknowledged e \<or> (\<exists>r \<in> set rs. rget r ''action'' = SText ''acknowledge'')"
  by (induction rs arbitrary: e) (auto simp: apply_annotation_def Let_def)

lemma fold_disposition:
  "te_disposition (fold apply_annotation rs e) =
     (case rev (filter (\<lambda>r. rget r ''action'' = SText ''disposition'') rs) of
        [] \<Rightarrow> te_disposition e | d # _ \<Rightarrow> rget d ''disposition'')"
  by (induction rs rule: rev_induct) (auto simp: apply_annotation_def Let_def)

lemma fold_suppressed:
  "te_suppressed (fold apply_annotation rs e) =
     (case rev (filter (\<lambda>r. rget r ''action'' \<in> {SText ''suppress'', SText ''unsuppress''}) rs) of
        [] \<Rightarrow> te_suppressed e | s # _ \<Rightarrow> rget s ''action'' = SText ''suppress'')"
  by (induction rs rule: rev_induct) (auto simp: apply_annotation_def Let_def)

definition triage_rows_ok :: "table \<Rightarrow> bool" where
  "triage_rows_ok t \<longleftrightarrow> ids_ok t \<and> (\<forall>r \<in> set (trows t). \<exists>f. rget r ''finding_id'' = SInt f)"

lemma annotations_by_key:
  "triage_rows_ok t \<Longrightarrow> filter (\<lambda>r. int_col r ''finding_id'' = f) (trows t) = annotations_of f t"
  by (auto simp: triage_rows_ok_def annotations_of_def int_col_def intro!: filter_cong)

definition sql_entry :: "int \<Rightarrow> table \<Rightarrow> triage_entry" where
  "sql_entry f t = \<lparr>te_disposition = sql_disposition f t, te_acknowledged = sql_acknowledged f t,
     te_suppressed = sql_analyst_suppressed f t, te_count = sql_annotation_count f t\<rparr>"

lemma fold_is_sql_entry:
  assumes "triage_rows_ok t"
  shows "fold apply_annotation (annotations_of f t) triage_default = sql_entry f t"
proof -
  have ids: "ids_ok t" using assms by (simp add: triage_rows_ok_def)
  let ?e = "fold apply_annotation (annotations_of f t) triage_default"
  have "te_disposition ?e = sql_disposition f t" and "te_suppressed ?e = sql_analyst_suppressed f t"
    and "te_acknowledged ?e = sql_acknowledged f t" and "te_count ?e = sql_annotation_count f t"
    by (simp_all add: fold_disposition fold_suppressed fold_acknowledged fold_count triage_default_def
        sql_disposition_def sql_analyst_suppressed_def sql_acknowledged_def sql_annotation_count_def
        annotations_filter [OF ids] cong: list.case_cong)
  then show ?thesis by (simp add: sql_entry_def)
qed

lemma map_of_state:
  assumes "triage_rows_ok t"
  shows "map_of (read_latest_triage_state t) f =
    (if annotations_of f t = [] then None else Some (sql_entry f t))"
proof -
  have "ids_ok t" using assms by (simp add: triage_rows_ok_def)
  then show ?thesis
    by (simp add: read_latest_triage_state_def map_of_triage_fold annotations_by_key [OF assms]
        fold_is_sql_entry [OF assms])
qed

section \<open>The chained log\<close>

lemma write_triage_Inr:
  assumes "write_triage_annotation H fr now f a d n who c t = Inr (r, t')"
  shows "\<exists>d'. t' = snd (append_chained H fr triage_chain_columns
      (triage_row f a d' n who (case c of Some c \<Rightarrow> c | None \<Rightarrow> now)) t)"
  using assms
  by (auto simp: write_triage_annotation_def Let_def split_beta split: if_splits option.splits)

lemma triage_row_unchained [simp]: "rget (triage_row f a d n who c) ''chain_seq'' = SNull"
  by (simp add: triage_row_def rget_def)

lemma rget_triage_row [row_simps]:
  "rget (triage_row f a d n who c) ''finding_id'' = SInt f" "rget (triage_row f a d n who c) ''action'' = SText a"
  "rget (triage_row f a d n who c) ''disposition'' = text_opt d"
  by (simp_all add: triage_row_def rget_def)

datatype triage_call =
  Triage_Call rat int string "string option" "string option" "string option" "rat option"

fun triage_append :: "(string \<Rightarrow> string) \<Rightarrow> (rat \<Rightarrow> string) \<Rightarrow> triage_call \<Rightarrow> table \<Rightarrow> table" where
  "triage_append H fr (Triage_Call now f a d n who c) t =
     (case write_triage_annotation H fr now f a d n who c t of Inl _ \<Rightarrow> t | Inr (_, t') \<Rightarrow> t')"

lemma triage_append_cases:
  obtains "triage_append H fr call t = t"
  | f a d n who c where "triage_append H fr call t =
      snd (append_chained H fr triage_chain_columns (triage_row f a d n who c) t)"
proof (cases call)
  case (Triage_Call now f a d n who c)
  show thesis
  proof (cases "write_triage_annotation H fr now f a d n who c t")
    case (Inl e)
    then show ?thesis using that(1) Triage_Call by simp
  next
    case (Inr p)
    then have "write_triage_annotation H fr now f a d n who c t = Inr (fst p, snd p)" by simp
    from write_triage_Inr [OF this] Inr Triage_Call that(2) show ?thesis by (auto simp: split_beta)
  qed
qed

definition triage_inv :: "(string \<Rightarrow> string) \<Rightarrow> (rat \<Rightarrow> string) \<Rightarrow> table \<Rightarrow> bool" where
  "triage_inv H fr t \<longleftrightarrow> is_digest H \<and> chain_inv H fr triage_chain_columns t \<and> triage_rows_ok t"

lemma rget_set_chain_finding: "rget (set_chain l r) ''finding_id'' = rget r ''finding_id''"
  by (rule rget_set_chain_other) simp_all

lemma triage_inv_append: "triage_inv H fr t \<Longrightarrow> triage_inv H fr (triage_append H fr call t)"
proof (rule triage_append_cases [of H fr call t])
  fix f a d n who c
  let ?r = "triage_row f a d n who c"
  assume inv: "triage_inv H fr t"
    and eq: "triage_append H fr call t = snd (append_chained H fr triage_chain_columns ?r t)"
  have H: "is_digest H" and ch: "chain_inv H fr triage_chain_columns t"
    and rows: "\<forall>r \<in> set (trows t). \<exists>f. rget r ''finding_id'' = SInt f"
    using inv by (simp_all add: triage_inv_def triage_rows_ok_def)
  have ch': "chain_inv H fr triage_chain_columns (triage_append H fr call t)"
    unfolding eq by (rule append_chained_inv [OF H _ ch]) simp_all
  moreover have "\<forall>r \<in> set (trows (triage_append H fr call t)). \<exists>f. rget r ''finding_id'' = SInt f"
    using rows append_chained_rows(3) [OF H _ ch, of ?r]
    by (simp add: eq rget_set_chain_finding rget_triage_row)
  ultimately show "triage_inv H fr (triage_append H fr call t)"
    using H by (simp add: triage_inv_def triage_rows_ok_def chain_inv_def)
qed simp

interpretation triage_log: append_log "triage_inv H fr" trows "triage_append H fr" "verify_triage_chain H fr"
  for H fr
proof
  fix t call
  assume inv: "triage_inv H fr t"
  then show "triage_inv H fr (triage_append H fr call t)" by (rule triage_inv_append)
  have H: "is_digest H" and ch: "chain_inv H fr triage_chain_columns t" using inv by (simp_all add: triage_inv_def)
  show "\<exists>rs. trows (triage_append H fr call t) = trows t @ rs"
  proof (rule triage_append_cases [of H fr call t])
    fix f a d n who c
    assume "triage_append H fr call t = snd (append_chained H fr triage_chain_columns (triage_row f a d n who c) t)"
    then show ?thesis using append_chained_rows(3) [OF H _ ch, of "triage_row f a d n who c"] by simp
  qed simp
  show "ok (verify_triage_chain H fr t) \<and> checked (verify_triage_chain H fr t) = length (trows t)"
    using verify_table_inv [OF ch] by (simp add: verify_triage_chain_def)
qed

lemma triage_inv_empty: "is_digest H \<Longrightarrow> triage_inv H fr empty_table"
  by (simp add: triage_inv_def triage_rows_ok_def chain_inv_empty)

section \<open>Pages and counts\<close>

lemma page_result:
  assumes "finding_sort_expression field = Some expr" and "lower order \<in> {''asc'', ''desc''}"
  shows "read_detection_findings_page limit offset field order q ann findings =
    Inr (page (nat (max 1 (min limit 500))) (nat (max 0 offset))
           (order_by (\<lambda>r. sql_key (expr r)) (lower order = ''desc'') (matching_findings q ann findings)),
         length (matching_findings q ann findings))"
  using assms by (auto simp: read_detection_findings_page_def Let_def)

lemma count_step_keeps:
  assumes "rget r ''action'' \<noteq> SText ''disposition''"
  shows "count_disposition d (triage_step r state) = count_disposition d state"
proof -
  have same: "te_disposition (apply_annotation r e) = te_disposition e" for e
    using assms by (simp add: apply_annotation_def Let_def)
  have "count_disposition d (AList.update f (apply_annotation r
      (case map_of state f of None \<Rightarrow> triage_default | Some e \<Rightarrow> e)) state) = count_disposition d state" for f
    by (induction state) (auto simp: count_disposition_def same triage_default_def)
  then show ?thesis by (simp add: triage_step_def Let_def)
qed

lemma dispositions_bounded:
  "count_disposition ''true-positive'' state + count_disposition ''false-positive'' state +
   count_disposition ''benign'' state \<le> length state"
  by (induction state) (auto simp: count_disposition_def)

definition page_rows :: "py_error + (row list \<times> nat) \<Rightarrow> row list" where
  "page_rows res = (case res of Inl _ \<Rightarrow> [] | Inr (rows, _) \<Rightarrow> rows)"

section \<open>Properties\<close>

text \<open>C2: the Python fold of the annotation log and the SQL subqueries of the findings page compute the
  same effective state for every finding: latest disposition, any acknowledge, latest suppress or
  unsuppress, and the annotation count; a finding without annotations has no entry in the fold.\<close>

theorem triage_state_matches_sql:
  assumes "triage_rows_ok t"
  shows "map_of (read_latest_triage_state t) f =
    (if annotations_of f t = [] then None
     else Some \<lparr>te_disposition = sql_disposition f t, te_acknowledged = sql_acknowledged f t,
       te_suppressed = sql_analyst_suppressed f t, te_count = sql_annotation_count f t\<rparr>)"
  using map_of_state [OF assms, of f] by (simp add: sql_entry_def)

definition demo_triage :: table where
  "demo_triage = fold (triage_append demo_hash demo_repr)
     [Triage_Call 0 7 ''suppress'' None None None None,
      Triage_Call 0 7 ''disposition'' (Some ''benign'') None None None,
      Triage_Call 0 9 ''acknowledge'' None None None None] empty_table"

theorem triage_state_matches_sql_witness:
  "map_of (read_latest_triage_state demo_triage) 7 =
    (if annotations_of 7 demo_triage = [] then None
     else Some \<lparr>te_disposition = sql_disposition 7 demo_triage, te_acknowledged = sql_acknowledged 7 demo_triage,
       te_suppressed = sql_analyst_suppressed 7 demo_triage, te_count = sql_annotation_count 7 demo_triage\<rparr>)"
proof (rule triage_state_matches_sql)
  show "triage_rows_ok demo_triage"
    using triage_log.inv_run [OF triage_inv_empty [OF is_digest_demo]]
    unfolding demo_triage_def triage_inv_def by blast
qed

text \<open>A finding passes the page's \<open>suppressed\<close> filter exactly when its own row is config-suppressed or
  the folded triage state says an analyst suppressed it and has not lifted it.\<close>

theorem suppressed_filter_is_effective:
  assumes "triage_rows_ok ann"
  shows "matching_findings (no_filter\<lparr>ff_suppressed := Some True\<rparr>) ann findings =
    map (enrich_finding ann) (filter (\<lambda>f. rget f ''suppressed'' = SInt 1 \<or>
      (case map_of (read_latest_triage_state ann) (int_col f ''id'') of None \<Rightarrow> False | Some e \<Rightarrow> te_suppressed e))
      (trows findings))"
proof -
  have none: "sql_analyst_suppressed f ann = False" if "annotations_of f ann = []" for f
    using that by (simp add: sql_analyst_suppressed_def order_by_id_def)
  have "(rget (enrich_finding ann f) ''triage_suppressed'' = sql_bool True) \<longleftrightarrow>
      rget f ''suppressed'' = SInt 1 \<or> sql_analyst_suppressed (int_col f ''id'') ann" for f
    by (simp add: enrich_finding_def Let_def sql_bool_def)
  moreover have "(case map_of (read_latest_triage_state ann) f of None \<Rightarrow> False | Some e \<Rightarrow> te_suppressed e)
      = sql_analyst_suppressed f ann" for f
    by (simp add: map_of_state [OF assms] sql_entry_def none)
  ultimately show ?thesis
    by (simp add: matching_findings_def filter_clauses_def no_filter_def filter_map comp_def)
qed

theorem suppressed_filter_is_effective_witness:
  "matching_findings (no_filter\<lparr>ff_suppressed := Some True\<rparr>) demo_triage
      (insert_all [[''suppressed'' \<mapsto> SInt 0], [''suppressed'' \<mapsto> SInt 1]] empty_table) =
    map (enrich_finding demo_triage) (filter (\<lambda>f. rget f ''suppressed'' = SInt 1 \<or>
      (case map_of (read_latest_triage_state demo_triage) (int_col f ''id'') of None \<Rightarrow> False | Some e \<Rightarrow> te_suppressed e))
      (trows (insert_all [[''suppressed'' \<mapsto> SInt 0], [''suppressed'' \<mapsto> SInt 1]] empty_table)))"
proof (rule suppressed_filter_is_effective)
  show "triage_rows_ok demo_triage"
    using triage_log.inv_run [OF triage_inv_empty [OF is_digest_demo]]
    unfolding demo_triage_def triage_inv_def by blast
qed

text \<open>Reading the findings page after page, with any page size the reader accepts, gives every
  matching finding exactly once in the requested order, and the reported total is their number.\<close>

theorem findings_pages_tile:
  assumes "finding_sort_expression field = Some expr" and "lower order \<in> {''asc'', ''desc''}"
    and "1 \<le> n" and "n \<le> 500" and "length (matching_findings q ann findings) \<le> k * n"
  shows "concat (map (\<lambda>i. page_rows (read_detection_findings_page (int n) (int (i * n)) field order q ann findings)) [0..<k])
    = order_by (\<lambda>r. sql_key (expr r)) (lower order = ''desc'') (matching_findings q ann findings)"
proof -
  have "nat (max 1 (min (int n) 500)) = n" using assms(3,4) by simp
  then show ?thesis
    using assms(5) pages_tile [of n "order_by (\<lambda>r. sql_key (expr r)) (lower order = ''desc'') (matching_findings q ann findings)" k]
    by (simp add: page_result [OF assms(1,2)] page_rows_def del: of_nat_mult)
qed

theorem findings_pages_tile_witness:
  "concat (map (\<lambda>i. page_rows (read_detection_findings_page (int 1) (int (i * 1)) ''severity'' ''ASC'' no_filter
      demo_triage (insert_all [[''severity'' \<mapsto> SText ''LOW''], [''severity'' \<mapsto> SText ''HIGH'']] empty_table))) [0..<2])
   = order_by (\<lambda>r. sql_key (severity_rank r)) (lower ''ASC'' = ''desc'')
       (matching_findings no_filter demo_triage
         (insert_all [[''severity'' \<mapsto> SText ''LOW''], [''severity'' \<mapsto> SText ''HIGH'']] empty_table))"
proof (rule findings_pages_tile)
  show "length (matching_findings no_filter demo_triage
      (insert_all [[''severity'' \<mapsto> SText ''LOW''], [''severity'' \<mapsto> SText ''HIGH'']] empty_table)) \<le> 2 * 1"
    by (simp add: matching_findings_def filter_clauses_def no_filter_def insert_all_def)
  show "lower ''ASC'' \<in> {''asc'', ''desc''}" by code_simp
qed (simp_all add: finding_sort_expression_def)

text \<open>The operational measurement is well defined and honest about its scope: the three disposition
  counts add up to the reviewed number, which never exceeds the annotated findings; precision and the
  reviewed false-positive rate exist exactly when something was reviewed, lie in [0, 1] and add up to 1.\<close>

theorem efficacy_rates:
  shows "ef_reviewed (compute_operational_efficacy n state) \<le> length state \<and>
    0 \<le> ef_unreviewed (compute_operational_efficacy n state) \<and>
    (case (ef_precision (compute_operational_efficacy n state), ef_reviewed_fpr (compute_operational_efficacy n state)) of
       (Some p, Some q) \<Rightarrow> ef_reviewed (compute_operational_efficacy n state) \<noteq> 0 \<and> 0 \<le> p \<and> p \<le> 1 \<and> p + q = 1
     | (None, None) \<Rightarrow> ef_reviewed (compute_operational_efficacy n state) = 0
     | _ \<Rightarrow> False)"
proof -
  let ?tp = "count_disposition ''true-positive'' state"
  define r where "r = ?tp + count_disposition ''false-positive'' state + count_disposition ''benign'' state"
  have "?tp \<le> r" by (simp add: r_def)
  then have "0 \<le> (of_nat ?tp :: rat) / of_nat r \<and> (of_nat ?tp :: rat) / of_nat r \<le> 1
      \<and> (of_nat ?tp :: rat) / of_nat r + of_nat (r - ?tp) / of_nat r = 1" if "r \<noteq> 0"
    using that by (simp add: add_divide_distrib [symmetric] of_nat_diff divide_simps)
  moreover have "r \<le> length state" using dispositions_bounded [of state] by (simp add: r_def)
  ultimately show ?thesis
    unfolding compute_operational_efficacy_def Let_def r_def [symmetric] by (simp del: of_nat_diff)
qed

text \<open>Only a disposition moves the measurement: a log grown by annotations of any other kind has the
  same counts, precision and reviewed false-positive rate.\<close>

theorem only_dispositions_move_precision:
  assumes "ids_ok t" and "ids_ok u" and "trows u = trows t @ rs"
    and "\<forall>r \<in> set rs. rget r ''action'' \<noteq> SText ''disposition''"
  shows "ef_precision (compute_operational_efficacy n (read_latest_triage_state u)) =
      ef_precision (compute_operational_efficacy n (read_latest_triage_state t)) \<and>
    ef_reviewed_fpr (compute_operational_efficacy n (read_latest_triage_state u)) =
      ef_reviewed_fpr (compute_operational_efficacy n (read_latest_triage_state t))"
proof -
  have "count_disposition d (fold triage_step rs state) = count_disposition d state" for d state
    using assms(4) by (induction rs arbitrary: state) (simp_all add: count_step_keeps)
  moreover have "read_latest_triage_state u = fold triage_step rs (read_latest_triage_state t)"
    using order_by_id_ids_ok [OF assms(1)] order_by_id_ids_ok [OF assms(2)]
    by (simp add: read_latest_triage_state_def assms(3))
  ultimately show ?thesis
    by (simp add: compute_operational_efficacy_def Let_def)
qed

theorem only_dispositions_move_precision_witness:
  "ef_precision (compute_operational_efficacy 2 (read_latest_triage_state
      (insert_all [triage_row 7 ''acknowledge'' None None None 0] empty_table))) =
    ef_precision (compute_operational_efficacy 2 (read_latest_triage_state empty_table)) \<and>
   ef_reviewed_fpr (compute_operational_efficacy 2 (read_latest_triage_state
      (insert_all [triage_row 7 ''acknowledge'' None None None 0] empty_table))) =
    ef_reviewed_fpr (compute_operational_efficacy 2 (read_latest_triage_state empty_table))"
proof (rule only_dispositions_move_precision)
  show "trows (insert_all [triage_row 7 ''acknowledge'' None None None 0] empty_table) =
      trows empty_table @ number_rows (next_id empty_table) [triage_row 7 ''acknowledge'' None None None 0]"
    using insert_all_rows [of "[triage_row 7 ''acknowledge'' None None None 0]" empty_table] by blast
qed (simp_all add: ids_ok_insert_all rget_triage_row)

end
