(* ===== verification/Evidence_Tables.thy ===== *)
theory Evidence_Tables
  imports Chain_Tamper
begin

text \<open>
  The two evidence tables of \<^verbatim>\<open>storage/sqlite_store.py\<close>: \<open>detection_findings\<close> (deduplicated by
  provenance hash, scores checked) and \<open>policy_decisions\<close> (plain append), with their readers. Both
  writers end in \<open>_extend_chain\<close> and are instances of the \<open>append_log\<close> contract.
\<close>

section \<open>Detection findings\<close>

text \<open>
  The fields the writer reads from the finding dict. \<open>fi_evidence\<close> is the text
  \<open>json.dumps(finding["evidence"], sort_keys=True)\<close>; scores are the values after \<open>float(...)\<close>.
\<close>

record finding_in =
  fi_source_risk_id :: "int option"
  fi_window_start :: rat
  fi_window_end :: rat
  fi_entity_type :: string
  fi_entity_key :: string
  fi_risk_score :: rat
  fi_severity :: string
  fi_behavior_score :: rat
  fi_rule_score :: rat
  fi_context_score :: rat
  fi_evidence :: string
  fi_explanation :: string
  fi_mode :: string
  fi_provenance_hash :: "string option"
  fi_detector_version :: "string option"
  fi_correlation_id :: "string option"
  fi_suppressed :: bool
  fi_suppression_reason :: "string option"
  fi_created_at :: "rat option"

definition int_opt :: "int option \<Rightarrow> sqlval" where
  "int_opt x = (case x of None \<Rightarrow> SNull | Some i \<Rightarrow> SInt i)"

definition real_opt :: "rat option \<Rightarrow> sqlval" where
  "real_opt x = (case x of None \<Rightarrow> SNull | Some q \<Rightarrow> SReal q)"

definition finding_row :: "finding_in \<Rightarrow> row" where
  "finding_row f =
     [''source_risk_id'' \<mapsto> int_opt (fi_source_risk_id f),
      ''window_start'' \<mapsto> SReal (fi_window_start f), ''window_end'' \<mapsto> SReal (fi_window_end f),
      ''entity_type'' \<mapsto> SText (fi_entity_type f), ''entity_key'' \<mapsto> SText (fi_entity_key f),
      ''risk_score'' \<mapsto> SReal (fi_risk_score f), ''severity'' \<mapsto> SText (fi_severity f),
      ''behavior_score'' \<mapsto> SReal (fi_behavior_score f), ''rule_score'' \<mapsto> SReal (fi_rule_score f),
      ''context_score'' \<mapsto> SReal (fi_context_score f), ''evidence_json'' \<mapsto> SText (fi_evidence f),
      ''explanation'' \<mapsto> SText (fi_explanation f), ''mode'' \<mapsto> SText (fi_mode f),
      ''provenance_hash'' \<mapsto> text_opt (fi_provenance_hash f),
      ''detector_version'' \<mapsto> text_opt (fi_detector_version f),
      ''correlation_id'' \<mapsto> text_opt (fi_correlation_id f),
      ''suppressed'' \<mapsto> SInt (if fi_suppressed f then 1 else 0),
      ''suppression_reason'' \<mapsto> text_opt (fi_suppression_reason f),
      ''created_at'' \<mapsto> real_opt (fi_created_at f)]"

definition score_ok :: "rat \<Rightarrow> bool" where
  "score_ok q \<longleftrightarrow> 0 \<le> q \<and> q \<le> 1"

text \<open>
  \<open>idx_detection_findings_provenance\<close> is UNIQUE over non-NULL hashes (migration 5): an insert that
  would repeat one raises \<open>sqlite3.IntegrityError\<close>. The lookup skips falsy hashes, the index does not.
\<close>

definition provenance_taken :: "string option \<Rightarrow> table \<Rightarrow> bool" where
  "provenance_taken p t \<longleftrightarrow>
     (case p of None \<Rightarrow> False | Some h \<Rightarrow> \<exists>r \<in> set (trows t). rget r ''provenance_hash'' = SText h)"

definition existing_finding :: "string option \<Rightarrow> table \<Rightarrow> row option" where
  "existing_finding p t =
     (case p of None \<Rightarrow> None
      | Some h \<Rightarrow> if h = [] then None else find (\<lambda>r. rget r ''provenance_hash'' = SText h) (trows t))"

definition write_detection_finding ::
  "(string \<Rightarrow> string) \<Rightarrow> (rat \<Rightarrow> string) \<Rightarrow> finding_in \<Rightarrow> table \<Rightarrow> py_error + (int \<times> table)" where
  "write_detection_finding H fr f t =
     (if \<not> (score_ok (fi_risk_score f) \<and> score_ok (fi_behavior_score f) \<and> score_ok (fi_rule_score f)
           \<and> score_ok (fi_context_score f))
      then Inl (Value_Error ''detection scores must be between 0 and 1'')
      else case existing_finding (fi_provenance_hash f) t of
        Some r \<Rightarrow> Inr (int_col r ''id'', t)
      | None \<Rightarrow>
          if provenance_taken (fi_provenance_hash f) t then Inl (Integrity_Error ''provenance_hash'')
          else Inr (append_chained H fr finding_chain_columns (finding_row f) t))"

definition verify_findings_chain :: "(string \<Rightarrow> string) \<Rightarrow> (rat \<Rightarrow> string) \<Rightarrow> table \<Rightarrow> verdict" where
  "verify_findings_chain H fr t = verify_table H fr finding_chain_columns t"

definition read_detection_findings :: "int option \<Rightarrow> int \<Rightarrow> table \<Rightarrow> row list" where
  "read_detection_findings limit offset t =
     (let rows = order_by (\<lambda>r. sql_key (rget r ''window_start'')) False (trows t); skip = nat (max 0 offset) in
      case limit of
        Some n \<Rightarrow> take (nat (max 1 n)) (drop skip rows)
      | None \<Rightarrow> if offset = 0 then rows else drop skip rows)"

definition count_detection_findings :: "table \<Rightarrow> nat" where
  "count_detection_findings t = length (trows t)"

text \<open>\<open>GROUP BY severity\<close> with \<open>COUNT\<close>: one entry per distinct stored value.\<close>

definition count_findings_by_severity :: "table \<Rightarrow> (sqlval \<times> nat) list" where
  "count_findings_by_severity t =
     (let sevs = map (\<lambda>r. rget r ''severity'') (trows t)
      in map (\<lambda>s. (s, length (filter (\<lambda>x. x = s) sevs))) (remdups sevs))"

definition read_detection_finding :: "int \<Rightarrow> table \<Rightarrow> row option" where
  "read_detection_finding i t = find_row i t"

section \<open>Policy decisions\<close>

record decision_in =
  pd_finding_id :: "int option"
  pd_policy_id :: string
  pd_decision :: string
  pd_reason :: string
  pd_risk_score :: rat
  pd_severity :: string
  pd_required_approval :: bool
  pd_proposed_action :: string
  pd_limitations :: string
  pd_timestamp :: rat
  pd_dry_run :: bool
  pd_advisory_rejection :: "string option"

definition decision_row :: "decision_in \<Rightarrow> row" where
  "decision_row d =
     [''finding_id'' \<mapsto> int_opt (pd_finding_id d), ''policy_id'' \<mapsto> SText (pd_policy_id d),
      ''decision'' \<mapsto> SText (pd_decision d), ''reason'' \<mapsto> SText (pd_reason d),
      ''risk_score'' \<mapsto> SReal (pd_risk_score d), ''severity'' \<mapsto> SText (pd_severity d),
      ''required_approval'' \<mapsto> SInt (if pd_required_approval d then 1 else 0),
      ''proposed_action'' \<mapsto> SText (pd_proposed_action d),
      ''limitations_json'' \<mapsto> SText (pd_limitations d), ''timestamp'' \<mapsto> SReal (pd_timestamp d),
      ''dry_run'' \<mapsto> SInt (if pd_dry_run d then 1 else 0),
      ''advisory_rejection'' \<mapsto> text_opt (pd_advisory_rejection d)]"

definition write_policy_decision ::
  "(string \<Rightarrow> string) \<Rightarrow> (rat \<Rightarrow> string) \<Rightarrow> decision_in \<Rightarrow> table \<Rightarrow> int \<times> table" where
  "write_policy_decision H fr d t = append_chained H fr policy_chain_columns (decision_row d) t"

definition verify_policy_chain :: "(string \<Rightarrow> string) \<Rightarrow> (rat \<Rightarrow> string) \<Rightarrow> table \<Rightarrow> verdict" where
  "verify_policy_chain H fr t = verify_table H fr policy_chain_columns t"

definition read_policy_decisions :: "table \<Rightarrow> row list" where
  "read_policy_decisions t = order_by (\<lambda>r. sql_key (rget r ''timestamp'')) False (trows t)"

definition read_policy_decisions_page :: "int \<Rightarrow> int \<Rightarrow> int option \<Rightarrow> table \<Rightarrow> row list \<times> nat" where
  "read_policy_decisions_page limit offset finding t =
     (let limit = nat (max 1 (min limit 500)); offset = nat (max 0 offset);
          rows = (case finding of None \<Rightarrow> trows t
                  | Some f \<Rightarrow> filter (\<lambda>r. rget r ''finding_id'' = SInt f) (trows t))
      in (page limit offset (order_by (\<lambda>r. sql_key (rget r ''timestamp'')) False rows), length rows))"

section \<open>The findings table invariant\<close>

lemma rget_finding_row [row_simps]:
  "rget (finding_row f) ''chain_seq'' = SNull"
  "rget (finding_row f) ''provenance_hash'' = text_opt (fi_provenance_hash f)"
  "rget (finding_row f) ''risk_score'' = SReal (fi_risk_score f)"
  "rget (finding_row f) ''severity'' = SText (fi_severity f)"
  by (simp_all add: finding_row_def rget_def)

lemma rget_decision_row [row_simps]: "rget (decision_row d) ''chain_seq'' = SNull"
  by (simp add: decision_row_def rget_def)

definition provenances :: "row list \<Rightarrow> string list" where
  "provenances rs = concat (map (\<lambda>r. case rget r ''provenance_hash'' of SText h \<Rightarrow> [h] | _ \<Rightarrow> []) rs)"

definition scores_in_range :: "row \<Rightarrow> bool" where
  "scores_in_range r \<longleftrightarrow> (\<exists>q. rget r ''risk_score'' = SReal q \<and> score_ok q)"

definition findings_inv :: "(string \<Rightarrow> string) \<Rightarrow> (rat \<Rightarrow> string) \<Rightarrow> table \<Rightarrow> bool" where
  "findings_inv H fr t \<longleftrightarrow> is_digest H \<and> chain_inv H fr finding_chain_columns t \<and>
     distinct (provenances (trows t)) \<and> (\<forall>r \<in> set (trows t). scores_in_range r)"

lemma in_provenances: "h \<in> set (provenances rs) \<longleftrightarrow> (\<exists>r \<in> set rs. rget r ''provenance_hash'' = SText h)"
  by (force simp: provenances_def split: sqlval.splits)

lemma provenances_snoc:
  "provenances (rs @ [r]) = provenances rs @ (case rget r ''provenance_hash'' of SText h \<Rightarrow> [h] | _ \<Rightarrow> [])"
  by (simp add: provenances_def)

lemma text_opt_SText [simp]: "text_opt p = SText h \<longleftrightarrow> p = Some h"
  by (cases p) (auto simp: text_opt_def)

lemma existing_Some:
  assumes "existing_finding p t = Some r"
  shows "\<exists>h. p = Some h \<and> h \<noteq> [] \<and> r \<in> set (trows t) \<and> rget r ''provenance_hash'' = SText h"
  using assms by (cases p) (auto simp: existing_finding_def find_Some_iff split: if_splits intro: nth_mem)

lemma write_finding_cases:
  obtains (rejected) e where "write_detection_finding H fr f t = Inl e"
  | (known) r where "write_detection_finding H fr f t = Inr (int_col r ''id'', t)"
      "existing_finding (fi_provenance_hash f) t = Some r"
  | (fresh) "write_detection_finding H fr f t = Inr (append_chained H fr finding_chain_columns (finding_row f) t)"
      "\<not> provenance_taken (fi_provenance_hash f) t" "score_ok (fi_risk_score f)"
  unfolding write_detection_finding_def by (fastforce split: if_splits option.splits)

definition finding_append :: "(string \<Rightarrow> string) \<Rightarrow> (rat \<Rightarrow> string) \<Rightarrow> finding_in \<Rightarrow> table \<Rightarrow> table" where
  "finding_append H fr f t = (case write_detection_finding H fr f t of Inl _ \<Rightarrow> t | Inr (_, t') \<Rightarrow> t')"

lemma set_chain_provenance:
  "rget (set_chain l (r(''id'' \<mapsto> v))) ''provenance_hash'' = rget r ''provenance_hash''"
  "rget (set_chain l (r(''id'' \<mapsto> v))) ''risk_score'' = rget r ''risk_score''"
  "rget (set_chain l (r(''id'' \<mapsto> v))) ''severity'' = rget r ''severity''"
  by (simp_all add: rget_set_chain_other)

lemma text_opt_case: "(case text_opt p of SText h \<Rightarrow> [h] | _ \<Rightarrow> []) = (case p of None \<Rightarrow> [] | Some h \<Rightarrow> [h])"
  by (cases p) (simp_all add: text_opt_def)

lemma fresh_finding:
  assumes "findings_inv H fr t"
  shows "\<exists>r. trows (snd (append_chained H fr finding_chain_columns (finding_row f) t)) = trows t @ [r] \<and>
    rget r ''provenance_hash'' = text_opt (fi_provenance_hash f) \<and> rget r ''risk_score'' = SReal (fi_risk_score f) \<and>
    rget r ''severity'' = SText (fi_severity f)"
proof -
  have "is_digest H" "chain_inv H fr finding_chain_columns t" using assms by (simp_all add: findings_inv_def)
  from append_chained_rows(3) [OF this(1) _ this(2), of "finding_row f"] show ?thesis
    by (simp add: rget_finding_row set_chain_provenance)
qed

lemma findings_inv_append: "findings_inv H fr t \<Longrightarrow> findings_inv H fr (finding_append H fr f t)"
proof (cases rule: write_finding_cases [of H fr f t])
  case fresh
  assume inv: "findings_inv H fr t"
  let ?t = "snd (append_chained H fr finding_chain_columns (finding_row f) t)"
  have eq: "finding_append H fr f t = ?t" using fresh(1) by (simp add: finding_append_def split_beta)
  have H: "is_digest H" and ch: "chain_inv H fr finding_chain_columns t"
    and d: "distinct (provenances (trows t))" and sc: "\<forall>r \<in> set (trows t). scores_in_range r"
    using inv by (simp_all add: findings_inv_def)
  obtain r where r: "trows ?t = trows t @ [r]" "rget r ''provenance_hash'' = text_opt (fi_provenance_hash f)"
    "rget r ''risk_score'' = SReal (fi_risk_score f)"
    using fresh_finding [OF inv] by blast
  have "distinct (provenances (trows ?t))"
    using d fresh(2)
    by (auto simp: r provenances_snoc text_opt_case provenance_taken_def in_provenances split: option.splits)
  moreover have "\<forall>r \<in> set (trows ?t). scores_in_range r"
    using sc fresh(3) r(3) by (auto simp: r(1) scores_in_range_def)
  moreover have "chain_inv H fr finding_chain_columns ?t"
    by (rule append_chained_inv [OF H _ ch]) (simp_all add: rget_finding_row)
  ultimately show ?thesis unfolding eq using H by (simp add: findings_inv_def)
qed (simp_all add: finding_append_def)

interpretation finding_log: append_log "findings_inv H fr" trows "finding_append H fr" "verify_findings_chain H fr"
  for H fr
proof
  fix t f
  assume inv: "findings_inv H fr t"
  then show "findings_inv H fr (finding_append H fr f t)" by (rule findings_inv_append)
  show "\<exists>rs. trows (finding_append H fr f t) = trows t @ rs"
  proof (cases rule: write_finding_cases [of H fr f t])
    case fresh
    then show ?thesis using fresh_finding [OF inv, of f] by (auto simp: finding_append_def split_beta)
  qed (simp_all add: finding_append_def)
  show "ok (verify_findings_chain H fr t) \<and> checked (verify_findings_chain H fr t) = length (trows t)"
    using inv verify_table_inv by (simp add: findings_inv_def verify_findings_chain_def)
qed

lemma findings_inv_empty: "is_digest H \<Longrightarrow> findings_inv H fr empty_table"
  by (simp add: findings_inv_def chain_inv_empty provenances_def)

section \<open>The policy log\<close>

definition policy_inv :: "(string \<Rightarrow> string) \<Rightarrow> (rat \<Rightarrow> string) \<Rightarrow> table \<Rightarrow> bool" where
  "policy_inv H fr t \<longleftrightarrow> is_digest H \<and> chain_inv H fr policy_chain_columns t"

interpretation policy_log: append_log "policy_inv H fr" trows "\<lambda>d t. snd (write_policy_decision H fr d t)"
  "verify_policy_chain H fr" for H fr
proof
  fix t d
  assume inv: "policy_inv H fr t"
  then have H: "is_digest H" and ch: "chain_inv H fr policy_chain_columns t" by (simp_all add: policy_inv_def)
  have null: "rget (decision_row d) ''chain_seq'' = SNull" by (rule rget_decision_row)
  show "policy_inv H fr (snd (write_policy_decision H fr d t))"
    using append_chained_inv [OF H covers_columns(2) ch null] H by (simp add: policy_inv_def write_policy_decision_def)
  show "\<exists>rs. trows (snd (write_policy_decision H fr d t)) = trows t @ rs"
    using append_chained_rows(3) [OF H covers_columns(2) ch null] by (simp add: write_policy_decision_def)
  show "ok (verify_policy_chain H fr t) \<and> checked (verify_policy_chain H fr t) = length (trows t)"
    using verify_table_inv [OF ch] by (simp add: verify_policy_chain_def)
qed

lemma policy_inv_empty: "is_digest H \<Longrightarrow> policy_inv H fr empty_table"
  by (simp add: policy_inv_def chain_inv_empty)

section \<open>Counts\<close>

lemma sum_counts: "sum_list (map (\<lambda>s. length (filter (\<lambda>x. x = s) xs)) (remdups xs)) = length xs"
proof -
  have "sum_list (map (\<lambda>s. length (filter (\<lambda>x. x = s) xs)) (remdups xs)) = (\<Sum>s \<in> set xs. count_list xs s)"
    by (simp add: sum_list_distinct_conv_sum_set count_list_eq_length_filter eq_commute)
  also have "\<dots> = length xs" by (rule sum_count_set) simp_all
  finally show ?thesis .
qed

lemma fresh_id:
  assumes "findings_inv H fr t"
  shows "fst (append_chained H fr finding_chain_columns (finding_row f) t) = next_id t"
    and "\<exists>r. trows (snd (append_chained H fr finding_chain_columns (finding_row f) t)) = trows t @ [r] \<and>
      rget r ''id'' = SInt (next_id t) \<and> rget r ''provenance_hash'' = text_opt (fi_provenance_hash f)"
proof -
  have "is_digest H" "chain_inv H fr finding_chain_columns t" using assms by (simp_all add: findings_inv_def)
  note app = append_chained_rows [OF this(1) covers_columns(1) this(2) rget_finding_row(1), of f]
  show "fst (append_chained H fr finding_chain_columns (finding_row f) t) = next_id t" by (rule app(1))
  show "\<exists>r. trows (snd (append_chained H fr finding_chain_columns (finding_row f) t)) = trows t @ [r] \<and>
      rget r ''id'' = SInt (next_id t) \<and> rget r ''provenance_hash'' = text_opt (fi_provenance_hash f)"
    using app(3) by (simp add: set_chain_provenance rget_finding_row)
qed

lemma find_existing_none: "\<not> provenance_taken (Some h) t \<Longrightarrow> find (\<lambda>r. rget r ''provenance_hash'' = SText h) (trows t) = None"
  by (auto simp: provenance_taken_def find_None_iff)

lemma written_finding_known:
  assumes "findings_inv H fr t" and "fi_provenance_hash f = Some h" and "h \<noteq> []"
    and "write_detection_finding H fr f t = Inr (i, t')"
  shows "\<exists>r. existing_finding (Some h) t' = Some r \<and> int_col r ''id'' = i"
proof (cases rule: write_finding_cases [of H fr f t])
  case rejected
  with assms(4) show ?thesis by simp
next
  case known
  with assms(2,4) show ?thesis by simp
next
  case fresh
  then have t': "t' = snd (append_chained H fr finding_chain_columns (finding_row f) t)" and i: "i = next_id t"
    using assms(4) fresh_id(1) [OF assms(1), of f] by (auto simp: prod_eq_iff)
  obtain r where r: "trows t' = trows t @ [r]" "rget r ''id'' = SInt (next_id t)"
    "rget r ''provenance_hash'' = text_opt (fi_provenance_hash f)"
    using fresh_id(2) [OF assms(1), of f] unfolding t' by blast
  have "existing_finding (fi_provenance_hash f) t' = Some r"
    using fresh(2) find_existing_none [of h t] assms(2,3) r(3)
    by (simp add: existing_finding_def r(1) find_append)
  then show ?thesis using assms(2) r(2) i by (simp add: int_col_def)
qed

section \<open>Properties\<close>

text \<open>Writing a finding again is a no-op that returns the same id: for a finding with a provenance
  hash, a successful write followed by the same write leaves the table, and so its chain, as it is.\<close>

theorem finding_write_idempotent:
  assumes "findings_inv H fr t" and "fi_provenance_hash f = Some h" and "h \<noteq> []"
    and "write_detection_finding H fr f t = Inr (i, t')"
  shows "write_detection_finding H fr f t' = Inr (i, t')"
proof -
  obtain r where "existing_finding (Some h) t' = Some r" "int_col r ''id'' = i"
    using written_finding_known [OF assms] by blast
  moreover have "score_ok (fi_risk_score f) \<and> score_ok (fi_behavior_score f) \<and> score_ok (fi_rule_score f)
      \<and> score_ok (fi_context_score f)"
    using assms(4) by (auto simp: write_detection_finding_def split: if_splits)
  ultimately show ?thesis using assms(2) by (simp add: write_detection_finding_def)
qed

definition demo_finding :: finding_in where
  "demo_finding = \<lparr>fi_source_risk_id = None, fi_window_start = 0, fi_window_end = 60, fi_entity_type = ''user'',
     fi_entity_key = ''0'', fi_risk_score = 1/2, fi_severity = ''MEDIUM'', fi_behavior_score = 0, fi_rule_score = 1,
     fi_context_score = 0, fi_evidence = ''[]'', fi_explanation = ''x'', fi_mode = ''rules'',
     fi_provenance_hash = Some ''abc'', fi_detector_version = None, fi_correlation_id = None,
     fi_suppressed = False, fi_suppression_reason = None, fi_created_at = None\<rparr>"

lemma write_demo_finding:
  "write_detection_finding demo_hash demo_repr demo_finding empty_table =
    Inr (append_chained demo_hash demo_repr finding_chain_columns (finding_row demo_finding) empty_table)"
  by (simp add: write_detection_finding_def demo_finding_def existing_finding_def provenance_taken_def score_ok_def)

theorem finding_write_idempotent_witness:
  "let a = append_chained demo_hash demo_repr finding_chain_columns (finding_row demo_finding) empty_table in
   write_detection_finding demo_hash demo_repr demo_finding (snd a) = Inr (fst a, snd a)"
  unfolding Let_def
proof (rule finding_write_idempotent)
  show "findings_inv demo_hash demo_repr empty_table" by (rule findings_inv_empty) simp
  show "fi_provenance_hash demo_finding = Some ''abc''" by (simp add: demo_finding_def)
qed (simp_all add: write_demo_finding)

text \<open>Whatever findings are written, in whatever order, the table never holds two findings with
  one provenance hash and never a risk score outside [0, 1], and its chain verifies in full.\<close>

theorem findings_table_sound:
  assumes "is_digest H"
  shows "let t = fold (finding_append H fr) fs empty_table in
    distinct (provenances (trows t)) \<and> (\<forall>r \<in> set (trows t). scores_in_range r) \<and>
    verify_findings_chain H fr t = \<lparr>ok = True, checked = length (trows t), break_seq = SNull, reason = None\<rparr>"
proof -
  have "findings_inv H fr (fold (finding_append H fr) fs empty_table)"
    by (rule finding_log.inv_run [OF findings_inv_empty [OF assms]])
  then show ?thesis
    using verify_table_inv by (simp add: Let_def findings_inv_def verify_findings_chain_def)
qed

theorem findings_table_sound_witness:
  "let t = fold (finding_append demo_hash demo_repr) [demo_finding, demo_finding] empty_table in
    distinct (provenances (trows t)) \<and> (\<forall>r \<in> set (trows t). scores_in_range r) \<and>
    verify_findings_chain demo_hash demo_repr t =
      \<lparr>ok = True, checked = length (trows t), break_seq = SNull, reason = None\<rparr>"
  by (rule findings_table_sound) simp

text \<open>The severity summary is an exact partition: the counts over the distinct severities add up to
  the number of findings, so no second query for the total is needed.\<close>

theorem severity_counts_partition:
  shows "sum_list (map snd (count_findings_by_severity t)) = count_detection_findings t"
  using sum_counts [of "map (\<lambda>r. rget r ''severity'') (trows t)"]
  by (simp add: count_findings_by_severity_def count_detection_findings_def Let_def comp_def)

lemma decisions_not_chain_order:
  "read_policy_decisions (insert_all [[''timestamp'' \<mapsto> SReal 2], [''timestamp'' \<mapsto> SReal 1]] empty_table)
   = rev (trows (insert_all [[''timestamp'' \<mapsto> SReal 2], [''timestamp'' \<mapsto> SReal 1]] empty_table))"
proof -
  have ids: "ids_ok (insert_all [[''timestamp'' \<mapsto> SReal 2], [''timestamp'' \<mapsto> SReal 1]] empty_table)"
    by (simp add: ids_ok_insert_all)
  show ?thesis
    unfolding read_policy_decisions_def order_by_def order_by_id_ids_ok [OF ids]
    by (simp add: insert_all_def sql_key_def)
qed

end
