(* ===== verification/Activation_Gate.thy ===== *)
theory Activation_Gate
  imports Prelude
begin

text \<open>
  The activation gate of \<^verbatim>\<open>ml/evaluation.py\<close>: the Wilson upper bound and
  \<open>normal_fpr_acceptance\<close>, in exact arithmetic (a double's rounding moves the bound by parts in
  10^16). The lemmas turn the square root away: the verdict is a rational inequality between the
  two counts, so it is decidable, monotone in both counts and computable on examples.
\<close>

section \<open>The gate\<close>

definition max_normal_fpr :: real where
  "max_normal_fpr = 1 / 20"

definition min_normal_holdout_windows :: int where
  "min_normal_holdout_windows = 60"

definition wilson_z :: real where
  "wilson_z = 1644854 / 1000000"

text \<open>\<open>math.sqrt\<close> raises on a negative argument, which counts outside \<open>0..n\<close> can produce.\<close>

definition wilson_upper_bound :: "int \<Rightarrow> int \<Rightarrow> py_error + real option" where
  "wilson_upper_bound successes observations =
     (if observations \<le> 0 then Inr None
      else let n = real_of_int observations; z = wilson_z;
               proportion = real_of_int successes / n;
               denominator = 1 + z * z / n;
               centre = (proportion + z * z / (2 * n)) / denominator;
               inner = (proportion * (1 - proportion) + z * z / (4 * n)) / n
           in if inner < 0 then Inl (Value_Error ''math domain error'')
              else let radius = z * sqrt inner / denominator
                   in Inr (Some (min 1 (centre + radius))))"

record acceptance =
  ac_eligible :: bool
  ac_max_normal_fpr :: real
  ac_min_windows :: int
  ac_upper_95 :: "real option"
  ac_reasons :: "string list"

definition gate_reasons :: "real option \<Rightarrow> real option \<Rightarrow> int \<Rightarrow> string list" where
  "gate_reasons fpr upper_bound normal_windows =
     (if normal_windows < min_normal_holdout_windows
        then [''requires at least 60 independent verified-normal holdout windows''] else []) @
     (if (case fpr of None \<Rightarrow> True | Some x \<Rightarrow> max_normal_fpr < x)
        then [''observed normal FPR must be at most 5.00%''] else []) @
     (if (case upper_bound of None \<Rightarrow> True | Some x \<Rightarrow> max_normal_fpr < x)
        then [''one-sided 95% FPR upper bound must be at most 5.00%''] else [])"

definition normal_fpr_acceptance :: "int \<Rightarrow> int \<Rightarrow> py_error + acceptance" where
  "normal_fpr_acceptance false_positives normal_windows =
     (let fpr = (if normal_windows = 0 then None
                 else Some (real_of_int false_positives / real_of_int normal_windows))
      in case wilson_upper_bound false_positives normal_windows of
           Inl e \<Rightarrow> Inl e
         | Inr upper_bound \<Rightarrow>
             let reasons = gate_reasons fpr upper_bound normal_windows
             in Inr \<lparr>ac_eligible = (reasons = []), ac_max_normal_fpr = max_normal_fpr,
                     ac_min_windows = min_normal_holdout_windows, ac_upper_95 = upper_bound,
                     ac_reasons = reasons\<rparr>)"

definition gate_open :: "int \<Rightarrow> int \<Rightarrow> bool" where
  "gate_open f n = (case normal_fpr_acceptance f n of Inl _ \<Rightarrow> False | Inr a \<Rightarrow> ac_eligible a)"

section \<open>Removing the square root\<close>

lemma z_pos: "0 < wilson_z"
  by (simp add: wilson_z_def)

lemma margin:
  fixes k c t :: real
  assumes "0 \<le> k" "0 < c" "c < 1 / 2" "0 \<le> t" "t \<le> c" and le: "k * c * (1 - c) \<le> t * t"
  shows "k * (1 / 2 - c) \<le> t"
proof -
  have "t * t \<le> c * t" using assms by (simp add: mult_right_mono)
  with le have "c * (k * (1 - c)) \<le> c * t" by (simp add: mult.assoc mult.left_commute)
  then have "k * (1 - c) \<le> t" using assms(2) by simp
  moreover have "k * (1 / 2 - c) \<le> k * (1 - c)" using assms(1) by (intro mult_left_mono) auto
  ultimately show ?thesis by simp
qed

text \<open>
  For a threshold \<open>c\<close> below one half, the bound is at most \<open>c\<close> iff the observed rate is at most
  \<open>c\<close> and the score-test statistic at \<open>c\<close> reaches \<open>z\<close>.
\<close>

lemma sqrt_le_iff: "0 \<le> x \<Longrightarrow> sqrt x \<le> y \<longleftrightarrow> 0 \<le> y \<and> x \<le> y * y"
  by (metis abs_of_nonneg order_trans power2_eq_square real_le_lsqrt real_sqrt_ge_0_iff sqrt_le_D)

lemma wilson_le_iff:
  fixes n p z c :: real
  assumes n: "0 < n" and z: "0 < z" and p: "0 \<le> p" "p \<le> 1" and c: "0 < c" "c < 1 / 2"
  shows "(p + z * z / (2 * n)) / (1 + z * z / n) +
      z * sqrt ((p * (1 - p) + z * z / (4 * n)) / n) / (1 + z * z / n) \<le> c \<longleftrightarrow>
    p \<le> c \<and> z * z * c * (1 - c) \<le> n * (c - p) * (c - p)"
proof -
  let ?a = "p + z * z / (2 * n)" and ?d = "1 + z * z / n"
  let ?s = "(p * (1 - p) + z * z / (4 * n)) / n"
  let ?y = "(c * ?d - ?a) / z"
  have d: "0 < ?d" using n z by (simp add: add_pos_pos)
  have s: "0 \<le> ?s" using n z p by (intro divide_nonneg_nonneg add_nonneg_nonneg mult_nonneg_nonneg) auto
  have key: "?y * ?y - ?s = (n * (c - p) * (c - p) - z * z * c * (1 - c)) * ?d / (n * z * z)"
    using n z by (simp add: field_simps power2_eq_square)
  have sq: "?s \<le> ?y * ?y \<longleftrightarrow> z * z * c * (1 - c) \<le> n * (c - p) * (c - p)"
  proof -
    have "?s \<le> ?y * ?y \<longleftrightarrow> 0 \<le> (n * (c - p) * (c - p) - z * z * c * (1 - c)) * ?d / (n * z * z)"
      unfolding key [symmetric] by simp
    also have "\<dots> \<longleftrightarrow> 0 \<le> n * (c - p) * (c - p) - z * z * c * (1 - c)"
    proof -
      have "0 < ?d / (n * z * z)" using n z d by simp
      then show ?thesis by (metis times_divide_eq_right zero_le_mult_iff order_less_le not_le)
    qed
    finally show ?thesis by simp
  qed
  have "?a / ?d + z * sqrt ?s / ?d \<le> c \<longleftrightarrow> ?a + z * sqrt ?s \<le> c * ?d"
    using d by (simp add: add_divide_distrib [symmetric] pos_divide_le_eq)
  also have "\<dots> \<longleftrightarrow> sqrt ?s \<le> ?y"
    using z by (simp add: pos_le_divide_eq mult.commute) linarith
  also have "\<dots> \<longleftrightarrow> 0 \<le> ?y \<and> ?s \<le> ?y * ?y" by (rule sqrt_le_iff [OF s])
  also have "\<dots> \<longleftrightarrow> p \<le> c \<and> z * z * c * (1 - c) \<le> n * (c - p) * (c - p)"
  proof -
    have e: "c * ?d - ?a = (c - p) - z * z / n * (1 / 2 - c)" using n by (simp add: field_simps)
    have yk: "0 \<le> ?y \<longleftrightarrow> z * z / n * (1 / 2 - c) \<le> c - p"
      unfolding e using z by (simp add: zero_le_divide_iff)
    have k0: "0 \<le> z * z / n * (1 / 2 - c)" using n z c by simp
    have m: "z * z / n * (1 / 2 - c) \<le> c - p"
      if le: "p \<le> c" "z * z * c * (1 - c) \<le> n * (c - p) * (c - p)"
    proof (rule margin)
      have "z * z / n * c * (1 - c) = z * z * c * (1 - c) / n" by simp
      also have "\<dots> \<le> (c - p) * (c - p)" using le(2) n by (simp add: pos_divide_le_eq mult.commute mult.left_commute)
      finally show "z * z / n * c * (1 - c) \<le> (c - p) * (c - p)" .
    qed (use n c p le in simp_all)
    show ?thesis unfolding sq yk using k0 m by (meson diff_ge_0_iff_ge order_trans)
  qed
  finally show ?thesis .
qed

section \<open>The verdict as a rational inequality\<close>

definition gate_margin :: "int \<Rightarrow> int \<Rightarrow> bool" where
  "gate_margin f n \<longleftrightarrow> 60 \<le> n \<and> 20 * f \<le> n \<and>
     19 * 1644854 * 1644854 * n \<le> (n - 20 * f) * (n - 20 * f) * 1000000000000"

lemma wilson_sqrt_ok:
  assumes "0 \<le> f" and "f \<le> n" and "0 < n"
  shows "0 \<le> (real_of_int f / real_of_int n * (1 - real_of_int f / real_of_int n) +
    wilson_z * wilson_z / (4 * real_of_int n)) / real_of_int n"
  using assms z_pos by (intro divide_nonneg_nonneg add_nonneg_nonneg mult_nonneg_nonneg) simp_all

lemma wilson_value:
  assumes "0 \<le> f" and "f \<le> n" and "0 < n"
  shows "\<exists>u. wilson_upper_bound f n = Inr (Some u) \<and>
    (u \<le> 1 / 20 \<longleftrightarrow> 20 * f \<le> n \<and> 19 * 1644854 * 1644854 * n \<le> (n - 20 * f) * (n - 20 * f) * 1000000000000)"
proof -
  let ?n = "real_of_int n" and ?p = "real_of_int f / real_of_int n" and ?z = wilson_z
  let ?u = "(?p + ?z * ?z / (2 * ?n)) / (1 + ?z * ?z / ?n) +
    ?z * sqrt ((?p * (1 - ?p) + ?z * ?z / (4 * ?n)) / ?n) / (1 + ?z * ?z / ?n)"
  have "wilson_upper_bound f n = Inr (Some (min 1 ?u))"
    using assms wilson_sqrt_ok [OF assms] by (simp add: wilson_upper_bound_def Let_def not_less)
  moreover have A: "?u \<le> 1 / 20 \<longleftrightarrow> ?p \<le> 1 / 20 \<and> ?z * ?z * (1 / 20) * (1 - 1 / 20) \<le> ?n * (1 / 20 - ?p) * (1 / 20 - ?p)"
    by (rule wilson_le_iff) (use assms z_pos in simp_all)
  moreover have B: "?p \<le> 1 / 20 \<longleftrightarrow> 20 * f \<le> n"
  proof -
    have "?p \<le> 1 / 20 \<longleftrightarrow> 20 * real_of_int f \<le> ?n" using assms(3) by (simp add: field_simps)
    also have "\<dots> \<longleftrightarrow> 20 * f \<le> n" by linarith
    finally show ?thesis .
  qed
  moreover have C: "?z * ?z * (1 / 20) * (1 - 1 / 20) \<le> ?n * (1 / 20 - ?p) * (1 / 20 - ?p) \<longleftrightarrow>
    19 * 1644854 * 1644854 * n \<le> (n - 20 * f) * (n - 20 * f) * 1000000000000"
  proof -
    have "?n * (1 / 20 - ?p) * (1 / 20 - ?p) = (?n - 20 * real_of_int f) * (?n - 20 * real_of_int f) / (400 * ?n)"
      using assms(3) by (simp add: field_simps)
    then have "?z * ?z * (1 / 20) * (1 - 1 / 20) \<le> ?n * (1 / 20 - ?p) * (1 / 20 - ?p) \<longleftrightarrow>
      ?z * ?z * (1 / 20) * (1 - 1 / 20) * (400 * ?n) \<le> (?n - 20 * real_of_int f) * (?n - 20 * real_of_int f)"
      using assms(3) by (simp add: pos_le_divide_eq mult.assoc mult.commute mult.left_commute)
    also have "\<dots> \<longleftrightarrow> real_of_int (19 * 1644854 * 1644854 * n) \<le> real_of_int ((n - 20 * f) * (n - 20 * f) * 1000000000000)"
      by (simp add: wilson_z_def field_simps, intro iffI; linarith)
    finally show ?thesis by (simp only: of_int_le_iff)
  qed
  moreover have "min 1 ?u \<le> 1 / 20 \<longleftrightarrow> ?u \<le> 1 / 20" unfolding min_le_iff_disj by linarith
  ultimately show ?thesis by blast
qed

lemma fpr_le: "0 < n \<Longrightarrow> max_normal_fpr < real_of_int f / real_of_int n \<longleftrightarrow> n < 20 * f"
proof -
  assume "0 < n"
  then have "max_normal_fpr < real_of_int f / real_of_int n \<longleftrightarrow> real_of_int n < 20 * real_of_int f"
    by (simp add: max_normal_fpr_def field_simps)
  also have "\<dots> \<longleftrightarrow> n < 20 * f" by linarith
  finally show ?thesis .
qed

lemma gate_open_margin:
  assumes "0 \<le> f" and "f \<le> n"
  shows "gate_open f n \<longleftrightarrow> gate_margin f n"
proof (cases "0 < n")
  case True
  then obtain u where u: "wilson_upper_bound f n = Inr (Some u)"
    "u \<le> 1 / 20 \<longleftrightarrow> 20 * f \<le> n \<and> 19 * 1644854 * 1644854 * n \<le> (n - 20 * f) * (n - 20 * f) * 1000000000000"
    using wilson_value [OF assms] by blast
  have "max_normal_fpr < u \<longleftrightarrow> \<not> u \<le> 1 / 20" by (simp add: max_normal_fpr_def not_le)
  with True u(2) fpr_le [OF True, of f] show ?thesis
    by (simp add: gate_open_def normal_fpr_acceptance_def u(1) gate_reasons_def Let_def gate_margin_def
        min_normal_holdout_windows_def)
next
  case False
  with assms show ?thesis
    by (simp add: gate_open_def normal_fpr_acceptance_def wilson_upper_bound_def gate_reasons_def gate_margin_def)
qed

section \<open>Properties\<close>

text \<open>C3: the activation gate opens exactly when there are at least 60 holdout windows, the observed
  rate is at most 5 percent, and the score statistic at 5 percent reaches the one-sided 95 percent
  point: the square root of the Wilson bound is decided by integer arithmetic on the two counts.\<close>

theorem gate_is_rational:
  assumes "0 \<le> f" and "f \<le> n"
  shows "gate_open f n \<longleftrightarrow> 60 \<le> n \<and> 20 * f \<le> n \<and>
    19 * 1644854 * 1644854 * n \<le> (n - 20 * f) * (n - 20 * f) * 1000000000000"
  using gate_open_margin [OF assms] by (simp add: gate_margin_def)

theorem gate_is_rational_witness:
  "gate_open 0 60 \<longleftrightarrow> 60 \<le> (60::int) \<and> 20 * 0 \<le> (60::int) \<and>
    19 * 1644854 * 1644854 * 60 \<le> (60 - 20 * 0) * (60 - 20 * 0) * (1000000000000 :: int)"
  by (rule gate_is_rational) simp_all

lemma minimum_sample_tolerates_none:
  assumes "0 \<le> f" and "f \<le> 60"
  shows "gate_open f 60 \<longleftrightarrow> f = 0"
proof
  assume "gate_open f 60"
  then have m: "gate_margin f 60" using assms by (simp add: gate_open_margin)
  then have "f = 0 \<or> f = 1 \<or> f = 2 \<or> f = 3" using assms(1) by (simp add: gate_margin_def) linarith
  with m show "f = 0" by (elim disjE) (simp_all add: gate_margin_def)
next
  assume "f = 0"
  then show "gate_open f 60" by (simp add: gate_open_margin gate_margin_def)
qed

text \<open>The gate is monotone: with more windows or fewer false positives an open gate stays open.\<close>

theorem gate_monotone:
  assumes "0 \<le> g" and "g \<le> f" and "f \<le> n" and "n \<le> m" and "gate_open f n"
  shows "gate_open g m"
proof -
  have n: "60 \<le> n" "20 * f \<le> n"
    and le: "19 * 1644854 * 1644854 * n \<le> (n - 20 * f) * (n - 20 * f) * 1000000000000"
    using assms by (simp_all add: gate_open_margin gate_margin_def)
  define a where "a = n - 20 * f"
  define b where "b = m - 20 * g"
  have ab: "0 \<le> a" "a \<le> n" "a + (m - n) \<le> b" using assms n by (simp_all add: a_def b_def)
  have "a * a * m \<le> b * b * n"
  proof -
    have "a * m \<le> b * n"
    proof -
      have "a * m = a * n + a * (m - n)" by (simp add: algebra_simps)
      also have "\<dots> \<le> a * n + n * (m - n)" using ab assms(4) by (simp add: mult_right_mono)
      also have "\<dots> = (a + (m - n)) * n" by (simp add: algebra_simps)
      also have "\<dots> \<le> b * n" using ab n by (intro mult_right_mono) simp_all
      finally show ?thesis .
    qed
    moreover have "a \<le> b" "0 \<le> b" "0 \<le> m" using ab assms(4) n by linarith+
    ultimately have "a * (a * m) \<le> b * (b * n)" using ab(1) by - (rule mult_mono, simp_all)
    then show ?thesis by (simp add: mult.assoc)
  qed
  moreover have "19 * 1644854 * 1644854 * n * m \<le> a * a * 1000000000000 * m"
    using le assms(4) n by (intro mult_right_mono) (simp_all add: a_def)
  ultimately have "(19 * 1644854 * 1644854 * m) * n \<le> (b * b * 1000000000000) * n"
    by (simp add: mult.assoc mult.left_commute mult.commute)
  then have "19 * 1644854 * 1644854 * m \<le> b * b * 1000000000000" using n by simp
  then have "gate_margin g m" using assms n by (simp add: gate_margin_def b_def)
  then show ?thesis using assms by (simp add: gate_open_margin)
qed

theorem gate_monotone_witness:
  "gate_open 0 61"
  by (rule gate_monotone [of 0 0 60 61]) (simp_all add: gate_open_margin gate_margin_def)

end
