(* ===== verification/Py_Value.thy ===== *)
theory Py_Value
  imports Prelude
begin

text \<open>
  Python values as YAML and JSON documents hold them, for the code that inspects types at run time:
  truth value, conversion and iteration, with the exceptions they raise. Dictionaries have string
  keys; \<open>parse\<close> is \<open>float\<close> on text and \<open>shown\<close> is \<open>str\<close> on values that are not text.
\<close>

datatype 'r pyobj =
    PNone
  | PBool bool
  | PInt int
  | PFloat 'r
  | PStr string
  | PList "'r pyobj list"
  | PDict "(string \<times> 'r pyobj) list"

text \<open>A dictionary is an association list with distinct keys, in insertion order.\<close>

type_synonym 'r pymap = "(string \<times> 'r pyobj) list"

definition dget :: "'r pymap \<Rightarrow> string \<Rightarrow> 'r pyobj" where
  "dget d k = (case map_of d k of None \<Rightarrow> PNone | Some x \<Rightarrow> x)"

text \<open>Documents carry their floats as rationals.\<close>

type_synonym doc = "rat pyobj"

definition is_str :: "doc \<Rightarrow> bool" where
  "is_str v = (case v of PStr _ \<Rightarrow> True | _ \<Rightarrow> False)"

definition is_list :: "doc \<Rightarrow> bool" where
  "is_list v = (case v of PList _ \<Rightarrow> True | _ \<Rightarrow> False)"

definition the_str :: "doc \<Rightarrow> string" where
  "the_str v = (case v of PStr s \<Rightarrow> s | _ \<Rightarrow> [])"

text \<open>A list of strings, as \<open>isinstance(x, list) and all(isinstance(i, str) for i in x)\<close> accepts it.\<close>

definition str_list :: "doc \<Rightarrow> string list option" where
  "str_list v = (case v of PList xs \<Rightarrow> if list_all is_str xs then Some (map the_str xs) else None | _ \<Rightarrow> None)"

definition truthy :: "doc \<Rightarrow> bool" where
  "truthy v = (case v of
      PNone \<Rightarrow> False | PBool b \<Rightarrow> b | PInt i \<Rightarrow> i \<noteq> 0 | PFloat q \<Rightarrow> q \<noteq> 0
    | PStr s \<Rightarrow> s \<noteq> [] | PList xs \<Rightarrow> xs \<noteq> [] | PDict d \<Rightarrow> d \<noteq> [])"

text \<open>\<open>v == n\<close> for an integer: booleans and floats compare by value.\<close>

definition equals_int :: "int \<Rightarrow> doc \<Rightarrow> bool" where
  "equals_int n v = (case v of
      PBool b \<Rightarrow> n = (if b then 1 else 0) | PInt i \<Rightarrow> i = n | PFloat q \<Rightarrow> q = of_int n | _ \<Rightarrow> False)"

definition to_float :: "(string \<Rightarrow> rat option) \<Rightarrow> doc \<Rightarrow> py_error + rat" where
  "to_float parse v = (case v of
      PBool b \<Rightarrow> Inr (if b then 1 else 0)
    | PInt i \<Rightarrow> Inr (of_int i)
    | PFloat q \<Rightarrow> Inr q
    | PStr s \<Rightarrow> (case parse s of None \<Rightarrow> Inl (Value_Error ''could not convert string to float'') | Some q \<Rightarrow> Inr q)
    | _ \<Rightarrow> Inl (Type_Error ''float() argument must be a string or a real number''))"

definition to_str :: "(doc \<Rightarrow> string) \<Rightarrow> doc \<Rightarrow> string" where
  "to_str shown v = (case v of PStr s \<Rightarrow> s | _ \<Rightarrow> shown v)"

text \<open>\<open>for x in v\<close>: lists give their items, text its characters, dictionaries their keys.\<close>

definition iterate :: "doc \<Rightarrow> py_error + doc list" where
  "iterate v = (case v of
      PList xs \<Rightarrow> Inr xs
    | PStr s \<Rightarrow> Inr (map (\<lambda>c. PStr [c]) s)
    | PDict d \<Rightarrow> Inr (map (PStr \<circ> fst) d)
    | _ \<Rightarrow> Inl (Type_Error ''object is not iterable''))"

text \<open>\<open>v.get(k, default)\<close>: only dictionaries have the method.\<close>

definition get_item :: "doc \<Rightarrow> string \<Rightarrow> doc \<Rightarrow> py_error + doc" where
  "get_item v k other = (case v of
      PDict d \<Rightarrow> Inr (case map_of d k of None \<Rightarrow> other | Some x \<Rightarrow> x)
    | _ \<Rightarrow> Inl (Attribute_Error ''get''))"

lemma str_list_Some: "str_list v = Some xs \<Longrightarrow> v = PList (map PStr xs)"
  by (auto simp: str_list_def is_str_def the_str_def list_all_iff map_idI split: pyobj.splits if_splits)

lemma to_float_errors: "to_float parse v = Inl e \<Longrightarrow> \<exists>m. e = Value_Error m \<or> e = Type_Error m"
  by (auto simp: to_float_def split: pyobj.splits option.splits)

end
