(* ===== verification/Ml_Lifecycle.thy ===== *)
theory Ml_Lifecycle
  imports Chain_Tamper Activation_Gate Py_Value
begin

text \<open>
  The model registry and its lifecycle log: \<open>write_ml_model\<close>, \<open>activate_ml_model\<close>,
  \<open>deactivate_ml_model\<close>, \<open>write_ml_lifecycle_transition\<close>, \<open>write_ml_drift_assessment\<close> and
  \<open>verify_ml_lifecycle_chain\<close> of \<^verbatim>\<open>storage/sqlite_store.py\<close>, and the recorders of
  \<^verbatim>\<open>ml/lifecycle.py\<close>. \<open>dumps\<close> is \<open>json.dumps(_, sort_keys=True)\<close> on evidence dicts, \<open>loads\<close> the
  two keys the verifier reads back with \<open>json.loads(...).get(...)\<close>.
\<close>

section \<open>Evidence dicts\<close>

text \<open>Evidence carries its floats as reals, because the gate computes with logarithms and powers.\<close>

type_synonym pyval = "real pyobj"

type_synonym pydict = "real pymap"

text \<open>\<open>==\<close> on the values a gate verdict holds: numbers and bools compare by value.\<close>

definition num_of :: "pyval \<Rightarrow> real option" where
  "num_of v = (case v of PBool b \<Rightarrow> Some (if b then 1 else 0) | PInt i \<Rightarrow> Some (real_of_int i)
                | PFloat x \<Rightarrow> Some x | _ \<Rightarrow> None)"

definition py_eq :: "pyval \<Rightarrow> pyval \<Rightarrow> bool" where
  "py_eq v w = (case (num_of v, num_of w) of (Some x, Some y) \<Rightarrow> x = y | _ \<Rightarrow> v = w)"

definition dict_eq :: "pydict \<Rightarrow> pydict \<Rightarrow> bool" where
  "dict_eq d e \<longleftrightarrow> set (map fst d) = set (map fst e) \<and> (\<forall>k \<in> set (map fst d). py_eq (dget d k) (dget e k))"

definition acceptance_dict :: "acceptance \<Rightarrow> pydict" where
  "acceptance_dict a =
     [(''activation_eligible'', PBool (ac_eligible a)), (''max_normal_fpr'', PFloat (ac_max_normal_fpr a)),
      (''minimum_normal_holdout_windows'', PInt (ac_min_windows a)),
      (''normal_fpr_upper_95'', case ac_upper_95 a of None \<Rightarrow> PNone | Some x \<Rightarrow> PFloat x),
      (''reasons'', PList (map PStr (ac_reasons a)))]"

section \<open>The store\<close>

record ml_model =
  mm_id :: string
  mm_version :: string
  mm_algorithm :: string
  mm_artifact_checksum :: string
  mm_schema_version :: string
  mm_schema_hash :: string
  mm_training_window_ids :: "int list"
  mm_active :: bool
  mm_created_at :: rat

record ml_store =
  ml_models :: "ml_model list"
  ml_lifecycle :: table
  ml_drift :: table

definition empty_ml_store :: ml_store where
  "empty_ml_store = \<lparr>ml_models = [], ml_lifecycle = empty_table, ml_drift = empty_table\<rparr>"

definition ml_lifecycle_states :: "string list" where
  "ml_lifecycle_states =
     [''trained'', ''evaluated'', ''eligible'', ''ineligible'', ''active'', ''drift_assessed'',
      ''retraining_required'', ''drifted'', ''retired'']"

definition ml_drift_lifecycle_states :: "string list" where
  "ml_drift_lifecycle_states = [''drift_assessed'', ''retraining_required'']"

definition ml_drift_statuses :: "string list" where
  "ml_drift_statuses = [''no_drift_detected'', ''drift_detected'', ''insufficient_data'']"

text \<open>The row is inserted with \<open>active = 0\<close> whatever the dict says; the primary key is \<open>id\<close>.\<close>

definition write_ml_model :: "ml_model \<Rightarrow> ml_store \<Rightarrow> py_error + (string \<times> ml_store)" where
  "write_ml_model m st =
     (if mm_active m then Inl (Value_Error ''refusing to insert an active ML model'')
      else if mm_id m \<in> set (map mm_id (ml_models st)) then Inl (Integrity_Error ''ml_models.id'')
      else Inr (mm_id m, st\<lparr>ml_models := ml_models st @ [m\<lparr>mm_active := False\<rparr>]\<rparr>))"

definition set_ml_model_inactive :: "string \<Rightarrow> ml_model list \<Rightarrow> ml_model list \<times> bool" where
  "set_ml_model_inactive model_id ms =
     (map (\<lambda>m. if mm_id m = model_id \<and> mm_active m then m\<lparr>mm_active := False\<rparr> else m) ms,
      \<exists>m \<in> set ms. mm_id m = model_id \<and> mm_active m)"

definition deactivate_ml_model :: "string \<Rightarrow> ml_store \<Rightarrow> bool \<times> ml_store" where
  "deactivate_ml_model model_id st =
     (let (ms, was) = set_ml_model_inactive model_id (ml_models st)
      in (was, st\<lparr>ml_models := ms\<rparr>))"

section \<open>The lifecycle writer\<close>

text \<open>
  \<open>isinstance(x, int)\<close> holds for bools, which count as 0 and 1 in the gate's arithmetic.
\<close>

definition as_py_int :: "pyval \<Rightarrow> int option" where
  "as_py_int v = (case v of PInt i \<Rightarrow> Some i | PBool b \<Rightarrow> Some (if b then 1 else 0) | _ \<Rightarrow> None)"

definition require_activation_gate_verdict :: "pydict \<Rightarrow> py_error + unit" where
  "require_activation_gate_verdict evidence =
     (case dget evidence ''acceptance'' of
        PDict acceptance \<Rightarrow>
          if dget acceptance ''activation_eligible'' \<noteq> PBool True
            then Inl (Value_Error ''an eligible ML lifecycle row may not carry a verdict that refused it'')
          else (case (as_py_int (dget evidence ''false_positive_count''),
                      as_py_int (dget evidence ''normal_window_count'')) of
              (Some f, Some n) \<Rightarrow>
                (case normal_fpr_acceptance f n of
                   Inl e \<Rightarrow> Inl e
                 | Inr recomputed \<Rightarrow>
                     if \<not> dict_eq (acceptance_dict recomputed) acceptance
                     then Inl (Value_Error ''the recorded activation gate verdict does not match the recorded counts'')
                     else Inr ())
            | _ \<Rightarrow> Inl (Value_Error ''an eligible ML lifecycle row must record the counts''))
      | _ \<Rightarrow> Inl (Value_Error ''an eligible ML lifecycle row must carry the activation gate verdict''))"

definition lifecycle_row ::
  "string \<Rightarrow> string \<Rightarrow> string option \<Rightarrow> string \<Rightarrow> string \<Rightarrow> bool \<Rightarrow> string option \<Rightarrow> rat \<Rightarrow> row" where
  "lifecycle_row model_id to_state from_state why evidence_json eligible actor created =
     [''model_id'' \<mapsto> SText model_id, ''from_state'' \<mapsto> text_opt from_state, ''to_state'' \<mapsto> SText to_state,
      ''reason'' \<mapsto> SText why, ''evidence_json'' \<mapsto> SText evidence_json,
      ''activation_eligible'' \<mapsto> SInt (if eligible then 1 else 0), ''actor'' \<mapsto> text_opt actor,
      ''created_at'' \<mapsto> SReal created]"

text \<open>The environment of one store: digest, float rendering, JSON.\<close>

record ml_env =
  env_hash :: "string \<Rightarrow> string"
  env_repr :: "rat \<Rightarrow> string"
  env_dumps :: "pydict \<Rightarrow> string"
  env_loads :: "string \<Rightarrow> pydict"

definition insert_ml_lifecycle ::
  "ml_env \<Rightarrow> string \<Rightarrow> string \<Rightarrow> string option \<Rightarrow> string \<Rightarrow> pydict \<Rightarrow> bool \<Rightarrow> string option \<Rightarrow> rat \<Rightarrow> table \<Rightarrow> int \<times> table"
  where
  "insert_ml_lifecycle env model_id to_state from_state why evidence eligible actor created t =
     append_chained (env_hash env) (env_repr env) ml_lifecycle_chain_columns
       (lifecycle_row model_id to_state from_state why (env_dumps env evidence) eligible actor created) t"

text \<open>\<open>created\<close> is the given timestamp or the clock.\<close>

definition write_ml_lifecycle_transition ::
  "ml_env \<Rightarrow> string \<Rightarrow> string \<Rightarrow> string \<Rightarrow> pydict \<Rightarrow> string option \<Rightarrow> bool \<Rightarrow> string option \<Rightarrow> rat \<Rightarrow>
   ml_store \<Rightarrow> py_error + (int \<times> ml_store)" where
  "write_ml_lifecycle_transition env model_id to_state why evidence from_state eligible actor created st =
     (if to_state \<notin> set ml_lifecycle_states then Inl (Value_Error ''unknown ML lifecycle state'')
      else if (case from_state of None \<Rightarrow> False | Some s \<Rightarrow> s \<notin> set ml_lifecycle_states)
        then Inl (Value_Error ''unknown ML lifecycle state'')
      else if why = [] then Inl (Value_Error ''ML lifecycle transitions require a reason'')
      else if eligible \<and> to_state \<in> set ml_drift_lifecycle_states
        then Inl (Value_Error ''may not assert activation eligibility'')
      else if to_state = ''active'' \<and> \<not> eligible
        then Inl (Value_Error ''an active ML lifecycle row requires the activation gate verdict'')
      else case (if eligible then require_activation_gate_verdict evidence else Inr ()) of
          Inl e \<Rightarrow> Inl e
        | Inr _ \<Rightarrow>
            let (i, t) = insert_ml_lifecycle env model_id to_state from_state why evidence eligible actor created
                           (ml_lifecycle st);
                ms = (if to_state = ''retired'' \<or> to_state = ''drifted''
                      then fst (set_ml_model_inactive model_id (ml_models st)) else ml_models st)
            in Inr (i, st\<lparr>ml_lifecycle := t, ml_models := ms\<rparr>))"

section \<open>Activation\<close>

text \<open>
  \<open>WHERE model_id = ? AND to_state != 'drift_assessed' ORDER BY chain_seq DESC, id DESC LIMIT 1\<close>.
\<close>

definition model_history :: "string \<Rightarrow> row list \<Rightarrow> row list" where
  "model_history model_id rs =
     filter (\<lambda>r. rget r ''model_id'' = SText model_id \<and> rget r ''to_state'' \<noteq> SText ''drift_assessed'') rs"

definition latest_state :: "string \<Rightarrow> table \<Rightarrow> sqlval option" where
  "latest_state model_id t =
     (case rev (order_by_chain (model_history model_id (trows t))) of
        [] \<Rightarrow> None | r # _ \<Rightarrow> Some (rget r ''to_state''))"

definition activate_only :: "string \<Rightarrow> ml_model list \<Rightarrow> ml_model list" where
  "activate_only model_id ms =
     map (\<lambda>m. if mm_id m = model_id then m\<lparr>mm_active := True\<rparr> else m)
       (map (\<lambda>m. if mm_active m then m\<lparr>mm_active := False\<rparr> else m) ms)"

definition activate_ml_model ::
  "ml_env \<Rightarrow> rat \<Rightarrow> string \<Rightarrow> int \<Rightarrow> int \<Rightarrow> string option \<Rightarrow> ml_store \<Rightarrow> py_error + (int \<times> ml_store)" where
  "activate_ml_model env now model_id false_positive_count normal_window_count actor st =
     (case normal_fpr_acceptance false_positive_count normal_window_count of
        Inl e \<Rightarrow> Inl e
      | Inr acceptance \<Rightarrow>
          if \<not> ac_eligible acceptance
            then Inl (Value_Error ''refusing to activate: activation gate not satisfied'')
          else let evidence = [(''acceptance'', PDict (acceptance_dict acceptance)),
                               (''false_positive_count'', PInt false_positive_count),
                               (''normal_window_count'', PInt normal_window_count)]
            in case require_activation_gate_verdict evidence of
                 Inl e \<Rightarrow> Inl e
               | Inr _ \<Rightarrow>
                   if model_id \<notin> set (map mm_id (ml_models st))
                     then Inl (Value_Error ''refusing to activate: no such ML model'')
                   else if latest_state model_id (ml_lifecycle st) \<noteq> Some (SText ''eligible'')
                     then Inl (Value_Error ''refusing to activate: latest lifecycle state must be eligible'')
                   else let ms = activate_only model_id (ml_models st);
                            (i, t) = insert_ml_lifecycle env model_id ''active'' (Some ''eligible'')
                              ''model activated after satisfying the activation gate'' evidence True actor now
                              (ml_lifecycle st)
                        in Inr (i, st\<lparr>ml_models := ms, ml_lifecycle := t\<rparr>))"

section \<open>Drift assessments\<close>

record drift_in =
  da_model_id :: string
  da_comparison_dataset_id :: string
  da_status :: string
  da_method :: string
  da_alpha :: rat
  da_reference_window_count :: int
  da_comparison_window_count :: int
  da_drifted_feature_count :: int
  da_out_of_range_rate :: "rat option"
  da_features :: string
  da_reasons :: string
  da_created_at :: rat

definition drift_row :: "drift_in \<Rightarrow> string option \<Rightarrow> row" where
  "drift_row a actor =
     [''model_id'' \<mapsto> SText (da_model_id a), ''comparison_dataset_id'' \<mapsto> SText (da_comparison_dataset_id a),
      ''status'' \<mapsto> SText (da_status a), ''method'' \<mapsto> SText (da_method a), ''alpha'' \<mapsto> SReal (da_alpha a),
      ''reference_window_count'' \<mapsto> SInt (da_reference_window_count a),
      ''comparison_window_count'' \<mapsto> SInt (da_comparison_window_count a),
      ''drifted_feature_count'' \<mapsto> SInt (da_drifted_feature_count a),
      ''out_of_range_rate'' \<mapsto> (case da_out_of_range_rate a of None \<Rightarrow> SNull | Some q \<Rightarrow> SReal q),
      ''features_json'' \<mapsto> SText (da_features a), ''reasons_json'' \<mapsto> SText (da_reasons a),
      ''actor'' \<mapsto> text_opt actor, ''created_at'' \<mapsto> SReal (da_created_at a)]"

definition drift_evidence :: "int \<Rightarrow> string \<Rightarrow> drift_in \<Rightarrow> pydict" where
  "drift_evidence assessment_id digest a =
     [(''drift_assessment_id'', PInt assessment_id), (''assessment_hash'', PStr digest),
      (''status'', PStr (da_status a)), (''drifted_feature_count'', PInt (da_drifted_feature_count a)),
      (''comparison_dataset_id'', PStr (da_comparison_dataset_id a))]"

text \<open>
  The assessment is re-read as stored before it is hashed; \<open>fetchone()\<close> of the row just inserted
  is never None, the empty row stands for that unreachable case.
\<close>

definition write_ml_drift_assessment ::
  "ml_env \<Rightarrow> drift_in \<Rightarrow> string option \<Rightarrow> string option \<Rightarrow> ml_store \<Rightarrow> py_error + (int \<times> int \<times> ml_store)" where
  "write_ml_drift_assessment env a from_state actor st =
     (if da_status a \<notin> set ml_drift_statuses then Inl (Value_Error ''unknown ML drift status'')
      else let (aid, drift) = insert_row (drift_row a actor) (ml_drift st);
               stored = (case find_row aid drift of None \<Rightarrow> Map.empty | Some r \<Rightarrow> r);
               digest = content_hash (env_hash env) (env_repr env) ml_drift_core_columns stored;
               (lid, t) = insert_ml_lifecycle env (da_model_id a) ''drift_assessed'' from_state
                 (''drift assessment recorded: '' @ da_status a) (drift_evidence aid digest a) False actor
                 (da_created_at a) (ml_lifecycle st)
           in Inr (aid, lid, st\<lparr>ml_drift := drift, ml_lifecycle := t\<rparr>))"

section \<open>Verification\<close>

fun verify_bindings :: "ml_env \<Rightarrow> table \<Rightarrow> verdict \<Rightarrow> row list \<Rightarrow> verdict" where
  "verify_bindings env drift v [] = v"
| "verify_bindings env drift v (r # rs) =
     (if rget r ''to_state'' \<noteq> SText ''drift_assessed'' then verify_bindings env drift v rs
      else let evidence = env_loads env (case rget r ''evidence_json'' of SText (c # s) \<Rightarrow> c # s | _ \<Rightarrow> ''{}'');
               aid = dget evidence ''drift_assessment_id'';
               recorded = dget evidence ''assessment_hash''
           in case (case as_py_int aid of Some i \<Rightarrow> find_row i drift | None \<Rightarrow> None) of
                None \<Rightarrow> broken (checked v) (rget r ''chain_seq'')
                  (Assessment_Missing (case as_py_int aid of Some i \<Rightarrow> SInt i | None \<Rightarrow> SNull) (rget r ''chain_seq''))
              | Some stored \<Rightarrow>
                  if recorded \<noteq> PStr (content_hash (env_hash env) (env_repr env) ml_drift_core_columns stored)
                  then broken (checked v) (rget r ''chain_seq'')
                    (Assessment_Mismatch (rget stored ''id'') (rget r ''chain_seq''))
                  else verify_bindings env drift v rs)"

definition verify_ml_lifecycle_chain :: "ml_env \<Rightarrow> ml_store \<Rightarrow> verdict" where
  "verify_ml_lifecycle_chain env st =
     (let rows = order_by_chain (trows (ml_lifecycle st));
          verification = verify_chain (env_hash env) (env_repr env) ml_lifecycle_chain_columns rows
      in if \<not> ok verification then verification
         else verify_bindings env (ml_drift st) verification rows)"

section \<open>The recorders of \<^verbatim>\<open>ml/lifecycle.py\<close>\<close>

record training_metadata =
  tm_id :: string
  tm_artifact_checksum :: string
  tm_artifact_format :: "string option"
  tm_schema_hash :: string
  tm_training_window_ids :: "int list"
  tm_hyperparameters :: pydict

definition pstr_opt :: "string option \<Rightarrow> pyval" where
  "pstr_opt x = (case x of None \<Rightarrow> PNone | Some s \<Rightarrow> PStr s)"

definition record_trained ::
  "ml_env \<Rightarrow> rat \<Rightarrow> training_metadata \<Rightarrow> string option \<Rightarrow> ml_store \<Rightarrow> py_error + (int \<times> ml_store)" where
  "record_trained env now md actor st =
     write_ml_lifecycle_transition env (tm_id md) ''trained'' ''model trained on verified-normal windows''
       [(''artifact_checksum'', PStr (tm_artifact_checksum md)), (''artifact_format'', pstr_opt (tm_artifact_format md)),
        (''schema_hash'', PStr (tm_schema_hash md)),
        (''training_window_count'', PInt (int (length (tm_training_window_ids md)))),
        (''training_window_ids'', PList (map PInt (tm_training_window_ids md))),
        (''hyperparameters'', PDict (tm_hyperparameters md))]
       None False actor now st"

definition record_evaluated ::
  "ml_env \<Rightarrow> rat \<Rightarrow> string \<Rightarrow> pydict \<Rightarrow> string option \<Rightarrow> ml_store \<Rightarrow> py_error + (int \<times> ml_store)" where
  "record_evaluated env now model_id report actor st =
     (if \<not> {''normal_window_count'', ''normal_false_positive_count'', ''normal_false_positive_rate'', ''labels_available''}
           \<subseteq> set (map fst report) then Inl (Key_Error ''report'')
      else write_ml_lifecycle_transition env model_id ''evaluated'' ''threshold evaluated against holdout windows''
       [(''normal_window_count'', dget report ''normal_window_count''),
        (''normal_false_positive_count'', dget report ''normal_false_positive_count''),
        (''normal_false_positive_rate'', dget report ''normal_false_positive_rate''),
        (''labels_available'', dget report ''labels_available''),
        (''confusion_matrix'', dget report ''confusion_matrix'')]
       (Some ''trained'') False actor now st)"

fun join_with :: "string \<Rightarrow> string list \<Rightarrow> string" where
  "join_with sep [] = []"
| "join_with sep [x] = x"
| "join_with sep (x # y # ys) = x @ sep @ join_with sep (y # ys)"

definition record_activation_gate ::
  "ml_env \<Rightarrow> rat \<Rightarrow> string \<Rightarrow> int \<Rightarrow> int \<Rightarrow> int list option \<Rightarrow> string option \<Rightarrow> ml_store \<Rightarrow> py_error + (int \<times> ml_store)"
  where
  "record_activation_gate env now model_id false_positive_count normal_window_count window_ids actor st =
     (if (case window_ids of None \<Rightarrow> False | Some ws \<Rightarrow> \<not> distinct ws)
        then Inl (Value_Error ''holdout_window_ids repeats a window'')
      else if (case window_ids of None \<Rightarrow> False | Some ws \<Rightarrow> int (length ws) \<noteq> normal_window_count)
        then Inl (Value_Error ''holdout_window_ids disagrees with normal_window_count'')
      else case normal_fpr_acceptance false_positive_count normal_window_count of
          Inl e \<Rightarrow> Inl e
        | Inr acceptance \<Rightarrow>
            write_ml_lifecycle_transition env model_id
              (if ac_eligible acceptance then ''eligible'' else ''ineligible'')
              (if ac_eligible acceptance then ''activation gate satisfied''
               else ''activation gate not satisfied: '' @ join_with ''; '' (ac_reasons acceptance))
              [(''acceptance'', PDict (acceptance_dict acceptance)),
               (''false_positive_count'', PInt false_positive_count),
               (''normal_window_count'', PInt normal_window_count),
               (''holdout_window_ids'', case window_ids of None \<Rightarrow> PNone | Some ws \<Rightarrow> PList (map PInt ws))]
              (Some ''evaluated'') (ac_eligible acceptance) actor now st)"

definition record_activation ::
  "ml_env \<Rightarrow> rat \<Rightarrow> string \<Rightarrow> int \<Rightarrow> int \<Rightarrow> string option \<Rightarrow> ml_store \<Rightarrow> py_error + (int \<times> ml_store)" where
  "record_activation env now model_id false_positive_count normal_window_count actor st =
     activate_ml_model env now model_id false_positive_count normal_window_count actor st"

definition retraining_reason :: "drift_in \<Rightarrow> string" where
  "retraining_reason a =
     int_str (da_drifted_feature_count a) @ '' feature distributions diverged from the training data''"

definition retraining_limitations :: "string list" where
  "retraining_limitations =
     [''Retraining requires a fresh verified-normal dataset; drift does not authorize reusing this model's own training data.'',
      ''A retrained model is inactive until it passes the activation gate.'']"

text \<open>\<open>drifted_names\<close> are the features with \<open>item["drifted"]\<close>.\<close>

definition retraining_evidence :: "int \<Rightarrow> drift_in \<Rightarrow> string list \<Rightarrow> pydict" where
  "retraining_evidence assessment_id a drifted_names =
     [(''drift_assessment_id'', PInt assessment_id), (''drifted_features'', PList (map PStr drifted_names)),
      (''comparison_dataset_id'', PStr (da_comparison_dataset_id a)),
      (''out_of_range_rate'', case da_out_of_range_rate a of None \<Rightarrow> PNone | Some q \<Rightarrow> PFloat (real_of_rat q)),
      (''limitations'', PList (map PStr retraining_limitations))]"

definition record_drift_assessment ::
  "ml_env \<Rightarrow> rat \<Rightarrow> drift_in \<Rightarrow> string list \<Rightarrow> string option \<Rightarrow> ml_store \<Rightarrow> py_error + ml_store" where
  "record_drift_assessment env now a drifted_names actor st =
     (case write_ml_drift_assessment env a None actor st of
        Inl e \<Rightarrow> Inl e
      | Inr (aid, lid, st') \<Rightarrow>
          if da_status a \<noteq> ''drift_detected'' then Inr st'
          else case write_ml_lifecycle_transition env (da_model_id a) ''retraining_required''
              (retraining_reason a) (retraining_evidence aid a drifted_names) None False actor now st' of
            Inl e \<Rightarrow> Inl e
          | Inr (_, st'') \<Rightarrow> Inr st'')"

definition record_drifted ::
  "ml_env \<Rightarrow> rat \<Rightarrow> string \<Rightarrow> string \<Rightarrow> pydict \<Rightarrow> string option \<Rightarrow> ml_store \<Rightarrow> py_error + (int \<times> ml_store)" where
  "record_drifted env now model_id why evidence actor st =
     write_ml_lifecycle_transition env model_id ''drifted'' why evidence None False actor now st"

definition record_retired ::
  "ml_env \<Rightarrow> rat \<Rightarrow> string \<Rightarrow> string \<Rightarrow> pydict \<Rightarrow> string option \<Rightarrow> ml_store \<Rightarrow> py_error + (int \<times> ml_store)" where
  "record_retired env now model_id why evidence actor st =
     write_ml_lifecycle_transition env model_id ''retired'' why evidence None False actor now st"

text \<open>\<open>clause = ... if model_id else ""\<close>: an empty id reads every model's rows.\<close>

definition read_ml_lifecycle :: "string option \<Rightarrow> int \<Rightarrow> table \<Rightarrow> row list" where
  "read_ml_lifecycle model_id limit t =
     take (nat (max 1 limit))
       (order_by_chain
         (case model_id of
            Some (c # s) \<Rightarrow> filter (\<lambda>r. rget r ''model_id'' = SText (c # s)) (trows t)
          | _ \<Rightarrow> trows t))"

definition current_state :: "string \<Rightarrow> table \<Rightarrow> row option" where
  "current_state model_id t =
     (let history = filter (\<lambda>r. rget r ''to_state'' \<noteq> SText ''drift_assessed'')
                      (read_ml_lifecycle (Some model_id) 500 t)
      in if history = [] then None else Some (last history))"

definition eligible_model_ids :: "int \<Rightarrow> table \<Rightarrow> sqlval list" where
  "eligible_model_ids limit t =
     fold (\<lambda>r granted.
        if rget r ''to_state'' = SText ''eligible'' \<and> rget r ''activation_eligible'' = SInt 1
           \<and> rget r ''model_id'' \<notin> set granted
        then granted @ [rget r ''model_id''] else granted)
       (read_ml_lifecycle None limit t) []"

end
