(* ===== verification/Ml_Invariants.thy ===== *)
theory Ml_Invariants
  imports Ml_Lifecycle
begin

text \<open>
  What every reachable model registry satisfies. \<open>ml_step\<close> is one successful store operation;
  \<open>ml_inv\<close> says at most one model is active, every active model is justified by its log, and
  every row claiming eligibility carries counts the gate accepts. The recorders of
  \<^verbatim>\<open>ml/lifecycle.py\<close> additionally keep \<open>verify_ml_lifecycle_chain\<close> passing.
\<close>

section \<open>Steps\<close>

inductive ml_step :: "ml_env \<Rightarrow> ml_store \<Rightarrow> ml_store \<Rightarrow> bool" for env where
  Write_Model: "write_ml_model m st = Inr (i, st') \<Longrightarrow> ml_step env st st'"
| Activate: "activate_ml_model env now mid f n actor st = Inr (i, st') \<Longrightarrow> ml_step env st st'"
| Deactivate: "deactivate_ml_model mid st = (was, st') \<Longrightarrow> ml_step env st st'"
| Transition: "write_ml_lifecycle_transition env mid s why ev from_s el actor c st = Inr (i, st') \<Longrightarrow>
    ml_step env st st'"
| Drift: "write_ml_drift_assessment env a from_s actor st = Inr (aid, lid, st') \<Longrightarrow> ml_step env st st'"

inductive ml_reachable :: "ml_env \<Rightarrow> ml_store \<Rightarrow> bool" for env where
  Start: "ml_reachable env empty_ml_store"
| Step: "ml_reachable env st \<Longrightarrow> ml_step env st st' \<Longrightarrow> ml_reachable env st'"

section \<open>The invariant\<close>

definition lifecycle_row_ok :: "ml_env \<Rightarrow> row \<Rightarrow> bool" where
  "lifecycle_row_ok env r \<longleftrightarrow>
     (\<exists>s \<in> set ml_lifecycle_states. rget r ''to_state'' = SText s) \<and>
     rget r ''activation_eligible'' \<in> {SInt 0, SInt 1} \<and>
     (rget r ''to_state'' = SText ''active'' \<longrightarrow> rget r ''activation_eligible'' = SInt 1) \<and>
     (rget r ''to_state'' \<in> {SText ''drift_assessed'', SText ''retraining_required''} \<longrightarrow>
       rget r ''activation_eligible'' = SInt 0) \<and>
     (rget r ''activation_eligible'' = SInt 1 \<longrightarrow>
       (\<exists>ev. rget r ''evidence_json'' = SText (env_dumps env ev) \<and> require_activation_gate_verdict ev = Inr ()))"

definition stands_down :: "string \<Rightarrow> row \<Rightarrow> bool" where
  "stands_down mid r \<longleftrightarrow> rget r ''model_id'' = SText mid \<and>
     rget r ''to_state'' \<in> {SText ''retired'', SText ''drifted''}"

definition justified :: "string \<Rightarrow> row list \<Rightarrow> bool" where
  "justified mid rs \<longleftrightarrow>
     (\<exists>pre r post. rs = pre @ r # post \<and> rget r ''model_id'' = SText mid \<and> rget r ''to_state'' = SText ''active'' \<and>
        rget r ''activation_eligible'' = SInt 1 \<and>
        model_history mid pre \<noteq> [] \<and> rget (last (model_history mid pre)) ''to_state'' = SText ''eligible'' \<and>
        (\<forall>q \<in> set post. \<not> stands_down mid q))"

definition ml_inv :: "ml_env \<Rightarrow> ml_store \<Rightarrow> bool" where
  "ml_inv env st \<longleftrightarrow>
     chain_inv (env_hash env) (env_repr env) ml_lifecycle_chain_columns (ml_lifecycle st) \<and>
     ids_ok (ml_drift st) \<and> distinct (map mm_id (ml_models st)) \<and>
     length (filter mm_active (ml_models st)) \<le> 1 \<and>
     (\<forall>r \<in> set (trows (ml_lifecycle st)). lifecycle_row_ok env r) \<and>
     (\<forall>m \<in> set (ml_models st). mm_active m \<longrightarrow> justified (mm_id m) (trows (ml_lifecycle st)))"

section \<open>Appending to the log\<close>

lemma rget_lifecycle_row [row_simps]:
  "rget (lifecycle_row i s f w e el a c) ''chain_seq'' = SNull"
  "rget (lifecycle_row i s f w e el a c) ''model_id'' = SText i"
  "rget (lifecycle_row i s f w e el a c) ''to_state'' = SText s"
  "rget (lifecycle_row i s f w e el a c) ''evidence_json'' = SText e"
  "rget (lifecycle_row i s f w e el a c) ''activation_eligible'' = SInt (if el then 1 else 0)"
  by (simp_all add: lifecycle_row_def rget_def)

definition appended :: "ml_env \<Rightarrow> string \<Rightarrow> string \<Rightarrow> pydict \<Rightarrow> bool \<Rightarrow> table \<Rightarrow> table \<Rightarrow> bool" where
  "appended env mid s ev el t t' \<longleftrightarrow>
     chain_inv (env_hash env) (env_repr env) ml_lifecycle_chain_columns t' \<and>
     (\<exists>r. trows t' = trows t @ [r] \<and> rget r ''model_id'' = SText mid \<and> rget r ''to_state'' = SText s \<and>
        rget r ''evidence_json'' = SText (env_dumps env ev) \<and>
        rget r ''activation_eligible'' = SInt (if el then 1 else 0))"

lemma insert_ml_lifecycle_appended:
  assumes H: "is_digest (env_hash env)"
    and ch: "chain_inv (env_hash env) (env_repr env) ml_lifecycle_chain_columns t"
  shows "appended env mid s ev el t (snd (insert_ml_lifecycle env mid s fs why ev el actor c t))"
proof -
  let ?r = "lifecycle_row mid s fs why (env_dumps env ev) el actor c"
  have null: "rget ?r ''chain_seq'' = SNull" by (rule rget_lifecycle_row)
  note app = append_chained_rows(3) [OF H covers_columns(4) ch null] append_chained_inv [OF H covers_columns(4) ch null]
  show ?thesis
    using app unfolding appended_def insert_ml_lifecycle_def
    by (simp add: rget_set_chain_other rget_lifecycle_row)
qed

lemma latest_state_history:
  assumes "chain_inv H fr ml_lifecycle_chain_columns t"
  shows "latest_state mid t =
    (if model_history mid (trows t) = [] then None
     else Some (rget (last (model_history mid (trows t))) ''to_state''))"
proof -
  have "order_by_chain (trows t) = trows t"
    using assms order_by_chain_id by (auto simp: chain_inv_def)
  then have "order_by_chain (model_history mid (trows t)) = model_history mid (trows t)"
    by (simp add: model_history_def order_by_chain_def filter_sort [symmetric])
  then show ?thesis by (auto simp: latest_state_def last_rev hd_rev split: list.split)
qed

section \<open>The registry\<close>

lemma ids_set_inactive [simp]: "map mm_id (fst (set_ml_model_inactive mid ms)) = map mm_id ms"
  by (simp add: set_ml_model_inactive_def comp_def if_distrib cong: if_cong)

lemma filter_set_inactive:
  "filter mm_active (fst (set_ml_model_inactive mid ms)) = filter (\<lambda>m. mm_active m \<and> mm_id m \<noteq> mid) ms"
  by (induction ms) (auto simp: set_ml_model_inactive_def)

lemma active_set_inactive:
  "m \<in> set (fst (set_ml_model_inactive mid ms)) \<Longrightarrow> mm_active m \<Longrightarrow> m \<in> set ms \<and> mm_id m \<noteq> mid"
  by (auto simp: set_ml_model_inactive_def split: if_splits)

lemma ids_activate_only [simp]: "map mm_id (activate_only mid ms) = map mm_id ms"
  by (induction ms) (simp_all add: activate_only_def)

lemma filter_activate_only:
  "map mm_id (filter mm_active (activate_only mid ms)) = filter (\<lambda>i. i = mid) (map mm_id ms)"
  by (induction ms) (auto simp: activate_only_def)

lemma distinct_filter_eq: "distinct xs \<Longrightarrow> length (filter (\<lambda>i. i = a) xs) \<le> 1"
  by (induction xs) (auto simp: filter_empty_conv)

lemma one_active_after:
  "distinct (map mm_id ms) \<Longrightarrow> length (filter mm_active (activate_only mid ms)) \<le> 1"
  using distinct_filter_eq [of "map mm_id ms" mid] filter_activate_only [of mid ms]
  by (metis length_map)

lemma active_activate_only: "m \<in> set (activate_only mid ms) \<Longrightarrow> mm_active m \<Longrightarrow> mm_id m = mid"
  by (auto simp: activate_only_def split: if_splits)

lemma activate_only_active:
  assumes "m \<in> set (activate_only mid ms)" and "mm_id m = mid"
  shows "mm_active m"
proof -
  obtain x where "m = (if mm_id x = mid then x\<lparr>mm_active := True\<rparr> else x)"
    using assms(1) unfolding activate_only_def set_map by blast
  with assms(2) show ?thesis by (cases "mm_id x = mid") simp_all
qed

section \<open>Justification\<close>

lemma justified_snoc: "justified mid rs \<Longrightarrow> \<not> stands_down mid r \<Longrightarrow> justified mid (rs @ [r])"
  unfolding justified_def by (elim exE conjE) (rule exI, rule exI, rule_tac x = "post @ [r]" in exI, auto)

lemma justified_now:
  assumes "model_history mid rs \<noteq> []" and "rget (last (model_history mid rs)) ''to_state'' = SText ''eligible''"
    and "rget r ''model_id'' = SText mid" and "rget r ''to_state'' = SText ''active''"
    and "rget r ''activation_eligible'' = SInt 1"
  shows "justified mid (rs @ [r])"
  unfolding justified_def by (rule exI [of _ rs], rule exI [of _ r], rule exI [of _ "[]"]) (use assms in simp)

section \<open>The verdict check\<close>

lemma py_eq_refl [simp]: "py_eq v v"
  by (simp add: py_eq_def split: option.split)

lemma dict_eq_refl [simp]: "dict_eq d d"
  by (simp add: dict_eq_def)

lemma gate_evidence_accepted:
  assumes "normal_fpr_acceptance f n = Inr a" and "ac_eligible a"
  shows "require_activation_gate_verdict ((''acceptance'', PDict (acceptance_dict a)) #
    (''false_positive_count'', PInt f) # (''normal_window_count'', PInt n) # rest) = Inr ()"
proof -
  have "dget (acceptance_dict a) ''activation_eligible'' = PBool True"
    using assms(2) by (simp add: acceptance_dict_def dget_def)
  with assms(1) show ?thesis
    by (simp add: require_activation_gate_verdict_def dget_def as_py_int_def)
qed

lemma verdict_means_gate_open:
  assumes "require_activation_gate_verdict ev = Inr ()"
  shows "\<exists>f n. as_py_int (dget ev ''false_positive_count'') = Some f \<and>
    as_py_int (dget ev ''normal_window_count'') = Some n \<and> gate_open f n"
proof -
  obtain a f n r where a: "dget ev ''acceptance'' = PDict a" "dget a ''activation_eligible'' = PBool True"
    and f: "as_py_int (dget ev ''false_positive_count'') = Some f"
    and n: "as_py_int (dget ev ''normal_window_count'') = Some n"
    and r: "normal_fpr_acceptance f n = Inr r" "dict_eq (acceptance_dict r) a"
    using assms by (auto simp: require_activation_gate_verdict_def split: pyobj.splits option.splits sum.splits if_splits)
  have "py_eq (PBool (ac_eligible r)) (PBool True)"
    using r(2) a(2) by (force simp: dict_eq_def acceptance_dict_def dget_def)
  then have "ac_eligible r" by (auto simp: py_eq_def num_of_def split: if_splits)
  with f n r(1) show ?thesis by (auto simp: gate_open_def)
qed

section \<open>What a successful call did\<close>

lemma transition_Inr:
  assumes "write_ml_lifecycle_transition env mid s why ev fs el actor c st = Inr (i, st')"
  shows "s \<in> set ml_lifecycle_states" and "\<not> (el \<and> s \<in> set ml_drift_lifecycle_states)"
    and "\<not> (s = ''active'' \<and> \<not> el)" and "el \<Longrightarrow> require_activation_gate_verdict ev = Inr ()"
    and "st' = st\<lparr>ml_lifecycle := snd (insert_ml_lifecycle env mid s fs why ev el actor c (ml_lifecycle st)),
      ml_models := (if s = ''retired'' \<or> s = ''drifted''
        then fst (set_ml_model_inactive mid (ml_models st)) else ml_models st)\<rparr>"
proof -
  note g1 = Inr_ifD [OF assms [unfolded write_ml_lifecycle_transition_def]]
  note g2 = Inr_ifD [OF g1 [THEN conjunct2]]
  note g3 = Inr_ifD [OF g2 [THEN conjunct2]]
  note g4 = Inr_ifD [OF g3 [THEN conjunct2]]
  note g5 = Inr_ifD [OF g4 [THEN conjunct2]]
  note g6 = Inr_bindD [OF g5 [THEN conjunct2]]
  show "s \<in> set ml_lifecycle_states" using g1 by blast
  show "\<not> (el \<and> s \<in> set ml_drift_lifecycle_states)" using g4 by blast
  show "\<not> (s = ''active'' \<and> \<not> el)" using g5 by blast
  show "el \<Longrightarrow> require_activation_gate_verdict ev = Inr ()" using g6 by (auto simp: split_beta Let_def)
  show "st' = st\<lparr>ml_lifecycle := snd (insert_ml_lifecycle env mid s fs why ev el actor c (ml_lifecycle st)),
      ml_models := (if s = ''retired'' \<or> s = ''drifted''
        then fst (set_ml_model_inactive mid (ml_models st)) else ml_models st)\<rparr>"
    using g6 unfolding Let_def split_beta by (elim exE conjE) (simp only: sum.inject prod.inject)
qed

lemma activate_Inr:
  assumes "activate_ml_model env now mid f n actor st = Inr (i, st')"
  obtains a where "normal_fpr_acceptance f n = Inr a" "ac_eligible a" "mid \<in> set (map mm_id (ml_models st))"
    "latest_state mid (ml_lifecycle st) = Some (SText ''eligible'')"
    "st' = st\<lparr>ml_models := activate_only mid (ml_models st),
      ml_lifecycle := snd (insert_ml_lifecycle env mid ''active'' (Some ''eligible'')
      ''model activated after satisfying the activation gate''
      [(''acceptance'', PDict (acceptance_dict a)), (''false_positive_count'', PInt f), (''normal_window_count'', PInt n)]
      True actor now (ml_lifecycle st))\<rparr>"
proof -
  obtain a where a: "normal_fpr_acceptance f n = Inr a" and g: "(if \<not> ac_eligible a
      then Inl (Value_Error ''refusing to activate: activation gate not satisfied'')
      else let evidence = [(''acceptance'', PDict (acceptance_dict a)), (''false_positive_count'', PInt f),
             (''normal_window_count'', PInt n)]
        in case require_activation_gate_verdict evidence of
             Inl e \<Rightarrow> Inl e
           | Inr _ \<Rightarrow>
               if mid \<notin> set (map mm_id (ml_models st)) then Inl (Value_Error ''refusing to activate: no such ML model'')
               else if latest_state mid (ml_lifecycle st) \<noteq> Some (SText ''eligible'')
                 then Inl (Value_Error ''refusing to activate: latest lifecycle state must be eligible'')
               else let ms = activate_only mid (ml_models st);
                        (i, t) = insert_ml_lifecycle env mid ''active'' (Some ''eligible'')
                          ''model activated after satisfying the activation gate'' evidence True actor now
                          (ml_lifecycle st)
                    in Inr (i, st\<lparr>ml_models := ms, ml_lifecycle := t\<rparr>)) = Inr (i, st')"
    using Inr_bindD [OF assms [unfolded activate_ml_model_def]] by blast
  note g1 = Inr_ifD [OF g]
  note g2 = Inr_bindD [OF g1 [THEN conjunct2, unfolded Let_def]]
  then have g3: "(if mid \<notin> set (map mm_id (ml_models st)) then Inl (Value_Error ''refusing to activate: no such ML model'')
               else if latest_state mid (ml_lifecycle st) \<noteq> Some (SText ''eligible'')
                 then Inl (Value_Error ''refusing to activate: latest lifecycle state must be eligible'')
               else case insert_ml_lifecycle env mid ''active'' (Some ''eligible'')
                          ''model activated after satisfying the activation gate''
                          [(''acceptance'', PDict (acceptance_dict a)), (''false_positive_count'', PInt f),
                           (''normal_window_count'', PInt n)] True actor now
                          (ml_lifecycle st) of (i, t) \<Rightarrow>
                     Inr (i, st\<lparr>ml_models := activate_only mid (ml_models st), ml_lifecycle := t\<rparr>)) = Inr (i, st')"
    by blast
  note g4 = Inr_ifD [OF g3]
  note g5 = Inr_ifD [OF g4 [THEN conjunct2]]
  show ?thesis
  proof (rule that [OF a])
    show "ac_eligible a" using g1 by blast
    show "mid \<in> set (map mm_id (ml_models st))" using g4 by blast
    show "latest_state mid (ml_lifecycle st) = Some (SText ''eligible'')" using g5 by blast
    show "st' = st\<lparr>ml_models := activate_only mid (ml_models st),
      ml_lifecycle := snd (insert_ml_lifecycle env mid ''active'' (Some ''eligible'')
      ''model activated after satisfying the activation gate''
      [(''acceptance'', PDict (acceptance_dict a)), (''false_positive_count'', PInt f), (''normal_window_count'', PInt n)]
      True actor now (ml_lifecycle st))\<rparr>"
      using g5 [THEN conjunct2, unfolded split_beta] by (simp only: sum.inject prod.inject)
  qed
qed

section \<open>Preservation\<close>

lemma appendedE:
  assumes "appended env mid s ev el t t'"
  obtains r where "chain_inv (env_hash env) (env_repr env) ml_lifecycle_chain_columns t'" "trows t' = trows t @ [r]"
    "rget r ''model_id'' = SText mid" "rget r ''to_state'' = SText s"
    "rget r ''evidence_json'' = SText (env_dumps env ev)"
    "rget r ''activation_eligible'' = SInt (if el then 1 else 0)"
  using assms unfolding appended_def by blast

lemma drift_states_iff:
  "v \<in> {SText ''drift_assessed'', SText ''retraining_required''} \<longleftrightarrow> (\<exists>s \<in> set ml_drift_lifecycle_states. v = SText s)"
  by (simp add: ml_drift_lifecycle_states_def)

lemma row_ok_from_fields:
  assumes "rget r ''to_state'' = SText s" and "rget r ''evidence_json'' = SText (env_dumps env ev)"
    and "rget r ''activation_eligible'' = SInt (if el then 1 else 0)"
    and "s \<in> set ml_lifecycle_states" and "\<not> (el \<and> s \<in> set ml_drift_lifecycle_states)"
    and "\<not> (s = ''active'' \<and> \<not> el)" and "el \<Longrightarrow> require_activation_gate_verdict ev = Inr ()"
  shows "lifecycle_row_ok env r"
  using assms unfolding lifecycle_row_ok_def drift_states_iff by (cases el) (simp_all, blast+)

lemma ml_inv_start: "ml_inv env empty_ml_store"
  by (simp add: ml_inv_def empty_ml_store_def chain_inv_empty)

text \<open>An append of a row that stands nobody down keeps every justification.\<close>

lemma ml_inv_append:
  assumes inv: "ml_inv env st" and app: "appended env mid s ev el (ml_lifecycle st) t"
    and ok: "s \<in> set ml_lifecycle_states" "\<not> (el \<and> s \<in> set ml_drift_lifecycle_states)"
      "\<not> (s = ''active'' \<and> \<not> el)" "el \<Longrightarrow> require_activation_gate_verdict ev = Inr ()"
    and d: "ids_ok d" and ids: "map mm_id ms = map mm_id (ml_models st)" and one: "length (filter mm_active ms) \<le> 1"
    and act: "\<And>m r. m \<in> set ms \<Longrightarrow> mm_active m \<Longrightarrow> trows t = trows (ml_lifecycle st) @ [r] \<Longrightarrow>
      rget r ''model_id'' = SText mid \<Longrightarrow> rget r ''to_state'' = SText s \<Longrightarrow>
      rget r ''activation_eligible'' = SInt (if el then 1 else 0) \<Longrightarrow> justified (mm_id m) (trows t)"
  shows "ml_inv env (st\<lparr>ml_models := ms, ml_lifecycle := t, ml_drift := d\<rparr>)"
proof -
  from app obtain r where r: "chain_inv (env_hash env) (env_repr env) ml_lifecycle_chain_columns t"
    "trows t = trows (ml_lifecycle st) @ [r]" "rget r ''model_id'' = SText mid" "rget r ''to_state'' = SText s"
    "rget r ''evidence_json'' = SText (env_dumps env ev)" "rget r ''activation_eligible'' = SInt (if el then 1 else 0)"
    by (rule appendedE)
  have "lifecycle_row_ok env r" by (rule row_ok_from_fields [OF r(4,5,6) ok])
  with inv have "\<forall>q \<in> set (trows t). lifecycle_row_ok env q" by (auto simp: ml_inv_def r(2))
  moreover have "\<forall>m \<in> set ms. mm_active m \<longrightarrow> justified (mm_id m) (trows t)" using act r(2,3,4,6) by blast
  ultimately show ?thesis using inv r(1) d one unfolding ml_inv_def by (simp add: ids)
qed

lemma stands_down_fields:
  "rget r ''model_id'' = SText mid \<Longrightarrow> rget r ''to_state'' = SText s \<Longrightarrow>
   stands_down i r \<longleftrightarrow> i = mid \<and> (s = ''retired'' \<or> s = ''drifted'')"
  unfolding stands_down_def by auto

lemma ml_inv_transition:
  assumes H: "is_digest (env_hash env)" and inv: "ml_inv env st"
    and w: "write_ml_lifecycle_transition env mid s why ev fs el actor c st = Inr (i, st')"
  shows "ml_inv env st'"
proof -
  let ?t = "snd (insert_ml_lifecycle env mid s fs why ev el actor c (ml_lifecycle st))"
  let ?ms = "if s = ''retired'' \<or> s = ''drifted'' then fst (set_ml_model_inactive mid (ml_models st)) else ml_models st"
  have ch: "chain_inv (env_hash env) (env_repr env) ml_lifecycle_chain_columns (ml_lifecycle st)"
    and one: "length (filter mm_active (ml_models st)) \<le> 1" and ids: "ids_ok (ml_drift st)"
    and j: "\<forall>m \<in> set (ml_models st). mm_active m \<longrightarrow> justified (mm_id m) (trows (ml_lifecycle st))"
    using inv by (simp_all add: ml_inv_def)
  note tr = transition_Inr [OF w]
  have "ml_inv env (st\<lparr>ml_models := ?ms, ml_lifecycle := ?t, ml_drift := ml_drift st\<rparr>)"
  proof (rule ml_inv_append [OF inv insert_ml_lifecycle_appended [OF H ch] tr(1-4) ids])
    show "map mm_id ?ms = map mm_id (ml_models st)" by simp
    have "length (filter (\<lambda>m. mm_active m \<and> mm_id m \<noteq> mid) (ml_models st)) \<le> length (filter mm_active (ml_models st))"
      by (rule length_filter_conj_le)
    then show "length (filter mm_active ?ms) \<le> 1" using one by (simp only: filter_set_inactive split: if_split) (meson order_trans)
    fix m r
    assume m: "m \<in> set ?ms" "mm_active m" and t: "trows ?t = trows (ml_lifecycle st) @ [r]"
      and r: "rget r ''model_id'' = SText mid" "rget r ''to_state'' = SText s"
    have "m \<in> set (ml_models st) \<and> \<not> (mm_id m = mid \<and> (s = ''retired'' \<or> s = ''drifted''))"
      using m active_set_inactive [OF _ m(2), of mid "ml_models st"] by (simp only: split: if_splits) blast+
    then have "justified (mm_id m) (trows (ml_lifecycle st))" "\<not> stands_down (mm_id m) r"
      using j m(2) stands_down_fields [OF r] by blast+
    then show "justified (mm_id m) (trows ?t)" unfolding t by (rule justified_snoc)
  qed
  also have "st\<lparr>ml_models := ?ms, ml_lifecycle := ?t, ml_drift := ml_drift st\<rparr> = st'" by (simp add: tr(5))
  finally show ?thesis .
qed

lemma ml_inv_activate:
  assumes H: "is_digest (env_hash env)" and inv: "ml_inv env st"
    and w: "activate_ml_model env now mid f n actor st = Inr (i, st')"
  shows "ml_inv env st'"
proof -
  from w obtain a where a: "normal_fpr_acceptance f n = Inr a" "ac_eligible a"
    and latest: "latest_state mid (ml_lifecycle st) = Some (SText ''eligible'')"
    and st': "st' = st\<lparr>ml_models := activate_only mid (ml_models st),
      ml_lifecycle := snd (insert_ml_lifecycle env mid ''active'' (Some ''eligible'')
      ''model activated after satisfying the activation gate''
      [(''acceptance'', PDict (acceptance_dict a)), (''false_positive_count'', PInt f), (''normal_window_count'', PInt n)]
      True actor now (ml_lifecycle st))\<rparr>"
    by (rule activate_Inr)
  let ?t = "ml_lifecycle st'" and ?ms = "ml_models st'"
  have ch: "chain_inv (env_hash env) (env_repr env) ml_lifecycle_chain_columns (ml_lifecycle st)"
    and d: "distinct (map mm_id (ml_models st))" and ids: "ids_ok (ml_drift st)"
    using inv by (simp_all add: ml_inv_def)
  have app: "appended env mid ''active''
      [(''acceptance'', PDict (acceptance_dict a)), (''false_positive_count'', PInt f), (''normal_window_count'', PInt n)]
      True (ml_lifecycle st) ?t"
    using insert_ml_lifecycle_appended [OF H ch] by (simp add: st')
  have "ml_inv env (st\<lparr>ml_models := ?ms, ml_lifecycle := ?t, ml_drift := ml_drift st\<rparr>)"
  proof (rule ml_inv_append [OF inv app _ _ _ _ ids])
    show "''active'' \<in> set ml_lifecycle_states" "\<not> (True \<and> ''active'' \<in> set ml_drift_lifecycle_states)"
      by (simp_all add: ml_lifecycle_states_def ml_drift_lifecycle_states_def)
    show "map mm_id ?ms = map mm_id (ml_models st)" by (simp add: st')
    show "length (filter mm_active ?ms) \<le> 1" using one_active_after [OF d] by (simp add: st')
    fix m r
    assume m: "m \<in> set ?ms" "mm_active m" and t: "trows ?t = trows (ml_lifecycle st) @ [r]"
      and r: "rget r ''model_id'' = SText mid" "rget r ''to_state'' = SText ''active''"
        "rget r ''activation_eligible'' = SInt (if True then 1 else 0)"
    have "mm_id m = mid" using active_activate_only m by (simp add: st')
    moreover have "model_history mid (trows (ml_lifecycle st)) \<noteq> []"
      "rget (last (model_history mid (trows (ml_lifecycle st)))) ''to_state'' = SText ''eligible''"
      using latest latest_state_history [OF ch, of mid] by (simp_all split: if_splits)
    ultimately show "justified (mm_id m) (trows ?t)" unfolding t using justified_now r by simp
  qed (use gate_evidence_accepted [OF a, of "[]"] in simp_all)
  also have "st\<lparr>ml_models := ?ms, ml_lifecycle := ?t, ml_drift := ml_drift st\<rparr> = st'" by (simp add: st')
  finally show ?thesis .
qed

lemma drift_Inr:
  assumes "write_ml_drift_assessment env a fs actor st = Inr (aid, lid, st')"
  shows "aid = next_id (ml_drift st)"
    and "st' = st\<lparr>ml_drift := snd (insert_row (drift_row a actor) (ml_drift st)),
      ml_lifecycle := snd (insert_ml_lifecycle env (da_model_id a) ''drift_assessed'' fs
        (''drift assessment recorded: '' @ da_status a)
        (drift_evidence (next_id (ml_drift st)) (content_hash (env_hash env) (env_repr env) ml_drift_core_columns
          (case find_row (next_id (ml_drift st)) (snd (insert_row (drift_row a actor) (ml_drift st))) of
             None \<Rightarrow> Map.empty | Some r \<Rightarrow> r)) a) False actor (da_created_at a) (ml_lifecycle st))\<rparr>"
  using Inr_ifD [OF assms [unfolded write_ml_drift_assessment_def split_beta Let_def fst_insert_row],
      THEN conjunct2, THEN sum.inject(2) [THEN iffD1], symmetric]
  by (simp_all only: prod.inject)

lemma ml_inv_drift:
  assumes H: "is_digest (env_hash env)" and inv: "ml_inv env st"
    and w: "write_ml_drift_assessment env a fs actor st = Inr (aid, lid, st')"
  shows "ml_inv env st'"
proof -
  have ch: "chain_inv (env_hash env) (env_repr env) ml_lifecycle_chain_columns (ml_lifecycle st)"
    and one: "length (filter mm_active (ml_models st)) \<le> 1" and ids: "ids_ok (ml_drift st)"
    and j: "\<forall>m \<in> set (ml_models st). mm_active m \<longrightarrow> justified (mm_id m) (trows (ml_lifecycle st))"
    using inv by (simp_all add: ml_inv_def)
  have eq: "\<exists>x ev c. ml_lifecycle st' =
      snd (insert_ml_lifecycle env (da_model_id a) ''drift_assessed'' fs x ev False actor c (ml_lifecycle st))"
    using arg_cong [OF drift_Inr(2) [OF w], of ml_lifecycle] by (simp del: append_Cons append_Nil) blast
  then obtain ev where app: "appended env (da_model_id a) ''drift_assessed'' ev False (ml_lifecycle st) (ml_lifecycle st')"
    using insert_ml_lifecycle_appended [OF H ch] by metis
  have "ml_inv env (st\<lparr>ml_models := ml_models st, ml_lifecycle := ml_lifecycle st', ml_drift := ml_drift st'\<rparr>)"
  proof (rule ml_inv_append [OF inv app])
    show "''drift_assessed'' \<in> set ml_lifecycle_states" by (simp add: ml_lifecycle_states_def)
    show "ids_ok (ml_drift st')" by (simp add: drift_Inr(2) [OF w] ids ids_ok_insert_row)
    fix m r
    assume m: "m \<in> set (ml_models st)" "mm_active m" and t: "trows (ml_lifecycle st') = trows (ml_lifecycle st) @ [r]"
      and r: "rget r ''model_id'' = SText (da_model_id a)" "rget r ''to_state'' = SText ''drift_assessed''"
    have "\<not> stands_down (mm_id m) r" using stands_down_fields [OF r] by simp
    with j m show "justified (mm_id m) (trows (ml_lifecycle st'))" unfolding t by (simp add: justified_snoc)
  qed (use one in simp_all)
  also have "st\<lparr>ml_models := ml_models st, ml_lifecycle := ml_lifecycle st', ml_drift := ml_drift st'\<rparr> = st'"
    by (simp add: drift_Inr(2) [OF w])
  finally show ?thesis .
qed

lemma ml_inv_write_model: "ml_inv env st \<Longrightarrow> write_ml_model m st = Inr (i, st') \<Longrightarrow> ml_inv env st'"
  by (auto simp: write_ml_model_def ml_inv_def split: if_splits)

lemma ml_inv_deactivate:
  assumes "ml_inv env st" and "deactivate_ml_model mid st = (was, st')"
  shows "ml_inv env st'"
proof -
  have st': "st' = st\<lparr>ml_models := fst (set_ml_model_inactive mid (ml_models st))\<rparr>"
    using assms(2) by (auto simp: deactivate_ml_model_def split_beta)
  have "length (filter (\<lambda>m. mm_active m \<and> mm_id m \<noteq> mid) (ml_models st)) \<le> length (filter mm_active (ml_models st))"
    by (rule length_filter_conj_le)
  with assms(1) show ?thesis
    by (auto simp: ml_inv_def st' filter_set_inactive dest: active_set_inactive)
qed

lemma ml_inv_step: "is_digest (env_hash env) \<Longrightarrow> ml_inv env st \<Longrightarrow> ml_step env st st' \<Longrightarrow> ml_inv env st'"
  by (erule ml_step.cases)
    (blast intro: ml_inv_write_model ml_inv_activate ml_inv_deactivate ml_inv_transition ml_inv_drift)+

lemma ml_inv_reachable: "ml_reachable env st \<Longrightarrow> is_digest (env_hash env) \<Longrightarrow> ml_inv env st"
  by (induction rule: ml_reachable.induct) (auto intro: ml_inv_start ml_inv_step)

end
