(* ===== verification/Ml_Audit.thy ===== *)
theory Ml_Audit
  imports Ml_Invariants
begin

text \<open>
  The lifecycle log as an audit record: the drift bindings \<open>verify_ml_lifecycle_chain\<close> recomputes,
  the recorder API of \<^verbatim>\<open>ml/lifecycle.py\<close> as an instance of the \<open>append_log\<close> contract, and the
  properties of activation, retirement and verification.
\<close>

section \<open>Bindings\<close>

definition loads_ok :: "ml_env \<Rightarrow> bool" where
  "loads_ok env \<longleftrightarrow> (\<forall>i h a. env_dumps env (drift_evidence i h a) \<noteq> [] \<and>
     dget (env_loads env (env_dumps env (drift_evidence i h a))) ''drift_assessment_id'' = PInt i \<and>
     dget (env_loads env (env_dumps env (drift_evidence i h a))) ''assessment_hash'' = PStr h)"

definition row_evidence :: "ml_env \<Rightarrow> row \<Rightarrow> pydict" where
  "row_evidence env r = env_loads env (case rget r ''evidence_json'' of SText (c # s) \<Rightarrow> c # s | _ \<Rightarrow> ''{}'')"

definition bound_to :: "ml_env \<Rightarrow> table \<Rightarrow> row \<Rightarrow> bool" where
  "bound_to env d r \<longleftrightarrow>
     (\<exists>i stored. dget (row_evidence env r) ''drift_assessment_id'' = PInt i \<and> find_row i d = Some stored \<and>
        dget (row_evidence env r) ''assessment_hash'' =
          PStr (content_hash (env_hash env) (env_repr env) ml_drift_core_columns stored))"

definition ml_bound :: "ml_env \<Rightarrow> ml_store \<Rightarrow> bool" where
  "ml_bound env st \<longleftrightarrow> (\<forall>r \<in> set (trows (ml_lifecycle st)).
     rget r ''to_state'' = SText ''drift_assessed'' \<longrightarrow> bound_to env (ml_drift st) r)"

lemma verify_bindings_ok:
  "(\<forall>r \<in> set rs. rget r ''to_state'' = SText ''drift_assessed'' \<longrightarrow> bound_to env d r) \<Longrightarrow>
   verify_bindings env d v rs = v"
  by (induction rs) (auto simp: Let_def bound_to_def row_evidence_def as_py_int_def)

lemma find_row_insert: "find_row i d = Some s \<Longrightarrow> find_row i (snd (insert_row r d)) = Some s"
  by (simp add: find_row_def find_append)

lemma bound_to_insert: "bound_to env d r \<Longrightarrow> bound_to env (snd (insert_row x d)) r"
  unfolding bound_to_def using find_row_insert by blast

definition ml_log_inv :: "ml_env \<Rightarrow> ml_store \<Rightarrow> bool" where
  "ml_log_inv env st \<longleftrightarrow> is_digest (env_hash env) \<and> loads_ok env \<and> ml_inv env st \<and> ml_bound env st"

lemma ml_log_inv_start: "is_digest (env_hash env) \<Longrightarrow> loads_ok env \<Longrightarrow> ml_log_inv env empty_ml_store"
  using ml_inv_start [of env] by (simp add: ml_log_inv_def ml_bound_def empty_ml_store_def)

definition log_extends :: "ml_store \<Rightarrow> ml_store \<Rightarrow> bool" where
  "log_extends st st' \<longleftrightarrow> (\<exists>rs. trows (ml_lifecycle st') = trows (ml_lifecycle st) @ rs)"

lemma log_extends_refl [simp]: "log_extends st st"
  by (simp add: log_extends_def)

lemma log_extends_trans: "log_extends st st' \<Longrightarrow> log_extends st' st'' \<Longrightarrow> log_extends st st''"
  by (auto simp: log_extends_def)

lemma chain_of_inv: "ml_inv env st \<Longrightarrow> chain_inv (env_hash env) (env_repr env) ml_lifecycle_chain_columns (ml_lifecycle st)"
  by (simp add: ml_inv_def)

lemma transition_audited:
  assumes inv: "ml_log_inv env st" and s: "s \<noteq> ''drift_assessed''"
    and w: "write_ml_lifecycle_transition env mid s why ev fs el actor c st = Inr (i, st')"
  shows "ml_log_inv env st' \<and> log_extends st st'"
proof -
  have H: "is_digest (env_hash env)" and L: "loads_ok env" and i: "ml_inv env st" and b: "ml_bound env st"
    using inv by (simp_all add: ml_log_inv_def)
  have app: "appended env mid s ev el (ml_lifecycle st) (ml_lifecycle st')"
    using insert_ml_lifecycle_appended [OF H chain_of_inv [OF i]] by (simp add: transition_Inr(5) [OF w])
  then obtain r where r: "trows (ml_lifecycle st') = trows (ml_lifecycle st) @ [r]" "rget r ''to_state'' = SText s"
    by (rule appendedE)
  have "ml_drift st' = ml_drift st" by (simp add: transition_Inr(5) [OF w])
  with b r s have "ml_bound env st'" by (auto simp: ml_bound_def)
  with ml_inv_transition [OF H i w] H L r(1) show ?thesis by (simp add: ml_log_inv_def log_extends_def)
qed

lemma activate_audited:
  assumes inv: "ml_log_inv env st" and w: "activate_ml_model env now mid f n actor st = Inr (i, st')"
  shows "ml_log_inv env st' \<and> log_extends st st'"
proof -
  have H: "is_digest (env_hash env)" and L: "loads_ok env" and i: "ml_inv env st" and b: "ml_bound env st"
    using inv by (simp_all add: ml_log_inv_def)
  from w obtain ev where app: "appended env mid ''active'' ev True (ml_lifecycle st) (ml_lifecycle st')"
      and d: "ml_drift st' = ml_drift st"
  proof (rule activate_Inr)
    fix a
    assume "st' = st\<lparr>ml_models := activate_only mid (ml_models st),
      ml_lifecycle := snd (insert_ml_lifecycle env mid ''active'' (Some ''eligible'')
      ''model activated after satisfying the activation gate''
      [(''acceptance'', PDict (acceptance_dict a)), (''false_positive_count'', PInt f), (''normal_window_count'', PInt n)]
      True actor now (ml_lifecycle st))\<rparr>"
    then show ?thesis
      by (intro that) (simp, rule insert_ml_lifecycle_appended [OF H chain_of_inv [OF i]], simp)
  qed
  from app obtain r where r: "trows (ml_lifecycle st') = trows (ml_lifecycle st) @ [r]" "rget r ''to_state'' = SText ''active''"
    by (rule appendedE)
  have "ml_bound env st'" using b by (auto simp: ml_bound_def r d)
  with ml_inv_activate [OF H i w] H L r(1) show ?thesis by (simp add: ml_log_inv_def log_extends_def)
qed

lemma drift_audited:
  assumes inv: "ml_log_inv env st" and w: "write_ml_drift_assessment env a fs actor st = Inr (aid, lid, st')"
  shows "ml_log_inv env st' \<and> log_extends st st'"
proof -
  have H: "is_digest (env_hash env)" and L: "loads_ok env" and i: "ml_inv env st" and b: "ml_bound env st"
    using inv by (simp_all add: ml_log_inv_def)
  let ?aid = "next_id (ml_drift st)" and ?d = "snd (insert_row (drift_row a actor) (ml_drift st))"
  let ?stored = "(drift_row a actor)(''id'' \<mapsto> SInt ?aid)"
  let ?digest = "content_hash (env_hash env) (env_repr env) ml_drift_core_columns ?stored"
  have found: "find_row ?aid ?d = Some ?stored"
    using i by (intro find_row_inserted) (simp add: ml_inv_def)
  have d: "ml_drift st' = ?d" using arg_cong [OF drift_Inr(2) [OF w], of ml_drift] by simp
  have "ml_lifecycle st' = snd (insert_ml_lifecycle env (da_model_id a) ''drift_assessed'' fs
        (''drift assessment recorded: '' @ da_status a) (drift_evidence ?aid ?digest a) False actor (da_created_at a)
        (ml_lifecycle st))"
    using arg_cong [OF drift_Inr(2) [OF w], of ml_lifecycle] found by (simp del: append_Cons append_Nil)
  then have "appended env (da_model_id a) ''drift_assessed'' (drift_evidence ?aid ?digest a) False
      (ml_lifecycle st) (ml_lifecycle st')"
    using insert_ml_lifecycle_appended [OF H chain_of_inv [OF i]] by (simp only:)
  then obtain r where r: "trows (ml_lifecycle st') = trows (ml_lifecycle st) @ [r]"
    "rget r ''evidence_json'' = SText (env_dumps env (drift_evidence ?aid ?digest a))"
    by (rule appendedE)
  have "row_evidence env r = env_loads env (env_dumps env (drift_evidence ?aid ?digest a))"
    using L r(2) by (auto simp: row_evidence_def loads_ok_def split: list.split)
  then have "bound_to env ?d r" using L found by (auto simp: bound_to_def loads_ok_def)
  with b have "ml_bound env st'" by (auto simp: ml_bound_def d r(1) bound_to_insert)
  with ml_inv_drift [OF H i w] H L r(1) show ?thesis by (simp add: ml_log_inv_def log_extends_def)
qed

section \<open>The recorder API\<close>

datatype ml_call =
    Do_Write_Model ml_model
  | Do_Trained rat training_metadata "string option"
  | Do_Evaluated rat string pydict "string option"
  | Do_Gate rat string int int "int list option" "string option"
  | Do_Activation rat string int int "string option"
  | Do_Drift rat drift_in "string list" "string option"
  | Do_Drifted rat string string pydict "string option"
  | Do_Retired rat string string pydict "string option"
  | Do_Deactivate string

definition or_keep :: "ml_store \<Rightarrow> py_error + ('a \<times> ml_store) \<Rightarrow> ml_store" where
  "or_keep st res = (case res of Inl _ \<Rightarrow> st | Inr (_, st') \<Rightarrow> st')"

text \<open>A call that raises leaves the store as it was: its transaction is rolled back.\<close>

fun ml_apply :: "ml_env \<Rightarrow> ml_call \<Rightarrow> ml_store \<Rightarrow> ml_store" where
  "ml_apply env (Do_Write_Model m) st = or_keep st (write_ml_model m st)"
| "ml_apply env (Do_Trained now md who) st = or_keep st (record_trained env now md who st)"
| "ml_apply env (Do_Evaluated now mid rep who) st = or_keep st (record_evaluated env now mid rep who st)"
| "ml_apply env (Do_Gate now mid f n ws who) st = or_keep st (record_activation_gate env now mid f n ws who st)"
| "ml_apply env (Do_Activation now mid f n who) st = or_keep st (record_activation env now mid f n who st)"
| "ml_apply env (Do_Drift now a names who) st =
     (case record_drift_assessment env now a names who st of Inl _ \<Rightarrow> st | Inr st' \<Rightarrow> st')"
| "ml_apply env (Do_Drifted now mid why ev who) st = or_keep st (record_drifted env now mid why ev who st)"
| "ml_apply env (Do_Retired now mid why ev who) st = or_keep st (record_retired env now mid why ev who st)"
| "ml_apply env (Do_Deactivate mid) st = snd (deactivate_ml_model mid st)"

definition audited :: "ml_env \<Rightarrow> ml_store \<Rightarrow> ml_store \<Rightarrow> bool" where
  "audited env st st' \<longleftrightarrow> ml_log_inv env st' \<and> log_extends st st'"

lemma audited_refl: "ml_log_inv env st \<Longrightarrow> audited env st st"
  by (simp add: audited_def)

lemma or_keep_transition:
  assumes "ml_log_inv env st" and "s \<noteq> ''drift_assessed''"
  shows "audited env st (or_keep st (write_ml_lifecycle_transition env mid s why ev fs el actor c st))"
proof (cases "write_ml_lifecycle_transition env mid s why ev fs el actor c st")
  case (Inl e)
  with assms(1) show ?thesis by (simp add: or_keep_def audited_refl)
next
  case (Inr p)
  then show ?thesis using transition_audited [OF assms, of mid why ev fs el actor c "fst p" "snd p"]
    by (simp add: or_keep_def audited_def split_beta)
qed

lemma retraining_never_fails:
  "why \<noteq> [] \<Longrightarrow>
   \<exists>i st'. write_ml_lifecycle_transition env mid ''retraining_required'' why ev None False actor c st = Inr (i, st')"
  by (simp add: write_ml_lifecycle_transition_def ml_lifecycle_states_def Let_def split_beta)

text \<open>The second append of \<open>record_drift_assessment\<close> never raises, so no half-recorded drift is left.\<close>

lemma drift_cases:
  assumes "write_ml_drift_assessment env a None actor st = Inr (aid, lid, st1)"
  shows "record_drift_assessment env now a names actor st = Inr st1 \<or>
    (\<exists>why ev i st2. write_ml_lifecycle_transition env (da_model_id a) ''retraining_required'' why ev None False actor now st1
        = Inr (i, st2) \<and> record_drift_assessment env now a names actor st = Inr st2)"
proof (cases "da_status a = ''drift_detected''")
  case True
  have "retraining_reason a \<noteq> []" by (simp add: retraining_reason_def)
  from retraining_never_fails [OF this, of env "da_model_id a" "retraining_evidence aid a names" actor now st1]
  obtain i st2 where t: "write_ml_lifecycle_transition env (da_model_id a) ''retraining_required'' (retraining_reason a)
      (retraining_evidence aid a names) None False actor now st1 = Inr (i, st2)" by blast
  then have "record_drift_assessment env now a names actor st = Inr st2"
    unfolding record_drift_assessment_def assms sum.case prod.case t using True by simp
  with t show ?thesis by blast
next
  case False
  then show ?thesis by (simp add: record_drift_assessment_def assms)
qed

lemma audited_drift:
  assumes inv: "ml_log_inv env st"
  shows "audited env st (ml_apply env (Do_Drift now a names who) st)"
proof (cases "write_ml_drift_assessment env a None who st")
  case (Inl e)
  then show ?thesis using inv by (simp add: record_drift_assessment_def audited_refl)
next
  case (Inr p)
  then obtain aid lid st1 where w: "write_ml_drift_assessment env a None who st = Inr (aid, lid, st1)"
    by (cases p) auto
  note one = drift_audited [OF inv w]
  from drift_cases [OF w, of now names] show ?thesis
  proof (elim disjE exE conjE)
    assume "record_drift_assessment env now a names who st = Inr st1"
    with one show ?thesis by (simp add: audited_def)
  next
    fix why ev i st2
    assume t: "write_ml_lifecycle_transition env (da_model_id a) ''retraining_required'' why ev None False who now st1
        = Inr (i, st2)" and "record_drift_assessment env now a names who st = Inr st2"
    moreover have "ml_log_inv env st2 \<and> log_extends st1 st2"
      by (rule transition_audited [OF one [THEN conjunct1] _ t]) simp
    ultimately show ?thesis using one log_extends_trans by (auto simp: audited_def)
  qed
qed

lemma record_gate_Inr:
  assumes "record_activation_gate env now mid f n ws who st = Inr p"
  shows "\<exists>el why ev. write_ml_lifecycle_transition env mid (if el then ''eligible'' else ''ineligible'')
      why ev (Some ''evaluated'') el who now st = Inr p"
proof -
  note g1 = Inr_ifD [OF assms [unfolded record_activation_gate_def]]
  note g2 = Inr_ifD [OF g1 [THEN conjunct2]]
  from Inr_bindD [OF g2 [THEN conjunct2]] show ?thesis by (elim exE conjE) (intro exI, assumption)
qed

lemma audited_apply: "ml_log_inv env st \<Longrightarrow> audited env st (ml_apply env call st)"
proof (cases call)
  case (Do_Write_Model m)
  assume inv: "ml_log_inv env st"
  show ?thesis
  proof (cases "write_ml_model m st")
    case (Inl e)
    with inv Do_Write_Model show ?thesis by (simp add: or_keep_def audited_refl)
  next
    case (Inr p)
    then have "ml_inv env (snd p)" using ml_inv_write_model [of env st m "fst p" "snd p"] inv by (simp add: ml_log_inv_def)
    moreover have "ml_lifecycle (snd p) = ml_lifecycle st \<and> ml_drift (snd p) = ml_drift st"
      using Inr by (auto simp: write_ml_model_def split: if_splits)
    ultimately show ?thesis using Inr inv Do_Write_Model
      by (simp add: or_keep_def audited_def ml_log_inv_def ml_bound_def log_extends_def split_beta)
  qed
next
  case (Do_Evaluated now mid rep who)
  assume "ml_log_inv env st"
  then show ?thesis unfolding Do_Evaluated ml_apply.simps record_evaluated_def
    by (cases "{''normal_window_count'', ''normal_false_positive_count'', ''normal_false_positive_rate'', ''labels_available''}
           \<subseteq> set (map fst rep)")
      (simp_all only: if_True if_False not_True_eq_False not_False_eq_True or_keep_transition or_keep_def sum.case
        audited_refl list.inject char.inject, simp add: or_keep_transition [unfolded or_keep_def])
next
  case (Do_Gate now mid f n ws who)
  assume inv: "ml_log_inv env st"
  have s: "(if b then ''eligible'' else ''ineligible'') \<noteq> ''drift_assessed''" for b by simp
  show ?thesis
  proof (cases "record_activation_gate env now mid f n ws who st")
    case (Inl e)
    with inv Do_Gate show ?thesis by (simp add: or_keep_def audited_refl)
  next
    case (Inr p)
    then obtain el ev why where "write_ml_lifecycle_transition env mid (if el then ''eligible'' else ''ineligible'')
        why ev (Some ''evaluated'') el who now st = Inr p"
      using record_gate_Inr by blast
    then show ?thesis using transition_audited [OF inv s, of mid el why ev "Some ''evaluated''" el who now "fst p" "snd p"]
      Inr Do_Gate by (simp add: or_keep_def audited_def split_beta)
  qed
next
  case (Do_Activation now mid f n who)
  assume inv: "ml_log_inv env st"
  show ?thesis
  proof (cases "activate_ml_model env now mid f n who st")
    case (Inl e)
    with inv Do_Activation show ?thesis by (simp add: or_keep_def record_activation_def audited_refl)
  next
    case (Inr p)
    then show ?thesis using activate_audited [OF inv, of now mid f n who "fst p" "snd p"] Do_Activation
      by (simp add: or_keep_def record_activation_def audited_def split_beta)
  qed
next
  case (Do_Deactivate mid)
  assume inv: "ml_log_inv env st"
  have "ml_inv env (snd (deactivate_ml_model mid st))"
    using inv ml_inv_deactivate [of env st mid] by (simp add: ml_log_inv_def prod_eq_iff)
  with inv Do_Deactivate show ?thesis
    by (simp add: audited_def ml_log_inv_def ml_bound_def log_extends_def deactivate_ml_model_def split_beta)
next
  case (Do_Drift now a names who)
  assume "ml_log_inv env st"
  then show ?thesis unfolding Do_Drift by (rule audited_drift)
qed (simp_all only: ml_apply.simps record_trained_def record_drifted_def record_retired_def,
  simp_all add: or_keep_transition)

interpretation lifecycle_log: append_log "ml_log_inv env" "\<lambda>st. trows (ml_lifecycle st)" "ml_apply env"
  "verify_ml_lifecycle_chain env" for env
proof
  fix st call
  assume inv: "ml_log_inv env st"
  from audited_apply [OF inv, of call] show "ml_log_inv env (ml_apply env call st)"
    and "\<exists>rs. trows (ml_lifecycle (ml_apply env call st)) = trows (ml_lifecycle st) @ rs"
    by (simp_all add: audited_def log_extends_def)
  have ch: "chain_inv (env_hash env) (env_repr env) ml_lifecycle_chain_columns (ml_lifecycle st)"
    using inv chain_of_inv by (simp add: ml_log_inv_def)
  then have rows: "order_by_chain (trows (ml_lifecycle st)) = trows (ml_lifecycle st)"
    using order_by_chain_id by (auto simp: chain_inv_def)
  have "verify_bindings env (ml_drift st) v (trows (ml_lifecycle st)) = v" for v
    using inv by (intro verify_bindings_ok) (simp add: ml_log_inv_def ml_bound_def)
  then show "ok (verify_ml_lifecycle_chain env st) \<and>
      checked (verify_ml_lifecycle_chain env st) = length (trows (ml_lifecycle st))"
    using verify_table_inv [OF ch] by (simp add: verify_ml_lifecycle_chain_def verify_table_def rows Let_def)
qed

section \<open>A concrete environment\<close>

text \<open>
  \<open>demo_dumps\<close> renders exactly the two keys the verifier reads; \<open>demo_loads\<close> reads them back.
\<close>

definition demo_dumps :: "pydict \<Rightarrow> string" where
  "demo_dumps d = (case (dget d ''drift_assessment_id'', dget d ''assessment_hash'') of
     (PInt i, PStr h) \<Rightarrow> int_str i @ CHR 0x0A # h | _ \<Rightarrow> ''{}'')"

definition str_int :: "string \<Rightarrow> int" where
  "str_int s = (case s of c # r \<Rightarrow> if c = CHR ''-'' then - int (digits_val r) else int (digits_val s) | [] \<Rightarrow> 0)"

definition demo_loads :: "string \<Rightarrow> pydict" where
  "demo_loads s =
     (if CHR 0x0A \<notin> set s then []
      else [(''drift_assessment_id'', PInt (str_int (takeWhile (\<lambda>c. c \<noteq> CHR 0x0A) s))),
            (''assessment_hash'', PStr (drop 1 (dropWhile (\<lambda>c. c \<noteq> CHR 0x0A) s)))])"

definition demo_env :: ml_env where
  "demo_env = \<lparr>env_hash = demo_hash, env_repr = demo_repr, env_dumps = demo_dumps, env_loads = demo_loads\<rparr>"

lemma str_int_str [simp]: "str_int (int_str i) = i"
proof (cases "i < 0")
  case True
  then show ?thesis by (simp add: str_int_def int_str_def digits_val_nat_str)
next
  case False
  have "CHR ''-'' \<notin> set (nat_str (nat i))" by (rule dash_not_in_nat_str)
  then have "str_int (nat_str (nat i)) = int (digits_val (nat_str (nat i)))"
    by (cases "nat_str (nat i)") (auto simp: str_int_def)
  with False show ?thesis by (simp add: int_str_def digits_val_nat_str)
qed

lemma split_line:
  assumes "CHR 0x0A \<notin> set a"
  shows "takeWhile (\<lambda>c. c \<noteq> CHR 0x0A) (a @ CHR 0x0A # b) = a" and "dropWhile (\<lambda>c. c \<noteq> CHR 0x0A) (a @ CHR 0x0A # b) = CHR 0x0A # b"
  using assms by (induction a) auto

lemma demo_env_ok [simp]: "loads_ok demo_env" "is_digest (env_hash demo_env)"
proof -
  have "dget (drift_evidence i h a) ''drift_assessment_id'' = PInt i"
    "dget (drift_evidence i h a) ''assessment_hash'' = PStr h" for i h a
    by (simp_all add: drift_evidence_def dget_def)
  then have "demo_dumps (drift_evidence i h a) = int_str i @ CHR 0x0A # h" for i h a by (simp add: demo_dumps_def)
  then show "loads_ok demo_env"
    by (simp add: loads_ok_def demo_env_def demo_loads_def dget_def split_line [OF newline_not_in_int_str])
  show "is_digest (env_hash demo_env)" by (simp add: demo_env_def)
qed

section \<open>A concrete history\<close>

definition demo_model :: ml_model where
  "demo_model = \<lparr>mm_id = ''m'', mm_version = ''1'', mm_algorithm = ''iforest'', mm_artifact_checksum = ''c'',
     mm_schema_version = ''1'', mm_schema_hash = ''s'', mm_training_window_ids = [1], mm_active = False, mm_created_at = 0\<rparr>"

definition demo_written :: ml_store where
  "demo_written = or_keep empty_ml_store (write_ml_model demo_model empty_ml_store)"

definition demo_eligible :: ml_store where
  "demo_eligible = or_keep demo_written (record_activation_gate demo_env 0 ''m'' 0 60 None None demo_written)"

definition demo_active :: ml_store where
  "demo_active = or_keep demo_eligible (activate_ml_model demo_env 0 ''m'' 0 60 None demo_eligible)"

definition demo_retired :: ml_store where
  "demo_retired = or_keep demo_active (record_retired demo_env 0 ''m'' ''end of life'' [] None demo_active)"

lemma demo_gate: "\<exists>a. normal_fpr_acceptance 0 60 = Inr a \<and> ac_eligible a"
proof -
  have "gate_open 0 60" by (simp add: gate_open_margin gate_margin_def)
  then show ?thesis by (auto simp: gate_open_def split: sum.splits)
qed

lemma demo_written_step: "write_ml_model demo_model empty_ml_store = Inr (''m'', demo_written)"
  by (simp add: demo_written_def write_ml_model_def or_keep_def demo_model_def empty_ml_store_def)

lemma demo_eligible_step:
  "\<exists>why ev i. write_ml_lifecycle_transition demo_env ''m'' ''eligible'' why ev (Some ''evaluated'') True None 0 demo_written
     = Inr (i, demo_eligible)"
proof -
  obtain a where a: "normal_fpr_acceptance 0 60 = Inr a" "ac_eligible a" using demo_gate by blast
  let ?ev = "[(''acceptance'', PDict (acceptance_dict a)), (''false_positive_count'', PInt 0),
    (''normal_window_count'', PInt 60), (''holdout_window_ids'', PNone)]"
  have ok: "require_activation_gate_verdict ?ev = Inr ()" by (rule gate_evidence_accepted [OF a])
  have gate: "record_activation_gate demo_env 0 ''m'' 0 60 None None demo_written =
      write_ml_lifecycle_transition demo_env ''m'' ''eligible'' ''activation gate satisfied'' ?ev (Some ''evaluated'') True None 0 demo_written"
    by (simp add: record_activation_gate_def a)
  obtain p where p: "write_ml_lifecycle_transition demo_env ''m'' ''eligible'' ''activation gate satisfied'' ?ev (Some ''evaluated'') True None 0 demo_written = Inr p"
    by (simp add: write_ml_lifecycle_transition_def ml_lifecycle_states_def ml_drift_lifecycle_states_def ok split_beta Let_def)
  then have "demo_eligible = snd p" by (simp add: demo_eligible_def gate or_keep_def split_beta)
  with p show ?thesis by (intro exI [of _ "''activation gate satisfied''"] exI [of _ ?ev] exI [of _ "fst p"])
    (simp only: sum.inject prod_eq_iff fst_conv snd_conv simp_thms)
qed

lemma demo_eligible_fields:
  "ml_models demo_eligible = [demo_model]"
  "latest_state ''m'' (ml_lifecycle demo_eligible) = Some (SText ''eligible'')"
  "ml_reachable demo_env demo_eligible"
  "\<exists>r \<in> set (trows (ml_lifecycle demo_eligible)). rget r ''activation_eligible'' = SInt 1"
  "length (trows (ml_lifecycle demo_eligible)) = 1"
proof -
  obtain why ev i where w: "write_ml_lifecycle_transition demo_env ''m'' ''eligible'' why ev (Some ''evaluated'') True None 0 demo_written
     = Inr (i, demo_eligible)" using demo_eligible_step by blast
  have r1: "ml_reachable demo_env demo_written"
    by (rule ml_reachable.Step [OF ml_reachable.Start ml_step.Write_Model [OF demo_written_step]])
  show r2: "ml_reachable demo_env demo_eligible" by (rule ml_reachable.Step [OF r1 ml_step.Transition [OF w]])
  have ch: "chain_inv (env_hash demo_env) (env_repr demo_env) ml_lifecycle_chain_columns (ml_lifecycle st)"
    if "ml_reachable demo_env st" for st
    using ml_inv_reachable [OF that] by (simp add: ml_inv_def)
  have wr: "demo_written = \<lparr>ml_models = [demo_model], ml_lifecycle = empty_table, ml_drift = empty_table\<rparr>"
    by (simp add: demo_written_def write_ml_model_def or_keep_def demo_model_def empty_ml_store_def)
  show "ml_models demo_eligible = [demo_model]" by (simp add: transition_Inr(5) [OF w] wr)
  have "appended demo_env ''m'' ''eligible'' ev True (ml_lifecycle demo_written) (ml_lifecycle demo_eligible)"
    using insert_ml_lifecycle_appended [OF demo_env_ok(2) ch [OF r1]] by (simp add: transition_Inr(5) [OF w])
  then obtain r where r: "trows (ml_lifecycle demo_eligible) = trows (ml_lifecycle demo_written) @ [r]"
    "rget r ''model_id'' = SText ''m''" "rget r ''to_state'' = SText ''eligible''"
    "rget r ''activation_eligible'' = SInt (if True then 1 else 0)"
    by (rule appendedE)
  have one: "trows (ml_lifecycle demo_eligible) = [r]" using r(1) by (simp add: wr)
  then show "length (trows (ml_lifecycle demo_eligible)) = 1" by simp
  show "latest_state ''m'' (ml_lifecycle demo_eligible) = Some (SText ''eligible'')"
    unfolding latest_state_history [OF ch [OF r2]] by (simp add: one model_history_def r(2,3))
  show "\<exists>r \<in> set (trows (ml_lifecycle demo_eligible)). rget r ''activation_eligible'' = SInt 1"
    using one r(4) by simp
qed

lemma demo_active_step: "\<exists>i. activate_ml_model demo_env 0 ''m'' 0 60 None demo_eligible = Inr (i, demo_active)"
proof -
  obtain a where a: "normal_fpr_acceptance 0 60 = Inr a" "ac_eligible a" using demo_gate by blast
  have "mm_id demo_model = ''m''" by (simp add: demo_model_def)
  then obtain p where "activate_ml_model demo_env 0 ''m'' 0 60 None demo_eligible = Inr p"
    by (simp add: activate_ml_model_def a demo_eligible_fields gate_evidence_accepted [OF a] Let_def split_beta)
  then show ?thesis by (intro exI [of _ "fst p"]) (simp add: demo_active_def or_keep_def split_beta)
qed

lemma demo_retired_step:
  "\<exists>i. write_ml_lifecycle_transition demo_env ''m'' ''retired'' ''end of life'' [] None False None 0 demo_active = Inr (i, demo_retired)"
proof -
  obtain p where "write_ml_lifecycle_transition demo_env ''m'' ''retired'' ''end of life'' [] None False None 0 demo_active = Inr p"
    by (simp add: write_ml_lifecycle_transition_def ml_lifecycle_states_def split_beta Let_def)
  then show ?thesis by (intro exI [of _ "fst p"]) (simp add: demo_retired_def record_retired_def or_keep_def split_beta)
qed

section \<open>Properties\<close>

text \<open>C4: in every reachable registry at most one model is active, and every active model is justified by the
  log: some row recorded its activation with the gate's eligibility, the model's latest state before that
  row was \<open>eligible\<close>, and no later row retired it or judged it drifted.\<close>

theorem active_models_justified:
  assumes "is_digest (env_hash env)" and "ml_reachable env st"
  shows "length (filter mm_active (ml_models st)) \<le> 1 \<and>
    (\<forall>m \<in> set (ml_models st). mm_active m \<longrightarrow> justified (mm_id m) (trows (ml_lifecycle st)))"
  using ml_inv_reachable [OF assms(2,1)] by (simp add: ml_inv_def)

theorem active_models_justified_witness:
  "length (filter mm_active (ml_models demo_active)) \<le> 1 \<and>
    list_all (\<lambda>m. justified (mm_id m) (trows (ml_lifecycle demo_active))) (filter mm_active (ml_models demo_active))"
proof -
  obtain i where "activate_ml_model demo_env 0 ''m'' 0 60 None demo_eligible = Inr (i, demo_active)"
    using demo_active_step by blast
  note reach = ml_reachable.Step [OF demo_eligible_fields(3) ml_step.Activate [OF this]]
  show ?thesis using active_models_justified [OF demo_env_ok(2) reach] by (simp add: list_all_iff)
qed

text \<open>No row of a reachable log claims eligibility the gate would refuse: a row with
  \<open>activation_eligible = 1\<close> stores evidence whose counts open the gate when it is run again.\<close>

theorem eligibility_claims_supported:
  assumes "is_digest (env_hash env)" and "ml_reachable env st" and "r \<in> set (trows (ml_lifecycle st))"
    and "rget r ''activation_eligible'' = SInt 1"
  shows "\<exists>ev f n. rget r ''evidence_json'' = SText (env_dumps env ev) \<and>
    as_py_int (dget ev ''false_positive_count'') = Some f \<and> as_py_int (dget ev ''normal_window_count'') = Some n \<and>
    gate_open f n"
proof -
  have "lifecycle_row_ok env r" using ml_inv_reachable [OF assms(2,1)] assms(3) by (simp add: ml_inv_def)
  with assms(4) obtain ev where "rget r ''evidence_json'' = SText (env_dumps env ev)"
    "require_activation_gate_verdict ev = Inr ()"
    by (auto simp: lifecycle_row_ok_def)
  with verdict_means_gate_open show ?thesis by blast
qed

theorem eligibility_claims_supported_witness:
  "\<exists>r ev f n. r \<in> set (trows (ml_lifecycle demo_eligible)) \<and> rget r ''evidence_json'' = SText (env_dumps demo_env ev) \<and>
    as_py_int (dget ev ''false_positive_count'') = Some f \<and> as_py_int (dget ev ''normal_window_count'') = Some n \<and>
    gate_open f n"
  using eligibility_claims_supported [OF demo_env_ok(2) demo_eligible_fields(3)] demo_eligible_fields(4) by blast

text \<open>A successful \<open>retired\<close> or \<open>drifted\<close> append stands the model down in the same transaction and leaves
  every other model's flag as it was.\<close>

theorem retirement_stands_down:
  assumes "write_ml_lifecycle_transition env mid s why ev fs el actor c st = Inr (i, st')"
    and "s \<in> {''retired'', ''drifted''}"
  shows "(\<forall>m \<in> set (ml_models st'). mm_id m = mid \<longrightarrow> \<not> mm_active m) \<and>
    filter (\<lambda>m. mm_id m \<noteq> mid) (ml_models st') = filter (\<lambda>m. mm_id m \<noteq> mid) (ml_models st)"
proof -
  have ms: "ml_models st' = fst (set_ml_model_inactive mid (ml_models st))"
    using assms(2) by (simp add: transition_Inr(5) [OF assms(1)])
  have "filter (\<lambda>m. mm_id m \<noteq> mid) (fst (set_ml_model_inactive mid xs)) = filter (\<lambda>m. mm_id m \<noteq> mid) xs" for xs
    by (induction xs) (auto simp: set_ml_model_inactive_def)
  then show ?thesis unfolding ms using active_set_inactive by blast
qed

theorem retirement_stands_down_witness:
  "filter (\<lambda>m. mm_id m = ''m'' \<and> mm_active m) (ml_models demo_retired) = [] \<and>
    filter (\<lambda>m. mm_id m \<noteq> ''m'') (ml_models demo_retired) = filter (\<lambda>m. mm_id m \<noteq> ''m'') (ml_models demo_active)"
proof -
  obtain i where "write_ml_lifecycle_transition demo_env ''m'' ''retired'' ''end of life'' [] None False None 0 demo_active
      = Inr (i, demo_retired)" using demo_retired_step by blast
  from retirement_stands_down [OF this] show ?thesis by (simp add: filter_empty_conv)
qed

text \<open>C5: activation succeeds only when the gate opens for the given counts, the model exists and its latest
  recorded state is \<open>eligible\<close>; afterwards exactly that model is active.\<close>

theorem activation_is_gated:
  assumes "activate_ml_model env now mid f n actor st = Inr (i, st')"
  shows "gate_open f n \<and> latest_state mid (ml_lifecycle st) = Some (SText ''eligible'') \<and>
    mid \<in> set (map mm_id (ml_models st')) \<and>
    (\<forall>m \<in> set (ml_models st'). mm_active m \<longleftrightarrow> mm_id m = mid)"
proof (rule activate_Inr [OF assms])
  fix a
  assume a: "normal_fpr_acceptance f n = Inr a" "ac_eligible a" "mid \<in> set (map mm_id (ml_models st))"
    "latest_state mid (ml_lifecycle st) = Some (SText ''eligible'')"
    and st': "st' = st\<lparr>ml_models := activate_only mid (ml_models st),
      ml_lifecycle := snd (insert_ml_lifecycle env mid ''active'' (Some ''eligible'')
      ''model activated after satisfying the activation gate''
      [(''acceptance'', PDict (acceptance_dict a)), (''false_positive_count'', PInt f), (''normal_window_count'', PInt n)]
      True actor now (ml_lifecycle st))\<rparr>"
  have ms: "ml_models st' = activate_only mid (ml_models st)" by (simp add: st')
  have "\<forall>m \<in> set (activate_only mid xs). mm_active m \<longleftrightarrow> mm_id m = mid" for xs
    using active_activate_only activate_only_active by blast
  moreover have "gate_open f n" by (simp add: gate_open_def a(1,2))
  ultimately show ?thesis using a(3,4) unfolding ms ids_activate_only by blast
qed

theorem activation_is_gated_witness:
  "gate_open 0 60 \<and> latest_state ''m'' (ml_lifecycle demo_eligible) = Some (SText ''eligible'') \<and>
    ''m'' \<in> set (map mm_id (ml_models demo_active)) \<and>
    list_all (\<lambda>m. mm_active m \<longleftrightarrow> mm_id m = ''m'') (ml_models demo_active)"
proof -
  obtain i where "activate_ml_model demo_env 0 ''m'' 0 60 None demo_eligible = Inr (i, demo_active)"
    using demo_active_step by blast
  from activation_is_gated [OF this] show ?thesis unfolding list_all_iff .
qed

text \<open>Whatever sequence of recorder calls is made, accepted or refused, the lifecycle log verifies in full,
  drift bindings included, and no earlier row is changed.\<close>

theorem recorders_keep_log_verifiable:
  assumes "is_digest (env_hash env)" and "loads_ok env"
  shows "let st = fold (ml_apply env) calls empty_ml_store; st' = fold (ml_apply env) later st in
    ok (verify_ml_lifecycle_chain env st') \<and>
    (\<exists>rs. trows (ml_lifecycle st') = trows (ml_lifecycle st) @ rs)"
proof -
  have inv: "ml_log_inv env (fold (ml_apply env) calls empty_ml_store)"
    by (rule lifecycle_log.inv_run [OF ml_log_inv_start [OF assms]])
  show ?thesis
    unfolding Let_def using lifecycle_log.run_verifies [OF inv] lifecycle_log.run_grows [OF inv] by blast
qed

theorem recorders_keep_log_verifiable_witness:
  "let st = fold (ml_apply demo_env) [Do_Retired 0 ''m'' ''end of life'' [] None] empty_ml_store;
       st' = fold (ml_apply demo_env) [Do_Deactivate ''m''] st in
    ok (verify_ml_lifecycle_chain demo_env st') \<and>
    (\<exists>rs. trows (ml_lifecycle st') = trows (ml_lifecycle st) @ rs)"
  by (rule recorders_keep_log_verifiable) simp_all

end
