(* ===== verification/Ml_Gaps.thy ===== *)
theory Ml_Gaps
  imports Ml_Audit
begin

text \<open>
  What the lifecycle verifier detects beyond the chain (an edited or deleted drift assessment), how the
  report's \<open>current_state\<close> relates to the state \<open>activate_ml_model\<close> decides on, and where the public
  writer accepts more than the documentation of \<^verbatim>\<open>ml/lifecycle.py\<close> says.
\<close>

section \<open>Bindings, exactly\<close>

definition binding_matches :: "ml_env \<Rightarrow> table \<Rightarrow> row \<Rightarrow> bool" where
  "binding_matches env d r =
     (case as_py_int (dget (row_evidence env r) ''drift_assessment_id'') of
        None \<Rightarrow> False
      | Some i \<Rightarrow> (case find_row i d of
            None \<Rightarrow> False
          | Some stored \<Rightarrow> dget (row_evidence env r) ''assessment_hash'' =
              PStr (content_hash (env_hash env) (env_repr env) ml_drift_core_columns stored)))"

lemma verify_bindings_iff:
  "ok v \<Longrightarrow> ok (verify_bindings env d v rs) \<longleftrightarrow>
     (\<forall>r \<in> set rs. rget r ''to_state'' = SText ''drift_assessed'' \<longrightarrow> binding_matches env d r)"
  by (induction rs)
    (auto simp: Let_def binding_matches_def row_evidence_def broken_def split: option.splits if_splits)

lemma verify_lifecycle_iff:
  assumes "chain_inv (env_hash env) (env_repr env) ml_lifecycle_chain_columns (ml_lifecycle st)"
  shows "ok (verify_ml_lifecycle_chain env st) \<longleftrightarrow>
    (\<forall>r \<in> set (trows (ml_lifecycle st)).
      rget r ''to_state'' = SText ''drift_assessed'' \<longrightarrow> binding_matches env (ml_drift st) r)"
proof -
  have rows: "order_by_chain (trows (ml_lifecycle st)) = trows (ml_lifecycle st)"
    using assms order_by_chain_id by (auto simp: chain_inv_def)
  have "verify_chain (env_hash env) (env_repr env) ml_lifecycle_chain_columns (trows (ml_lifecycle st)) =
      \<lparr>ok = True, checked = length (trows (ml_lifecycle st)), break_seq = SNull, reason = None\<rparr>"
    using verify_table_inv [OF assms] by (simp add: verify_table_def rows)
  then show ?thesis
    using verify_bindings_iff [of _ env "ml_drift st" "trows (ml_lifecycle st)"]
    by (simp add: verify_ml_lifecycle_chain_def rows Let_def)
qed

section \<open>States\<close>

lemma read_one_model:
  assumes "chain_inv H fr ml_lifecycle_chain_columns t" and "mid \<noteq> []"
  shows "read_ml_lifecycle (Some mid) limit t =
    take (nat (max 1 limit)) (filter (\<lambda>r. rget r ''model_id'' = SText mid) (trows t))"
proof -
  have "order_by_chain (trows t) = trows t" using assms(1) order_by_chain_id by (auto simp: chain_inv_def)
  then have "order_by_chain (filter p (trows t)) = filter p (trows t)" for p
    by (simp add: order_by_chain_def filter_sort [symmetric])
  with assms(2) show ?thesis by (cases mid) (simp_all add: read_ml_lifecycle_def)
qed

lemma map_replicate_filter: "map f rs = replicate n v \<Longrightarrow> filter (\<lambda>r. f r = v) rs = rs \<and> length rs = n"
proof (induction rs arbitrary: n)
  case (Cons r rs)
  then show ?case by (cases n) auto
qed simp

section \<open>A recorded assessment\<close>

definition demo_assessment :: drift_in where
  "demo_assessment = \<lparr>da_model_id = ''m'', da_comparison_dataset_id = ''d'', da_status = ''no_drift_detected'',
     da_method = ''ks'', da_alpha = 1/20, da_reference_window_count = 60, da_comparison_window_count = 60,
     da_drifted_feature_count = 0, da_out_of_range_rate = None, da_features = ''[]'', da_reasons = ''[]'', da_created_at = 0\<rparr>"

definition demo_drifted :: ml_store where
  "demo_drifted = ml_apply demo_env (Do_Drift 0 demo_assessment [] None) empty_ml_store"

lemma demo_drifted_facts:
  "ml_log_inv demo_env demo_drifted"
  "\<exists>r stored. r \<in> set (trows (ml_lifecycle demo_drifted)) \<and> rget r ''to_state'' = SText ''drift_assessed'' \<and>
     dget (row_evidence demo_env r) ''drift_assessment_id'' = PInt 1 \<and> find_row 1 (ml_drift demo_drifted) = Some stored"
proof -
  have start: "ml_log_inv demo_env empty_ml_store" by (rule ml_log_inv_start) simp_all
  show inv: "ml_log_inv demo_env demo_drifted"
    using audited_apply [OF start] unfolding demo_drifted_def audited_def by blast
  obtain aid lid st where w: "write_ml_drift_assessment demo_env demo_assessment None None empty_ml_store = Inr (aid, lid, st)"
    by (simp add: write_ml_drift_assessment_def ml_drift_statuses_def demo_assessment_def split_beta Let_def)
  have "da_status demo_assessment \<noteq> ''drift_detected''" by (simp add: demo_assessment_def)
  then have st: "demo_drifted = st"
    by (simp add: demo_drifted_def record_drift_assessment_def w)
  have H: "is_digest (env_hash demo_env)" by simp
  have eq: "\<exists>x ev c. ml_lifecycle st =
      snd (insert_ml_lifecycle demo_env (da_model_id demo_assessment) ''drift_assessed'' None x ev False None c (ml_lifecycle empty_ml_store))"
    using arg_cong [OF drift_Inr(2) [OF w], of ml_lifecycle] by (simp del: append_Cons append_Nil) blast
  have ch: "chain_inv (env_hash demo_env) (env_repr demo_env) ml_lifecycle_chain_columns (ml_lifecycle empty_ml_store)"
    by (simp add: empty_ml_store_def chain_inv_empty)
  obtain ev where "appended demo_env (da_model_id demo_assessment) ''drift_assessed'' ev False (ml_lifecycle empty_ml_store) (ml_lifecycle st)"
    using insert_ml_lifecycle_appended [OF H ch] eq by metis
  then obtain r where r: "trows (ml_lifecycle st) = trows (ml_lifecycle empty_ml_store) @ [r]"
    "rget r ''to_state'' = SText ''drift_assessed''" by (rule appendedE)
  have d: "ml_drift st = snd (insert_row (drift_row demo_assessment None) (ml_drift empty_ml_store))"
    using arg_cong [OF drift_Inr(2) [OF w], of ml_drift] by simp
  have "bound_to demo_env (ml_drift st) r" using inv r by (simp add: st ml_log_inv_def ml_bound_def)
  then obtain i s where i: "dget (row_evidence demo_env r) ''drift_assessment_id'' = PInt i" "find_row i (ml_drift st) = Some s"
    by (auto simp: bound_to_def)
  have "i = 1" using i(2) by (simp add: d empty_ml_store_def find_row_def empty_table_def split: if_splits)
  with i r show "\<exists>r stored. r \<in> set (trows (ml_lifecycle demo_drifted)) \<and> rget r ''to_state'' = SText ''drift_assessed'' \<and>
     dget (row_evidence demo_env r) ''drift_assessment_id'' = PInt 1 \<and> find_row 1 (ml_drift demo_drifted) = Some stored"
    by (auto simp: st)
qed

lemma demo_env_fields [simp]: "env_repr demo_env = demo_repr" "env_dumps demo_env [] = ''{}''"
  "env_loads demo_env ''{}'' = []"
  by (simp_all add: demo_env_def demo_dumps_def demo_loads_def dget_def)

lemma demo_eligible_inv: "ml_inv demo_env demo_eligible"
  by (rule ml_inv_reachable [OF demo_eligible_fields(3)]) simp

section \<open>Properties\<close>

text \<open>An assessment edited in any core column after it was chained, or deleted, makes the lifecycle
  verification fail, although every chained row is untouched, unless the old and new text of the
  assessment have one digest.\<close>

theorem edited_assessment_detected:
  assumes "ml_log_inv env st" and "float_repr_ok (env_repr env)"
    and "r \<in> set (trows (ml_lifecycle st))" and "rget r ''to_state'' = SText ''drift_assessed''"
    and "dget (row_evidence env r) ''drift_assessment_id'' = PInt i" and "find_row i (ml_drift st) = Some stored"
    and "case find_row i d of None \<Rightarrow> True | Some s \<Rightarrow> \<exists>c \<in> set ml_drift_core_columns. rget s c \<noteq> rget stored c"
  shows "\<not> ok (verify_ml_lifecycle_chain env (st\<lparr>ml_drift := d\<rparr>)) \<or>
    (\<exists>s. find_row i d = Some s \<and>
      collision (env_hash env) [serialize_core (env_repr env) ml_drift_core_columns s]
        [serialize_core (env_repr env) ml_drift_core_columns stored])"
proof (rule disjCI)
  assume no: "\<not> (\<exists>s. find_row i d = Some s \<and>
      collision (env_hash env) [serialize_core (env_repr env) ml_drift_core_columns s]
        [serialize_core (env_repr env) ml_drift_core_columns stored])"
  have inv: "ml_inv env st" "ml_bound env st" using assms(1) by (simp_all add: ml_log_inv_def)
  have h: "dget (row_evidence env r) ''assessment_hash'' =
      PStr (content_hash (env_hash env) (env_repr env) ml_drift_core_columns stored)"
    using inv(2) assms(3-6) by (auto simp: ml_bound_def bound_to_def)
  have "\<not> binding_matches env d r"
  proof (cases "find_row i d")
    case None
    then show ?thesis by (simp add: binding_matches_def assms(5) as_py_int_def)
  next
    case (Some s)
    with assms(7) have "serialize_core (env_repr env) ml_drift_core_columns s \<noteq>
        serialize_core (env_repr env) ml_drift_core_columns stored"
      by (simp add: serialize_core_inject [OF assms(2)])
    with no Some have "content_hash (env_hash env) (env_repr env) ml_drift_core_columns stored \<noteq>
        content_hash (env_hash env) (env_repr env) ml_drift_core_columns s"
      by (auto simp: collision_def content_hash_def)
    with Some show ?thesis by (simp add: binding_matches_def assms(5) as_py_int_def h)
  qed
  moreover have "chain_inv (env_hash env) (env_repr env) ml_lifecycle_chain_columns
      (ml_lifecycle (st\<lparr>ml_drift := d\<rparr>))" using chain_of_inv [OF inv(1)] by simp
  ultimately show "\<not> ok (verify_ml_lifecycle_chain env (st\<lparr>ml_drift := d\<rparr>))"
    using assms(3,4) by (simp add: verify_lifecycle_iff) blast
qed

theorem edited_assessment_detected_witness:
  "\<not> ok (verify_ml_lifecycle_chain demo_env (demo_drifted\<lparr>ml_drift := empty_table\<rparr>))"
proof -
  obtain r stored where "r \<in> set (trows (ml_lifecycle demo_drifted))" "rget r ''to_state'' = SText ''drift_assessed''"
    "dget (row_evidence demo_env r) ''drift_assessment_id'' = PInt 1" "find_row 1 (ml_drift demo_drifted) = Some stored"
    using demo_drifted_facts(2) by blast
  from edited_assessment_detected [OF demo_drifted_facts(1) _ this, of empty_table]
  show ?thesis by (auto simp: find_row_def)
qed

text \<open>As long as a model has at most 500 lifecycle rows, the state \<open>ml/lifecycle.py\<close> reports is the state
  \<open>activate_ml_model\<close> decides on.\<close>

theorem current_state_matches_activation:
  assumes "chain_inv H fr ml_lifecycle_chain_columns t" and "mid \<noteq> []"
    and "length (filter (\<lambda>r. rget r ''model_id'' = SText mid) (trows t)) \<le> 500"
  shows "map_option (\<lambda>r. rget r ''to_state'') (current_state mid t) = latest_state mid t"
  using assms(3)
  by (simp add: current_state_def read_one_model [OF assms(1,2)] latest_state_history [OF assms(1)] model_history_def Let_def)

theorem current_state_matches_activation_witness:
  "map_option (\<lambda>r. rget r ''to_state'') (current_state ''m'' (ml_lifecycle demo_eligible)) = latest_state ''m'' (ml_lifecycle demo_eligible)"
proof (rule current_state_matches_activation [OF chain_of_inv [OF demo_eligible_inv]])
  have "length (trows (ml_lifecycle demo_eligible)) = 1" by (rule demo_eligible_fields(5))
  then show "length (filter (\<lambda>r. rget r ''model_id'' = SText ''m'') (trows (ml_lifecycle demo_eligible))) \<le> 500"
    using length_filter_le [of "\<lambda>r. rget r ''model_id'' = SText ''m''" "trows (ml_lifecycle demo_eligible)"] by linarith
qed simp

text \<open>Beyond 500 rows the reported state is frozen: no later transition of the model, not even its
  retirement, changes what \<open>current_state\<close> answers.\<close>

theorem current_state_frozen:
  assumes "chain_inv H fr ml_lifecycle_chain_columns t" and "chain_inv H fr ml_lifecycle_chain_columns u" and "mid \<noteq> []"
    and "500 \<le> length (filter (\<lambda>r. rget r ''model_id'' = SText mid) (trows t))" and "trows u = trows t @ rs"
  shows "current_state mid u = current_state mid t"
  using assms(4)
  by (simp add: current_state_def read_one_model [OF assms(1,3)] read_one_model [OF assms(2,3)] assms(5) Let_def)

definition long_history :: table where
  "long_history = append_all demo_hash demo_repr ml_lifecycle_chain_columns
     (replicate 500 (lifecycle_row ''m'' ''active'' None ''r'' ''{}'' True None 0)) empty_table"

definition longer_history :: table where
  "longer_history = append_all demo_hash demo_repr ml_lifecycle_chain_columns
     [lifecycle_row ''m'' ''retired'' None ''r'' ''{}'' False None 0] long_history"

theorem current_state_frozen_witness:
  "current_state ''m'' longer_history = current_state ''m'' long_history"
proof (rule current_state_frozen)
  have null: "\<forall>r \<in> set (replicate n (lifecycle_row i s f w e el a c)). rget r ''chain_seq'' = SNull" for n i s f w e el a c
    by (simp add: rget_lifecycle_row)
  have null1: "\<forall>r \<in> set [lifecycle_row i s f w e el a c]. rget r ''chain_seq'' = SNull" for i s f w e el a c
    by (simp add: rget_lifecycle_row)
  have H: "is_digest demo_hash" by simp
  show a: "chain_inv demo_hash demo_repr ml_lifecycle_chain_columns long_history"
    unfolding long_history_def by (rule append_all_inv [OF H covers_columns(4) chain_inv_empty null])
  show "chain_inv demo_hash demo_repr ml_lifecycle_chain_columns longer_history"
    unfolding longer_history_def by (rule append_all_inv [OF H covers_columns(4) a null1])
  have keys: "map (\<lambda>r. rget r ''model_id'') (chain_rows H fr cols xs qs) = map (\<lambda>r. rget r ''model_id'') (xs @ qs)" for H fr cols xs qs
    by (induction qs arbitrary: xs) (simp_all add: rget_set_chain_other)
  have keys': "map (\<lambda>r. rget r ''model_id'') (number_rows i qs) = map (\<lambda>r. rget r ''model_id'') qs" for i qs
    by (induction qs arbitrary: i) simp_all
  have "map (\<lambda>r. rget r ''model_id'') (trows long_history) = replicate 500 (SText ''m'')"
    using append_all_rows [OF H covers_columns(4) chain_inv_empty null, of demo_repr 500 "''m''" "''active''" None "''r''" "''{}''" True None 0]
    by (simp only: long_history_def keys keys' map_append map_replicate rget_lifecycle_row trows_empty list.map append.simps)
  from map_replicate_filter [OF this]
  show "500 \<le> length (filter (\<lambda>r. rget r ''model_id'' = SText ''m'') (trows long_history))" by simp
  have "\<exists>rs. trows longer_history = trows long_history @ rs"
    using append_chained_rows(3) [OF H covers_columns(4) a rget_lifecycle_row(1)]
    by (simp add: longer_history_def append_all_def)
  then show "trows longer_history = trows long_history @ drop (length (trows long_history)) (trows longer_history)" by auto
qed simp

text \<open>The writer accepts an \<open>eligible\<close> row with no gate verdict, and such a row is enough for
  \<open>activate_ml_model\<close>: a retired model whose old counts open the gate is activated again without a new
  gate row.\<close>

theorem eligible_row_needs_no_verdict:
  assumes "is_digest (env_hash env)" and "ml_inv env st" and "mid \<in> set (map mm_id (ml_models st))"
    and "why \<noteq> []" and "gate_open f n"
  shows "\<exists>i st' j st''. write_ml_lifecycle_transition env mid ''eligible'' why [] None False who c st = Inr (i, st') \<and>
    activate_ml_model env now mid f n who st' = Inr (j, st'')"
proof -
  obtain i st' where w: "write_ml_lifecycle_transition env mid ''eligible'' why [] None False who c st = Inr (i, st')"
    using assms(4) by (simp add: write_ml_lifecycle_transition_def ml_lifecycle_states_def split_beta Let_def)
  have inv': "ml_inv env st'" by (rule ml_inv_transition [OF assms(1,2) w])
  have app: "appended env mid ''eligible'' [] False (ml_lifecycle st) (ml_lifecycle st')"
    using insert_ml_lifecycle_appended [OF assms(1) chain_of_inv [OF assms(2)]] by (simp add: transition_Inr(5) [OF w])
  then obtain r where r: "trows (ml_lifecycle st') = trows (ml_lifecycle st) @ [r]"
    "rget r ''model_id'' = SText mid" "rget r ''to_state'' = SText ''eligible''"
    by (rule appendedE)
  have latest: "latest_state mid (ml_lifecycle st') = Some (SText ''eligible'')"
    unfolding latest_state_history [OF chain_of_inv [OF inv']] by (simp add: r model_history_def)
  have ids: "mid \<in> set (map mm_id (ml_models st'))" using assms(3) by (simp add: transition_Inr(5) [OF w])
  obtain a where a: "normal_fpr_acceptance f n = Inr a" "ac_eligible a"
    using assms(5) by (auto simp: gate_open_def split: sum.splits)
  obtain p where "activate_ml_model env now mid f n who st' = Inr p"
    using ids latest by (simp add: activate_ml_model_def a gate_evidence_accepted [OF a] Let_def split_beta)
  with w show ?thesis by (cases p) blast
qed

theorem eligible_row_needs_no_verdict_witness:
  "\<exists>i st' j st''. write_ml_lifecycle_transition demo_env ''m'' ''eligible'' ''again'' [] None False None 0 demo_eligible = Inr (i, st') \<and>
    activate_ml_model demo_env 0 ''m'' 0 60 None st' = Inr (j, st'')"
proof (rule eligible_row_needs_no_verdict [OF _ demo_eligible_inv])
  show "''m'' \<in> set (map mm_id (ml_models demo_eligible))" by (simp add: demo_eligible_fields(1) demo_model_def)
  show "gate_open 0 60" by (simp add: gate_open_margin gate_margin_def)
qed simp_all

text \<open>An \<open>active\<close> row can be recorded without the model becoming active: the transition writer leaves
  every model's flag as it was.\<close>

theorem active_row_leaves_flag:
  assumes "normal_fpr_acceptance f n = Inr a" and "ac_eligible a" and "why \<noteq> []"
  shows "\<exists>i st'. write_ml_lifecycle_transition env mid ''active'' why
      [(''acceptance'', PDict (acceptance_dict a)), (''false_positive_count'', PInt f), (''normal_window_count'', PInt n)]
      None True who c st = Inr (i, st') \<and> ml_models st' = ml_models st"
  using assms(3)
  by (simp add: write_ml_lifecycle_transition_def ml_lifecycle_states_def ml_drift_lifecycle_states_def
      gate_evidence_accepted [OF assms(1,2)] split_beta Let_def)

theorem active_row_leaves_flag_witness:
  "\<exists>a i st'. write_ml_lifecycle_transition demo_env ''m'' ''active'' ''x''
      [(''acceptance'', PDict (acceptance_dict a)), (''false_positive_count'', PInt 0), (''normal_window_count'', PInt 60)]
      None True None 0 empty_ml_store = Inr (i, st') \<and> ml_models st' = ml_models empty_ml_store"
proof -
  obtain a where "normal_fpr_acceptance 0 60 = Inr a" "ac_eligible a" using demo_gate by blast
  from active_row_leaves_flag [OF this, of "''x''" demo_env "''m''" None 0 empty_ml_store] show ?thesis by blast
qed

text \<open>A \<open>drift_assessed\<close> row written through the transition writer, without an assessment, is accepted
  and makes the lifecycle verification fail from then on.\<close>

theorem unbound_drift_row_breaks_verification:
  assumes "is_digest (env_hash env)" and "ml_inv env st" and "why \<noteq> []"
    and "dget (env_loads env (if env_dumps env [] = [] then ''{}'' else env_dumps env [])) ''drift_assessment_id'' = PNone"
  shows "\<exists>i st'. write_ml_lifecycle_transition env mid ''drift_assessed'' why [] None False who c st = Inr (i, st') \<and>
    \<not> ok (verify_ml_lifecycle_chain env st')"
proof -
  obtain i st' where w: "write_ml_lifecycle_transition env mid ''drift_assessed'' why [] None False who c st = Inr (i, st')"
    using assms(3) by (simp add: write_ml_lifecycle_transition_def ml_lifecycle_states_def split_beta Let_def)
  have app: "appended env mid ''drift_assessed'' [] False (ml_lifecycle st) (ml_lifecycle st')"
    using insert_ml_lifecycle_appended [OF assms(1) chain_of_inv [OF assms(2)]] by (simp add: transition_Inr(5) [OF w])
  then obtain r where ch: "chain_inv (env_hash env) (env_repr env) ml_lifecycle_chain_columns (ml_lifecycle st')"
    and r: "trows (ml_lifecycle st') = trows (ml_lifecycle st) @ [r]"
      "rget r ''to_state'' = SText ''drift_assessed''" "rget r ''evidence_json'' = SText (env_dumps env [])"
    by (rule appendedE)
  have "row_evidence env r = env_loads env (if env_dumps env [] = [] then ''{}'' else env_dumps env [])"
    by (simp add: row_evidence_def r(3) split: list.split)
  then have "\<not> binding_matches env (ml_drift st') r" using assms(4) by (simp add: binding_matches_def as_py_int_def)
  then have "\<not> ok (verify_ml_lifecycle_chain env st')" using r(1,2) by (simp add: verify_lifecycle_iff [OF ch])
  with w show ?thesis by blast
qed

theorem unbound_drift_row_breaks_verification_witness:
  "\<exists>i st'. write_ml_lifecycle_transition demo_env ''m'' ''drift_assessed'' ''x'' [] None False None 0 demo_eligible = Inr (i, st') \<and>
    \<not> ok (verify_ml_lifecycle_chain demo_env st')"
  by (rule unbound_drift_row_breaks_verification [OF _ demo_eligible_inv]) (simp_all add: dget_def)

end
