(* ===== verification/Event_Store.thy ===== *)
theory Event_Store
  imports Prelude
begin

text \<open>
  The \<open>events\<close> table of \<^verbatim>\<open>storage/sqlite_store.py\<close>: deduplicating batch insert, the keyset walk
  \<open>_stream_event_rows\<close>, and the retention deletes, with the aggregates retention reads. An event
  is its \<open>(timestamp, id)\<close> key, type, dedup hash and the remaining columns.
\<close>

section \<open>Events\<close>

record stored_event =
  se_id :: int
  se_type :: string
  se_timestamp :: rat
  se_hash :: string
  se_columns :: row

record event_table =
  et_next :: int
  et_events :: "stored_event list"

definition empty_events :: event_table where
  "empty_events = \<lparr>et_next = 1, et_events = []\<rparr>"

text \<open>
  An event as the writer gets it. \<open>in_timestamp\<close> is the result of \<open>float(event.timestamp)\<close>, None
  when that raises; a missing type makes \<open>_event_row\<close> raise as well, and so does a payload
  \<open>json.dumps\<close> cannot write: then \<open>in_columns\<close> is the message of its TypeError.
\<close>

record event_in =
  in_type :: "string option"
  in_timestamp :: "rat option"
  in_columns :: "string + row"

text \<open>\<open>hash\<close> is \<open>_event_hash\<close>: SHA-256 over the canonical JSON of type, timestamp and columns.\<close>

definition event_row :: "(string \<Rightarrow> rat \<Rightarrow> row \<Rightarrow> string) \<Rightarrow> event_in \<Rightarrow> py_error + (int \<Rightarrow> stored_event)" where
  "event_row hash e =
     (case in_timestamp e of
        None \<Rightarrow> Inl (Value_Error ''event timestamp must be numeric'')
      | Some ts \<Rightarrow>
          (case in_type e of
             None \<Rightarrow> Inl (Value_Error ''event_type is required'')
           | Some ty \<Rightarrow>
               (case in_columns e of
                  Inl message \<Rightarrow> Inl (Type_Error message)
                | Inr cols \<Rightarrow> Inr (\<lambda>i. \<lparr>se_id = i, se_type = ty, se_timestamp = ts,
                              se_hash = hash ty ts cols, se_columns = cols\<rparr>))))"

text \<open>\<open>INSERT OR IGNORE\<close> under the unique index on \<open>event_hash\<close>.\<close>

definition insert_or_ignore :: "(int \<Rightarrow> stored_event) \<Rightarrow> event_table \<Rightarrow> event_table" where
  "insert_or_ignore row t =
     (if se_hash (row (et_next t)) \<in> set (map se_hash (et_events t)) then t
      else t\<lparr>et_next := et_next t + 1, et_events := et_events t @ [row (et_next t)]\<rparr>)"

definition write_event :: "(string \<Rightarrow> rat \<Rightarrow> row \<Rightarrow> string) \<Rightarrow> event_in option \<Rightarrow> event_table \<Rightarrow> py_error + (bool \<times> event_table)" where
  "write_event hash event t =
     (case event of
        None \<Rightarrow> Inr (False, t)
      | Some e \<Rightarrow>
          (case event_row hash e of
             Inl err \<Rightarrow> Inl err
           | Inr row \<Rightarrow> let t' = insert_or_ignore row t
                        in Inr (length (et_events t') = length (et_events t) + 1, t')))"

record batch_result =
  br_attempted :: nat
  br_inserted :: nat
  br_duplicates :: nat
  br_rejected :: "(event_in option \<times> string) list"

definition error_text :: "py_error \<Rightarrow> string" where
  "error_text e = (case e of
      Value_Error m \<Rightarrow> ''ValueError: '' @ m | Key_Error m \<Rightarrow> ''KeyError: '' @ m | Type_Error m \<Rightarrow> ''TypeError: '' @ m
    | Runtime_Error m \<Rightarrow> ''RuntimeError: '' @ m | Integrity_Error m \<Rightarrow> ''IntegrityError: '' @ m
    | Attribute_Error m \<Rightarrow> ''AttributeError: '' @ m)"

text \<open>The encoding pass: rows to insert and events rejected before the transaction opens.\<close>

fun encode_batch :: "(string \<Rightarrow> rat \<Rightarrow> row \<Rightarrow> string) \<Rightarrow> event_in option list \<Rightarrow>
    (int \<Rightarrow> stored_event) list \<times> (event_in option \<times> string) list" where
  "encode_batch hash [] = ([], [])"
| "encode_batch hash (event # events) =
     (let (rows, rejected) = encode_batch hash events in
      case event of
        None \<Rightarrow> (rows, (None, ''event is None'') # rejected)
      | Some e \<Rightarrow>
          (case event_row hash e of
             Inl err \<Rightarrow> (rows, (Some e, error_text err) # rejected)
           | Inr row \<Rightarrow> (row # rows, rejected)))"

definition write_events :: "(string \<Rightarrow> rat \<Rightarrow> row \<Rightarrow> string) \<Rightarrow> event_in option list \<Rightarrow> event_table \<Rightarrow> batch_result \<times> event_table" where
  "write_events hash events t =
     (let (rows, rejected) = encode_batch hash events;
          t' = fold insert_or_ignore rows t;
          inserted = length (et_events t') - length (et_events t)
      in (\<lparr>br_attempted = length rows, br_inserted = inserted, br_duplicates = length rows - inserted,
           br_rejected = rejected\<rparr>, t'))"

section \<open>Reading\<close>

definition event_key :: "stored_event \<Rightarrow> rat \<times> int" where
  "event_key e = (se_timestamp e, se_id e)"

definition after_cursor :: "(rat \<times> int) option \<Rightarrow> stored_event \<Rightarrow> bool" where
  "after_cursor cursor e =
     (case cursor of
        None \<Rightarrow> True
      | Some (ts, i) \<Rightarrow> se_timestamp e > ts \<or> (se_timestamp e = ts \<and> se_id e > i))"

text \<open>
  One page: \<open>WHERE clauses AND cursor ORDER BY timestamp ASC, id ASC LIMIT page_size\<close>. The walk
  reads the table as it is at each page; here nobody writes meanwhile.
\<close>

definition event_page :: "(stored_event \<Rightarrow> bool) \<Rightarrow> nat \<Rightarrow> (rat \<times> int) option \<Rightarrow> stored_event list \<Rightarrow> stored_event list" where
  "event_page clause page_size cursor es =
     take page_size (sort_key event_key (filter (\<lambda>e. clause e \<and> after_cursor cursor e) es))"

lemma event_page_last:
  assumes "event_page clause n cursor es \<noteq> []"
  shows "last (event_page clause n cursor es) \<in> set es \<and> clause (last (event_page clause n cursor es)) \<and>
    after_cursor cursor (last (event_page clause n cursor es))"
proof -
  have "last (event_page clause n cursor es) \<in> set (event_page clause n cursor es)" using assms by (rule last_in_set)
  then show ?thesis unfolding event_page_def by (auto dest: in_set_takeD)
qed

lemma after_cursor_key: "after_cursor (Some k) e \<longleftrightarrow> k < event_key e"
  by (cases k) (auto simp: after_cursor_def event_key_def less_prod_def')

function stream_from :: "(stored_event \<Rightarrow> bool) \<Rightarrow> nat \<Rightarrow> (rat \<times> int) option \<Rightarrow> stored_event list \<Rightarrow> stored_event list" where
  "stream_from clause page_size cursor es =
     (let rows = event_page clause page_size cursor es in
      if rows = [] then []
      else if length rows < page_size then rows
      else rows @ stream_from clause page_size (Some (event_key (last rows))) es)"
  by pat_completeness auto

termination
proof (relation "measure (\<lambda>(clause, page_size, cursor, es). length (filter (\<lambda>e. clause e \<and> after_cursor cursor e) es))")
  fix clause :: "stored_event \<Rightarrow> bool" and page_size :: nat and cursor and es :: "stored_event list" and rows
  assume rows: "rows = event_page clause page_size cursor es" and "rows \<noteq> []"
  let ?l = "last rows"
  have l: "?l \<in> set es" "clause ?l" "after_cursor cursor ?l"
    using event_page_last rows \<open>rows \<noteq> []\<close> by blast+
  have mono: "after_cursor (Some (event_key ?l)) e \<Longrightarrow> after_cursor cursor e" for e
    using l(3) by (cases cursor) (auto simp: after_cursor_key simp: after_cursor_def [of None])
  have "length (filter (\<lambda>e. clause e \<and> after_cursor (Some (event_key ?l)) e) es) <
      length (filter (\<lambda>e. clause e \<and> after_cursor cursor e) es)"
  proof (rule filter_length_strict)
    show "?l \<in> set es" "clause ?l \<and> after_cursor cursor ?l" using l by simp_all
    show "\<not> (clause ?l \<and> after_cursor (Some (event_key ?l)) ?l)" by (simp add: after_cursor_key)
  qed (use mono in blast)
  then show "((clause, page_size, Some (event_key ?l), es), (clause, page_size, cursor, es)) \<in>
      measure (\<lambda>(clause, page_size, cursor, es). length (filter (\<lambda>e. clause e \<and> after_cursor cursor e) es))"
    by simp
qed simp

declare stream_from.simps [simp del]

definition stream_event_rows :: "(stored_event \<Rightarrow> bool) \<Rightarrow> nat \<Rightarrow> event_table \<Rightarrow> stored_event list" where
  "stream_event_rows clause page_size t = stream_from clause page_size None (et_events t)"

definition count_events :: "event_table \<Rightarrow> nat" where
  "count_events t = length (et_events t)"

definition latest_event_timestamp :: "event_table \<Rightarrow> rat option" where
  "latest_event_timestamp t =
     (case map se_timestamp (et_events t) of [] \<Rightarrow> None | x # xs \<Rightarrow> Some (fold max xs x))"

definition oldest_event_timestamp :: "event_table \<Rightarrow> rat option" where
  "oldest_event_timestamp t =
     (case map se_timestamp (et_events t) of [] \<Rightarrow> None | x # xs \<Rightarrow> Some (fold min xs x))"

definition read_event_records :: "int \<Rightarrow> string option \<Rightarrow> event_table \<Rightarrow> stored_event list" where
  "read_event_records limit event_type t =
     take (nat (max 1 (min limit 500)))
       (rev (sort_key event_key (filter (\<lambda>e. case event_type of None \<Rightarrow> True | Some ty \<Rightarrow> se_type e = ty) (et_events t))))"

section \<open>Deleting\<close>

definition drop_ids :: "int list \<Rightarrow> event_table \<Rightarrow> event_table" where
  "drop_ids ids t = t\<lparr>et_events := filter (\<lambda>e. se_id e \<notin> set ids) (et_events t)\<rparr>"

text \<open>\<open>DELETE ... WHERE id IN (SELECT id ... WHERE timestamp <= ? ORDER BY timestamp, id LIMIT ?)\<close>.\<close>

definition delete_batch :: "rat \<Rightarrow> nat \<Rightarrow> event_table \<Rightarrow> nat \<times> event_table" where
  "delete_batch cutoff batch t =
     (let ids = map se_id (take batch (sort_key event_key (filter (\<lambda>e. se_timestamp e \<le> cutoff) (et_events t))));
          t' = drop_ids ids t
      in (length (et_events t) - length (et_events t'), t'))"

lemma delete_batch_shrinks: "fst (delete_batch cutoff batch t) = length (et_events t) - length (et_events (snd (delete_batch cutoff batch t)))"
  by (simp add: delete_batch_def Let_def)

function delete_loop :: "rat \<Rightarrow> nat \<Rightarrow> nat \<Rightarrow> event_table \<Rightarrow> nat \<times> event_table" where
  "delete_loop cutoff batch deleted t =
     (let (removed, t') = delete_batch cutoff (max 1 batch) t in
      if removed < max 1 batch then (deleted + removed, t')
      else delete_loop cutoff batch (deleted + removed) t')"
  by pat_completeness auto

termination
proof (relation "measure (\<lambda>(cutoff, batch, deleted, t). length (et_events t))")
  fix cutoff batch deleted and t :: event_table and p removed t'
  assume p: "p = delete_batch cutoff (max 1 batch) t" "(removed, t') = p" and "\<not> removed < max 1 batch"
  then have "1 \<le> removed" by simp
  moreover have "removed = length (et_events t) - length (et_events t')"
    using p delete_batch_shrinks [of cutoff "max 1 batch" t] by (metis fst_conv snd_conv)
  ultimately show "((cutoff, batch, deleted + removed, t'), (cutoff, batch, deleted, t)) \<in>
      measure (\<lambda>(cutoff, batch, deleted, t). length (et_events t))" by simp
qed simp

declare delete_loop.simps [simp del]

definition delete_events_older_than :: "rat \<Rightarrow> nat \<Rightarrow> event_table \<Rightarrow> nat \<times> event_table" where
  "delete_events_older_than cutoff batch t = delete_loop cutoff batch 0 t"

definition delete_oldest_events :: "int \<Rightarrow> event_table \<Rightarrow> nat \<times> rat option \<times> event_table" where
  "delete_oldest_events how_many t =
     (let n = nat (max 0 how_many) in
      if n = 0 then (0, oldest_event_timestamp t, t)
      else let ids = map se_id (take n (sort_key event_key (et_events t)));
               t' = drop_ids ids t
           in (length (et_events t) - length (et_events t'), oldest_event_timestamp t', t'))"

section \<open>Table invariant\<close>

definition events_ok :: "event_table \<Rightarrow> bool" where
  "events_ok t \<longleftrightarrow> distinct (map se_id (et_events t)) \<and> distinct (map se_hash (et_events t)) \<and>
     (\<forall>e \<in> set (et_events t). se_id e < et_next t)"

definition numbered :: "(int \<Rightarrow> stored_event) \<Rightarrow> bool" where
  "numbered row \<longleftrightarrow> (\<forall>i. se_id (row i) = i) \<and> (\<forall>i j. se_hash (row i) = se_hash (row j))"

lemma events_ok_empty: "events_ok empty_events"
  by (simp add: events_ok_def empty_events_def)

lemma events_ok_insert: "events_ok t \<Longrightarrow> numbered row \<Longrightarrow> events_ok (insert_or_ignore row t)"
  by (force simp: events_ok_def insert_or_ignore_def numbered_def)

lemma events_ok_fold: "events_ok t \<Longrightarrow> \<forall>row \<in> set rows. numbered row \<Longrightarrow> events_ok (fold insert_or_ignore rows t)"
  by (induction rows arbitrary: t) (simp_all add: events_ok_insert)

lemma encode_numbered: "row \<in> set (fst (encode_batch hash events)) \<Longrightarrow> numbered row"
  by (induction events)
    (auto simp: event_row_def numbered_def Let_def split_beta split: option.splits sum.splits)

lemma encode_lengths: "length (fst (encode_batch hash events)) + length (snd (encode_batch hash events)) = length events"
  by (induction events) (auto simp: Let_def split_beta split: option.splits sum.splits)

lemma insert_hashes:
  "set (map se_hash (et_events t)) \<subseteq> set (map se_hash (et_events (insert_or_ignore row t)))"
  "numbered row \<Longrightarrow> se_hash (row i) \<in> set (map se_hash (et_events (insert_or_ignore row t)))"
  by (auto simp: insert_or_ignore_def numbered_def) (metis imageI)

lemma fold_hashes:
  "set (map se_hash (et_events t)) \<subseteq> set (map se_hash (et_events (fold insert_or_ignore rows t)))"
proof (induction rows arbitrary: t)
  case (Cons row rows)
  show ?case using insert_hashes(1) [of t row] Cons.IH [of "insert_or_ignore row t"] by simp
qed simp

lemma fold_has_hash:
  "row \<in> set rows \<Longrightarrow> numbered row \<Longrightarrow> se_hash (row i) \<in> set (map se_hash (et_events (fold insert_or_ignore rows t)))"
proof (induction rows arbitrary: t)
  case (Cons r rows)
  show ?case
  proof (cases "row = r")
    case True
    then show ?thesis
      using insert_hashes(2) [OF Cons.prems(2), of i t] fold_hashes [of "insert_or_ignore r t" rows] by auto
  next
    case False
    with Cons show ?thesis by simp
  qed
qed simp

lemma fold_known:
  "\<forall>row \<in> set rows. \<forall>i. se_hash (row i) \<in> set (map se_hash (et_events t)) \<Longrightarrow> fold insert_or_ignore rows t = t"
  by (induction rows) (simp_all add: insert_or_ignore_def)

lemma insert_grows: "length (et_events t) \<le> length (et_events (insert_or_ignore row t)) \<and>
    length (et_events (insert_or_ignore row t)) \<le> Suc (length (et_events t))"
  by (simp add: insert_or_ignore_def)

lemma fold_grows: "length (et_events t) \<le> length (et_events (fold insert_or_ignore rows t)) \<and>
    length (et_events (fold insert_or_ignore rows t)) \<le> length (et_events t) + length rows"
proof (induction rows arbitrary: t)
  case (Cons row rows)
  show ?case using insert_grows [of t row] Cons.IH [of "insert_or_ignore row t"] by simp
qed simp

section \<open>The walk is the sorted result\<close>

lemma distinct_keys: "distinct (map se_id es) \<Longrightarrow> distinct (map event_key es)"
  by (auto simp: distinct_map inj_on_def event_key_def)

lemma sorted_keys_strict:
  assumes "distinct (map event_key es)"
  shows "sorted_wrt (<) (map event_key (sort_key event_key es))"
proof -
  have "distinct (map event_key (sort_key event_key es))"
    using assms by (simp add: distinct_map)
  then show ?thesis by (simp add: strict_sorted_iff)
qed

lemma strict_filter_drop:
  fixes f :: "'a \<Rightarrow> 'b :: linorder"
  assumes "sorted_wrt (<) (map f xs)" and "n < length xs"
  shows "filter (\<lambda>e. f (xs ! n) < f e) xs = drop (Suc n) xs"
proof -
  have s: "i < j \<Longrightarrow> j < length xs \<Longrightarrow> f (xs ! i) < f (xs ! j)" for i j
    using assms(1) by (simp add: sorted_wrt_iff_nth_less)
  have lo: "filter (\<lambda>e. f (xs ! n) < f e) (take (Suc n) xs) = []"
  proof (rule filter_False, rule ballI)
    fix x assume "x \<in> set (take (Suc n) xs)"
    then obtain i where "i \<le> n" "x = xs ! i" by (auto simp: in_set_conv_nth less_Suc_eq_le)
    then have "f x \<le> f (xs ! n)" using s [of i n] assms(2) by (cases "i = n") auto
    then show "\<not> f (xs ! n) < f x" by simp
  qed
  have hi: "filter (\<lambda>e. f (xs ! n) < f e) (drop (Suc n) xs) = drop (Suc n) xs"
  proof (rule filter_True, rule ballI)
    fix x assume "x \<in> set (drop (Suc n) xs)"
    then obtain i where "i < length xs - Suc n" "x = xs ! (Suc n + i)" by (auto simp: in_set_conv_nth)
    then show "f (xs ! n) < f x" using s [of n "Suc n + i"] by simp
  qed
  have "filter (\<lambda>e. f (xs ! n) < f e) (take (Suc n) xs @ drop (Suc n) xs) = drop (Suc n) xs"
    unfolding filter_append lo hi by simp
  then show ?thesis by simp
qed

lemma stream_from_sorted:
  "distinct (map se_id es) \<Longrightarrow> 0 < page_size \<Longrightarrow>
   stream_from clause page_size cursor es = sort_key event_key (filter (\<lambda>e. clause e \<and> after_cursor cursor e) es)"
proof (induction clause page_size cursor es rule: stream_from.induct)
  case (1 clause n cursor es)
  let ?S = "sort_key event_key (filter (\<lambda>e. clause e \<and> after_cursor cursor e) es)"
  let ?rows = "event_page clause n cursor es"
  have rows: "?rows = take n ?S" by (simp add: event_page_def)
  show ?case
  proof (cases "?rows = [] \<or> length ?rows < n")
    case True
    moreover have "length ?rows = min (length ?S) n" by (simp only: rows length_take)
    ultimately have "length ?S < n" using "1.prems"(2) by auto
    then have "?rows = ?S" by (simp add: rows)
    with True show ?thesis by (subst stream_from.simps) (auto simp: Let_def)
  next
    case False
    let ?k = "event_key (last ?rows)"
    have len: "n \<le> length ?S" using False rows by (auto simp: min_def split: if_splits)
    have "last ?rows = ?rows ! (length ?rows - 1)" by (rule last_conv_nth) (use False in blast)
    also have "length ?rows = n" using len by (simp add: rows)
    finally have last: "last ?rows = ?S ! (n - 1)" using "1.prems"(2) by (simp add: rows)
    have strict: "sorted_wrt (<) (map event_key ?S)"
      using distinct_keys [OF "1.prems"(1)] by (intro sorted_keys_strict) (simp add: distinct_map_filter)
    have l: "after_cursor cursor (last ?rows)" using event_page_last False by blast
    have mono: "after_cursor (Some ?k) e \<Longrightarrow> after_cursor cursor e" for e
      using l by (cases cursor) (auto simp: after_cursor_key simp: after_cursor_def [of None])
    have "sort_key event_key (filter (\<lambda>e. clause e \<and> after_cursor (Some ?k) e) es) =
        sort_key event_key (filter (\<lambda>e. after_cursor (Some ?k) e) (filter (\<lambda>e. clause e \<and> after_cursor cursor e) es))"
      using mono by (simp add: conj_ac cong: conj_cong) (metis (mono_tags, lifting) filter_cong)
    also have "\<dots> = filter (\<lambda>e. ?k < event_key e) ?S" by (simp add: filter_sort after_cursor_key)
    also have "\<dots> = drop n ?S"
      using strict_filter_drop [OF strict, of "n - 1"] len "1.prems"(2) by (simp add: last)
    finally have rest: "sort_key event_key (filter (\<lambda>e. clause e \<and> after_cursor (Some ?k) e) es) = drop n ?S" .
    have "stream_from clause n (Some ?k) es = drop n ?S"
      using "1.IH" [OF refl _ _ "1.prems"] False rest by simp
    with False rows show ?thesis by (subst stream_from.simps) (simp add: Let_def)
  qed
qed

section \<open>The deletes\<close>

lemma drop_ids_first:
  assumes d: "distinct (map se_id (et_events t))" and s: "set xs \<subseteq> set (et_events t)" and "distinct (map se_id xs)"
  shows "et_events (drop_ids (map se_id xs) t) = filter (\<lambda>e. e \<notin> set xs) (et_events t)"
    and "length (et_events t) - length (et_events (drop_ids (map se_id xs) t)) = length xs"
proof -
  have "se_id e \<in> set (map se_id xs) \<longleftrightarrow> e \<in> set xs" if "e \<in> set (et_events t)" for e
    using d s that by (auto simp: distinct_map inj_on_def)
  then show eq: "et_events (drop_ids (map se_id xs) t) = filter (\<lambda>e. e \<notin> set xs) (et_events t)"
    by (auto simp: drop_ids_def intro: filter_cong)
  have "set xs = set (filter (\<lambda>e. e \<in> set xs) (et_events t))" using s by auto
  moreover have "distinct xs" "distinct (et_events t)" using assms(3) d by (simp_all add: distinct_map)
  ultimately have "length xs = length (filter (\<lambda>e. e \<in> set xs) (et_events t))"
    by (metis distinct_card distinct_filter)
  then show "length (et_events t) - length (et_events (drop_ids (map se_id xs) t)) = length xs"
    using sum_length_filter_compl [of "\<lambda>e. e \<in> set xs" "et_events t"] by (simp add: eq)
qed

lemma batch_ids:
  assumes "distinct (map se_id es)"
  shows "set (take n (sort_key event_key (filter p es))) \<subseteq> set es"
    and "distinct (map se_id (take n (sort_key event_key (filter p es))))"
proof -
  show "set (take n (sort_key event_key (filter p es))) \<subseteq> set es" by (auto dest: in_set_takeD)
  have "distinct (map se_id (sort_key event_key (filter p es)))"
    using assms by (auto simp: distinct_map inj_on_def)
  then show "distinct (map se_id (take n (sort_key event_key (filter p es))))"
    by (metis distinct_take take_map)
qed

lemma delete_batch_result:
  fixes t cutoff n
  defines "old \<equiv> sort_key event_key (filter (\<lambda>e. se_timestamp e \<le> cutoff) (et_events t))"
  assumes "distinct (map se_id (et_events t))"
  shows "fst (delete_batch cutoff n t) = min (length old) n"
    and "et_events (snd (delete_batch cutoff n t)) = filter (\<lambda>e. e \<notin> set (take n old)) (et_events t)"
  using drop_ids_first [OF assms(2) batch_ids [OF assms(2), of n "\<lambda>e. se_timestamp e \<le> cutoff"]]
  by (simp_all add: delete_batch_def old_def Let_def)

lemma delete_loop_result:
  "distinct (map se_id (et_events t)) \<Longrightarrow>
   fst (delete_loop cutoff batch deleted t) = deleted + length (filter (\<lambda>e. se_timestamp e \<le> cutoff) (et_events t)) \<and>
   et_events (snd (delete_loop cutoff batch deleted t)) = filter (\<lambda>e. \<not> se_timestamp e \<le> cutoff) (et_events t)"
proof (induction cutoff batch deleted t rule: delete_loop.induct)
  case (1 cutoff batch deleted t)
  let ?b = "max 1 batch" and ?old = "sort_key event_key (filter (\<lambda>e. se_timestamp e \<le> cutoff) (et_events t))"
  let ?p = "delete_batch cutoff (max 1 batch) t"
  note r = delete_batch_result [OF "1.prems", of cutoff ?b]
  have keep: "filter (\<lambda>e. \<not> se_timestamp e \<le> cutoff) (et_events (snd ?p)) = filter (\<lambda>e. \<not> se_timestamp e \<le> cutoff) (et_events t)"
    unfolding r(2) by (auto intro!: filter_cong dest: in_set_takeD)
  show ?case
  proof (cases "fst ?p < ?b")
    case True
    then have "take ?b ?old = ?old" using r(1) by simp
    then have "et_events (snd ?p) = filter (\<lambda>e. \<not> se_timestamp e \<le> cutoff) (et_events t)"
      using r(2) by (auto intro!: filter_cong)
    moreover have "delete_loop cutoff batch deleted t = (deleted + fst ?p, snd ?p)"
      using True by (subst delete_loop.simps) (simp add: Let_def split_beta)
    ultimately show ?thesis using True r(1) by simp
  next
    case False
    have d: "distinct (map se_id (et_events (snd ?p)))" unfolding r(2) using "1.prems" by (simp add: distinct_map_filter)
    have n: "fst ?p + length (filter (\<lambda>e. se_timestamp e \<le> cutoff) (et_events (snd ?p))) =
        length (filter (\<lambda>e. se_timestamp e \<le> cutoff) (et_events t))"
    proof -
      have "fst ?p = length (et_events t) - length (et_events (snd ?p))" by (rule delete_batch_shrinks)
      moreover have "length (et_events (snd ?p)) \<le> length (et_events t)" unfolding r(2) by (rule length_filter_le)
      ultimately show ?thesis
        using arg_cong [OF keep, of length] sum_length_filter_compl [of "\<lambda>e. se_timestamp e \<le> cutoff" "et_events t"]
          sum_length_filter_compl [of "\<lambda>e. se_timestamp e \<le> cutoff" "et_events (snd ?p)"] by linarith
    qed
    have "delete_loop cutoff batch deleted t = delete_loop cutoff batch (deleted + fst ?p) (snd ?p)"
      using False by (subst delete_loop.simps) (simp add: Let_def split_beta)
    with "1.IH" [OF refl prod.collapse False d] keep n show ?thesis by simp
  qed
qed

lemma delete_oldest_result:
  assumes "distinct (map se_id (et_events t))"
  shows "fst (delete_oldest_events n t) = min (length (et_events t)) (nat (max 0 n))"
    and "et_events (snd (snd (delete_oldest_events n t))) =
      filter (\<lambda>e. e \<notin> set (take (nat (max 0 n)) (sort_key event_key (et_events t)))) (et_events t)"
  using drop_ids_first [OF assms batch_ids [OF assms, of "nat (max 0 n)" "\<lambda>_. True"]]
  by (auto simp: delete_oldest_events_def Let_def)

lemma prefix_keys_less:
  assumes "distinct (map se_id es)" and "a \<in> set (take n (sort_key event_key es))" and "b \<in> set es"
    and "b \<notin> set (take n (sort_key event_key es))"
  shows "event_key a < event_key b"
proof -
  let ?S = "sort_key event_key es"
  have s: "sorted_wrt (\<lambda>x y. event_key x < event_key y) (take n ?S @ drop n ?S)"
    using sorted_keys_strict [OF distinct_keys [OF assms(1)]] by (simp add: sorted_wrt_map)
  have "b \<in> set ?S" using assms(3) by simp
  then have "b \<in> set (drop n ?S)" using assms(4) by (metis UnE append_take_drop_id set_append)
  with s assms(2) show ?thesis unfolding sorted_wrt_append by blast
qed

end
