(* ===== verification/Retention.thy ===== *)
theory Retention
  imports Event_Store
begin

text \<open>
  Data lifecycle of \<^verbatim>\<open>storage/retention.py\<close> over the event table: pruning by age, the size cap, the
  vacuum schedule and the run interval. The file size after a VACUUM is the parameter \<open>bytes\<close>, a
  function of the store, and \<open>fmt\<close> is Python's \<open>:g\<close> format of a float; arithmetic is exact. Action
  durations are not kept.
\<close>

section \<open>The store retention works on\<close>

text \<open>
  Events, the window ends of \<open>behavior_risks\<close> and \<open>event_features\<close>, the timestamps of
  \<open>anomaly_scores\<close>, and the maintenance log. The chained tables are not reachable from here.
\<close>

record maintenance_action =
  ma_action :: string
  ma_reason :: string
  ma_events_deleted :: nat
  ma_rows_deleted :: nat
  ma_cutoff :: "rat option"
  ma_oldest_retained :: "rat option"
  ma_bytes_before :: "int option"
  ma_bytes_after :: "int option"
  ma_detail :: "string option"
  ma_created_at :: rat

record retention_store =
  rt_events :: event_table
  rt_risks :: "rat list"
  rt_features :: "rat list"
  rt_anomalies :: "rat list"
  rt_log :: "maintenance_action list"

record retention_settings =
  rs_interval :: rat
  rs_max_age_days :: rat
  rs_max_db_bytes :: int
  rs_vacuum_interval :: rat
  rs_prune_batch :: nat

definition seconds_per_day :: rat where
  "seconds_per_day = 86400"

definition delete_analytics_older_than :: "rat \<Rightarrow> retention_store \<Rightarrow> nat \<times> retention_store" where
  "delete_analytics_older_than cutoff st =
     (let keep = filter (\<lambda>ts. \<not> ts \<le> cutoff);
          gone = (\<lambda>xs. length (filter (\<lambda>ts. ts \<le> cutoff) xs))
      in (gone (rt_risks st) + gone (rt_features st) + gone (rt_anomalies st),
          st\<lparr>rt_risks := keep (rt_risks st), rt_features := keep (rt_features st),
             rt_anomalies := keep (rt_anomalies st)\<rparr>))"

section \<open>Pruning by age\<close>

text \<open>\<open>now\<close> is \<open>clock()\<close>; None is "no action".\<close>

definition prune_by_age ::
  "(rat \<Rightarrow> string) \<Rightarrow> (retention_store \<Rightarrow> int) \<Rightarrow> retention_settings \<Rightarrow> rat \<Rightarrow> retention_store \<Rightarrow> maintenance_action option \<times> retention_store"
  where
  "prune_by_age fmt bytes cfg now st =
     (if rs_max_age_days cfg \<le> 0 then (None, st)
      else let cutoff = now - rs_max_age_days cfg * seconds_per_day;
               bytes_before = bytes st;
               (events_deleted, evs) = delete_events_older_than cutoff (rs_prune_batch cfg) (rt_events st);
               (rows_deleted, st') = delete_analytics_older_than cutoff (st\<lparr>rt_events := evs\<rparr>)
           in if events_deleted = 0 \<and> rows_deleted = 0 then (None, st')
              else (Some \<lparr>ma_action = ''prune_age'', ma_reason = ''retention_max_age_days='' @ fmt (rs_max_age_days cfg),
                       ma_events_deleted = events_deleted, ma_rows_deleted = rows_deleted,
                       ma_cutoff = Some cutoff, ma_oldest_retained = oldest_event_timestamp (rt_events st'),
                       ma_bytes_before = Some bytes_before, ma_bytes_after = Some (bytes st'),
                       ma_detail = None, ma_created_at = 0\<rparr>, st'))"

section \<open>The size cap\<close>

text \<open>\<open>int(cap * SIZE_CAP_TARGET_RATIO)\<close> and the number of events one round deletes.\<close>

definition size_cap_target :: "int \<Rightarrow> int" where
  "size_cap_target cap = \<lfloor>of_int cap * (9 / 10 :: rat)\<rfloor>"

definition round_deletes :: "int \<Rightarrow> int \<Rightarrow> nat \<Rightarrow> int" where
  "round_deletes current target n =
     (let bytes_per_event = max (of_int current / of_nat n) (1 :: rat);
          excess = of_int (current - target)
      in min (int n) (max 1 \<lfloor>excess / bytes_per_event\<rfloor>))"

record cap_run =
  cr_total :: nat
  cr_rounds :: nat
  cr_bytes :: int
  cr_store :: retention_store

text \<open>\<open>while current_bytes > cap and rounds < 8\<close>: \<open>left\<close> is \<open>8 - rounds\<close>.\<close>

fun size_cap_loop :: "(retention_store \<Rightarrow> int) \<Rightarrow> int \<Rightarrow> nat \<Rightarrow> cap_run \<Rightarrow> cap_run" where
  "size_cap_loop bytes cap 0 r = r"
| "size_cap_loop bytes cap (Suc left) r =
     (if cr_bytes r \<le> cap then r
      else let r = r\<lparr>cr_rounds := cr_rounds r + 1\<rparr>;
               n = count_events (rt_events (cr_store r))
        in if n = 0 then r
        else let to_delete = round_deletes (cr_bytes r) (size_cap_target cap) n;
                 (deleted, _, evs) = delete_oldest_events to_delete (rt_events (cr_store r));
                 st' = (cr_store r)\<lparr>rt_events := evs\<rparr>;
                 r' = r\<lparr>cr_total := cr_total r + deleted, cr_bytes := bytes st', cr_store := st'\<rparr>
          in if deleted = 0 then r' else size_cap_loop bytes cap left r')"

definition enforce_size_cap ::
  "(retention_store \<Rightarrow> int) \<Rightarrow> retention_settings \<Rightarrow> int \<Rightarrow> retention_store \<Rightarrow> maintenance_action option \<times> retention_store"
  where
  "enforce_size_cap bytes cfg bytes_before st =
     (let cap = rs_max_db_bytes cfg in
      if cap \<le> 0 then (None, st)
      else if bytes_before \<le> cap then (None, st)
      else let r = size_cap_loop bytes cap 8 \<lparr>cr_total = 0, cr_rounds = 0, cr_bytes = bytes_before, cr_store = st\<rparr>;
               oldest = oldest_event_timestamp (rt_events (cr_store r))
           in if cr_total r = 0 \<and> bytes_before \<le> cr_bytes r
              then (Some \<lparr>ma_action = ''size_cap'', ma_reason = ''retention_max_db_bytes='' @ int_str cap, ma_events_deleted = 0,
                     ma_rows_deleted = 0, ma_cutoff = None, ma_oldest_retained = oldest,
                     ma_bytes_before = Some bytes_before, ma_bytes_after = Some (cr_bytes r),
                     ma_detail = Some (''database is '' @ int_str bytes_before @ '' bytes against a cap of '' @ int_str cap @
                       '' but no events could be reclaimed; space is held by schema, indexes, or analytics rows''), ma_created_at = 0\<rparr>, cr_store r)
              else (Some \<lparr>ma_action = ''size_cap'', ma_reason = ''retention_max_db_bytes='' @ int_str cap,
                     ma_events_deleted = cr_total r, ma_rows_deleted = 0, ma_cutoff = None, ma_oldest_retained = oldest,
                     ma_bytes_before = Some bytes_before, ma_bytes_after = Some (cr_bytes r),
                     ma_detail = Some (''rounds='' @ nat_str (cr_rounds r)), ma_created_at = 0\<rparr>, cr_store r))"

section \<open>Schedules\<close>

text \<open>
  Clock value 0 stands for "never" in both schedules, as in the code. \<open>later\<close> is the second
  \<open>time.monotonic()\<close> after the vacuum.
\<close>

record retention_manager =
  rm_last_run :: rat
  rm_last_vacuum :: rat

definition maybe_vacuum ::
  "(rat \<Rightarrow> string) \<Rightarrow> (retention_store \<Rightarrow> int) \<Rightarrow> retention_settings \<Rightarrow> rat \<Rightarrow> rat \<Rightarrow> bool \<Rightarrow> int \<Rightarrow> retention_store \<Rightarrow> retention_manager \<Rightarrow>
   maintenance_action option \<times> retention_manager" where
  "maybe_vacuum fmt bytes cfg now later forced bytes_before st m =
     (let interval = rs_vacuum_interval cfg in
      if \<not> forced \<and> interval \<le> 0 then (None, m)
      else if \<not> forced \<and> rm_last_vacuum m \<noteq> 0 \<and> now - rm_last_vacuum m < interval then (None, m)
      else if \<not> forced \<and> rm_last_vacuum m = 0 then (None, m\<lparr>rm_last_vacuum := now\<rparr>)
      else (Some \<lparr>ma_action = ''vacuum'',
              ma_reason = (if forced then ''size_cap_reclaim'' else ''retention_vacuum_interval_seconds='' @ fmt interval),
              ma_events_deleted = 0, ma_rows_deleted = 0, ma_cutoff = None,
              ma_oldest_retained = oldest_event_timestamp (rt_events st), ma_bytes_before = Some bytes_before,
              ma_bytes_after = Some (bytes st), ma_detail = None, ma_created_at = 0\<rparr>,
            m\<lparr>rm_last_vacuum := later\<rparr>))"

text \<open>A failed log write is reported and the action returned without an id.\<close>

definition record_action ::
  "(maintenance_action \<Rightarrow> bool) \<Rightarrow> rat \<Rightarrow> maintenance_action \<Rightarrow> retention_store \<Rightarrow> (maintenance_action \<times> nat option) \<times> retention_store"
  where
  "record_action log_fails now a st =
     (let a = a\<lparr>ma_created_at := now\<rparr> in
      if log_fails a then ((a, None), st)
      else ((a, Some (length (rt_log st) + 1)), st\<lparr>rt_log := rt_log st @ [a]\<rparr>))"

fun record_actions ::
  "(maintenance_action \<Rightarrow> bool) \<Rightarrow> rat \<Rightarrow> maintenance_action list \<Rightarrow> retention_store \<Rightarrow>
   (maintenance_action \<times> nat option) list \<times> retention_store" where
  "record_actions log_fails now [] st = ([], st)"
| "record_actions log_fails now (a # as) st =
     (let (p, st') = record_action log_fails now a st;
          (ps, st'') = record_actions log_fails now as st'
      in (p # ps, st''))"

definition opt_list :: "'a option \<Rightarrow> 'a list" where
  "opt_list x = (case x of None \<Rightarrow> [] | Some a \<Rightarrow> [a])"

text \<open>\<open>before\<close> is the file size before the cap is enforced, \<open>unvacuumed\<close> before the final vacuum.\<close>

definition run_once ::
  "(rat \<Rightarrow> string) \<Rightarrow> (retention_store \<Rightarrow> int) \<Rightarrow> (maintenance_action \<Rightarrow> bool) \<Rightarrow> retention_settings \<Rightarrow> rat \<Rightarrow> rat \<Rightarrow> rat \<Rightarrow> int \<Rightarrow> int \<Rightarrow>
   retention_store \<Rightarrow> retention_manager \<Rightarrow> (maintenance_action \<times> nat option) list \<times> retention_store \<times> retention_manager"
  where
  "run_once fmt bytes log_fails cfg wall now later before unvacuumed st m =
     (let (age, st1) = prune_by_age fmt bytes cfg wall st;
          (size, st2) = enforce_size_cap bytes cfg before st1;
          (vac, m') = maybe_vacuum fmt bytes cfg now later (size \<noteq> None) unvacuumed st2 m;
          (ps, st3) = record_actions log_fails wall (opt_list age @ opt_list size @ opt_list vac) st2
      in (ps, st3, m'))"

text \<open>The gate of \<open>maybe_run\<close>: whether the policy runs now, and the new schedule.\<close>

definition maybe_run_gate :: "retention_settings \<Rightarrow> bool \<Rightarrow> rat \<Rightarrow> retention_manager \<Rightarrow> bool \<times> retention_manager" where
  "maybe_run_gate cfg force now m =
     (if \<not> force \<and> rm_last_run m \<noteq> 0 \<and> now - rm_last_run m < rs_interval cfg then (False, m)
      else (True, m\<lparr>rm_last_run := now\<rparr>))"

fun run_times :: "retention_settings \<Rightarrow> rat list \<Rightarrow> retention_manager \<Rightarrow> rat list" where
  "run_times cfg [] m = []"
| "run_times cfg (now # ts) m =
     (let (go, m') = maybe_run_gate cfg False now m
      in if go then now # run_times cfg ts m' else run_times cfg ts m')"

section \<open>Lemmas\<close>

lemma prune_by_age_store:
  assumes "0 < rs_max_age_days cfg" and "distinct (map se_id (et_events (rt_events st)))"
  shows "et_events (rt_events (snd (prune_by_age fmt bytes cfg now st))) =
      filter (\<lambda>e. now - rs_max_age_days cfg * seconds_per_day < se_timestamp e) (et_events (rt_events st))"
    and "rt_risks (snd (prune_by_age fmt bytes cfg now st)) =
      filter (\<lambda>ts. now - rs_max_age_days cfg * seconds_per_day < ts) (rt_risks st)"
    and "rt_log (snd (prune_by_age fmt bytes cfg now st)) = rt_log st"
  using delete_loop_result [OF assms(2), of "now - rs_max_age_days cfg * seconds_per_day" "rs_prune_batch cfg" 0] assms(1)
  by (simp_all add: prune_by_age_def Let_def split_beta delete_events_older_than_def
      delete_analytics_older_than_def not_le)

definition suffix_kept :: "stored_event list \<Rightarrow> stored_event list \<Rightarrow> bool" where
  "suffix_kept old new \<longleftrightarrow> set new \<subseteq> set old \<and> distinct (map se_id new) \<and>
     (\<forall>a \<in> set old - set new. \<forall>b \<in> set new. event_key a < event_key b)"

lemma suffix_kept_trans:
  assumes "suffix_kept a b" and "suffix_kept b c"
  shows "suffix_kept a c"
  using assms unfolding suffix_kept_def by blast

lemma suffix_kept_delete:
  assumes "distinct (map se_id (et_events t))"
  shows "suffix_kept (et_events t) (et_events (snd (snd (delete_oldest_events n t))))"
  unfolding suffix_kept_def delete_oldest_result(2) [OF assms]
  using assms prefix_keys_less [OF assms] by (auto simp: distinct_map_filter)

lemma delete_oldest_count:
  "fst (delete_oldest_events n t) + length (et_events (snd (snd (delete_oldest_events n t)))) = length (et_events t)"
  by (simp add: delete_oldest_events_def drop_ids_def Let_def)

text \<open>One round of the loop.\<close>

definition cap_round :: "(retention_store \<Rightarrow> int) \<Rightarrow> int \<Rightarrow> cap_run \<Rightarrow> cap_run" where
  "cap_round bytes cap r =
     (let evs = rt_events (cr_store r);
          d = delete_oldest_events (round_deletes (cr_bytes r) (size_cap_target cap) (count_events evs)) evs;
          st' = (cr_store r)\<lparr>rt_events := snd (snd d)\<rparr>
      in r\<lparr>cr_rounds := cr_rounds r + 1, cr_total := cr_total r + fst d, cr_bytes := bytes st', cr_store := st'\<rparr>)"

lemma size_cap_loop_Suc:
  "size_cap_loop bytes cap (Suc left) r =
    (if cr_bytes r \<le> cap then r
     else if count_events (rt_events (cr_store r)) = 0 then r\<lparr>cr_rounds := cr_rounds r + 1\<rparr>
     else if cr_total (cap_round bytes cap r) = cr_total r then cap_round bytes cap r
     else size_cap_loop bytes cap left (cap_round bytes cap r))"
  by (simp add: cap_round_def Let_def split_beta)

lemma cap_round_keeps:
  assumes "distinct (map se_id (et_events (rt_events (cr_store r))))"
  shows "suffix_kept (et_events (rt_events (cr_store r))) (et_events (rt_events (cr_store (cap_round bytes cap r))))"
    and "rt_log (cr_store (cap_round bytes cap r)) = rt_log (cr_store r)"
    and "cr_rounds (cap_round bytes cap r) = cr_rounds r + 1"
    and "cr_total (cap_round bytes cap r) + count_events (rt_events (cr_store (cap_round bytes cap r))) =
      cr_total r + count_events (rt_events (cr_store r))"
  using suffix_kept_delete [OF assms] delete_oldest_count
  by (simp_all add: cap_round_def Let_def count_events_def add.assoc)

lemma size_cap_loop_keeps:
  "distinct (map se_id (et_events (rt_events (cr_store r)))) \<Longrightarrow>
   suffix_kept (et_events (rt_events (cr_store r))) (et_events (rt_events (cr_store (size_cap_loop bytes cap left r))))
   \<and> cr_rounds (size_cap_loop bytes cap left r) \<le> cr_rounds r + left
   \<and> rt_log (cr_store (size_cap_loop bytes cap left r)) = rt_log (cr_store r)
   \<and> cr_total (size_cap_loop bytes cap left r) + count_events (rt_events (cr_store (size_cap_loop bytes cap left r))) =
     cr_total r + count_events (rt_events (cr_store r))"
proof (induction left arbitrary: r)
  case 0
  then show ?case by (simp add: suffix_kept_def)
next
  case (Suc left)
  have id: "suffix_kept (et_events (rt_events (cr_store r))) (et_events (rt_events (cr_store r)))"
    using Suc.prems by (simp add: suffix_kept_def)
  note step = cap_round_keeps [OF Suc.prems, of bytes cap]
  have d: "distinct (map se_id (et_events (rt_events (cr_store (cap_round bytes cap r)))))"
    using step(1) by (simp add: suffix_kept_def)
  note ih = Suc.IH [OF d]
  show ?case
    unfolding size_cap_loop_Suc using id step ih suffix_kept_trans [OF step(1)] by simp
qed

lemma round_deletes_range: "0 < n \<Longrightarrow> 1 \<le> round_deletes current target n \<and> round_deletes current target n \<le> int n"
  by (simp add: round_deletes_def Let_def)

lemma cap_round_progress:
  assumes "distinct (map se_id (et_events (rt_events (cr_store r))))" and "et_events (rt_events (cr_store r)) \<noteq> []"
  shows "cr_total (cap_round bytes cap r) \<noteq> cr_total r"
proof -
  let ?n = "count_events (rt_events (cr_store r))"
  have "0 < ?n" using assms(2) by (simp add: count_events_def)
  then have "0 < fst (delete_oldest_events (round_deletes (cr_bytes r) (size_cap_target cap) ?n) (rt_events (cr_store r)))"
    using round_deletes_range [of ?n "cr_bytes r" "size_cap_target cap"]
    by (simp add: delete_oldest_result(1) [OF assms(1)] count_events_def)
  then show ?thesis by (simp add: cap_round_def Let_def)
qed

lemma size_cap_loop_outcome:
  "distinct (map se_id (et_events (rt_events (cr_store r)))) \<Longrightarrow>
   cr_bytes (size_cap_loop bytes cap left r) \<le> cap \<or>
   et_events (rt_events (cr_store (size_cap_loop bytes cap left r))) = [] \<or>
   cr_rounds (size_cap_loop bytes cap left r) = cr_rounds r + left"
proof (induction left arbitrary: r)
  case (Suc left)
  note step = cap_round_keeps [OF Suc.prems, of bytes cap]
  have d: "distinct (map se_id (et_events (rt_events (cr_store (cap_round bytes cap r)))))"
    using step(1) by (simp add: suffix_kept_def)
  show ?case
  proof (cases "et_events (rt_events (cr_store r)) = []")
    case True
    then show ?thesis unfolding size_cap_loop_Suc by (simp add: count_events_def)
  next
    case False
    with cap_round_progress [OF Suc.prems False, of bytes cap] Suc.IH [OF d] step(3)
    show ?thesis unfolding size_cap_loop_Suc by (auto simp: count_events_def)
  qed
qed simp

section \<open>One round is enough when events dominate the file\<close>

lemma cap_round_fits:
  fixes overhead per_event cap current :: int and n :: nat
  assumes "1 \<le> per_event" and "0 \<le> overhead" and "overhead + per_event \<le> cap - size_cap_target cap"
    and "current = overhead + per_event * int n" and "cap < current" and "0 < cap"
  shows "overhead + per_event * (int n - round_deletes current (size_cap_target cap) n) \<le> cap"
proof -
  let ?t = "size_cap_target cap" and ?d = "round_deletes current (size_cap_target cap) n"
  have t0: "0 \<le> ?t" using assms(6) by (simp add: size_cap_target_def)
  have n: "0 < n"
  proof (cases n)
    case 0
    then have "cap < overhead" using assms(4,5) by simp
    with assms(1,3) t0 show ?thesis by linarith
  qed simp
  have tc: "?t \<le> cap" using assms(1,2,3) by linarith
  have pe: "(1 :: rat) \<le> of_int current / of_nat n"
  proof -
    have "int n \<le> per_event * int n" using assms(1) mult_right_mono [of 1 per_event "int n"] by simp
    then have "int n \<le> current" using assms(2,4) by linarith
    then have "(of_nat n :: rat) \<le> of_int current" by (metis of_int_le_iff of_int_of_nat_eq)
    then show ?thesis using n by (simp add: le_divide_eq)
  qed
  have cur: "(0 :: rat) < of_int current" using assms(5,6) by simp
  let ?q = "of_int (current - ?t) / (of_int current / of_nat n) :: rat"
  have q: "?q = of_nat n - of_nat n * of_int ?t / of_int current" using cur n by (simp add: field_simps)
  have "?d = min (int n) (max 1 \<lfloor>?q\<rfloor>)" by (simp only: round_deletes_def Let_def max_absorb1 [OF pe])
  moreover have "?q \<le> of_nat n" unfolding q using cur t0 n by simp
  then have "\<lfloor>?q\<rfloor> \<le> int n" by (simp add: floor_le_iff)
  ultimately have "\<lfloor>?q\<rfloor> \<le> ?d" using n by linarith
  moreover have "?q < of_int \<lfloor>?q\<rfloor> + 1" by linarith
  ultimately have "?q < of_int ?d + 1" by linarith
  then have "of_int (int n - ?d) < of_nat n * of_int ?t / of_int current + (1 :: rat)" unfolding q by simp
  then have "of_int per_event * of_int (int n - ?d) \<le> of_int per_event * (of_nat n * of_int ?t / of_int current + (1 :: rat))"
    using assms(1) by (intro mult_left_mono) simp_all
  also have "\<dots> = of_int ?t * (of_int per_event * of_nat n / of_int current) + of_int per_event"
    by (simp add: algebra_simps)
  also have "\<dots> \<le> of_int ?t * 1 + of_int per_event"
  proof -
    have "(of_int per_event * of_nat n :: rat) \<le> of_int current"
      using assms(2,4) by simp
    then have "of_int per_event * of_nat n / of_int current \<le> (1 :: rat)" using cur by (simp add: divide_le_eq)
    then show ?thesis using t0 by (intro add_right_mono mult_left_mono) simp_all
  qed
  finally have "(of_int (per_event * (int n - ?d)) :: rat) \<le> of_int (?t + per_event)" by simp
  then have "per_event * (int n - ?d) \<le> ?t + per_event" by (simp only: of_int_le_iff)
  then show ?thesis using assms(3) by linarith
qed

section \<open>The run schedule\<close>

lemma run_times_spaced:
  assumes "0 \<le> rs_interval cfg"
  shows "\<forall>x \<in> set ts. 0 < x \<Longrightarrow> sorted ts \<Longrightarrow> 0 \<le> rm_last_run m \<Longrightarrow>
    (\<forall>x \<in> set (run_times cfg ts m). rm_last_run m = 0 \<or> rs_interval cfg \<le> x - rm_last_run m) \<and>
    sorted_wrt (\<lambda>x y. rs_interval cfg \<le> y - x) (run_times cfg ts m)"
proof (induction ts arbitrary: m)
  case (Cons now ts)
  have sorted: "sorted ts" "\<forall>x \<in> set ts. 0 < x" "0 < now" using Cons.prems by simp_all
  show ?case
  proof (cases "rm_last_run m \<noteq> 0 \<and> now - rm_last_run m < rs_interval cfg")
    case True
    then show ?thesis using Cons.IH [OF sorted(2,1) Cons.prems(3)] by (simp add: maybe_run_gate_def Let_def)
  next
    case False
    let ?m = "m\<lparr>rm_last_run := now\<rparr>"
    have ih: "(\<forall>x \<in> set (run_times cfg ts ?m). rs_interval cfg \<le> x - now) \<and>
        sorted_wrt (\<lambda>x y. rs_interval cfg \<le> y - x) (run_times cfg ts ?m)"
      using Cons.IH [of ?m] sorted by simp
    have eq: "run_times cfg (now # ts) m = now # run_times cfg ts ?m"
      using False by (simp only: run_times.simps maybe_run_gate_def not_False_eq_True simp_thms if_False Let_def case_prod_conv if_True)
    have far: "rm_last_run m = 0 \<or> rs_interval cfg \<le> now - rm_last_run m" using False by linarith
    have "rm_last_run m = 0 \<or> rs_interval cfg \<le> x - rm_last_run m" if "x \<in> set (run_times cfg ts ?m)" for x
    proof -
      have "rs_interval cfg \<le> x - now" using ih that by blast
      with far assms show ?thesis by linarith
    qed
    then have "\<forall>x \<in> set (now # run_times cfg ts ?m). rm_last_run m = 0 \<or> rs_interval cfg \<le> x - rm_last_run m"
      using far by (metis set_ConsD)
    then show ?thesis unfolding eq sorted_wrt.simps by (intro conjI) (use ih in simp_all)
  qed
qed simp

section \<open>Properties\<close>

text \<open>C6: reading the events page by page with the \<open>(timestamp, id)\<close> cursor ends and returns exactly the
  matching rows in that order, whatever the page size, although ids need not follow timestamps.\<close>

theorem keyset_walk_is_sorted:
  assumes "events_ok t" and "0 < page_size"
  shows "stream_event_rows clause page_size t = sort_key event_key (filter clause (et_events t))"
  using stream_from_sorted [of "et_events t" page_size clause None] assms
  by (simp add: stream_event_rows_def events_ok_def after_cursor_def)

definition demo_events :: event_table where
  "demo_events = snd (write_events (\<lambda>ty ts cols. ty @ int_str \<lfloor>ts\<rfloor>)
     [Some \<lparr>in_type = Some ''a'', in_timestamp = Some 20, in_columns = Inr Map.empty\<rparr>,
      Some \<lparr>in_type = Some ''a'', in_timestamp = Some 10, in_columns = Inr Map.empty\<rparr>, None] empty_events)"

lemma demo_events_ok: "events_ok demo_events"
  unfolding demo_events_def write_events_def
  by (simp add: split_beta Let_def del: encode_batch.simps)
    (rule events_ok_fold [OF events_ok_empty], blast intro: encode_numbered)

theorem keyset_walk_is_sorted_witness:
  "stream_event_rows (\<lambda>e. se_type e = ''a'') 1 demo_events =
    sort_key event_key (filter (\<lambda>e. se_type e = ''a'') (et_events demo_events))"
  by (rule keyset_walk_is_sorted [OF demo_events_ok]) simp

text \<open>A batch insert accounts for every event it was given: rejected plus attempted is the batch, inserted
  plus duplicates is attempted, the table grows by the inserted number, and writing the same batch again
  inserts nothing.\<close>

theorem batch_accounts_for_every_event:
  shows "br_attempted (fst (write_events hash events t)) + length (br_rejected (fst (write_events hash events t))) = length events \<and>
    br_inserted (fst (write_events hash events t)) + br_duplicates (fst (write_events hash events t)) =
      br_attempted (fst (write_events hash events t)) \<and>
    count_events (snd (write_events hash events t)) = count_events t + br_inserted (fst (write_events hash events t)) \<and>
    snd (write_events hash events (snd (write_events hash events t))) = snd (write_events hash events t)"
proof -
  let ?rows = "fst (encode_batch hash events)"
  let ?t = "fold insert_or_ignore ?rows t"
  have grow: "length (et_events t) \<le> length (et_events ?t)" "length (et_events ?t) \<le> length (et_events t) + length ?rows"
    using fold_grows by blast+
  have "\<forall>row \<in> set ?rows. \<forall>i. se_hash (row i) \<in> set (map se_hash (et_events ?t))"
    using fold_has_hash encode_numbered by blast
  then have "fold insert_or_ignore ?rows ?t = ?t" by (rule fold_known)
  with grow encode_lengths [of hash events] show ?thesis
    by (simp add: write_events_def Let_def split_beta count_events_def)
qed

text \<open>Pruning by age removes exactly the events at or before the cutoff, in batches of any size, counts
  them, and leaves everything newer; a window of zero or fewer days removes nothing.\<close>

theorem prune_by_age_exact:
  assumes "events_ok (rt_events st)"
  shows "et_events (rt_events (snd (prune_by_age fmt bytes cfg now st))) =
      (if rs_max_age_days cfg \<le> 0 then et_events (rt_events st)
       else filter (\<lambda>e. now - rs_max_age_days cfg * seconds_per_day < se_timestamp e) (et_events (rt_events st)))"
  using prune_by_age_store(1) [of cfg st fmt bytes now] assms by (simp add: events_ok_def prune_by_age_def)

definition demo_retention :: retention_store where
  "demo_retention = \<lparr>rt_events = demo_events, rt_risks = [], rt_features = [], rt_anomalies = [], rt_log = []\<rparr>"

definition demo_settings :: retention_settings where
  "demo_settings = \<lparr>rs_interval = 10, rs_max_age_days = 1, rs_max_db_bytes = 1, rs_vacuum_interval = 0, rs_prune_batch = 1\<rparr>"

theorem prune_by_age_exact_witness:
  "et_events (rt_events (snd (prune_by_age (\<lambda>_. []) (\<lambda>_. 0) demo_settings 86415 demo_retention))) =
      (if rs_max_age_days demo_settings \<le> 0 then et_events (rt_events demo_retention)
       else filter (\<lambda>e. 86415 - rs_max_age_days demo_settings * seconds_per_day < se_timestamp e) (et_events (rt_events demo_retention)))"
  by (rule prune_by_age_exact) (simp add: demo_retention_def demo_events_ok)

text \<open>C7: enforcing the size cap never touches a database within its budget; otherwise it takes at most eight
  rounds, every event it deletes is older than every event it keeps, the recorded action counts the deleted
  events, and the run ends within the cap, or with no event left, or after all eight rounds.\<close>

theorem size_cap_deletes_oldest:
  assumes "events_ok (rt_events st)"
  shows "let st' = snd (enforce_size_cap bytes cfg before st);
      old = et_events (rt_events st); new = et_events (rt_events st');
      cap = rs_max_db_bytes cfg;
      r = size_cap_loop bytes cap 8 \<lparr>cr_total = 0, cr_rounds = 0, cr_bytes = before, cr_store = st\<rparr> in
    if cap \<le> 0 \<or> before \<le> cap then fst (enforce_size_cap bytes cfg before st) = None \<and> st' = st
    else suffix_kept old new \<and> rt_log st' = rt_log st \<and> cr_rounds r \<le> 8 \<and>
      map_option ma_events_deleted (fst (enforce_size_cap bytes cfg before st)) = Some (length old - length new) \<and>
      map_option ma_bytes_after (fst (enforce_size_cap bytes cfg before st)) = Some (Some (cr_bytes r)) \<and>
      (cr_bytes r \<le> cap \<or> new = [] \<or> cr_rounds r = 8)"
proof -
  let ?init = "\<lparr>cr_total = 0, cr_rounds = 0, cr_bytes = before, cr_store = st\<rparr>"
  let ?run = "size_cap_loop bytes (rs_max_db_bytes cfg) 8 ?init"
  have d: "distinct (map se_id (et_events (rt_events (cr_store ?init))))" using assms by (simp add: events_ok_def)
  note keeps = size_cap_loop_keeps [OF d, of bytes "rs_max_db_bytes cfg" 8, simplified]
  note outcome = size_cap_loop_outcome [OF d, of bytes "rs_max_db_bytes cfg" 8, simplified]
  have len: "cr_total ?run = length (et_events (rt_events st)) - length (et_events (rt_events (cr_store ?run)))"
    using keeps unfolding count_events_def by linarith
  show ?thesis
  proof (cases "rs_max_db_bytes cfg \<le> 0 \<or> before \<le> rs_max_db_bytes cfg")
    case True
    then show ?thesis by (auto simp: enforce_size_cap_def Let_def)
  next
    case False
    then have st': "snd (enforce_size_cap bytes cfg before st) = cr_store ?run"
      and act: "map_option ma_events_deleted (fst (enforce_size_cap bytes cfg before st)) = Some (cr_total ?run)"
        "map_option ma_bytes_after (fst (enforce_size_cap bytes cfg before st)) = Some (Some (cr_bytes ?run))"
      by (auto simp: enforce_size_cap_def Let_def)
    show ?thesis using keeps outcome False unfolding Let_def st' act len by (simp only: if_False simp_thms)
  qed
qed

definition demo_bytes :: "retention_store \<Rightarrow> int" where
  "demo_bytes s = int (count_events (rt_events s))"

theorem size_cap_deletes_oldest_witness:
  "let st' = snd (enforce_size_cap demo_bytes demo_settings 2 demo_retention);
      old = et_events (rt_events demo_retention); new = et_events (rt_events st');
      cap = rs_max_db_bytes demo_settings;
      r = size_cap_loop demo_bytes cap 8 \<lparr>cr_total = 0, cr_rounds = 0, cr_bytes = 2, cr_store = demo_retention\<rparr> in
    if cap \<le> 0 \<or> 2 \<le> cap then fst (enforce_size_cap demo_bytes demo_settings 2 demo_retention) = None \<and> st' = demo_retention
    else suffix_kept old new \<and> rt_log st' = rt_log demo_retention \<and> cr_rounds r \<le> 8 \<and>
      map_option ma_events_deleted (fst (enforce_size_cap demo_bytes demo_settings 2 demo_retention)) = Some (length old - length new) \<and>
      map_option ma_bytes_after (fst (enforce_size_cap demo_bytes demo_settings 2 demo_retention)) = Some (Some (cr_bytes r)) \<and>
      (cr_bytes r \<le> cap \<or> new = [] \<or> cr_rounds r = 8)"
  by (rule size_cap_deletes_oldest) (simp add: demo_retention_def demo_events_ok)



text \<open>Unforced maintenance runs are at least the configured interval apart, whenever the monotonic clock
  readings are positive.\<close>

theorem runs_are_spaced:
  assumes "0 \<le> rs_interval cfg" and "\<forall>x \<in> set ts. 0 < x" and "sorted ts"
  shows "sorted_wrt (\<lambda>x y. rs_interval cfg \<le> y - x) (run_times cfg ts \<lparr>rm_last_run = 0, rm_last_vacuum = v\<rparr>)"
  using run_times_spaced [OF assms, of "\<lparr>rm_last_run = 0, rm_last_vacuum = v\<rparr>"] by simp

theorem runs_are_spaced_witness:
  "sorted_wrt (\<lambda>x y. rs_interval demo_settings \<le> y - x) (run_times demo_settings [1, 5, 12] \<lparr>rm_last_run = 0, rm_last_vacuum = 0\<rparr>)"
  by (rule runs_are_spaced) (simp_all add: demo_settings_def)

end
