(* ===== verification/System_Failure.thy ===== *)
theory System_Failure
  imports Evidence_Tables
begin

text \<open>
  The availability scorer \<^verbatim>\<open>detection/system_failure.py\<close>: window-idempotent hysteresis counters with
  a dead band, host and service scoring, crash-loop counting, and the hand-over of its findings to
  the findings table. Number formatting of the detail texts is a parameter; arithmetic is exact.
\<close>

section \<open>Hysteresis counters\<close>

definition breach_high :: "bool \<Rightarrow> rat \<Rightarrow> rat \<Rightarrow> rat \<Rightarrow> bool" where
  "breach_high active v threshold clear_ratio =
     (if active then threshold * clear_ratio \<le> v else threshold \<le> v)"

definition breach_low :: "bool \<Rightarrow> rat \<Rightarrow> rat \<Rightarrow> rat \<Rightarrow> bool" where
  "breach_low active v threshold clear_ratio =
     (if active then v \<le> threshold / clear_ratio else v \<le> threshold)"

record counter =
  hc_breach_needed :: nat
  hc_clear_needed :: nat
  hc_breach_count :: nat
  hc_clear_count :: nat
  hc_active :: bool
  hc_last_window :: "rat option"

definition new_counter :: "int \<Rightarrow> int \<Rightarrow> counter" where
  "new_counter breach_needed clear_needed =
     \<lparr>hc_breach_needed = nat (max 1 breach_needed), hc_clear_needed = nat (max 1 clear_needed),
      hc_breach_count = 0, hc_clear_count = 0, hc_active = False, hc_last_window = None\<rparr>"

definition stale :: "rat option \<Rightarrow> rat \<Rightarrow> bool" where
  "stale prev w = (case prev of None \<Rightarrow> False | Some l \<Rightarrow> w \<le> l)"

text \<open>The result is \<open>(now_active, just_cleared)\<close>.\<close>

definition observe :: "bool \<Rightarrow> rat \<Rightarrow> counter \<Rightarrow> (bool \<times> bool) \<times> counter" where
  "observe in_breach w c =
     (if stale (hc_last_window c) w then ((hc_active c, False), c)
      else let c = c\<lparr>hc_last_window := Some w\<rparr> in
        if in_breach then
          let c = c\<lparr>hc_breach_count := hc_breach_count c + 1, hc_clear_count := 0\<rparr>;
              c = (if \<not> hc_active c \<and> hc_breach_needed c \<le> hc_breach_count c then c\<lparr>hc_active := True\<rparr> else c)
          in ((hc_active c, False), c)
        else
          let c = c\<lparr>hc_clear_count := hc_clear_count c + 1, hc_breach_count := 0\<rparr> in
          if hc_active c \<and> hc_clear_needed c \<le> hc_clear_count c then ((False, True), c\<lparr>hc_active := False\<rparr>)
          else ((hc_active c, False), c))"

record host_state =
  hs_mem_high :: counter
  hs_mem_medium :: counter
  hs_mem_available :: counter
  hs_cpu_high :: counter
  hs_disk_full :: counter

section \<open>Events, settings, findings\<close>

datatype sf_type = System_Health | Service_State | Other_Type

record sf_event =
  sf_type :: sf_type
  sf_timestamp :: rat
  sf_host :: "string option"
  sf_mem_percent :: "rat option"
  sf_mem_available :: "int option"
  sf_cpu_percent :: "rat option"
  sf_disk_percent :: "rat option"
  sf_unit :: "string option"
  sf_action :: "string option"
  sf_result :: "string option"

record failure_settings =
  fs_memory_high_pct :: rat
  fs_memory_medium_pct :: rat
  fs_memory_min_available_mb :: int
  fs_cpu_high_pct :: rat
  fs_disk_full_pct :: rat
  fs_consecutive_windows :: int
  fs_clear_windows :: int
  fs_clear_ratio :: rat
  fs_crash_loop_threshold :: int
  fs_crash_loop_window :: rat

definition failure_thresholds :: "failure_settings \<Rightarrow> (string \<times> sqlval) list" where
  "failure_thresholds s =
     [(''failure_memory_high_pct'', SReal (fs_memory_high_pct s)),
      (''failure_memory_medium_pct'', SReal (fs_memory_medium_pct s)),
      (''failure_memory_min_available_mb'', SInt (fs_memory_min_available_mb s)),
      (''failure_cpu_high_pct'', SReal (fs_cpu_high_pct s)),
      (''failure_disk_full_pct'', SReal (fs_disk_full_pct s)),
      (''failure_consecutive_windows'', SInt (fs_consecutive_windows s)),
      (''failure_clear_windows'', SInt (fs_clear_windows s)),
      (''failure_clear_ratio'', SReal (fs_clear_ratio s)),
      (''failure_crash_loop_threshold'', SInt (fs_crash_loop_threshold s)),
      (''failure_crash_loop_window_seconds'', SReal (fs_crash_loop_window s))]"

text \<open>Formatting: \<open>:.1f\<close>, \<open>:.0f\<close>, \<open>:.4f\<close> of a float and \<open>!r\<close> of a string.\<close>

record formats =
  f1 :: "rat \<Rightarrow> string"
  f0 :: "rat \<Rightarrow> string"
  f4 :: "rat \<Rightarrow> string"
  quoted :: "string \<Rightarrow> string"

record failure_finding =
  ff_window_start :: rat
  ff_window_end :: rat
  ff_entity_type :: string
  ff_entity_key :: string
  ff_risk_score :: rat
  ff_severity :: string
  ff_condition :: string
  ff_detail :: string
  ff_context :: "(string \<times> sqlval) list"
  ff_consecutive_windows :: nat
  ff_explanation :: string

definition failure_severity :: "rat \<Rightarrow> string" where
  "failure_severity risk =
     (if risk \<ge> 80/100 then ''HIGH'' else if risk \<ge> 50/100 then ''MEDIUM'' else ''LOW'')"

definition build_finding :: "formats \<Rightarrow> rat \<Rightarrow> rat \<Rightarrow> string \<Rightarrow> string \<Rightarrow> rat \<Rightarrow> string \<Rightarrow> string \<Rightarrow>
    (string \<times> sqlval) list \<Rightarrow> nat \<Rightarrow> failure_finding" where
  "build_finding fm ws we etype key risk condition detail context n =
     \<lparr>ff_window_start = ws, ff_window_end = we, ff_entity_type = etype, ff_entity_key = key,
      ff_risk_score = risk, ff_severity = failure_severity risk, ff_condition = condition,
      ff_detail = detail, ff_context = context, ff_consecutive_windows = n,
      ff_explanation = ''system_failure='' @ condition @ ''; risk='' @ f4 fm risk @ ''; entity='' @ etype @ '':'' @ key @
        ''; consecutive_windows='' @ nat_str n\<rparr>"

text \<open>The canonical JSON text \<open>_provenance_hash\<close> digests: sorted keys, stable identity only.\<close>

definition identity_text :: "(rat \<Rightarrow> string) \<Rightarrow> failure_finding \<Rightarrow> string" where
  "identity_text fr f =
     ''{'' @ json_string ''condition'' @ '':'' @ json_string (ff_condition f) @
     '','' @ json_string ''detector_version'' @ '':'' @ json_string ''system_failure.v1'' @
     '','' @ json_string ''entity_key'' @ '':'' @ json_string (ff_entity_key f) @
     '','' @ json_string ''entity_type'' @ '':'' @ json_string (ff_entity_type f) @
     '','' @ json_string ''severity'' @ '':'' @ json_string (ff_severity f) @
     '','' @ json_string ''window_end'' @ '':'' @ fr (ff_window_end f) @
     '','' @ json_string ''window_start'' @ '':'' @ fr (ff_window_start f) @ ''}''"

section \<open>Host scoring\<close>

text \<open>\<open>max(events, key=timestamp)\<close>: the first of the latest samples.\<close>

fun representative :: "sf_event \<Rightarrow> sf_event list \<Rightarrow> sf_event" where
  "representative best [] = best"
| "representative best (e # es) =
     representative (if sf_timestamp best < sf_timestamp e then e else best) es"

definition new_host_state :: "failure_settings \<Rightarrow> host_state" where
  "new_host_state s =
     (let c = new_counter (fs_consecutive_windows s) (fs_clear_windows s)
      in \<lparr>hs_mem_high = c, hs_mem_medium = c, hs_mem_available = c, hs_cpu_high = c, hs_disk_full = c\<rparr>)"

definition check_disk :: "formats \<Rightarrow> failure_settings \<Rightarrow> string \<Rightarrow> rat \<Rightarrow> rat \<Rightarrow> rat option \<Rightarrow> host_state \<Rightarrow>
    failure_finding list \<times> host_state" where
  "check_disk fm s host ws we reading st =
     (case reading of
        None \<Rightarrow> ([], st)
      | Some v \<Rightarrow>
          let breach = breach_high (hc_active (hs_disk_full st)) v (fs_disk_full_pct s) (fs_clear_ratio s);
              ((active, _), c) = observe breach ws (hs_disk_full st);
              st' = st\<lparr>hs_disk_full := c\<rparr>
          in (if active then
                [build_finding fm ws we ''host'' host (85/100) ''disk_full''
                   (''Disk usage '' @ f1 fm v @ ''% >= threshold '' @ f1 fm (fs_disk_full_pct s) @ ''%'')
                   (failure_thresholds s @ [(''observed_disk_percent'', SReal v)]) (hc_breach_count c)]
              else [], st'))"

definition check_memory :: "formats \<Rightarrow> failure_settings \<Rightarrow> string \<Rightarrow> rat \<Rightarrow> rat \<Rightarrow> rat option \<Rightarrow> host_state \<Rightarrow>
    failure_finding list \<times> host_state" where
  "check_memory fm s host ws we reading st =
     (case reading of
        None \<Rightarrow> ([], st)
      | Some v \<Rightarrow>
          let high_breach = breach_high (hc_active (hs_mem_high st)) v (fs_memory_high_pct s) (fs_clear_ratio s);
              med_breach = breach_high (hc_active (hs_mem_medium st)) v (fs_memory_medium_pct s) (fs_clear_ratio s);
              ((active_high, _), ch) = observe high_breach ws (hs_mem_high st);
              ((active_med, _), cm) = observe med_breach ws (hs_mem_medium st);
              st' = st\<lparr>hs_mem_high := ch, hs_mem_medium := cm\<rparr>;
              context = failure_thresholds s @ [(''observed_mem_percent'', SReal v)]
          in (if active_high then
                [build_finding fm ws we ''host'' host (65/100) ''memory_pressure_high''
                   (''mem_percent '' @ f1 fm v @ ''% >= threshold '' @ f1 fm (fs_memory_high_pct s) @ ''%'')
                   context (hc_breach_count ch)]
              else if active_med then
                [build_finding fm ws we ''host'' host (40/100) ''memory_pressure_medium''
                   (''mem_percent '' @ f1 fm v @ ''% >= threshold '' @ f1 fm (fs_memory_medium_pct s) @ ''%'')
                   context (hc_breach_count cm)]
              else [], st'))"

definition check_available :: "formats \<Rightarrow> failure_settings \<Rightarrow> string \<Rightarrow> rat \<Rightarrow> rat \<Rightarrow> int option \<Rightarrow> host_state \<Rightarrow>
    failure_finding list \<times> host_state" where
  "check_available fm s host ws we reading st =
     (case reading of
        None \<Rightarrow> ([], st)
      | Some mb \<Rightarrow>
          let breach = breach_low (hc_active (hs_mem_available st)) (of_int mb)
                (of_int (fs_memory_min_available_mb s)) (fs_clear_ratio s);
              ((active, _), c) = observe breach ws (hs_mem_available st);
              st' = st\<lparr>hs_mem_available := c\<rparr>
          in (if active then
                [build_finding fm ws we ''host'' host (65/100) ''memory_available_low''
                   (''mem_available_mb '' @ int_str mb @ '' MB <= threshold '' @
                    int_str (fs_memory_min_available_mb s) @ '' MB'')
                   (failure_thresholds s @ [(''observed_mem_available_mb'', SInt mb)]) (hc_breach_count c)]
              else [], st'))"

definition check_cpu :: "formats \<Rightarrow> failure_settings \<Rightarrow> string \<Rightarrow> rat \<Rightarrow> rat \<Rightarrow> rat option \<Rightarrow> host_state \<Rightarrow>
    failure_finding list \<times> host_state" where
  "check_cpu fm s host ws we reading st =
     (case reading of
        None \<Rightarrow> ([], st)
      | Some v \<Rightarrow>
          let breach = breach_high (hc_active (hs_cpu_high st)) v (fs_cpu_high_pct s) (fs_clear_ratio s);
              ((active, _), c) = observe breach ws (hs_cpu_high st);
              st' = st\<lparr>hs_cpu_high := c\<rparr>
          in (if active then
                [build_finding fm ws we ''host'' host (65/100) ''cpu_pressure_high''
                   (''cpu_percent '' @ f1 fm v @ ''% >= threshold '' @ f1 fm (fs_cpu_high_pct s) @ ''%'')
                   (failure_thresholds s @ [(''observed_cpu_percent'', SReal v)]) (hc_breach_count c)]
              else [], st'))"

text \<open>\<open>_score_host\<close>: \<open>e # es\<close> are the samples of the batch.\<close>

definition score_host :: "formats \<Rightarrow> failure_settings \<Rightarrow> string \<Rightarrow> rat \<Rightarrow> rat \<Rightarrow> sf_event \<times> sf_event list \<Rightarrow> host_state \<Rightarrow>
    failure_finding list \<times> host_state" where
  "score_host fm s host ws we samples st =
     (let rep = representative (fst samples) (snd samples);
          (found1, st1) = check_disk fm s host ws we (sf_disk_percent rep) st;
          (found2, st2) = check_memory fm s host ws we (sf_mem_percent rep) st1;
          (found3, st3) = check_available fm s host ws we (sf_mem_available rep) st2;
          (found4, st4) = check_cpu fm s host ws we (sf_cpu_percent rep) st3
      in (found1 @ found2 @ found3 @ found4, st4))"

section \<open>The scorer\<close>

record scorer =
  sc_hosts :: "string \<rightharpoonup> host_state"
  sc_failures :: "string \<Rightarrow> rat list"

definition new_scorer :: scorer where
  "new_scorer = \<lparr>sc_hosts = Map.empty, sc_failures = (\<lambda>_. [])\<rparr>"

definition host_state_of :: "failure_settings \<Rightarrow> string \<Rightarrow> scorer \<Rightarrow> host_state" where
  "host_state_of s host sc = (case sc_hosts sc host of None \<Rightarrow> new_host_state s | Some st \<Rightarrow> st)"

text \<open>\<open>event.host_id or "unknown"\<close>; dictionary keys keep the order of first insertion.\<close>

definition host_name :: "sf_event \<Rightarrow> string" where
  "host_name e = (case sf_host e of None \<Rightarrow> ''unknown'' | Some h \<Rightarrow> if h = [] then ''unknown'' else h)"

definition dict_keys :: "'a list \<Rightarrow> 'a list" where
  "dict_keys ks = rev (remdups (rev ks))"

fun score_hosts :: "formats \<Rightarrow> failure_settings \<Rightarrow> rat \<Rightarrow> rat \<Rightarrow> sf_event list \<Rightarrow> string list \<Rightarrow> scorer \<Rightarrow>
    failure_finding list \<times> scorer" where
  "score_hosts fm s ws we es [] sc = ([], sc)"
| "score_hosts fm s ws we es (host # hosts) sc =
     (case filter (\<lambda>e. host_name e = host) es of
        [] \<Rightarrow> score_hosts fm s ws we es hosts sc
      | e # rest \<Rightarrow>
          let (fs, st) = score_host fm s host ws we (e, rest) (host_state_of s host sc);
              (fs', sc') = score_hosts fm s ws we es hosts (sc\<lparr>sc_hosts := (sc_hosts sc)(host \<mapsto> st)\<rparr>)
          in (fs @ fs', sc'))"

definition score_health :: "formats \<Rightarrow> failure_settings \<Rightarrow> rat \<Rightarrow> rat \<Rightarrow> sf_event list \<Rightarrow> scorer \<Rightarrow>
    failure_finding list \<times> scorer" where
  "score_health fm s ws we es sc = score_hosts fm s ws we es (dict_keys (map host_name es)) sc"

definition failed_unit :: "sf_event \<Rightarrow> string option" where
  "failed_unit e =
     (case sf_unit e of
        None \<Rightarrow> None
      | Some u \<Rightarrow> if u \<noteq> [] \<and> (sf_action e = Some ''failed'' \<or> sf_result e = Some ''failure'') then Some u else None)"

definition record_failures :: "string \<Rightarrow> rat list \<Rightarrow> (string \<Rightarrow> rat list) \<Rightarrow> string \<Rightarrow> rat list" where
  "record_failures unit timestamps failures = failures(unit := failures unit @ timestamps)"

definition failure_count_in_window :: "string \<Rightarrow> rat \<Rightarrow> rat \<Rightarrow> (string \<Rightarrow> rat list) \<Rightarrow> nat \<times> (string \<Rightarrow> rat list)" where
  "failure_count_in_window unit window now failures =
     (let kept = filter (\<lambda>t. now - window \<le> t) (failures unit) in (length kept, failures(unit := kept)))"

definition opt_text :: "string option \<Rightarrow> sqlval" where
  "opt_text x = (case x of None \<Rightarrow> SNull | Some a \<Rightarrow> SText a)"

text \<open>One iteration of the unit loop of \<open>_score_service\<close>; \<open>es\<close> are the failures of the unit.\<close>

definition score_unit :: "formats \<Rightarrow> failure_settings \<Rightarrow> rat \<Rightarrow> rat \<Rightarrow> string \<Rightarrow> sf_event list \<Rightarrow> (string \<Rightarrow> rat list) \<Rightarrow>
    failure_finding \<times> (string \<Rightarrow> rat list)" where
  "score_unit fm s ws we unit es failures =
     (let timestamps = sort (map sf_timestamp es);
          failures = record_failures unit timestamps failures;
          (crash_count, failures) =
            failure_count_in_window unit (fs_crash_loop_window s) (last timestamps) failures;
          looping = fs_crash_loop_threshold s \<le> int crash_count
      in (build_finding fm ws we ''systemd_unit'' unit (85/100)
            (if looping then ''service_crash_loop'' else ''service_unit_failed'')
            (if looping then ''Unit '' @ quoted fm unit @ '' failed '' @ nat_str crash_count @ '' times in '' @
               f0 fm (fs_crash_loop_window s) @ ''s''
             else ''Unit '' @ quoted fm unit @ '' entered failed state'')
            (failure_thresholds s @
             [(''observed_action'', opt_text (sf_action (last es))), (''observed_result'', opt_text (sf_result (last es))),
              (''failures_in_this_window'', SInt (int (length timestamps))),
              (''failure_count_in_crash_loop_window'', SInt (int crash_count))]) 1,
          failures))"

fun score_units :: "formats \<Rightarrow> failure_settings \<Rightarrow> rat \<Rightarrow> rat \<Rightarrow> sf_event list \<Rightarrow> string list \<Rightarrow> scorer \<Rightarrow>
    failure_finding list \<times> scorer" where
  "score_units fm s ws we es [] sc = ([], sc)"
| "score_units fm s ws we es (unit # units) sc =
     (let (f, failures) = score_unit fm s ws we unit (filter (\<lambda>e. failed_unit e = Some unit) es) (sc_failures sc);
          (fs, sc') = score_units fm s ws we es units (sc\<lparr>sc_failures := failures\<rparr>)
      in (f # fs, sc'))"

definition score_service :: "formats \<Rightarrow> failure_settings \<Rightarrow> rat \<Rightarrow> rat \<Rightarrow> sf_event list \<Rightarrow> scorer \<Rightarrow>
    failure_finding list \<times> scorer" where
  "score_service fm s ws we es sc =
     score_units fm s ws we es (sort (remdups (List.map_filter failed_unit es))) sc"

definition score_window :: "formats \<Rightarrow> failure_settings \<Rightarrow> sf_event list \<Rightarrow> rat \<Rightarrow> rat \<Rightarrow> scorer \<Rightarrow>
    failure_finding list \<times> scorer" where
  "score_window fm s es ws we sc =
     (let inside = filter (\<lambda>e. ws \<le> sf_timestamp e \<and> sf_timestamp e < we) es;
          (found1, sc1) = score_health fm s ws we (filter (\<lambda>e. sf_type e = System_Health) inside) sc;
          (found2, sc2) = score_service fm s ws we (filter (\<lambda>e. sf_type e = Service_State) inside) sc1
      in (found1 @ found2, sc2))"

definition window_start_for :: "rat \<Rightarrow> rat" where
  "window_start_for ts = of_int (\<lfloor>ts / 300\<rfloor> * 300)"

fun score_windows :: "formats \<Rightarrow> failure_settings \<Rightarrow> sf_event list \<Rightarrow> rat list \<Rightarrow> scorer \<Rightarrow>
    failure_finding list \<times> scorer" where
  "score_windows fm s es [] sc = ([], sc)"
| "score_windows fm s es (ws # wss) sc =
     (let (found, sc1) = score_window fm s (filter (\<lambda>e. window_start_for (sf_timestamp e) = ws) es) ws (ws + 300) sc;
          (rest, sc2) = score_windows fm s es wss sc1
      in (found @ rest, sc2))"

definition score_batch :: "formats \<Rightarrow> failure_settings \<Rightarrow> sf_event list \<Rightarrow> scorer \<Rightarrow> failure_finding list \<times> scorer" where
  "score_batch fm s es sc =
     (let relevant = filter (\<lambda>e. sf_type e \<noteq> Other_Type) es
      in score_windows fm s relevant (sort (remdups (map (window_start_for \<circ> sf_timestamp) relevant))) sc)"

section \<open>Persistence\<close>

text \<open>\<open>dumps\<close> writes the evidence list as JSON.\<close>

definition to_finding_in :: "(string \<Rightarrow> string) \<Rightarrow> (rat \<Rightarrow> string) \<Rightarrow> (failure_finding \<Rightarrow> string) \<Rightarrow> failure_finding \<Rightarrow> finding_in" where
  "to_finding_in H fr dumps f =
     \<lparr>fi_source_risk_id = None, fi_window_start = ff_window_start f, fi_window_end = ff_window_end f,
      fi_entity_type = ff_entity_type f, fi_entity_key = ff_entity_key f, fi_risk_score = ff_risk_score f,
      fi_severity = ff_severity f, fi_behavior_score = 0, fi_rule_score = 0, fi_context_score = 0,
      fi_evidence = dumps f, fi_explanation = ff_explanation f, fi_mode = ''system_failure'',
      fi_provenance_hash = Some (H (identity_text fr f)), fi_detector_version = Some ''system_failure.v1'',
      fi_correlation_id = None, fi_suppressed = False, fi_suppression_reason = None, fi_created_at = None\<rparr>"

definition persist_maybe :: "(string \<Rightarrow> string) \<Rightarrow> (rat \<Rightarrow> string) \<Rightarrow> (failure_finding \<Rightarrow> string) \<Rightarrow> bool \<Rightarrow> failure_finding \<Rightarrow>
    table \<Rightarrow> py_error + (int option \<times> table)" where
  "persist_maybe H fr dumps persist f t =
     (if persist then
        (case write_detection_finding H fr (to_finding_in H fr dumps f) t of
           Inl e \<Rightarrow> Inl e
         | Inr (i, t') \<Rightarrow> Inr (Some i, t'))
      else Inr (None, t))"

end
