(* ===== verification/Failure_Hysteresis.thy ===== *)
theory Failure_Hysteresis
  imports System_Failure
begin

text \<open>
  What the availability scorer promises. The specification \<open>in_force\<close> describes a condition by the
  whole history of its windows; the counters of System_Failure keep two numbers and a flag and are
  shown to compute it. The crash-loop count and the deduplication of findings follow.
\<close>

section \<open>Runs at the end of a list\<close>

definition run :: "('a \<Rightarrow> bool) \<Rightarrow> 'a list \<Rightarrow> nat" where
  "run p xs = length (takeWhile p (rev xs))"

lemma run_simps [simp]: "run p [] = 0" "run p (xs @ [x]) = (if p x then Suc (run p xs) else 0)"
  by (simp_all add: run_def)

lemma run_ge: "n \<le> run p xs \<longleftrightarrow> (\<exists>u r. xs = u @ r \<and> length r = n \<and> list_all p r)"
proof (induction xs arbitrary: n rule: rev_induct)
  case (snoc x xs)
  show ?case
  proof (cases n)
    case 0
    then show ?thesis by auto
  next
    case (Suc m)
    have "(\<exists>u r. xs @ [x] = u @ r \<and> length r = Suc m \<and> list_all p r) \<longleftrightarrow>
        p x \<and> (\<exists>u r. xs = u @ r \<and> length r = m \<and> list_all p r)"
    proof
      assume "\<exists>u r. xs @ [x] = u @ r \<and> length r = Suc m \<and> list_all p r"
      then obtain u r where ur: "xs @ [x] = u @ r" "length r = Suc m" "list_all p r" by blast
      then obtain r' y where r: "r = r' @ [y]" by (cases r rule: rev_cases) auto
      with ur show "p x \<and> (\<exists>u r. xs = u @ r \<and> length r = m \<and> list_all p r)" by auto
    next
      assume "p x \<and> (\<exists>u r. xs = u @ r \<and> length r = m \<and> list_all p r)"
      then obtain u r where "p x" "xs = u @ r" "length r = m" "list_all p r" by blast
      then have "xs @ [x] = u @ (r @ [x]) \<and> length (r @ [x]) = Suc m \<and> list_all p (r @ [x])" by simp
      then show "\<exists>u r. xs @ [x] = u @ r \<and> length r = Suc m \<and> list_all p r" by blast
    qed
    then show ?thesis using snoc.IH [of m] Suc by simp
  qed
qed simp

section \<open>The specification of a condition\<close>

text \<open>
  A condition is in force when at some point \<open>n\<close> consecutive windows were in breach and since then
  there were never \<open>m\<close> consecutive windows below the clear threshold.
\<close>

definition in_force :: "('a \<Rightarrow> bool) \<Rightarrow> ('a \<Rightarrow> bool) \<Rightarrow> nat \<Rightarrow> nat \<Rightarrow> 'a list \<Rightarrow> bool" where
  "in_force hi lo n m xs \<longleftrightarrow>
     (\<exists>p r q. xs = p @ r @ q \<and> length r = n \<and> list_all hi r \<and>
        \<not> (\<exists>u s v. q = u @ s @ v \<and> length s = m \<and> list_all lo s))"

lemma snoc_infix:
  assumes "q @ [x] = u @ s @ v" and "\<not> (\<exists>u s v. q = u @ s @ v \<and> length s = m \<and> list_all lo s)" "length s = m" "list_all lo s"
  shows "v = []"
proof (cases v rule: rev_cases)
  case (snoc w y)
  with assms(1) have "q = u @ s @ w" by simp
  with assms show ?thesis by blast
qed simp

lemma in_force_snoc:
  assumes "0 < n" and "0 < m" and disjoint: "\<And>x. hi x \<Longrightarrow> \<not> lo x"
  shows "in_force hi lo n m (xs @ [x]) \<longleftrightarrow>
    n \<le> run hi (xs @ [x]) \<or> (in_force hi lo n m xs \<and> run lo (xs @ [x]) < m)"
proof
  assume "in_force hi lo n m (xs @ [x])"
  then obtain p r q where d: "xs @ [x] = p @ r @ q" "length r = n" "list_all hi r"
    and no: "\<not> (\<exists>u s v. q = u @ s @ v \<and> length s = m \<and> list_all lo s)"
    unfolding in_force_def by blast
  show "n \<le> run hi (xs @ [x]) \<or> (in_force hi lo n m xs \<and> run lo (xs @ [x]) < m)"
  proof (cases q rule: rev_cases)
    case Nil
    with d show ?thesis using run_ge by fastforce
  next
    case (snoc q' y)
    with d have xs: "xs = p @ r @ q'" by simp
    have "in_force hi lo n m xs"
      unfolding in_force_def
      by (rule exI [of _ p], rule exI [of _ r], rule exI [of _ q'])
        (use xs d no snoc in \<open>metis append.assoc\<close>)
    moreover have "run lo (xs @ [x]) < m"
    proof (rule ccontr)
      assume "\<not> run lo (xs @ [x]) < m"
      then obtain u s where s: "xs @ [x] = u @ s" "length s = m" "list_all lo s"
        using run_ge [of m lo "xs @ [x]"] by auto
      have "length s \<le> length q"
      proof (rule ccontr)
        assume "\<not> length s \<le> length q"
        then obtain t where "s = t @ q" "t \<noteq> []"
          using s(1) d(1) by (metis append_eq_append_conv2 append.assoc length_append le_add2 append_self_conv2 le_refl)
        moreover obtain r' z where "r = r' @ [z]" using d(2) assms(1) by (cases r rule: rev_cases) auto
        moreover have "u @ t = p @ r" using s(1) d(1) \<open>s = t @ q\<close> by simp
        ultimately have "z \<in> set t" by (metis append.assoc last_appendR last_in_set last_snoc)
        then have "lo z" using s(3) \<open>s = t @ q\<close> by (simp add: list_all_iff)
        moreover have "hi z" using d(3) \<open>r = r' @ [z]\<close> by simp
        ultimately show False using disjoint by blast
      qed
      then obtain t where "q = t @ s"
        using s(1) d(1) by (metis append_eq_append_conv2 append.assoc append_self_conv2 le_refl length_append le_add2 add_le_same_cancel2 le_zero_eq length_0_conv append_Nil)
      then show False using no s by (metis append_Nil2)
    qed
    ultimately show ?thesis by blast
  qed
next
  assume "n \<le> run hi (xs @ [x]) \<or> (in_force hi lo n m xs \<and> run lo (xs @ [x]) < m)"
  then show "in_force hi lo n m (xs @ [x])"
  proof
    assume "n \<le> run hi (xs @ [x])"
    then obtain u r where "xs @ [x] = u @ r" "length r = n" "list_all hi r" using run_ge by blast
    then show ?thesis unfolding in_force_def using assms(2) by (intro exI [of _ u] exI [of _ r] exI [of _ "[]"]) auto
  next
    assume h: "in_force hi lo n m xs \<and> run lo (xs @ [x]) < m"
    then obtain p r q where d: "xs = p @ r @ q" "length r = n" "list_all hi r"
      and no: "\<not> (\<exists>u s v. q = u @ s @ v \<and> length s = m \<and> list_all lo s)"
      unfolding in_force_def by blast
    have "\<not> (\<exists>u s v. q @ [x] = u @ s @ v \<and> length s = m \<and> list_all lo s)"
    proof
      assume "\<exists>u s v. q @ [x] = u @ s @ v \<and> length s = m \<and> list_all lo s"
      then obtain u s v where s: "q @ [x] = u @ s @ v" "length s = m" "list_all lo s" by blast
      then have "v = []" by (rule snoc_infix [OF _ no])
      with s d have "xs @ [x] = (p @ r @ u) @ s" by simp
      then have "m \<le> run lo (xs @ [x])" using s run_ge by blast
      with h show False by simp
    qed
    with d show ?thesis unfolding in_force_def by (intro exI [of _ p] exI [of _ r] exI [of _ "q @ [x]"]) auto
  qed
qed

section \<open>The counter computes the specification\<close>

text \<open>
  \<open>fresh_windows\<close> keeps the first reading of every strictly later window. \<open>watch\<close> is a sequence of
  observations whose breach test depends on the current state, as in both dead-band helpers.
\<close>

fun fresh_windows :: "rat option \<Rightarrow> (rat \<times> 'a) list \<Rightarrow> 'a list" where
  "fresh_windows prev [] = []"
| "fresh_windows prev ((w, v) # obs) =
     (if stale prev w then fresh_windows prev obs else v # fresh_windows (Some w) obs)"

definition watch_step :: "('a \<Rightarrow> bool) \<Rightarrow> ('a \<Rightarrow> bool) \<Rightarrow> rat \<times> 'a \<Rightarrow> counter \<Rightarrow> counter" where
  "watch_step hi lo wv c =
     snd (observe (if hc_active c then \<not> lo (snd wv) else hi (snd wv)) (fst wv) c)"

definition counter_ok :: "('a \<Rightarrow> bool) \<Rightarrow> ('a \<Rightarrow> bool) \<Rightarrow> nat \<Rightarrow> nat \<Rightarrow> 'a list \<Rightarrow> counter \<Rightarrow> bool" where
  "counter_ok hi lo n m xs c \<longleftrightarrow> hc_breach_needed c = n \<and> hc_clear_needed c = m \<and>
     (hc_active c \<longleftrightarrow> in_force hi lo n m xs) \<and>
     (if hc_active c then hc_clear_count c = run lo xs else hc_breach_count c = run hi xs)"

lemma in_force_Nil: "0 < n \<Longrightarrow> \<not> in_force hi lo n m []"
  by (simp add: in_force_def)

lemma observe_stale: "stale (hc_last_window c) w \<Longrightarrow> observe b w c = ((hc_active c, False), c)"
  by (simp add: observe_def)

lemma observe_last: "hc_last_window (snd (observe b w c)) = (if stale (hc_last_window c) w then hc_last_window c else Some w)"
  by (simp add: observe_def Let_def)

lemma counter_ok_step:
  assumes "0 < n" and "0 < m" and "\<And>x. hi x \<Longrightarrow> \<not> lo x" and "counter_ok hi lo n m xs c"
    and "\<not> stale (hc_last_window c) w"
  shows "counter_ok hi lo n m (xs @ [v]) (watch_step hi lo (w, v) c)"
proof -
  have needed: "hc_breach_needed c = n" "hc_clear_needed c = m"
    and active: "hc_active c \<longleftrightarrow> in_force hi lo n m xs"
    using assms(4) by (simp_all add: counter_ok_def)
  note snoc = in_force_snoc [of n m hi lo xs v, OF assms(1-3)]
  show ?thesis
  proof (cases "hc_active c")
    case True
    then have "hc_clear_count c = run lo xs" using assms(4) by (simp add: counter_ok_def)
    then show ?thesis
      using True active assms(1,2) assms(3) [of v]
      by (cases "hi v"; cases "lo v") (simp_all add: counter_ok_def snoc watch_step_def observe_def Let_def assms(5) needed)
  next
    case False
    then have "hc_breach_count c = run hi xs" using assms(4) by (simp add: counter_ok_def)
    then show ?thesis
      using False active assms(1,2) assms(3) [of v]
      by (cases "hi v"; cases "lo v") (simp_all add: counter_ok_def snoc watch_step_def observe_def Let_def assms(5) needed)
  qed
qed

lemma watch_meets_spec:
  assumes "0 < n" and "0 < m" and "\<And>x. hi x \<Longrightarrow> \<not> lo x"
  shows "counter_ok hi lo n m xs c \<Longrightarrow>
    counter_ok hi lo n m (xs @ fresh_windows (hc_last_window c) obs) (fold (watch_step hi lo) obs c)"
proof (induction obs arbitrary: xs c)
  case (Cons wv obs)
  obtain w v where wv: "wv = (w, v)" by (cases wv)
  show ?case
  proof (cases "stale (hc_last_window c) w")
    case True
    then have "watch_step hi lo wv c = c" by (simp add: watch_step_def wv observe_stale)
    then show ?thesis using Cons.IH [OF Cons.prems] True by (simp add: wv)
  next
    case False
    have "hc_last_window (watch_step hi lo wv c) = Some w"
      using False by (simp add: watch_step_def wv observe_last)
    then show ?thesis
      using Cons.IH [OF counter_ok_step [OF assms Cons.prems False, of v]] False by (simp add: wv)
  qed
qed simp

lemma new_counter_ok: "counter_ok hi lo (nat (max 1 b)) (nat (max 1 c)) [] (new_counter b c)"
  by (simp add: counter_ok_def new_counter_def in_force_Nil)

corollary watch_active:
  assumes "\<And>x. hi x \<Longrightarrow> \<not> lo x"
  shows "hc_active (fold (watch_step hi lo) obs (new_counter b c)) \<longleftrightarrow>
    in_force hi lo (nat (max 1 b)) (nat (max 1 c)) (fresh_windows None obs)"
proof -
  have "counter_ok hi lo (nat (max 1 b)) (nat (max 1 c)) ([] @ fresh_windows (hc_last_window (new_counter b c)) obs)
      (fold (watch_step hi lo) obs (new_counter b c))"
    by (rule watch_meets_spec [OF _ _ assms new_counter_ok]) simp_all
  then show ?thesis by (simp add: counter_ok_def new_counter_def)
qed

section \<open>A host over many batches\<close>

text \<open>
  A batch is a window start with its samples. \<open>host_after\<close> scores the batches of one host in order
  and \<open>readings\<close> lists the windows whose representative sample carries the field.
\<close>

type_synonym batch = "rat \<times> sf_event \<times> sf_event list"

definition host_after :: "formats \<Rightarrow> failure_settings \<Rightarrow> string \<Rightarrow> batch list \<Rightarrow> host_state" where
  "host_after fm s host bs =
     fold (\<lambda>b st. snd (score_host fm s host (fst b) (fst b + 300) (snd b) st)) bs (new_host_state s)"

definition readings :: "(sf_event \<Rightarrow> 'a option) \<Rightarrow> batch list \<Rightarrow> (rat \<times> 'a) list" where
  "readings field bs =
     concat (map (\<lambda>b. case field (representative (fst (snd b)) (snd (snd b))) of None \<Rightarrow> [] | Some v \<Rightarrow> [(fst b, v)]) bs)"

abbreviation watch_high :: "rat \<Rightarrow> rat \<Rightarrow> rat \<times> rat \<Rightarrow> counter \<Rightarrow> counter" where
  "watch_high threshold ratio \<equiv> watch_step (\<lambda>v. threshold \<le> v) (\<lambda>v. v < threshold * ratio)"

abbreviation watch_low :: "rat \<Rightarrow> rat \<Rightarrow> rat \<times> int \<Rightarrow> counter \<Rightarrow> counter" where
  "watch_low threshold ratio \<equiv> watch_step (\<lambda>v. of_int v \<le> threshold) (\<lambda>v. threshold / ratio < of_int v)"

definition on_reading :: "(rat \<times> 'a \<Rightarrow> counter \<Rightarrow> counter) \<Rightarrow> rat \<Rightarrow> 'a option \<Rightarrow> counter \<Rightarrow> counter" where
  "on_reading step w reading c = (case reading of None \<Rightarrow> c | Some v \<Rightarrow> step (w, v) c)"

lemma observe_active: "fst (fst (observe b w c)) = hc_active (snd (observe b w c))"
  by (simp add: observe_def Let_def)

lemma observe_high: "snd (observe (breach_high (hc_active c) v threshold ratio) w c) = watch_high threshold ratio (w, v) c"
  by (simp add: watch_step_def breach_high_def not_less)

lemma observe_low: "snd (observe (breach_low (hc_active c) (of_int v) threshold ratio) w c) = watch_low threshold ratio (w, v) c"
  by (simp add: watch_step_def breach_low_def not_less)

lemma check_states:
  "snd (check_disk fm s host ws we d st) =
     st\<lparr>hs_disk_full := on_reading (watch_high (fs_disk_full_pct s) (fs_clear_ratio s)) ws d (hs_disk_full st)\<rparr>"
  "snd (check_memory fm s host ws we m st) =
     st\<lparr>hs_mem_high := on_reading (watch_high (fs_memory_high_pct s) (fs_clear_ratio s)) ws m (hs_mem_high st),
        hs_mem_medium := on_reading (watch_high (fs_memory_medium_pct s) (fs_clear_ratio s)) ws m (hs_mem_medium st)\<rparr>"
  "snd (check_available fm s host ws we a st) =
     st\<lparr>hs_mem_available := on_reading (watch_low (of_int (fs_memory_min_available_mb s)) (fs_clear_ratio s)) ws a
          (hs_mem_available st)\<rparr>"
  "snd (check_cpu fm s host ws we p st) =
     st\<lparr>hs_cpu_high := on_reading (watch_high (fs_cpu_high_pct s) (fs_clear_ratio s)) ws p (hs_cpu_high st)\<rparr>"
  by (simp_all add: check_disk_def check_memory_def check_available_def check_cpu_def on_reading_def Let_def split_beta
      observe_high observe_low split: option.split)

lemma check_conditions:
  "ff_condition ` set (fst (check_disk fm s host ws we d st)) =
     (if d \<noteq> None \<and> hc_active (hs_disk_full (snd (check_disk fm s host ws we d st))) then {''disk_full''} else {})"
  "ff_condition ` set (fst (check_memory fm s host ws we m st)) =
     (if m = None then {}
      else if hc_active (hs_mem_high (snd (check_memory fm s host ws we m st))) then {''memory_pressure_high''}
      else if hc_active (hs_mem_medium (snd (check_memory fm s host ws we m st))) then {''memory_pressure_medium''} else {})"
  "ff_condition ` set (fst (check_available fm s host ws we a st)) =
     (if a \<noteq> None \<and> hc_active (hs_mem_available (snd (check_available fm s host ws we a st)))
      then {''memory_available_low''} else {})"
  "ff_condition ` set (fst (check_cpu fm s host ws we p st)) =
     (if p \<noteq> None \<and> hc_active (hs_cpu_high (snd (check_cpu fm s host ws we p st))) then {''cpu_pressure_high''} else {})"
  by (simp_all add: check_disk_def check_memory_def check_available_def check_cpu_def Let_def split_beta
      observe_active build_finding_def split: option.split)

lemma score_host_state:
  fixes samples :: "sf_event \<times> sf_event list"
  defines "rep \<equiv> representative (fst samples) (snd samples)"
  shows "snd (score_host fm s host ws we samples st) =
    \<lparr>hs_mem_high = on_reading (watch_high (fs_memory_high_pct s) (fs_clear_ratio s)) ws (sf_mem_percent rep) (hs_mem_high st),
     hs_mem_medium = on_reading (watch_high (fs_memory_medium_pct s) (fs_clear_ratio s)) ws (sf_mem_percent rep) (hs_mem_medium st),
     hs_mem_available = on_reading (watch_low (of_int (fs_memory_min_available_mb s)) (fs_clear_ratio s)) ws
       (sf_mem_available rep) (hs_mem_available st),
     hs_cpu_high = on_reading (watch_high (fs_cpu_high_pct s) (fs_clear_ratio s)) ws (sf_cpu_percent rep) (hs_cpu_high st),
     hs_disk_full = on_reading (watch_high (fs_disk_full_pct s) (fs_clear_ratio s)) ws (sf_disk_percent rep) (hs_disk_full st)\<rparr>"
  by (simp add: score_host_def Let_def split_beta check_states rep_def)

lemma score_host_conditions:
  fixes samples :: "sf_event \<times> sf_event list"
  defines "rep \<equiv> representative (fst samples) (snd samples)"
  assumes "st' = snd (score_host fm s host ws we samples st)"
  shows "ff_condition ` set (fst (score_host fm s host ws we samples st)) =
    (if sf_disk_percent rep \<noteq> None \<and> hc_active (hs_disk_full st') then {''disk_full''} else {}) \<union>
    (if sf_mem_percent rep = None then {}
     else if hc_active (hs_mem_high st') then {''memory_pressure_high''}
     else if hc_active (hs_mem_medium st') then {''memory_pressure_medium''} else {}) \<union>
    (if sf_mem_available rep \<noteq> None \<and> hc_active (hs_mem_available st') then {''memory_available_low''} else {}) \<union>
    (if sf_cpu_percent rep \<noteq> None \<and> hc_active (hs_cpu_high st') then {''cpu_pressure_high''} else {})"
  unfolding assms(2) score_host_state
  by (simp add: score_host_def Let_def split_beta check_conditions check_states image_Un rep_def) auto

text \<open>The counters of a host over its batches.\<close>

lemma fold_on_reading:
  "fold (\<lambda>b c. on_reading step (fst b) (field (representative (fst (snd b)) (snd (snd b)))) c) bs c =
    fold step (readings field bs) c"
proof (induction bs arbitrary: c)
  case (Cons b bs)
  show ?case
    by (cases "field (representative (fst (snd b)) (snd (snd b)))")
      (simp_all add: Cons.IH [unfolded readings_def on_reading_def] readings_def on_reading_def)
qed (simp add: readings_def)

lemma fold_field:
  assumes "\<And>b st. field (step b st) = g b (field st)"
  shows "field (fold step bs st) = fold g bs (field st)"
  by (induction bs arbitrary: st) (simp_all add: assms)

lemma host_after_counters:
  defines "new \<equiv> \<lambda>s. new_counter (fs_consecutive_windows s) (fs_clear_windows s)"
  shows "hs_disk_full (host_after fm s host bs) =
      fold (watch_high (fs_disk_full_pct s) (fs_clear_ratio s)) (readings sf_disk_percent bs) (new s)"
    and "hs_mem_high (host_after fm s host bs) =
      fold (watch_high (fs_memory_high_pct s) (fs_clear_ratio s)) (readings sf_mem_percent bs) (new s)"
    and "hs_mem_medium (host_after fm s host bs) =
      fold (watch_high (fs_memory_medium_pct s) (fs_clear_ratio s)) (readings sf_mem_percent bs) (new s)"
    and "hs_mem_available (host_after fm s host bs) =
      fold (watch_low (of_int (fs_memory_min_available_mb s)) (fs_clear_ratio s)) (readings sf_mem_available bs) (new s)"
    and "hs_cpu_high (host_after fm s host bs) =
      fold (watch_high (fs_cpu_high_pct s) (fs_clear_ratio s)) (readings sf_cpu_percent bs) (new s)"
  unfolding host_after_def fold_on_reading [symmetric]
  by (subst fold_field [where g = "\<lambda>b. on_reading _ (fst b) (_ (representative (fst (snd b)) (snd (snd b))))"],
      simp_all add: score_host_state new_host_state_def new_def Let_def)+

lemma host_after_snoc:
  "snd (score_host fm s host w (w + 300) samples (host_after fm s host bs)) = host_after fm s host (bs @ [(w, samples)])"
  by (simp add: host_after_def)

text \<open>The two dead bands never call one reading both a breach and clear.\<close>

lemma high_band: "0 \<le> threshold \<Longrightarrow> ratio \<le> 1 \<Longrightarrow> threshold \<le> v \<Longrightarrow> \<not> v < threshold * (ratio :: rat)"
  using mult_left_mono [of ratio 1 threshold] by simp

lemma low_band:
  assumes "0 \<le> threshold" and "0 < ratio" and "ratio \<le> 1" and "of_int v \<le> threshold"
  shows "\<not> threshold / (ratio :: rat) < of_int v"
proof -
  have "threshold * ratio \<le> threshold" using assms mult_left_mono [of ratio 1 threshold] by simp
  then have "threshold \<le> threshold / ratio" using assms(2) by (simp add: le_divide_eq)
  with assms(4) show ?thesis by simp
qed

lemma in_conditions:
  fixes d m h e a c :: bool
  defines "raised \<equiv> (if d then {''disk_full''} else {}) \<union>
    (if m then {} else if h then {''memory_pressure_high''} else if e then {''memory_pressure_medium''} else {}) \<union>
    (if a then {''memory_available_low''} else {}) \<union> (if c then {''cpu_pressure_high''} else {})"
  shows "''disk_full'' \<in> raised \<longleftrightarrow> d" "''memory_pressure_high'' \<in> raised \<longleftrightarrow> \<not> m \<and> h"
    "''memory_pressure_medium'' \<in> raised \<longleftrightarrow> \<not> m \<and> \<not> h \<and> e"
    "''memory_available_low'' \<in> raised \<longleftrightarrow> a" "''cpu_pressure_high'' \<in> raised \<longleftrightarrow> c"
  unfolding raised_def by simp_all

definition failure_settings_ok :: "failure_settings \<Rightarrow> bool" where
  "failure_settings_ok s \<longleftrightarrow> 0 \<le> fs_memory_high_pct s \<and> 0 \<le> fs_memory_medium_pct s \<and> 0 \<le> fs_memory_min_available_mb s \<and>
     0 \<le> fs_cpu_high_pct s \<and> 0 \<le> fs_disk_full_pct s \<and> 0 < fs_clear_ratio s \<and> fs_clear_ratio s \<le> 1"

abbreviation breach_windows :: "failure_settings \<Rightarrow> nat" where
  "breach_windows s \<equiv> nat (max 1 (fs_consecutive_windows s))"

abbreviation clear_windows :: "failure_settings \<Rightarrow> nat" where
  "clear_windows s \<equiv> nat (max 1 (fs_clear_windows s))"

definition high_in_force :: "failure_settings \<Rightarrow> rat \<Rightarrow> rat list \<Rightarrow> bool" where
  "high_in_force s threshold =
     in_force (\<lambda>v. threshold \<le> v) (\<lambda>v. v < threshold * fs_clear_ratio s) (breach_windows s) (clear_windows s)"

definition low_in_force :: "failure_settings \<Rightarrow> rat \<Rightarrow> int list \<Rightarrow> bool" where
  "low_in_force s threshold =
     in_force (\<lambda>v. of_int v \<le> threshold) (\<lambda>v. threshold / fs_clear_ratio s < of_int v) (breach_windows s) (clear_windows s)"

lemma watch_high_active:
  "0 \<le> threshold \<Longrightarrow> fs_clear_ratio s \<le> 1 \<Longrightarrow>
   hc_active (fold (watch_high threshold (fs_clear_ratio s)) obs (new_counter (fs_consecutive_windows s) (fs_clear_windows s))) \<longleftrightarrow>
   high_in_force s threshold (fresh_windows None obs)"
  unfolding high_in_force_def by (rule watch_active) (rule high_band)

lemma watch_low_active:
  "0 \<le> threshold \<Longrightarrow> 0 < fs_clear_ratio s \<Longrightarrow> fs_clear_ratio s \<le> 1 \<Longrightarrow>
   hc_active (fold (watch_low threshold (fs_clear_ratio s)) obs (new_counter (fs_consecutive_windows s) (fs_clear_windows s))) \<longleftrightarrow>
   low_in_force s threshold (fresh_windows None obs)"
  unfolding low_in_force_def by (rule watch_active) (rule low_band)

lemma readings_snoc_None: "field (representative (fst samples) (snd samples)) = None \<Longrightarrow> readings field (bs @ [(w, samples)]) = readings field bs"
  by (simp add: readings_def)

section \<open>Crash loops\<close>

definition latest_failure :: "sf_event list \<Rightarrow> rat" where
  "latest_failure es = last (sort (map sf_timestamp es))"

text \<open>The failure record after scoring a unit in a sequence of windows, each with its failures.\<close>

definition failures_after :: "formats \<Rightarrow> failure_settings \<Rightarrow> string \<Rightarrow> (rat \<times> sf_event list) list \<Rightarrow> string \<Rightarrow> rat list" where
  "failures_after fm s unit bs =
     fold (\<lambda>b failures. snd (score_unit fm s (fst b) (fst b + 300) unit (snd b) failures)) bs (\<lambda>_. [])"

lemma score_unit_failures:
  "snd (score_unit fm s ws we unit es failures) unit =
    filter (\<lambda>t. latest_failure es - fs_crash_loop_window s \<le> t) (failures unit @ sort (map sf_timestamp es))"
  by (simp add: score_unit_def record_failures_def failure_count_in_window_def latest_failure_def Let_def)

lemma score_unit_condition:
  "ff_condition (fst (score_unit fm s ws we unit es failures)) =
    (if fs_crash_loop_threshold s \<le> int (length (snd (score_unit fm s ws we unit es failures) unit))
     then ''service_crash_loop'' else ''service_unit_failed'')"
  by (simp add: score_unit_def record_failures_def failure_count_in_window_def build_finding_def Let_def)

lemma failures_after_kept:
  assumes "sorted (map (latest_failure \<circ> snd) (bs @ [b]))"
  shows "failures_after fm s unit (bs @ [b]) unit =
    filter (\<lambda>t. latest_failure (snd b) - fs_crash_loop_window s \<le> t) (concat (map (\<lambda>b. sort (map sf_timestamp (snd b))) (bs @ [b])))"
  using assms
proof (induction bs arbitrary: b rule: rev_induct)
  case Nil
  then show ?case by (simp add: failures_after_def score_unit_failures)
next
  case (snoc a bs)
  have "sorted (map (latest_failure \<circ> snd) (bs @ [a]))" using snoc.prems by (simp add: sorted_append comp_def)
  note ih = snoc.IH [OF this]
  have le: "latest_failure (snd a) \<le> latest_failure (snd b)" using snoc.prems by (simp add: sorted_append)
  have "filter (\<lambda>t. latest_failure (snd b) - fs_crash_loop_window s \<le> t)
      (filter (\<lambda>t. latest_failure (snd a) - fs_crash_loop_window s \<le> t) xs) =
      filter (\<lambda>t. latest_failure (snd b) - fs_crash_loop_window s \<le> t) xs" for xs
    using le by (induction xs) auto
  then show ?case using ih by (simp add: failures_after_def score_unit_failures)
qed

lemma length_filter_sort: "length (filter p (sort xs)) = length (filter p xs)"
  by (metis mset_filter mset_sort size_mset)

lemma length_filter_sorts:
  "length (filter p (concat (map (\<lambda>b. sort (f b)) bs))) = length (filter p (concat (map f bs)))"
  by (induction bs) (simp_all add: length_filter_sort)

section \<open>Findings and the store\<close>

definition in_range :: "failure_finding \<Rightarrow> bool" where
  "in_range f \<longleftrightarrow> score_ok (ff_risk_score f) \<and> ff_severity f = failure_severity (ff_risk_score f)"

lemma build_in_range: "score_ok risk \<Longrightarrow> in_range (build_finding fm ws we ty key risk condition detail context n)"
  by (simp add: in_range_def build_finding_def)

lemma checks_in_range:
  "list_all in_range (fst (check_disk fm s host ws we d st))"
  "list_all in_range (fst (check_memory fm s host ws we m st))"
  "list_all in_range (fst (check_available fm s host ws we a st))"
  "list_all in_range (fst (check_cpu fm s host ws we p st))"
  by (simp_all add: check_disk_def check_memory_def check_available_def check_cpu_def Let_def split_beta
      build_in_range score_ok_def split: option.split)

lemma score_host_in_range: "list_all in_range (fst (score_host fm s host ws we samples st))"
  by (simp add: score_host_def Let_def split_beta checks_in_range)

lemma score_hosts_in_range: "list_all in_range (fst (score_hosts fm s ws we es hosts sc))"
  by (induction hosts arbitrary: sc) (simp_all add: split_beta Let_def score_host_in_range split: list.split)

lemma score_units_in_range: "list_all in_range (fst (score_units fm s ws we es units sc))"
  by (induction fm s ws we es units sc rule: score_units.induct)
    (simp_all add: split_beta Let_def score_unit_def build_in_range score_ok_def)

lemma score_windows_in_range: "list_all in_range (fst (score_windows fm s es wss sc))"
  by (induction fm s es wss sc rule: score_windows.induct)
    (simp_all add: split_beta Let_def score_window_def score_health_def score_service_def score_hosts_in_range
      score_units_in_range)

lemma digest_not_Nil: "is_digest H \<Longrightarrow> H x \<noteq> []"
  by (metis digest_length list.size(3) zero_neq_numeral)

definition same_condition :: "failure_finding \<Rightarrow> failure_finding \<Rightarrow> bool" where
  "same_condition f g \<longleftrightarrow> ff_condition f = ff_condition g \<and> ff_entity_key f = ff_entity_key g \<and>
     ff_entity_type f = ff_entity_type g \<and> ff_severity f = ff_severity g \<and>
     ff_window_end f = ff_window_end g \<and> ff_window_start f = ff_window_start g"

lemma fr_split:
  assumes "float_repr_ok fr" and "fr p @ '','' @ r = fr q @ '','' @ r'"
  shows "p = q \<and> r = r'"
proof -
  have no: "CHR '','' \<notin> set (fr x)" for x
  proof -
    have "set (fr x) \<subseteq> set ''0123456789.e+-''" using assms(1) by (simp add: float_repr_ok_def)
    then show ?thesis by auto
  qed
  have "fr p @ CHR '','' # r = fr q @ CHR '','' # r'" using assms(2) by simp
  then have "fr p = fr q \<and> r = r'" by (rule split_at_char) (rule no)+
  then show ?thesis using assms(1) by (simp add: float_repr_ok_def inj_eq)
qed

lemma identity_text_inject:
  assumes fr: "float_repr_ok fr" and "identity_text fr f = identity_text fr g"
  shows "same_condition f g"
proof -
  note e0 = assms(2) [unfolded identity_text_def same_append_eq]
  note e1 = json_string_unique [OF e0, unfolded same_append_eq]
  note e2 = json_string_unique [OF conjunct2 [OF e1], unfolded same_append_eq]
  note e3 = json_string_unique [OF conjunct2 [OF e2], unfolded same_append_eq]
  note e4 = json_string_unique [OF conjunct2 [OF e3], unfolded same_append_eq]
  note e5 = fr_split [OF fr conjunct2 [OF e4], unfolded same_append_eq append_same_eq]
  have "ff_window_start f = ff_window_start g"
    using conjunct2 [OF e5] fr by (simp add: float_repr_ok_def inj_eq)
  then show ?thesis using e1 e2 e3 e4 e5 unfolding same_condition_def by blast
qed

lemma identity_text_same: "same_condition f g \<Longrightarrow> identity_text fr f = identity_text fr g"
  by (simp add: same_condition_def identity_text_def del: append_Cons append_Nil)

section \<open>Properties\<close>

text \<open>C9: the host scorer meets its specification. After any sequence of batches, in any windows, a
  condition is reported exactly when the current sample carries the reading and the condition is in
  force over the first readings of all strictly later windows: it was breached in the configured number of
  consecutive windows and never since below the clear threshold for the configured number. Repeated or
  late windows and missing readings change nothing, and a host never reports both memory levels.\<close>

theorem host_conditions_meet_spec:
  fixes now :: "sf_event \<times> sf_event list"
  assumes "failure_settings_ok s"
  shows "let samples = now; all = bs @ [(w, samples)]; rep = representative (fst samples) (snd samples);
      raised = ff_condition ` set (fst (score_host fm s host w (w + 300) samples (host_after fm s host bs)));
      mem_high = high_in_force s (fs_memory_high_pct s) (fresh_windows None (readings sf_mem_percent all))
    in (''disk_full'' \<in> raised \<longleftrightarrow> sf_disk_percent rep \<noteq> None \<and>
          high_in_force s (fs_disk_full_pct s) (fresh_windows None (readings sf_disk_percent all))) \<and>
       (''memory_pressure_high'' \<in> raised \<longleftrightarrow> sf_mem_percent rep \<noteq> None \<and> mem_high) \<and>
       (''memory_pressure_medium'' \<in> raised \<longleftrightarrow> sf_mem_percent rep \<noteq> None \<and> \<not> mem_high \<and>
          high_in_force s (fs_memory_medium_pct s) (fresh_windows None (readings sf_mem_percent all))) \<and>
       (''memory_available_low'' \<in> raised \<longleftrightarrow> sf_mem_available rep \<noteq> None \<and>
          low_in_force s (of_int (fs_memory_min_available_mb s)) (fresh_windows None (readings sf_mem_available all))) \<and>
       (''cpu_pressure_high'' \<in> raised \<longleftrightarrow> sf_cpu_percent rep \<noteq> None \<and>
          high_in_force s (fs_cpu_high_pct s) (fresh_windows None (readings sf_cpu_percent all)))"
proof -
  note ok = assms [unfolded failure_settings_ok_def]
  show ?thesis
    unfolding Let_def score_host_conditions [OF HOL.refl] host_after_snoc host_after_counters in_conditions
    using ok by (simp add: watch_high_active watch_low_active del: of_int_le_iff)
qed

definition demo_formats :: formats where
  "demo_formats = \<lparr>f1 = \<lambda>q. int_str \<lfloor>q\<rfloor>, f0 = \<lambda>q. int_str \<lfloor>q\<rfloor>, f4 = \<lambda>q. int_str \<lfloor>q\<rfloor>, quoted = \<lambda>u. u\<rparr>"

text \<open>The defaults of \<^verbatim>\<open>observability/config.py\<close>.\<close>

definition default_failure_settings :: failure_settings where
  "default_failure_settings =
     \<lparr>fs_memory_high_pct = 90, fs_memory_medium_pct = 80, fs_memory_min_available_mb = 128, fs_cpu_high_pct = 95,
      fs_disk_full_pct = 99, fs_consecutive_windows = 2, fs_clear_windows = 2, fs_clear_ratio = 9/10,
      fs_crash_loop_threshold = 3, fs_crash_loop_window = 600\<rparr>"

definition health_sample :: "rat \<Rightarrow> rat option \<Rightarrow> sf_event" where
  "health_sample ts disk =
     \<lparr>sf_type = System_Health, sf_timestamp = ts, sf_host = None, sf_mem_percent = None, sf_mem_available = None,
      sf_cpu_percent = None, sf_disk_percent = disk, sf_unit = None, sf_action = None, sf_result = None\<rparr>"

theorem host_conditions_meet_spec_witness:
  "let samples = (health_sample 301 (Some 100), []); all = [(0, health_sample 1 (Some 100), [])] @ [(300, samples)]; rep = representative (fst samples) (snd samples);
      raised = ff_condition ` set (fst (score_host demo_formats default_failure_settings ''h'' 300 (300 + 300) samples (host_after demo_formats default_failure_settings ''h'' [(0, health_sample 1 (Some 100), [])])));
      mem_high = high_in_force default_failure_settings (fs_memory_high_pct default_failure_settings) (fresh_windows None (readings sf_mem_percent all))
    in (''disk_full'' \<in> raised \<longleftrightarrow> sf_disk_percent rep \<noteq> None \<and>
          high_in_force default_failure_settings (fs_disk_full_pct default_failure_settings) (fresh_windows None (readings sf_disk_percent all))) \<and>
       (''memory_pressure_high'' \<in> raised \<longleftrightarrow> sf_mem_percent rep \<noteq> None \<and> mem_high) \<and>
       (''memory_pressure_medium'' \<in> raised \<longleftrightarrow> sf_mem_percent rep \<noteq> None \<and> \<not> mem_high \<and>
          high_in_force default_failure_settings (fs_memory_medium_pct default_failure_settings) (fresh_windows None (readings sf_mem_percent all))) \<and>
       (''memory_available_low'' \<in> raised \<longleftrightarrow> sf_mem_available rep \<noteq> None \<and>
          low_in_force default_failure_settings (of_int (fs_memory_min_available_mb default_failure_settings)) (fresh_windows None (readings sf_mem_available all))) \<and>
       (''cpu_pressure_high'' \<in> raised \<longleftrightarrow> sf_cpu_percent rep \<noteq> None \<and>
          high_in_force default_failure_settings (fs_cpu_high_pct default_failure_settings) (fresh_windows None (readings sf_cpu_percent all)))"
  by (rule host_conditions_meet_spec) (simp add: failure_settings_ok_def default_failure_settings_def)

text \<open>The crash-loop test counts every failure of the unit within the rolling window, across batches
  and although old entries are pruned, as long as the latest failure of each batch is not older than the
  one before.\<close>

theorem crash_loop_counts_all_failures:
  assumes "sorted (map (latest_failure \<circ> snd) (bs @ [(w, es)]))"
  shows "ff_condition (fst (score_unit fm s w (w + 300) unit es (failures_after fm s unit bs))) =
    (if fs_crash_loop_threshold s \<le> int (length (filter (\<lambda>t. latest_failure es - fs_crash_loop_window s \<le> t)
          (concat (map (\<lambda>b. map sf_timestamp (snd b)) (bs @ [(w, es)])))))
     then ''service_crash_loop'' else ''service_unit_failed'')"
proof -
  have step: "failures_after fm s unit (bs @ [(w, es)]) =
      snd (score_unit fm s w (w + 300) unit es (failures_after fm s unit bs))"
    by (simp add: failures_after_def)
  show ?thesis
    unfolding score_unit_condition step [symmetric] failures_after_kept [OF assms] length_filter_sorts by simp
qed

definition failed_service :: "rat \<Rightarrow> sf_event" where
  "failed_service ts = (health_sample ts None)\<lparr>sf_type := Service_State, sf_unit := Some ''u'', sf_action := Some ''failed''\<rparr>"

theorem crash_loop_counts_all_failures_witness:
  "ff_condition (fst (score_unit demo_formats default_failure_settings 300 (300 + 300) ''u'' [failed_service 310, failed_service 305]
      (failures_after demo_formats default_failure_settings ''u'' [(0, [failed_service 7])]))) =
    (if fs_crash_loop_threshold default_failure_settings \<le> int (length
          (filter (\<lambda>t. latest_failure [failed_service 310, failed_service 305] - fs_crash_loop_window default_failure_settings \<le> t)
          (concat (map (\<lambda>b. map sf_timestamp (snd b)) ([(0, [failed_service 7])] @ [(300 :: rat, [failed_service 310, failed_service 305])])))))
     then ''service_crash_loop'' else ''service_unit_failed'')"
  by (rule crash_loop_counts_all_failures) (simp add: latest_failure_def failed_service_def health_sample_def)

text \<open>Two findings have one provenance hash exactly when they name the same condition of the same
  entity in the same window, whatever samples and counts they carry; so once one is stored, writing the other
  returns its id and leaves the evidence chain alone. Only collision freedom of the digest on the two texts is
  used.\<close>

theorem one_row_per_condition:
  assumes "findings_inv H fr t" and "float_repr_ok fr"
    and "H (identity_text fr f) = H (identity_text fr g) \<Longrightarrow> identity_text fr f = identity_text fr g"
    and "score_ok (ff_risk_score g)" and "persist_maybe H fr dumps True f t = Inr (i, t')"
  shows "(fi_provenance_hash (to_finding_in H fr dumps f) = fi_provenance_hash (to_finding_in H fr dumps g) \<longleftrightarrow> same_condition f g) \<and>
    (if same_condition f g then persist_maybe H fr dumps True g t' = Inr (i, t') else True)"
proof
  show "fi_provenance_hash (to_finding_in H fr dumps f) = fi_provenance_hash (to_finding_in H fr dumps g) \<longleftrightarrow> same_condition f g"
    using assms(3) identity_text_inject [OF assms(2)] identity_text_same
    unfolding to_finding_in_def finding_in.simps option.inject by metis
  show "if same_condition f g then persist_maybe H fr dumps True g t' = Inr (i, t') else True"
  proof (cases "same_condition f g")
    case True
    have "is_digest H" using assms(1) by (simp add: findings_inv_def)
    obtain j where w: "write_detection_finding H fr (to_finding_in H fr dumps f) t = Inr (j, t')" "i = Some j"
      using assms(5) by (auto simp: persist_maybe_def split: sum.splits)
    have "\<exists>r. existing_finding (Some (H (identity_text fr f))) t' = Some r \<and> int_col r ''id'' = j"
      by (rule written_finding_known [OF assms(1) _ digest_not_Nil [OF \<open>is_digest H\<close>] w(1)]) (simp add: to_finding_in_def)
    then show ?thesis
      using True assms(4) w(2) identity_text_same [OF True, of fr]
      unfolding persist_maybe_def write_detection_finding_def to_finding_in_def finding_in.simps
      by (elim exE conjE) (simp add: score_ok_def)
  qed simp
qed

definition disk_finding :: "rat \<Rightarrow> failure_finding" where
  "disk_finding v = build_finding demo_formats 0 300 ''host'' ''h'' (85/100) ''disk_full'' [] [(''observed_disk_percent'', SReal v)] 2"

lemma persist_disk_finding:
  "persist_maybe demo_hash demo_repr (\<lambda>_. []) True (disk_finding v) empty_table =
    (let a = append_chained demo_hash demo_repr finding_chain_columns
       (finding_row (to_finding_in demo_hash demo_repr (\<lambda>_. []) (disk_finding v))) empty_table in Inr (Some (fst a), snd a))"
  by (simp add: persist_maybe_def write_detection_finding_def existing_finding_def provenance_taken_def score_ok_def
      to_finding_in_def disk_finding_def build_finding_def Let_def split_beta)

theorem one_row_per_condition_witness:
  "let f = disk_finding 99; g = disk_finding 100; d = (\<lambda>_. []);
       a = append_chained demo_hash demo_repr finding_chain_columns (finding_row (to_finding_in demo_hash demo_repr d f)) empty_table in
    (fi_provenance_hash (to_finding_in demo_hash demo_repr d f) = fi_provenance_hash (to_finding_in demo_hash demo_repr d g) \<longleftrightarrow> same_condition f g) \<and>
    (if same_condition f g then persist_maybe demo_hash demo_repr d True g (snd a) = Inr (Some (fst a), snd a) else True)"
  unfolding Let_def
proof (rule one_row_per_condition)
  show "identity_text demo_repr (disk_finding 99) = identity_text demo_repr (disk_finding 100)"
    by (rule identity_text_same) (simp add: same_condition_def disk_finding_def build_finding_def)
  show "findings_inv demo_hash demo_repr empty_table" by (rule findings_inv_empty) simp
  show "score_ok (ff_risk_score (disk_finding 100))" by (simp add: disk_finding_def build_finding_def score_ok_def)
qed (simp_all add: persist_disk_finding Let_def)

end
