(* ===== verification/Supervision.thy ===== *)
theory Supervision
  imports Prelude
begin

text \<open>
  Collector supervision of \<^verbatim>\<open>pipeline/supervisor.py\<close>: the backoff ladder and crash-loop window of one
  source, the restart loop with its persisted state, and the bounded quarantine directory of
  \<^verbatim>\<open>pipeline/quarantine.py\<close>. Threads, the collectors and the clocks are outside: what one attempt
  of a collector does and when is the value \<open>attempt\<close>.
\<close>

section \<open>The restart policy\<close>

record supervision_settings =
  sv_initial_backoff :: rat
  sv_max_backoff :: rat
  sv_healthy_runtime :: rat
  sv_crash_loop_threshold :: int
  sv_crash_loop_window :: rat

record restart_policy =
  rp_consecutive_failures :: nat
  rp_failures :: "rat list"

definition new_policy :: restart_policy where
  "new_policy = \<lparr>rp_consecutive_failures = 0, rp_failures = []\<rparr>"

definition trim :: "supervision_settings \<Rightarrow> rat \<Rightarrow> restart_policy \<Rightarrow> restart_policy" where
  "trim cfg now p = p\<lparr>rp_failures := dropWhile (\<lambda>t. t < now - sv_crash_loop_window cfg) (rp_failures p)\<rparr>"

definition record_failure :: "supervision_settings \<Rightarrow> rat \<Rightarrow> rat \<Rightarrow> restart_policy \<Rightarrow> rat \<times> restart_policy" where
  "record_failure cfg now runtime p =
     (let p = (if sv_healthy_runtime cfg \<le> runtime
               then p\<lparr>rp_consecutive_failures := 0, rp_failures := []\<rparr> else p);
          p = p\<lparr>rp_consecutive_failures := rp_consecutive_failures p + 1, rp_failures := rp_failures p @ [now]\<rparr>;
          p = trim cfg now p;
          exponent = max (rp_consecutive_failures p - 1) 0;
          delay = sv_initial_backoff cfg * 2 ^ min exponent 32
      in (min delay (sv_max_backoff cfg), p))"

definition is_crash_looping :: "supervision_settings \<Rightarrow> rat \<Rightarrow> restart_policy \<Rightarrow> bool \<times> restart_policy" where
  "is_crash_looping cfg now p =
     (let p = trim cfg now p in (sv_crash_loop_threshold cfg \<le> int (length (rp_failures p)), p))"

definition failures_in_window :: "supervision_settings \<Rightarrow> rat \<Rightarrow> restart_policy \<Rightarrow> nat \<times> restart_policy" where
  "failures_in_window cfg now p = (let p = trim cfg now p in (length (rp_failures p), p))"

section \<open>One source\<close>

datatype source_status = Starting | Running | Backoff | Degraded | Stopped

record source_state =
  so_name :: string
  so_status :: source_status
  so_detail :: "string option"
  so_error :: "string option"
  so_started_at :: "rat option"
  so_stopped_at :: "rat option"
  so_last_event :: "rat option"
  so_processed :: nat
  so_restart_count :: nat
  so_consecutive_failures :: nat
  so_last_failure_at :: "rat option"
  so_next_restart_at :: "rat option"
  so_backoff_seconds :: rat
  so_crash_looping :: bool
  so_quarantined_batches :: nat
  so_quarantined_events :: nat
  so_updated_at :: "rat option"

definition new_source_state :: "string \<Rightarrow> source_state" where
  "new_source_state name =
     \<lparr>so_name = name, so_status = Starting, so_detail = None, so_error = None, so_started_at = None,
      so_stopped_at = None, so_last_event = None, so_processed = 0, so_restart_count = 0,
      so_consecutive_failures = 0, so_last_failure_at = None, so_next_restart_at = None, so_backoff_seconds = 0,
      so_crash_looping = False, so_quarantined_batches = 0, so_quarantined_events = 0, so_updated_at = None\<rparr>"

record collector_health =
  ch_failed :: bool
  ch_error :: "string option"
  ch_processed :: nat
  ch_quarantined_batches :: nat
  ch_quarantined_events :: nat
  ch_last_event :: "rat option"

text \<open>\<open>_run_once\<close>: the factory or the service raises (the text is \<open>TypeName: message\<close>), or it returns.\<close>

datatype run_outcome = Raised string | Returned collector_health

definition run_once_result :: "run_outcome \<Rightarrow> collector_health option \<times> string option" where
  "run_once_result r =
     (case r of
        Raised e \<Rightarrow> (None, Some e)
      | Returned h \<Rightarrow>
          (Some h, if ch_failed h
                   then Some (case ch_error h of
                       None \<Rightarrow> ''collector failed without a reported error''
                     | Some e \<Rightarrow> if e = [] then ''collector failed without a reported error'' else e)
                   else None))"

text \<open>
  One pass of the loop as the environment shapes it: the wall clock when it starts and after the
  collector ended, the monotonic clock at the failure and at the later crash-loop test, the runtime,
  and whether the stop flag is set after the collector ended and during the backoff wait. The wall
  clock is read once per phase.
\<close>

record attempt =
  at_wall_start :: rat
  at_wall_end :: rat
  at_now :: rat
  at_check :: rat
  at_runtime :: rat
  at_outcome :: run_outcome
  at_stop_after_run :: bool
  at_stop_in_backoff :: bool

record supervisor =
  su_policy :: restart_policy
  su_state :: source_state
  su_rows :: "source_state list"

definition new_supervisor :: "string \<Rightarrow> supervisor" where
  "new_supervisor name = \<lparr>su_policy = new_policy, su_state = new_source_state name, su_rows = []\<rparr>"

text \<open>
  \<open>_update\<close>: change the state, stamp it and write it to the store. A failed write is only reported,
  so \<open>su_rows\<close> lists what is offered to the store.
\<close>

definition update_state :: "rat \<Rightarrow> (source_state \<Rightarrow> source_state) \<Rightarrow> supervisor \<Rightarrow> supervisor" where
  "update_state wall changes su =
     (let st = (changes (su_state su))\<lparr>so_updated_at := Some wall\<rparr>
      in su\<lparr>su_state := st, su_rows := su_rows su @ [st]\<rparr>)"

definition absorb_health :: "collector_health option \<Rightarrow> supervisor \<Rightarrow> supervisor" where
  "absorb_health health su =
     (case health of
        None \<Rightarrow> su
      | Some h \<Rightarrow>
          let st = su_state su;
              st = st\<lparr>so_processed := so_processed st + ch_processed h,
                      so_quarantined_batches := so_quarantined_batches st + ch_quarantined_batches h,
                      so_quarantined_events := so_quarantined_events st + ch_quarantined_events h\<rparr>;
              st = (case ch_last_event h of None \<Rightarrow> st | Some ts \<Rightarrow> st\<lparr>so_last_event := Some ts\<rparr>)
          in su\<lparr>su_state := st\<rparr>)"

text \<open>\<open>fmt\<close> is \<open>:g\<close> and \<open>fmt1\<close> is \<open>:.1f\<close>.\<close>

definition degrade :: "(rat \<Rightarrow> string) \<Rightarrow> supervision_settings \<Rightarrow> rat \<Rightarrow> rat \<Rightarrow> string \<Rightarrow> supervisor \<Rightarrow> supervisor" where
  "degrade fmt cfg now wall failure su =
     (let (n, p) = failures_in_window cfg now (su_policy su) in
      update_state wall (\<lambda>st. st\<lparr>so_status := Degraded, so_error := Some failure,
          so_detail := Some (''crash loop: '' @ nat_str n @ '' failures in '' @ fmt (sv_crash_loop_window cfg) @
                             ''s; restarts stopped''),
          so_crash_looping := True, so_consecutive_failures := rp_consecutive_failures p,
          so_last_failure_at := Some wall, so_next_restart_at := None, so_backoff_seconds := 0,
          so_stopped_at := Some wall\<rparr>) (su\<lparr>su_policy := p\<rparr>))"

text \<open>One pass of \<open>run\<close>; the flag says whether the loop goes on.\<close>

definition supervise_attempt ::
  "(rat \<Rightarrow> string) \<Rightarrow> (rat \<Rightarrow> string) \<Rightarrow> supervision_settings \<Rightarrow> attempt \<Rightarrow> supervisor \<Rightarrow> bool \<times> supervisor" where
  "supervise_attempt fmt fmt1 cfg a su =
     (let su = update_state (at_wall_start a) (\<lambda>st. st\<lparr>so_status := Running, so_started_at := Some (at_wall_start a),
                 so_detail := Some ''collector running'', so_next_restart_at := None, so_backoff_seconds := 0,
                 so_error := None\<rparr>) su;
          (health, failure) = run_once_result (at_outcome a);
          su = absorb_health health su
      in if at_stop_after_run a then
           (False, update_state (at_wall_end a) (\<lambda>st. st\<lparr>so_status := Stopped,
              so_detail := Some ''shutdown requested'', so_stopped_at := Some (at_wall_end a)\<rparr>) su)
         else case failure of
           None \<Rightarrow> (False, update_state (at_wall_end a) (\<lambda>st. st\<lparr>so_status := Stopped,
              so_detail := Some ''collector finished without error'', so_stopped_at := Some (at_wall_end a)\<rparr>) su)
         | Some e \<Rightarrow>
             let (delay, p) = record_failure cfg (at_now a) (at_runtime a) (su_policy su);
                 (looping, p) = is_crash_looping cfg (at_check a) p;
                 su = su\<lparr>su_policy := p, su_state := (su_state su)\<lparr>so_restart_count := so_restart_count (su_state su) + 1\<rparr>\<rparr>
             in if looping then (False, degrade fmt cfg (at_check a) (at_wall_end a) e su)
                else let su = update_state (at_wall_end a) (\<lambda>st. st\<lparr>so_status := Backoff, so_error := Some e,
                       so_detail := Some (''restarting after failure (runtime '' @ fmt1 (at_runtime a) @ ''s)''),
                       so_consecutive_failures := rp_consecutive_failures p, so_last_failure_at := Some (at_wall_end a),
                       so_backoff_seconds := delay, so_next_restart_at := Some (at_wall_end a + delay),
                       so_stopped_at := Some (at_wall_end a)\<rparr>) su
                  in if at_stop_in_backoff a then
                       (False, update_state (at_wall_end a) (\<lambda>st. st\<lparr>so_status := Stopped,
                          so_detail := Some ''shutdown requested during backoff''\<rparr>) su)
                     else (True, su))"

text \<open>
  The loop over the attempts the environment provides. The list ending means the stop flag was set
  at the loop head.
\<close>

fun supervise :: "(rat \<Rightarrow> string) \<Rightarrow> (rat \<Rightarrow> string) \<Rightarrow> supervision_settings \<Rightarrow> attempt list \<Rightarrow> supervisor \<Rightarrow> supervisor" where
  "supervise fmt fmt1 cfg [] su = su"
| "supervise fmt fmt1 cfg (a # as) su =
     (let (go, su') = supervise_attempt fmt fmt1 cfg a su in if go then supervise fmt fmt1 cfg as su' else su')"

text \<open>The collector supervisor refuses an empty list and repeated names; \<open>healthy\<close> is its readiness verdict.\<close>

definition new_supervisors :: "string list \<Rightarrow> py_error + supervisor list" where
  "new_supervisors names =
     (if names = [] then Inl (Value_Error ''at least one source is required'')
      else if \<not> distinct names then Inl (Value_Error (''duplicate source names: '' @
        join_text '', '' (sort (remdups (filter (\<lambda>n. 1 < length (filter ((=) n) names)) names)))))
      else Inr (map new_supervisor names))"

definition healthy :: "supervisor list \<Rightarrow> bool" where
  "healthy sus \<longleftrightarrow> list_all (\<lambda>su. so_status (su_state su) \<noteq> Degraded) sus"

section \<open>Quarantine\<close>

text \<open>
  The directory maps batch files (by their \<open>time_ns\<close>) to documents; None is a document that could not
  be written because the file system refused.
\<close>

record 'd quarantine =
  qu_max_batches :: int
  qu_files :: "(int \<times> 'd) list"

definition new_quarantine :: "int \<Rightarrow> py_error + 'd quarantine" where
  "new_quarantine max_batches =
     (if max_batches < 0 then Inl (Value_Error ''max_batches must not be negative'')
      else Inr \<lparr>qu_max_batches = max_batches, qu_files = []\<rparr>)"

definition quarantine_store :: "nat \<Rightarrow> (int \<times> 'd) option \<Rightarrow> 'd quarantine \<Rightarrow> bool \<times> 'd quarantine" where
  "quarantine_store n_events written q =
     (if n_events = 0 \<or> qu_max_batches q = 0 then (False, q)
      else if qu_max_batches q \<le> int (length (qu_files q)) then (False, q)
      else case written of
        None \<Rightarrow> (False, q)
      | Some (ns, doc) \<Rightarrow> (True, q\<lparr>qu_files := AList.update ns doc (qu_files q)\<rparr>))"

lemma quarantine_bounded:
  assumes "int (length (qu_files q)) \<le> qu_max_batches q"
  shows "int (length (qu_files (snd (quarantine_store n written q)))) \<le> qu_max_batches q"
proof -
  have "int (length (AList.update k v (qu_files q))) \<le> qu_max_batches q" if "\<not> qu_max_batches q \<le> int (length (qu_files q))" for k v
    using that length_update_le [of k v "qu_files q"] by linarith
  then show ?thesis using assms by (auto simp: quarantine_store_def split: option.split prod.split)
qed

lemma quarantine_refused: "\<not> fst (quarantine_store n written q) \<Longrightarrow> snd (quarantine_store n written q) = q"
  by (auto simp: quarantine_store_def split: option.splits if_splits)

lemma quarantine_kept:
  "ns \<notin> fst ` set (qu_files q) \<Longrightarrow> fst (quarantine_store n (Some (ns, doc)) q) \<Longrightarrow>
   qu_files (snd (quarantine_store n (Some (ns, doc)) q)) = qu_files q @ [(ns, doc)]"
  by (simp add: quarantine_store_def update_fresh split: if_splits)

section \<open>The policy against its history\<close>

text \<open>The failures since the last collector that ran long enough, that one included.\<close>

definition since_healthy :: "supervision_settings \<Rightarrow> attempt list \<Rightarrow> attempt list" where
  "since_healthy cfg as =
     (let short = takeWhile (\<lambda>a. at_runtime a < sv_healthy_runtime cfg) (rev as)
      in rev (take (length short + 1) (rev as)))"

definition policy_step :: "supervision_settings \<Rightarrow> attempt \<Rightarrow> restart_policy \<Rightarrow> restart_policy" where
  "policy_step cfg a p = snd (is_crash_looping cfg (at_check a) (snd (record_failure cfg (at_now a) (at_runtime a) p)))"

definition policy_after :: "supervision_settings \<Rightarrow> attempt list \<Rightarrow> restart_policy" where
  "policy_after cfg as = fold (policy_step cfg) as new_policy"

definition failure_times :: "attempt list \<Rightarrow> rat list" where
  "failure_times as = concat (map (\<lambda>a. [at_now a, at_check a]) as)"

definition policy_tracks :: "supervision_settings \<Rightarrow> rat \<Rightarrow> attempt list \<Rightarrow> restart_policy \<Rightarrow> bool" where
  "policy_tracks cfg now h p \<longleftrightarrow> rp_consecutive_failures p = length h \<and>
     rp_failures p = filter (\<lambda>t. now - sv_crash_loop_window cfg \<le> t) (map at_now h)"

lemma since_healthy_Nil [simp]: "since_healthy cfg [] = []"
  by (simp add: since_healthy_def)

lemma since_healthy_snoc:
  "since_healthy cfg (as @ [a]) = (if sv_healthy_runtime cfg \<le> at_runtime a then [a] else since_healthy cfg as @ [a])"
  by (auto simp: since_healthy_def Let_def not_le)

lemma set_since_healthy: "set (since_healthy cfg as) \<subseteq> set as"
  by (auto simp: since_healthy_def Let_def dest: in_set_takeD)

lemma since_healthy_suffix: "\<exists>xs. as = xs @ since_healthy cfg as"
proof
  show "as = rev (drop (Suc (length (takeWhile (\<lambda>a. at_runtime a < sv_healthy_runtime cfg) (rev as)))) (rev as)) @ since_healthy cfg as"
    by (simp add: since_healthy_def Let_def flip: rev_append)
qed

lemma dropWhile_sorted: "sorted xs \<Longrightarrow> dropWhile (\<lambda>t. t < c) xs = filter (\<lambda>t. c \<le> t) (xs :: rat list)"
proof (induction xs)
  case (Cons x xs)
  show ?case
  proof (cases "x < c")
    case False
    then have "\<forall>y \<in> set xs. c \<le> y" using Cons.prems by auto
    then show ?thesis using False by (simp add: filter_True)
  qed (use Cons in simp)
qed simp

lemma filter_later: "(c :: rat) \<le> d \<Longrightarrow> filter (\<lambda>t. d \<le> t) (filter (\<lambda>t. c \<le> t) xs) = filter (\<lambda>t. d \<le> t) xs"
  by (induction xs) auto

lemma trim_tracks:
  assumes "policy_tracks cfg now h p" and "sorted (map at_now h)" and "now \<le> now'"
  shows "policy_tracks cfg now' h (trim cfg now' p)"
proof -
  have "sorted (filter (\<lambda>t. now - sv_crash_loop_window cfg \<le> t) (map at_now h))" using assms(2) by (rule sorted_wrt_filter)
  note dropWhile_sorted [OF this, of "now' - sv_crash_loop_window cfg"]
  also have "filter (\<lambda>t. now' - sv_crash_loop_window cfg \<le> t) (filter (\<lambda>t. now - sv_crash_loop_window cfg \<le> t) (map at_now h)) =
      filter (\<lambda>t. now' - sv_crash_loop_window cfg \<le> t) (map at_now h)"
    by (rule filter_later) (use assms(3) in simp)
  finally show ?thesis using assms(1) by (simp add: policy_tracks_def trim_def)
qed

lemma record_tracks:
  assumes "policy_tracks cfg now (since_healthy cfg as) p" and "sorted (map at_now (as @ [a]))" and "now \<le> at_now a"
  shows "policy_tracks cfg (at_now a) (since_healthy cfg (as @ [a])) (snd (record_failure cfg (at_now a) (at_runtime a) p))"
proof -
  obtain xs where "as = xs @ since_healthy cfg as" using since_healthy_suffix by blast
  then have s: "sorted (map at_now (since_healthy cfg as))" "\<forall>b \<in> set (since_healthy cfg as). at_now b \<le> at_now a"
    using assms(2) by (metis map_append sorted_append, metis (no_types, lifting) Un_iff in_set_conv_decomp list.set_map imageI set_append sorted_append map_append list.set_intros(1))
  show ?thesis
  proof (cases "sv_healthy_runtime cfg \<le> at_runtime a")
    case True
    then show ?thesis by (simp add: policy_tracks_def record_failure_def trim_def Let_def since_healthy_snoc)
  next
    case False
    let ?c = "at_now a - sv_crash_loop_window cfg"
    let ?fs = "filter (\<lambda>t. now - sv_crash_loop_window cfg \<le> t) (map at_now (since_healthy cfg as)) @ [at_now a]"
    have "sorted ?fs" using s by (auto simp: sorted_append intro: sorted_wrt_filter)
    then have "dropWhile (\<lambda>t. t < ?c) ?fs = filter (\<lambda>t. ?c \<le> t) ?fs" by (rule dropWhile_sorted)
    also have "\<dots> = filter (\<lambda>t. ?c \<le> t) (map at_now (since_healthy cfg as @ [a]))"
      using assms(3) filter_later [of "now - sv_crash_loop_window cfg" ?c] by simp
    finally show ?thesis
      using False assms(1) by (simp add: policy_tracks_def record_failure_def trim_def Let_def since_healthy_snoc)
  qed
qed

lemma failure_times_now: "sorted (failure_times as) \<Longrightarrow> sorted (map at_now as)"
  by (induction as) (auto simp: failure_times_def)

lemma failure_times_snoc:
  "sorted (failure_times (as @ [a])) \<Longrightarrow> sorted (failure_times as) \<and> at_now a \<le> at_check a \<and>
    (as \<noteq> [] \<longrightarrow> at_check (last as) \<le> at_now a)"
  by (cases as rule: rev_cases) (auto simp: failure_times_def sorted_append)

lemma policy_after_tracks:
  "sorted (failure_times as) \<Longrightarrow> as = [] \<or> now = at_check (last as) \<Longrightarrow>
   policy_tracks cfg now (since_healthy cfg as) (policy_after cfg as)"
proof (induction as arbitrary: now rule: rev_induct)
  case Nil
  then show ?case by (simp add: policy_tracks_def policy_after_def new_policy_def)
next
  case (snoc a as)
  note times = failure_times_snoc [OF snoc.prems(1)]
  let ?prev = "if as = [] then at_now a else at_check (last as)"
  have "policy_tracks cfg ?prev (since_healthy cfg as) (policy_after cfg as)"
    by (rule snoc.IH) (use times in auto)
  moreover have "?prev \<le> at_now a" using times by simp
  ultimately have "policy_tracks cfg (at_now a) (since_healthy cfg (as @ [a]))
      (snd (record_failure cfg (at_now a) (at_runtime a) (policy_after cfg as)))"
    using failure_times_now [OF snoc.prems(1)] by - (rule record_tracks)
  moreover have "sorted (map at_now (since_healthy cfg (as @ [a])))"
    using failure_times_now [OF snoc.prems(1)] since_healthy_suffix [of "as @ [a]" cfg]
    by (metis map_append sorted_append)
  moreover have "now = at_check a" "at_now a \<le> at_check a" using snoc.prems(2) times by simp_all
  ultimately show ?case using trim_tracks by (simp add: policy_after_def policy_step_def is_crash_looping_def Let_def)
qed

lemma record_failure_spec:
  fixes cfg :: supervision_settings
  assumes "sorted (failure_times (as @ [a]))"
  defines "h \<equiv> since_healthy cfg (as @ [a])"
    and "r \<equiv> record_failure cfg (at_now a) (at_runtime a) (policy_after cfg as)"
  shows "fst r = min (sv_initial_backoff cfg * 2 ^ min (length h - 1) 32) (sv_max_backoff cfg)"
    and "fst (is_crash_looping cfg (at_check a) (snd r)) \<longleftrightarrow>
      sv_crash_loop_threshold cfg \<le> int (length (filter (\<lambda>b. at_check a - sv_crash_loop_window cfg \<le> at_now b) h))"
proof -
  note times = failure_times_snoc [OF assms(1)]
  let ?prev = "if as = [] then at_now a else at_check (last as)"
  have "policy_tracks cfg ?prev (since_healthy cfg as) (policy_after cfg as)"
    by (rule policy_after_tracks) (use times in auto)
  moreover have "?prev \<le> at_now a" using times by simp
  ultimately have tr: "policy_tracks cfg (at_now a) h (snd r)"
    unfolding h_def r_def using failure_times_now [OF assms(1)] by - (rule record_tracks)
  then have "rp_consecutive_failures (snd r) = length h" by (simp add: policy_tracks_def)
  then show "fst r = min (sv_initial_backoff cfg * 2 ^ min (length h - 1) 32) (sv_max_backoff cfg)"
    unfolding r_def record_failure_def Let_def by (simp add: trim_def)
  have "sorted (map at_now h)"
    unfolding h_def using failure_times_now [OF assms(1)] since_healthy_suffix [of "as @ [a]" cfg]
    by (metis map_append sorted_append)
  then have "policy_tracks cfg (at_check a) h (trim cfg (at_check a) (snd r))"
    using trim_tracks [OF tr] times by blast
  then show "fst (is_crash_looping cfg (at_check a) (snd r)) \<longleftrightarrow>
      sv_crash_loop_threshold cfg \<le> int (length (filter (\<lambda>b. at_check a - sv_crash_loop_window cfg \<le> at_now b) h))"
    by (simp add: is_crash_looping_def policy_tracks_def Let_def filter_map comp_def)
qed

section \<open>The loop\<close>

definition processed_by :: "attempt \<Rightarrow> nat" where
  "processed_by a = (case at_outcome a of Raised _ \<Rightarrow> 0 | Returned h \<Rightarrow> ch_processed h)"

definition in_progress :: "source_state \<Rightarrow> bool" where
  "in_progress st \<longleftrightarrow> so_status st \<in> {Running, Backoff} \<and> \<not> so_crash_looping st"

definition starts :: "source_state list \<Rightarrow> nat" where
  "starts rows = length (filter (\<lambda>r. so_status r = Running) rows)"

text \<open>What one pass does to the state and the rows.\<close>

lemma update_state_simps [simp]:
  "su_policy (update_state w f su) = su_policy su"
  "su_state (update_state w f su) = (f (su_state su))\<lparr>so_updated_at := Some w\<rparr>"
  "su_rows (update_state w f su) = su_rows su @ [(f (su_state su))\<lparr>so_updated_at := Some w\<rparr>]"
  by (simp_all add: update_state_def Let_def)

lemma absorb_health_simps [simp]:
  "su_policy (absorb_health h su) = su_policy su"
  "su_rows (absorb_health h su) = su_rows su"
  "so_status (su_state (absorb_health h su)) = so_status (su_state su)"
  "so_crash_looping (su_state (absorb_health h su)) = so_crash_looping (su_state su)"
  "so_restart_count (su_state (absorb_health h su)) = so_restart_count (su_state su)"
  by (cases h; simp add: absorb_health_def Let_def split: option.split)+

lemma absorb_health_processed [simp]:
  "so_processed (su_state (absorb_health (fst (run_once_result (at_outcome a))) su)) =
     so_processed (su_state su) + processed_by a"
proof (cases "at_outcome a")
  case (Returned h)
  then show ?thesis by (cases "ch_last_event h") (simp_all add: absorb_health_def Let_def processed_by_def run_once_result_def)
qed (simp add: absorb_health_def processed_by_def run_once_result_def)

definition run_open :: "supervisor \<Rightarrow> bool" where
  "run_open su \<longleftrightarrow> \<not> so_crash_looping (su_state su) \<and> list_all in_progress (su_rows su)"

definition run_result :: "supervisor \<Rightarrow> bool" where
  "run_result su \<longleftrightarrow> list_all in_progress (butlast (su_rows su)) \<and> (su_rows su = [] \<or> last (su_rows su) = su_state su) \<and>
     (so_crash_looping (su_state su) \<longleftrightarrow> so_status (su_state su) = Degraded)"

lemma butlast_snoc_two: "butlast (xs @ [a, b]) = xs @ [a]" "butlast (xs @ [a, b, c]) = xs @ [a, b]"
  by (simp_all add: butlast_append)

lemma degrade_simps [simp]:
  "su_rows (degrade fmt cfg now wall e su) = su_rows su @ [su_state (degrade fmt cfg now wall e su)]"
  "so_status (su_state (degrade fmt cfg now wall e su)) = Degraded"
  "so_crash_looping (su_state (degrade fmt cfg now wall e su))"
  "so_processed (su_state (degrade fmt cfg now wall e su)) = so_processed (su_state su)"
  "so_restart_count (su_state (degrade fmt cfg now wall e su)) = so_restart_count (su_state su)"
  by (simp_all add: degrade_def split_beta)

text \<open>How a pass ends.\<close>

lemma supervise_attempt_stops:
  assumes "run_open su" and "\<not> fst (supervise_attempt fmt fmt1 cfg a su)"
  shows "run_result (snd (supervise_attempt fmt fmt1 cfg a su)) \<and>
    starts (su_rows (snd (supervise_attempt fmt fmt1 cfg a su))) = starts (su_rows su) + 1 \<and>
    so_processed (su_state (snd (supervise_attempt fmt fmt1 cfg a su))) = so_processed (su_state su) + processed_by a"
  using assms
  by (simp add: supervise_attempt_def Let_def split_beta run_open_def run_result_def butlast_snoc_two starts_def
      in_progress_def butlast_append split: if_splits option.splits)

lemma supervise_attempt_goes:
  assumes "run_open su" and "fst (supervise_attempt fmt fmt1 cfg a su)"
  shows "run_open (snd (supervise_attempt fmt fmt1 cfg a su)) \<and>
    starts (su_rows (snd (supervise_attempt fmt fmt1 cfg a su))) = starts (su_rows su) + 1 \<and>
    last (su_rows (snd (supervise_attempt fmt fmt1 cfg a su))) = su_state (snd (supervise_attempt fmt fmt1 cfg a su)) \<and>
    so_status (su_state (snd (supervise_attempt fmt fmt1 cfg a su))) = Backoff \<and>
    so_processed (su_state (snd (supervise_attempt fmt fmt1 cfg a su))) = so_processed (su_state su) + processed_by a"
  using assms
  by (simp add: supervise_attempt_def Let_def split_beta run_open_def starts_def in_progress_def split: if_splits option.splits)

lemma list_all_butlast: "list_all p xs \<Longrightarrow> list_all p (butlast xs)"
  by (auto simp: list_all_iff dest: in_set_butlastD)

lemma supervise_result:
  "run_open su \<Longrightarrow> (su_rows su = [] \<or> last (su_rows su) = su_state su) \<Longrightarrow> so_status (su_state su) \<noteq> Degraded \<Longrightarrow>
   run_result (supervise fmt fmt1 cfg as su) \<and>
   (\<exists>n. starts (su_rows (supervise fmt fmt1 cfg as su)) = starts (su_rows su) + n \<and> n \<le> length as \<and>
     so_processed (su_state (supervise fmt fmt1 cfg as su)) = so_processed (su_state su) + sum_list (map processed_by (take n as)))"
proof (induction as arbitrary: su)
  case Nil
  then show ?case by (simp add: run_result_def run_open_def list_all_butlast)
next
  case (Cons a as)
  let ?su = "snd (supervise_attempt fmt fmt1 cfg a su)"
  show ?case
  proof (cases "fst (supervise_attempt fmt fmt1 cfg a su)")
    case True
    note goes = supervise_attempt_goes [OF Cons.prems(1) True]
    have su: "run_open ?su" "su_rows ?su = [] \<or> last (su_rows ?su) = su_state ?su" "so_status (su_state ?su) \<noteq> Degraded"
      using goes by simp_all
    obtain n where n: "starts (su_rows (supervise fmt fmt1 cfg as ?su)) = starts (su_rows ?su) + n" "n \<le> length as"
      "so_processed (su_state (supervise fmt fmt1 cfg as ?su)) = so_processed (su_state ?su) + sum_list (map processed_by (take n as))"
      and res: "run_result (supervise fmt fmt1 cfg as ?su)"
      using Cons.IH [OF su] by blast
    have eq: "supervise fmt fmt1 cfg (a # as) su = supervise fmt fmt1 cfg as ?su" using True by (simp add: split_beta)
    show ?thesis unfolding eq using res n goes by (intro conjI exI [of _ "Suc n"]) simp_all
  next
    case False
    note stops = supervise_attempt_stops [OF Cons.prems(1) False]
    have eq: "supervise fmt fmt1 cfg (a # as) su = ?su" using False by (simp add: split_beta)
    show ?thesis unfolding eq using stops by (intro conjI exI [of _ 1]) simp_all
  qed
qed

lemma starts_Nil: "starts [] = 0"
  by (simp add: starts_def)

lemma new_supervisor_open: "run_open (new_supervisor name)"
  by (simp add: run_open_def new_supervisor_def new_source_state_def)

text \<open>A failing attempt that nobody interrupts.\<close>

definition plain_failure :: "supervision_settings \<Rightarrow> attempt \<Rightarrow> bool" where
  "plain_failure cfg a \<longleftrightarrow> snd (run_once_result (at_outcome a)) \<noteq> None \<and> at_runtime a < sv_healthy_runtime cfg \<and>
     \<not> at_stop_after_run a \<and> \<not> at_stop_in_backoff a"

lemma plain_failure_step:
  assumes "plain_failure cfg a" and "so_restart_count (su_state su) = k"
  defines "p \<equiv> snd (record_failure cfg (at_now a) (at_runtime a) (su_policy su))"
  shows "fst (supervise_attempt fmt fmt1 cfg a su) \<longleftrightarrow> \<not> fst (is_crash_looping cfg (at_check a) p)"
    and "so_restart_count (su_state (snd (supervise_attempt fmt fmt1 cfg a su))) = Suc k"
    and "fst (is_crash_looping cfg (at_check a) p) \<Longrightarrow>
      so_status (su_state (snd (supervise_attempt fmt fmt1 cfg a su))) = Degraded"
    and "\<not> fst (is_crash_looping cfg (at_check a) p) \<Longrightarrow>
      su_policy (snd (supervise_attempt fmt fmt1 cfg a su)) = policy_step cfg a (su_policy su)"
  using assms by (auto simp: supervise_attempt_def plain_failure_def policy_step_def Let_def split_beta)

lemma since_healthy_short: "list_all (plain_failure cfg) as \<Longrightarrow> since_healthy cfg as = as"
  by (induction as rule: rev_induct) (auto simp: since_healthy_snoc plain_failure_def)

lemma supervise_degrades:
  fixes cfg :: supervision_settings
  assumes "sv_crash_loop_threshold cfg = int n"
  shows "sorted (failure_times (bs @ as)) \<Longrightarrow> list_all (plain_failure cfg) (bs @ as) \<Longrightarrow>
    list_all (\<lambda>a. list_all (\<lambda>b. at_check a - sv_crash_loop_window cfg \<le> at_now b) (bs @ as)) (bs @ as) \<Longrightarrow>
    length bs < n \<Longrightarrow> n \<le> length (bs @ as) \<Longrightarrow> su_policy su = policy_after cfg bs \<Longrightarrow>
    so_restart_count (su_state su) = length bs \<Longrightarrow>
    so_status (su_state (supervise fmt fmt1 cfg as su)) = Degraded \<and>
    so_restart_count (su_state (supervise fmt fmt1 cfg as su)) = n"
proof (induction as arbitrary: bs su)
  case (Cons a as)
  let ?su = "snd (supervise_attempt fmt fmt1 cfg a su)"
  let ?p = "snd (record_failure cfg (at_now a) (at_runtime a) (su_policy su))"
  have pf: "plain_failure cfg a" and short: "list_all (plain_failure cfg) (bs @ [a])" using Cons.prems(2) by simp_all
  have times: "sorted (failure_times (bs @ [a]))" using Cons.prems(1) by (simp add: failure_times_def sorted_append)
  have "filter (\<lambda>b. at_check a - sv_crash_loop_window cfg \<le> at_now b) (bs @ [a]) = bs @ [a]"
    by (rule filter_True) (use Cons.prems(3) in \<open>auto simp: list_all_iff\<close>)
  then have loop: "fst (is_crash_looping cfg (at_check a) ?p) \<longleftrightarrow> n \<le> Suc (length bs)"
    using record_failure_spec(2) [OF times, of cfg] Cons.prems(6) assms
    by (simp only: since_healthy_short [OF short] length_append list.size of_nat_le_iff) simp
  note step = plain_failure_step [OF pf Cons.prems(7), of fmt fmt1]
  show ?case
  proof (cases "n \<le> Suc (length bs)")
    case True
    then have "\<not> fst (supervise_attempt fmt fmt1 cfg a su)" using step(1) loop by simp
    then have eq: "supervise fmt fmt1 cfg (a # as) su = ?su" by (simp add: split_beta)
    have "Suc (length bs) = n" using True Cons.prems(4) by simp
    then show ?thesis unfolding eq using step(2,3) loop True by simp
  next
    case False
    then have "fst (supervise_attempt fmt fmt1 cfg a su)" using step(1) loop by simp
    then have eq: "supervise fmt fmt1 cfg (a # as) su = supervise fmt fmt1 cfg as ?su" by (simp add: split_beta)
    have "su_policy ?su = policy_after cfg (bs @ [a])"
      using step(4) loop False Cons.prems(6) by (simp add: policy_after_def)
    then show ?thesis
      unfolding eq using Cons.prems(1-5) step(2) False Cons.IH [of "bs @ [a]" ?su] by simp
  qed
qed simp

section \<open>Properties\<close>

text \<open>C10: the restart policy decides as the full failure history says. At every failure of a sequence with
  nondecreasing clock readings, the delay is the doubling ladder over the failures since the last healthy run,
  clipped at the maximum, and the source is crash looping exactly when the threshold of those failures lies
  in the window; so the delay always lies between the initial and the maximal backoff.\<close>

theorem restart_policy_meets_spec:
  assumes "sorted (failure_times (as @ [a]))" and "0 < sv_initial_backoff cfg" and "sv_initial_backoff cfg \<le> sv_max_backoff cfg"
  shows "let h = since_healthy cfg (as @ [a]); r = record_failure cfg (at_now a) (at_runtime a) (policy_after cfg as) in
    fst r = min (sv_initial_backoff cfg * 2 ^ min (length h - 1) 32) (sv_max_backoff cfg) \<and>
    sv_initial_backoff cfg \<le> fst r \<and> fst r \<le> sv_max_backoff cfg \<and>
    (fst (is_crash_looping cfg (at_check a) (snd r)) \<longleftrightarrow>
      sv_crash_loop_threshold cfg \<le> int (length (filter (\<lambda>b. at_check a - sv_crash_loop_window cfg \<le> at_now b) h)))"
proof -
  have "sv_initial_backoff cfg * 1 \<le> sv_initial_backoff cfg * 2 ^ k" for k :: nat
    using assms(2) by (intro mult_left_mono) simp_all
  then show ?thesis
    using record_failure_spec [OF assms(1), of cfg] assms(3) by (simp add: Let_def)
qed

definition demo_supervision :: supervision_settings where
  "demo_supervision = \<lparr>sv_initial_backoff = 1, sv_max_backoff = 60, sv_healthy_runtime = 60,
     sv_crash_loop_threshold = 3, sv_crash_loop_window = 300\<rparr>"

definition demo_attempt :: "rat \<Rightarrow> attempt" where
  "demo_attempt now = \<lparr>at_wall_start = now, at_wall_end = now, at_now = now, at_check = now, at_runtime = 1,
     at_outcome = Raised ''OSError: x'', at_stop_after_run = False, at_stop_in_backoff = False\<rparr>"

theorem restart_policy_meets_spec_witness:
  "let h = since_healthy demo_supervision ([demo_attempt 1, demo_attempt 3] @ [demo_attempt 6]);
       r = record_failure demo_supervision (at_now (demo_attempt 6)) (at_runtime (demo_attempt 6))
         (policy_after demo_supervision [demo_attempt 1, demo_attempt 3]) in
    fst r = min (sv_initial_backoff demo_supervision * 2 ^ min (length h - 1) 32) (sv_max_backoff demo_supervision) \<and>
    sv_initial_backoff demo_supervision \<le> fst r \<and> fst r \<le> sv_max_backoff demo_supervision \<and>
    (fst (is_crash_looping demo_supervision (at_check (demo_attempt 6)) (snd r)) \<longleftrightarrow>
      sv_crash_loop_threshold demo_supervision \<le>
        int (length (filter (\<lambda>b. at_check (demo_attempt 6) - sv_crash_loop_window demo_supervision \<le> at_now b) h)))"
  by (rule restart_policy_meets_spec) (simp_all add: failure_times_def demo_attempt_def demo_supervision_def)

text \<open>A broken source is given up, not retried for ever. When every attempt of a source fails before the
  healthy runtime, nobody stops it and all failures lie within one crash-loop window, the loop ends after
  exactly the threshold of attempts in the state Degraded and the supervisor is no longer healthy.\<close>

theorem permanent_failure_degrades:
  assumes "sv_crash_loop_threshold cfg = int n" and "0 < n" and "n \<le> length as"
    and "sorted (failure_times as)" and "list_all (plain_failure cfg) as"
    and "list_all (\<lambda>a. list_all (\<lambda>b. at_check a - sv_crash_loop_window cfg \<le> at_now b) as) as"
  shows "let su = supervise fmt fmt1 cfg as (new_supervisor name) in
    so_status (su_state su) = Degraded \<and> so_restart_count (su_state su) = n \<and> \<not> healthy [su]"
  using supervise_degrades [OF assms(1), of "[]" as "new_supervisor name" fmt fmt1] assms(2-6)
  by (simp add: Let_def healthy_def policy_after_def new_supervisor_def new_source_state_def)

theorem permanent_failure_degrades_witness:
  "let su = supervise (\<lambda>_. []) (\<lambda>_. []) demo_supervision [demo_attempt 1, demo_attempt 3, demo_attempt 6, demo_attempt 9]
       (new_supervisor ''bcc'') in
    so_status (su_state su) = Degraded \<and> so_restart_count (su_state su) = 3 \<and> \<not> healthy [su]"
  by (rule permanent_failure_degrades)
    (simp_all add: failure_times_def demo_attempt_def demo_supervision_def plain_failure_def run_once_result_def)

text \<open>C11: however the attempts of a source go, the rows offered to the store tell its life in order: all but
  the last are Running or Backoff, so nothing follows Degraded or Stopped; the last row is the returned state; the
  crash-loop flag is set exactly when the state is Degraded; and the processed count is the sum over the
  attempts that were started.\<close>

theorem supervision_is_terminal:
  shows "let su = supervise fmt fmt1 cfg as (new_supervisor name); rows = su_rows su in
    list_all in_progress (butlast rows) \<and> (rows = [] \<or> last rows = su_state su) \<and>
    (so_crash_looping (su_state su) \<longleftrightarrow> so_status (su_state su) = Degraded) \<and>
    starts rows \<le> length as \<and> so_processed (su_state su) = sum_list (map processed_by (take (starts rows) as))"
proof -
  have zero: "starts (su_rows (new_supervisor name)) = 0" "so_processed (su_state (new_supervisor name)) = 0"
    "su_rows (new_supervisor name) = []" "so_status (su_state (new_supervisor name)) \<noteq> Degraded"
    by (simp_all add: new_supervisor_def new_source_state_def starts_def)
  show ?thesis
    using supervise_result [OF new_supervisor_open [of name] _ zero(4), of fmt fmt1 cfg as]
    by (simp add: zero starts_Nil run_result_def Let_def)
qed

end
