(* ===== verification/Policy_Engine.thy ===== *)
theory Policy_Engine
  imports Py_Value Evidence_Tables
begin

text \<open>
  The policy engine \<^verbatim>\<open>policy/engine.py\<close>: parsing of the policy document, rule matching, the advisory
  check of the assistant's recommendation, and the decision with its fail-closed path. The parameters
  are \<open>float\<close> on text (\<open>parse\<close>), \<open>str\<close> of a value that is not text (\<open>shown\<close>) and \<open>:.4f\<close> (\<open>fmt4\<close>).
\<close>

section \<open>Rules\<close>

datatype decision = ALLOW | LOG | REVIEW_REQUIRED | DRY_RUN | ACTION_PENDING_APPROVAL | DENIED

definition decision_value :: "decision \<Rightarrow> string" where
  "decision_value d = (case d of
      ALLOW \<Rightarrow> ''ALLOW'' | LOG \<Rightarrow> ''LOG'' | REVIEW_REQUIRED \<Rightarrow> ''REVIEW_REQUIRED'' | DRY_RUN \<Rightarrow> ''DRY_RUN''
    | ACTION_PENDING_APPROVAL \<Rightarrow> ''ACTION_PENDING_APPROVAL'' | DENIED \<Rightarrow> ''DENIED'')"

definition all_decisions :: "decision list" where
  "all_decisions = [ALLOW, LOG, REVIEW_REQUIRED, DRY_RUN, ACTION_PENDING_APPROVAL, DENIED]"

definition decision_of :: "string \<Rightarrow> decision option" where
  "decision_of s = find (\<lambda>d. decision_value d = s) all_decisions"

text \<open>\<open>PolicyConfigurationError\<close> is a ValueError of its own; the rest are built-in exceptions.\<close>

datatype policy_exc = Configuration_Error string | Raised py_error

definition exc_name :: "policy_exc \<Rightarrow> string" where
  "exc_name e = (case e of
      Configuration_Error _ \<Rightarrow> ''PolicyConfigurationError''
    | Raised (Value_Error _) \<Rightarrow> ''ValueError'' | Raised (Key_Error _) \<Rightarrow> ''KeyError''
    | Raised (Type_Error _) \<Rightarrow> ''TypeError'' | Raised (Runtime_Error _) \<Rightarrow> ''RuntimeError''
    | Raised (Integrity_Error _) \<Rightarrow> ''IntegrityError'' | Raised (Attribute_Error _) \<Rightarrow> ''AttributeError'')"

definition lift_py :: "py_error + 'a \<Rightarrow> policy_exc + 'a" where
  "lift_py r = (case r of Inl e \<Rightarrow> Inl (Raised e) | Inr x \<Rightarrow> Inr x)"

text \<open>
  A rule with its match criteria as \<open>from_document\<close> leaves them: the three lists are checked there, the
  score bounds and the completeness flag are not.
\<close>

record policy_match =
  pm_severity :: "string list option"
  pm_min_risk_score :: "doc option"
  pm_max_risk_score :: "doc option"
  pm_detection_type :: "string list option"
  pm_required_rule_ids :: "string list"
  pm_telemetry_complete :: "doc option"

record policy_rule =
  pr_policy_id :: string
  pr_priority :: int
  pr_match :: policy_match
  pr_decision :: decision
  pr_required_approval :: bool
  pr_proposed_action :: string
  pr_keywords :: "string list"

definition dangerous_terms :: "string list" where
  "dangerous_terms = [''kill'', ''terminate'', ''delete'', ''modify firewall'', ''sudoers'', ''execute'',
     ''run command'', ''block ip'', ''disable account'']"

definition dangerous :: "string \<Rightarrow> bool" where
  "dangerous text \<longleftrightarrow> list_ex (\<lambda>term. contains term text) dangerous_terms"

definition match_keys :: "string list" where
  "match_keys = [''severity'', ''min_risk_score'', ''max_risk_score'', ''detection_type'', ''required_rule_ids'',
     ''telemetry_complete'']"

section \<open>Reading the document\<close>

text \<open>A string list under an optional key of \<open>match\<close>.\<close>

definition match_list :: "string \<Rightarrow> string \<Rightarrow> rat pymap \<Rightarrow> policy_exc + string list option" where
  "match_list policy_id k d =
     (case map_of d k of
        None \<Rightarrow> Inr None
      | Some v \<Rightarrow>
          (case str_list v of
             None \<Rightarrow> Inl (Configuration_Error (policy_id @ '': '' @ k @ '' must be a string list''))
           | Some xs \<Rightarrow> Inr (Some xs)))"

text \<open>\<open>decision not in _DECISIONS\<close>: lists and mappings cannot be hashed.\<close>

definition read_decision :: "string \<Rightarrow> doc \<Rightarrow> policy_exc + decision" where
  "read_decision policy_id v =
     (case v of
        PStr s \<Rightarrow> (case decision_of s of
            None \<Rightarrow> Inl (Configuration_Error (policy_id @ '': unsupported decision''))
          | Some d \<Rightarrow> Inr d)
      | PList _ \<Rightarrow> Inl (Raised (Type_Error ''unhashable type''))
      | PDict _ \<Rightarrow> Inl (Raised (Type_Error ''unhashable type''))
      | _ \<Rightarrow> Inl (Configuration_Error (policy_id @ '': unsupported decision'')))"

definition read_approval :: "string \<Rightarrow> doc \<Rightarrow> policy_exc + bool" where
  "read_approval policy_id v =
     (case v of PBool b \<Rightarrow> Inr b | _ \<Rightarrow> Inl (Configuration_Error (policy_id @ '': required_approval must be boolean'')))"

definition read_action :: "string \<Rightarrow> doc \<Rightarrow> policy_exc + string" where
  "read_action policy_id v =
     (case v of
        PStr s \<Rightarrow>
          if strip s = [] then Inl (Configuration_Error (policy_id @ '': proposed_action must be a string''))
          else if dangerous (lower s) then Inl (Configuration_Error (policy_id @ '': executing actions are not permitted''))
          else Inr s
      | _ \<Rightarrow> Inl (Configuration_Error (policy_id @ '': proposed_action must be a string'')))"

definition read_keywords :: "string \<Rightarrow> doc option \<Rightarrow> policy_exc + string list" where
  "read_keywords policy_id v =
     (case v of
        None \<Rightarrow> Inr []
      | Some x \<Rightarrow>
          (case str_list x of
             None \<Rightarrow> Inl (Configuration_Error (policy_id @ '': allowed_recommendation_keywords must be a string list''))
           | Some xs \<Rightarrow> Inr xs))"

definition read_priority :: "string \<Rightarrow> doc option \<Rightarrow> policy_exc + int" where
  "read_priority policy_id v =
     (case v of
        None \<Rightarrow> Inr 0
      | Some (PInt i) \<Rightarrow> Inr i
      | Some _ \<Rightarrow> Inl (Configuration_Error (policy_id @ '': priority must be an integer'')))"

definition bind_exc :: "'e + 'a \<Rightarrow> ('a \<Rightarrow> 'e + 'b) \<Rightarrow> 'e + 'b" where
  "bind_exc r f = (case r of Inl e \<Rightarrow> Inl e | Inr x \<Rightarrow> f x)"

definition read_match :: "string \<Rightarrow> rat pymap \<Rightarrow> policy_exc + policy_match" where
  "read_match policy_id d =
     (if \<not> list_all (\<lambda>k. k \<in> set match_keys) (map fst d) then Inl (Configuration_Error (policy_id @ '': unknown match keys''))
      else bind_exc (match_list policy_id ''severity'' d) (\<lambda>sev.
        bind_exc (match_list policy_id ''detection_type'' d) (\<lambda>det.
        bind_exc (match_list policy_id ''required_rule_ids'' d) (\<lambda>rules.
        Inr \<lparr>pm_severity = sev, pm_min_risk_score = map_of d ''min_risk_score'',
          pm_max_risk_score = map_of d ''max_risk_score'', pm_detection_type = det,
          pm_required_rule_ids = (case rules of None \<Rightarrow> [] | Some xs \<Rightarrow> xs),
          pm_telemetry_complete = map_of d ''telemetry_complete''\<rparr>))))"

definition parse_rule :: "doc \<Rightarrow> policy_exc + policy_rule" where
  "parse_rule raw =
     (case raw of
        PDict d \<Rightarrow>
          (case dget d ''policy_id'' of
             PStr policy_id \<Rightarrow>
               if strip policy_id = [] then Inl (Configuration_Error ''policy_id must be a non-empty string'')
               else (case dget d ''match'' of
                 PDict m \<Rightarrow>
                   bind_exc (read_match policy_id m) (\<lambda>mt.
                   bind_exc (read_decision policy_id (dget d ''decision'')) (\<lambda>dec.
                   bind_exc (read_approval policy_id (dget d ''required_approval'')) (\<lambda>app.
                   bind_exc (read_action policy_id (dget d ''proposed_action'')) (\<lambda>act.
                   bind_exc (read_keywords policy_id (map_of d ''allowed_recommendation_keywords'')) (\<lambda>kws.
                   bind_exc (read_priority policy_id (map_of d ''priority'')) (\<lambda>prio.
                   Inr \<lparr>pr_policy_id = policy_id, pr_priority = prio, pr_match = mt, pr_decision = dec,
                        pr_required_approval = app, pr_proposed_action = act, pr_keywords = kws\<rparr>))))))
               | _ \<Rightarrow> Inl (Configuration_Error (policy_id @ '': match must be a mapping'')))
           | _ \<Rightarrow> Inl (Configuration_Error ''policy_id must be a non-empty string''))
      | _ \<Rightarrow> Inl (Configuration_Error ''each policy must be a mapping''))"

fun parse_rules :: "doc list \<Rightarrow> policy_exc + policy_rule list" where
  "parse_rules [] = Inr []"
| "parse_rules (raw # raws) =
     bind_exc (parse_rule raw) (\<lambda>r. bind_exc (parse_rules raws) (\<lambda>rs. Inr (r # rs)))"

record policy_engine =
  pe_policies :: "policy_rule list"
  pe_dry_run :: bool

definition rule_key :: "policy_rule \<Rightarrow> int \<times> string" where
  "rule_key r = (- pr_priority r, pr_policy_id r)"

definition new_engine :: "policy_rule list \<Rightarrow> bool \<Rightarrow> policy_exc + policy_engine" where
  "new_engine policies dry_run =
     (let ps = sort_key rule_key policies in
      if ps = [] then Inl (Configuration_Error ''at least one policy is required'')
      else Inr \<lparr>pe_policies = ps, pe_dry_run = dry_run\<rparr>)"

definition from_document :: "doc \<Rightarrow> bool \<Rightarrow> policy_exc + policy_engine" where
  "from_document document dry_run =
     (case document of
        PDict d \<Rightarrow>
          if \<not> equals_int 1 (dget d ''version'')
          then Inl (Configuration_Error ''policy document must be a mapping with version: 1'')
          else (case dget d ''policies'' of
            PList raws \<Rightarrow> bind_exc (parse_rules raws) (\<lambda>rules. new_engine rules dry_run)
          | _ \<Rightarrow> Inl (Configuration_Error ''policies must be a list''))
      | _ \<Rightarrow> Inl (Configuration_Error ''policy document must be a mapping with version: 1''))"

section \<open>Evaluating a finding\<close>

text \<open>A finding is a dictionary; the assistant response is a dictionary or None.\<close>

definition required_fields :: "string list" where
  "required_fields = [''entity_key'', ''entity_type'', ''evidence'', ''id'', ''risk_score'', ''severity'']"

definition validate_finding :: "(string \<Rightarrow> rat option) \<Rightarrow> rat pymap \<Rightarrow> policy_exc + unit" where
  "validate_finding parse f =
     (let missing = filter (\<lambda>k. k \<notin> set (map fst f)) required_fields in
      if missing \<noteq> [] then Inl (Configuration_Error (''finding missing required fields: '' @ join_text '', '' missing))
      else bind_exc (lift_py (to_float parse (dget f ''risk_score''))) (\<lambda>score.
        if \<not> (0 \<le> score \<and> score \<le> 1) then Inl (Configuration_Error ''finding risk_score must be between 0 and 1'')
        else case dget f ''evidence'' of
            PList (x # xs) \<Rightarrow> Inr ()
          | _ \<Rightarrow> Inl (Configuration_Error ''finding evidence must be a non-empty list'')))"

text \<open>The comprehension over \<open>rules\<close> of the first \<open>rule_fusion\<close> item.\<close>

fun rule_ids :: "doc list \<Rightarrow> py_error + string list" where
  "rule_ids [] = Inr []"
| "rule_ids (r # rs) =
     bind_exc (get_item r ''matched'' PNone) (\<lambda>matched.
     bind_exc (get_item r ''rule_id'' PNone) (\<lambda>i.
     bind_exc (rule_ids rs) (\<lambda>ids.
       Inr (if matched = PBool True \<and> is_str i then the_str i # ids else ids))))"

fun matched_in :: "doc list \<Rightarrow> py_error + string list" where
  "matched_in [] = Inr []"
| "matched_in (item # items) =
     bind_exc (get_item item ''signal'' PNone) (\<lambda>signal.
       if signal = PStr ''rule_fusion'' then
         bind_exc (get_item item ''rules'' (PList [])) (\<lambda>rules. bind_exc (iterate rules) rule_ids)
       else matched_in items)"

definition matched_rule_ids :: "rat pymap \<Rightarrow> policy_exc + string list" where
  "matched_rule_ids f = lift_py (bind_exc (iterate (dget f ''evidence'')) matched_in)"

definition policy_limitations :: "rat pymap option \<Rightarrow> string list" where
  "policy_limitations assistant =
     (case assistant of
        Some d \<Rightarrow> if d \<noteq> [] \<and> is_str (dget d ''limitations'') then [the_str (dget d ''limitations'')]
                  else [''TCP/network, file, and audit/auth telemetry availability is not established by this finding.'']
      | None \<Rightarrow> [''TCP/network, file, and audit/auth telemetry availability is not established by this finding.''])"

text \<open>A score bound; \<open>out\<close> says whether the finding's score misses it.\<close>

definition out_of_bound :: "(string \<Rightarrow> rat option) \<Rightarrow> (rat \<Rightarrow> rat \<Rightarrow> bool) \<Rightarrow> rat pymap \<Rightarrow> doc option \<Rightarrow> policy_exc + bool" where
  "out_of_bound parse out f bound =
     (case bound of
        None \<Rightarrow> Inr False
      | Some b \<Rightarrow> bind_exc (lift_py (to_float parse (dget f ''risk_score''))) (\<lambda>score.
          bind_exc (lift_py (to_float parse b)) (\<lambda>q. Inr (out score q))))"

definition finding_severity :: "(doc \<Rightarrow> string) \<Rightarrow> rat pymap \<Rightarrow> string" where
  "finding_severity shown f = upper (to_str shown (dget f ''severity''))"

definition detection_type :: "(doc \<Rightarrow> string) \<Rightarrow> rat pymap \<Rightarrow> string" where
  "detection_type shown f =
     to_str shown (case map_of f ''detection_type'' of None \<Rightarrow> dget f ''entity_type'' | Some v \<Rightarrow> v)"

definition rule_matches :: "(string \<Rightarrow> rat option) \<Rightarrow> (doc \<Rightarrow> string) \<Rightarrow> policy_rule \<Rightarrow> rat pymap \<Rightarrow> string list \<Rightarrow> policy_exc + bool" where
  "rule_matches parse shown r f limitations =
     (let m = pr_match r in
      if (case pm_severity m of None \<Rightarrow> False | Some xs \<Rightarrow> finding_severity shown f \<notin> set (map upper xs)) then Inr False
      else bind_exc (out_of_bound parse (<) f (pm_min_risk_score m)) (\<lambda>low.
        if low then Inr False
        else bind_exc (out_of_bound parse (>) f (pm_max_risk_score m)) (\<lambda>high.
          if high then Inr False
          else if (case pm_detection_type m of None \<Rightarrow> False | Some xs \<Rightarrow> detection_type shown f \<notin> set xs) then Inr False
          else bind_exc (matched_rule_ids f) (\<lambda>ids.
            if \<not> set (pm_required_rule_ids m) \<subseteq> set ids then Inr False
            else if pm_telemetry_complete m = Some (PBool True) \<and> limitations \<noteq> [] then Inr False
            else Inr True))))"

fun select_rule :: "(string \<Rightarrow> rat option) \<Rightarrow> (doc \<Rightarrow> string) \<Rightarrow> policy_rule list \<Rightarrow> rat pymap \<Rightarrow> string list \<Rightarrow>
    policy_exc + policy_rule option" where
  "select_rule parse shown [] f lims = Inr None"
| "select_rule parse shown (r # rs) f lims =
     bind_exc (rule_matches parse shown r f lims) (\<lambda>b. if b then Inr (Some r) else select_rule parse shown rs f lims)"

definition advisory_check :: "policy_rule \<Rightarrow> rat pymap option \<Rightarrow> string option" where
  "advisory_check r assistant =
     (case assistant of
        None \<Rightarrow> None
      | Some d \<Rightarrow>
          if d = [] then None
          else case (case map_of d ''recommended_action'' of None \<Rightarrow> PStr [] | Some v \<Rightarrow> v) of
            PStr s \<Rightarrow>
              if dangerous (lower s)
              then Some ''AI recommendation rejected: executing or destructive actions are not permitted.''
              else if pr_keywords r \<noteq> [] \<and> \<not> list_ex (\<lambda>k. contains (lower k) (lower s)) (pr_keywords r)
              then Some ''AI recommendation rejected: it does not match this policy's allowed advisory scope.''
              else None
          | _ \<Rightarrow> Some ''AI recommendation rejected: recommendation is not text.'')"

record policy_result =
  po_finding_id :: doc
  po_policy_id :: string
  po_decision :: decision
  po_reason :: string
  po_risk_score :: rat
  po_severity :: string
  po_required_approval :: bool
  po_proposed_action :: string
  po_limitations :: "string list"
  po_timestamp :: rat
  po_dry_run :: bool
  po_advisory_rejection :: "string option"

text \<open>The decision on the selected rule: id, decision, reason, action, approval and advisory rejection.\<close>

definition judge :: "(doc \<Rightarrow> string) \<Rightarrow> (rat \<Rightarrow> string) \<Rightarrow> bool \<Rightarrow> rat pymap \<Rightarrow> rat \<Rightarrow> rat pymap option \<Rightarrow> policy_rule option \<Rightarrow>
    string \<times> decision \<times> string \<times> string \<times> bool \<times> string option" where
  "judge shown fmt4 dry f score assistant selected =
     (case selected of
        None \<Rightarrow> (''policy.fail_closed'', REVIEW_REQUIRED,
          ''No policy matched the authoritative finding; human review is required.'',
          ''Review the finding and policy configuration.'', True, None)
      | Some r \<Rightarrow>
          let reason = ''Policy '' @ pr_policy_id r @ '' matched severity='' @ to_str shown (dget f ''severity'') @
                '' risk_score='' @ fmt4 score @ ''.'';
              rejection = advisory_check r assistant;
              (dec, reason, approval) =
                (case rejection of
                   None \<Rightarrow> (pr_decision r, reason, pr_required_approval r)
                 | Some m \<Rightarrow>
                     if m \<noteq> [] then (REVIEW_REQUIRED, reason @ '' '' @ m, True)
                     else (pr_decision r, reason, pr_required_approval r));
              (dec, reason) =
                (if dry \<and> dec \<notin> {ALLOW, LOG}
                 then (DRY_RUN, reason @ '' No action is executed; this is a dry-run decision.'')
                 else (dec, reason))
          in (pr_policy_id r, dec, reason, pr_proposed_action r, approval, rejection))"

definition decide :: "(string \<Rightarrow> rat option) \<Rightarrow> (doc \<Rightarrow> string) \<Rightarrow> (rat \<Rightarrow> string) \<Rightarrow> policy_engine \<Rightarrow> rat pymap \<Rightarrow> rat pymap option \<Rightarrow>
    bool option \<Rightarrow> rat \<Rightarrow> policy_exc + policy_result" where
  "decide parse shown fmt4 e f assistant dry_run now =
     bind_exc (validate_finding parse f) (\<lambda>_.
       let lims = policy_limitations assistant;
           dry = (case dry_run of Some b \<Rightarrow> b | None \<Rightarrow> pe_dry_run e) in
       bind_exc (select_rule parse shown (pe_policies e) f lims) (\<lambda>selected.
       bind_exc (lift_py (to_float parse (dget f ''risk_score''))) (\<lambda>score.
         let (policy_id, dec, reason, action, approval, rejection) = judge shown fmt4 dry f score assistant selected
         in Inr \<lparr>po_finding_id = dget f ''id'', po_policy_id = policy_id, po_decision = dec, po_reason = reason,
              po_risk_score = score, po_severity = finding_severity shown f, po_required_approval = approval,
              po_proposed_action = action, po_limitations = lims, po_timestamp = now, po_dry_run = dry,
              po_advisory_rejection = rejection\<rparr>)))"

definition fail_closed :: "(string \<Rightarrow> rat option) \<Rightarrow> (doc \<Rightarrow> string) \<Rightarrow> policy_exc \<Rightarrow> rat pymap \<Rightarrow> rat \<Rightarrow> policy_result" where
  "fail_closed parse shown err f now =
     (let score = (case map_of f ''risk_score'' of None \<Rightarrow> Inr 0 | Some v \<Rightarrow> to_float parse v);
          safe = (case score of Inr q \<Rightarrow> if 0 \<le> q \<and> q \<le> 1 then q else 0 | Inl _ \<Rightarrow> 0)
      in \<lparr>po_finding_id = dget f ''id'', po_policy_id = ''policy.fail_closed'', po_decision = REVIEW_REQUIRED,
           po_reason = ''Policy evaluation failed closed: '' @ exc_name err @ ''.'', po_risk_score = safe,
           po_severity = upper (to_str shown (case map_of f ''severity'' of None \<Rightarrow> PStr ''UNKNOWN'' | Some v \<Rightarrow> v)),
           po_required_approval = True, po_proposed_action = ''Review the malformed finding or policy input.'',
           po_limitations = [''Policy evaluation input was malformed or incomplete.''], po_timestamp = now,
           po_dry_run = True, po_advisory_rejection = Some ''Policy evaluation failed closed.''\<rparr>)"

text \<open>\<open>except (KeyError, TypeError, ValueError, PolicyConfigurationError)\<close>.\<close>

definition caught :: "policy_exc \<Rightarrow> bool" where
  "caught e = (case e of
      Configuration_Error _ \<Rightarrow> True | Raised (Key_Error _) \<Rightarrow> True | Raised (Type_Error _) \<Rightarrow> True
    | Raised (Value_Error _) \<Rightarrow> True | _ \<Rightarrow> False)"

definition evaluate :: "(string \<Rightarrow> rat option) \<Rightarrow> (doc \<Rightarrow> string) \<Rightarrow> (rat \<Rightarrow> string) \<Rightarrow> policy_engine \<Rightarrow> rat pymap \<Rightarrow> rat pymap option \<Rightarrow>
    bool option \<Rightarrow> rat \<Rightarrow> policy_exc + policy_result" where
  "evaluate parse shown fmt4 e f assistant dry_run now =
     (case decide parse shown fmt4 e f assistant dry_run now of
        Inr r \<Rightarrow> Inr r
      | Inl err \<Rightarrow> if caught err then Inr (fail_closed parse shown err f now) else Inl err)"

text \<open>
  Persisting a result is \<open>write_policy_decision\<close>. Finding ids come from the store, so they are
  integers or absent.
\<close>

definition to_decision_in :: "policy_result \<Rightarrow> decision_in" where
  "to_decision_in r =
     \<lparr>pd_finding_id = (case po_finding_id r of PInt i \<Rightarrow> Some i | _ \<Rightarrow> None), pd_policy_id = po_policy_id r,
      pd_decision = decision_value (po_decision r), pd_reason = po_reason r, pd_risk_score = po_risk_score r,
      pd_severity = po_severity r, pd_required_approval = po_required_approval r,
      pd_proposed_action = po_proposed_action r,
      pd_limitations = ''['' @ join_text '', '' (map json_string (po_limitations r)) @ '']'',
      pd_timestamp = po_timestamp r, pd_dry_run = po_dry_run r, pd_advisory_rejection = po_advisory_rejection r\<rparr>"

end
