(* ===== verification/Policy_Safety.thy ===== *)
theory Policy_Safety
  imports Policy_Engine
begin

text \<open>
  What the policy engine guarantees: accepted documents hold only sound rules, the order of the document
  does not matter, the assistant is advisory only, and evaluation fails closed except for one
  shape of malformed evidence. One match criterion can never be met.
\<close>

section \<open>Documents\<close>

definition rule_ok :: "policy_rule \<Rightarrow> bool" where
  "rule_ok r \<longleftrightarrow> strip (pr_policy_id r) \<noteq> [] \<and> strip (pr_proposed_action r) \<noteq> [] \<and> \<not> dangerous (lower (pr_proposed_action r))"

lemma bind_exc_Inr: "bind_exc r f = Inr y \<longleftrightarrow> (\<exists>x. r = Inr x \<and> f x = Inr y)"
  by (cases r) (simp_all add: bind_exc_def)

lemma bind_exc_Inl: "bind_exc r f = Inl e \<longleftrightarrow> r = Inl e \<or> (\<exists>x. r = Inr x \<and> f x = Inl e)"
  by (cases r) (simp_all add: bind_exc_def)

lemma read_action_ok: "read_action i v = Inr s \<Longrightarrow> strip s \<noteq> [] \<and> \<not> dangerous (lower s)"
  by (cases v) (simp_all add: read_action_def split: if_splits)

lemma parse_rule_ok:
  assumes "parse_rule raw = Inr r"
  shows "rule_ok r"
proof -
  obtain d where d: "raw = PDict d" using assms by (cases raw) (simp_all add: parse_rule_def)
  obtain i where i: "dget d ''policy_id'' = PStr i" "strip i \<noteq> []"
    using assms by (cases "dget d ''policy_id''") (simp_all add: parse_rule_def d split: if_splits)
  obtain m where m: "dget d ''match'' = PDict m"
    using assms by (cases "dget d ''match''") (simp_all add: parse_rule_def d i)
  show ?thesis
    using assms i(2)
    by (simp add: parse_rule_def d i m bind_exc_Inr rule_ok_def) (auto simp: i(2) dest: read_action_ok)
qed

lemma parse_rules_ok: "parse_rules raws = Inr rs \<Longrightarrow> list_all rule_ok rs"
  by (induction raws arbitrary: rs) (auto simp: bind_exc_Inr parse_rule_ok)

section \<open>Errors\<close>

definition is_dict :: "doc \<Rightarrow> bool" where
  "is_dict v = (case v of PDict _ \<Rightarrow> True | _ \<Rightarrow> False)"

text \<open>Evidence whose items, and the rules in them, are dictionaries wherever \<open>.get\<close> is called on them.\<close>

definition rules_ok :: "doc \<Rightarrow> bool" where
  "rules_ok v = (case v of PList rs \<Rightarrow> list_all is_dict rs | PStr s \<Rightarrow> s = [] | PDict d \<Rightarrow> d = [] | _ \<Rightarrow> True)"

definition item_ok :: "doc \<Rightarrow> bool" where
  "item_ok v = (case v of PDict d \<Rightarrow> (case map_of d ''rules'' of None \<Rightarrow> True | Some rs \<Rightarrow> rules_ok rs) | _ \<Rightarrow> False)"

definition evidence_ok :: "rat pymap \<Rightarrow> bool" where
  "evidence_ok f = (case dget f ''evidence'' of PList items \<Rightarrow> list_all item_ok items | PStr s \<Rightarrow> s = [] | PDict d \<Rightarrow> d = [] | _ \<Rightarrow> True)"

lemma get_item_Inl: "get_item v k x = Inl e \<Longrightarrow> e = Attribute_Error ''get'' \<and> \<not> is_dict v"
  by (cases v) (simp_all add: get_item_def is_dict_def)

lemma iterate_Inl: "iterate v = Inl e \<Longrightarrow> e = Type_Error ''object is not iterable''"
  by (cases v) (simp_all add: iterate_def)

lemma rule_ids_Inl: "rule_ids rs = Inl e \<Longrightarrow> e = Attribute_Error ''get'' \<and> \<not> list_all is_dict rs"
  by (induction rs) (auto simp: bind_exc_Inl dest: get_item_Inl)

lemma iterate_rules_ok: "iterate v = Inr xs \<Longrightarrow> rules_ok v \<Longrightarrow> list_all is_dict xs"
  by (cases v) (auto simp: iterate_def rules_ok_def)

lemma item_rules: "item_ok item \<Longrightarrow> get_item item ''rules'' (PList []) = Inr v \<Longrightarrow> rules_ok v"
  by (cases item) (auto simp: item_ok_def get_item_def rules_ok_def split: option.splits)

lemma item_ok_dict: "item_ok item \<Longrightarrow> is_dict item"
  by (cases item) (simp_all add: item_ok_def is_dict_def)

lemma matched_in_Inl:
  "matched_in items = Inl e \<Longrightarrow>
   e = Type_Error ''object is not iterable'' \<or> (e = Attribute_Error ''get'' \<and> \<not> list_all item_ok items)"
proof (induction items)
  case (Cons item items)
  show ?case
  proof (cases "item_ok item")
    case False
    then show ?thesis using Cons
      by (auto simp: bind_exc_Inl dest: get_item_Inl iterate_Inl rule_ids_Inl split: if_splits)
  next
    case True
    then show ?thesis using Cons item_ok_dict [OF True]
      by (auto simp: bind_exc_Inl dest: get_item_Inl iterate_Inl rule_ids_Inl iterate_rules_ok [OF _ item_rules [OF True]] split: if_splits)
  qed
qed simp

definition escapes :: "policy_exc \<Rightarrow> bool" where
  "escapes e \<longleftrightarrow> e = Raised (Attribute_Error ''get'')"

lemma lift_py_Inl: "lift_py r = Inl e \<longleftrightarrow> (\<exists>x. r = Inl x \<and> e = Raised x)"
  by (cases r) (auto simp: lift_py_def)

lemma caught_simps [simp]:
  "caught (Configuration_Error m)" "caught (Raised (Value_Error m))" "caught (Raised (Type_Error m))"
  "\<not> caught (Raised (Attribute_Error m))"
  by (simp_all add: caught_def)

lemma matched_rule_ids_Inl: "matched_rule_ids f = Inl e \<Longrightarrow> caught e \<or> (escapes e \<and> \<not> evidence_ok f)"
  by (cases "dget f ''evidence''")
    (auto simp: matched_rule_ids_def lift_py_Inl bind_exc_Inl iterate_def evidence_ok_def escapes_def
      dest!: matched_in_Inl)

lemma to_float_caught: "lift_py (to_float parse v) = Inl e \<Longrightarrow> caught e"
  by (auto simp: lift_py_Inl dest: to_float_errors)

lemma out_of_bound_Inl: "out_of_bound parse out f b = Inl e \<Longrightarrow> caught e"
  by (cases b) (auto simp: out_of_bound_def bind_exc_Inl dest: to_float_caught)

lemma rule_matches_Inl: "rule_matches parse shown r f lims = Inl e \<Longrightarrow> caught e \<or> (escapes e \<and> \<not> evidence_ok f)"
  by (auto simp: rule_matches_def Let_def bind_exc_Inl dest: out_of_bound_Inl matched_rule_ids_Inl split: if_splits)

lemma select_rule_Inl: "select_rule parse shown rs f lims = Inl e \<Longrightarrow> caught e \<or> (escapes e \<and> \<not> evidence_ok f)"
  by (induction rs) (auto simp: bind_exc_Inl dest: rule_matches_Inl split: if_splits)

lemma validate_Inl: "validate_finding parse f = Inl e \<Longrightarrow> caught e"
  by (auto simp: validate_finding_def Let_def bind_exc_Inl dest: to_float_caught split: if_splits pyobj.splits list.splits)

lemma validate_score:
  assumes "validate_finding parse f = Inr u"
  shows "\<exists>q. to_float parse (dget f ''risk_score'') = Inr q \<and> 0 \<le> q \<and> q \<le> 1"
proof -
  obtain q where "lift_py (to_float parse (dget f ''risk_score'')) = Inr q" "0 \<le> q" "q \<le> 1"
    using assms by (auto simp: validate_finding_def Let_def bind_exc_Inr split: if_splits)
  then show ?thesis by (cases "to_float parse (dget f ''risk_score'')") (simp_all add: lift_py_def)
qed

lemma decide_Inl:
  assumes "decide parse shown fmt4 e f assistant dry_run now = Inl err"
  shows "caught err \<or> (escapes err \<and> \<not> evidence_ok f)"
  using assms unfolding decide_def Let_def bind_exc_Inl split_beta
  by (elim disjE exE conjE) (auto dest: validate_Inl select_rule_Inl to_float_caught)

section \<open>Results\<close>

text \<open>The decision, approval and rejection of a selected rule.\<close>

definition final_decision :: "bool \<Rightarrow> rat pymap option \<Rightarrow> policy_rule option \<Rightarrow> decision" where
  "final_decision dry assistant selected =
     (case selected of
        None \<Rightarrow> REVIEW_REQUIRED
      | Some r \<Rightarrow>
          let d = (if advisory_check r assistant = None then pr_decision r else REVIEW_REQUIRED)
          in if dry \<and> d \<notin> {ALLOW, LOG} then DRY_RUN else d)"

lemma advisory_not_Nil: "advisory_check r assistant = Some m \<Longrightarrow> m \<noteq> []"
  by (auto simp: advisory_check_def Let_def split: option.splits pyobj.splits if_splits)

lemma judge_parts:
  "fst (judge shown fmt4 dry f score assistant selected) =
     (case selected of None \<Rightarrow> ''policy.fail_closed'' | Some r \<Rightarrow> pr_policy_id r)"
  "fst (snd (judge shown fmt4 dry f score assistant selected)) = final_decision dry assistant selected"
  "fst (snd (snd (snd (snd (judge shown fmt4 dry f score assistant selected))))) =
     (case selected of None \<Rightarrow> True | Some r \<Rightarrow> pr_required_approval r \<or> advisory_check r assistant \<noteq> None)"
  "snd (snd (snd (snd (snd (judge shown fmt4 dry f score assistant selected))))) =
     (case selected of None \<Rightarrow> None | Some r \<Rightarrow> advisory_check r assistant)"
  using advisory_not_Nil
  by (auto simp: judge_def final_decision_def Let_def split_beta split: option.split)

definition effective_dry_run :: "policy_engine \<Rightarrow> bool option \<Rightarrow> bool" where
  "effective_dry_run e dry_run = (case dry_run of Some b \<Rightarrow> b | None \<Rightarrow> pe_dry_run e)"

lemma decide_Inr:
  assumes "decide parse shown fmt4 e f assistant dry_run now = Inr res"
  obtains selected where "validate_finding parse f = Inr ()"
    and "select_rule parse shown (pe_policies e) f (policy_limitations assistant) = Inr selected"
    and "to_float parse (dget f ''risk_score'') = Inr (po_risk_score res)" and "po_severity res = finding_severity shown f"
    and "po_policy_id res = (case selected of None \<Rightarrow> ''policy.fail_closed'' | Some r \<Rightarrow> pr_policy_id r)"
    and "po_advisory_rejection res = (case selected of None \<Rightarrow> None | Some r \<Rightarrow> advisory_check r assistant)"
    and "po_required_approval res =
      (case selected of None \<Rightarrow> True | Some r \<Rightarrow> pr_required_approval r \<or> advisory_check r assistant \<noteq> None)"
    and "po_decision res = final_decision (effective_dry_run e dry_run) assistant selected"
proof -
  obtain sel score where sel: "validate_finding parse f = Inr ()"
    "select_rule parse shown (pe_policies e) f (policy_limitations assistant) = Inr sel"
    "lift_py (to_float parse (dget f ''risk_score'')) = Inr score"
    and res: "res = \<lparr>po_finding_id = dget f ''id'',
      po_policy_id = fst (judge shown fmt4 (effective_dry_run e dry_run) f score assistant sel),
      po_decision = fst (snd (judge shown fmt4 (effective_dry_run e dry_run) f score assistant sel)),
      po_reason = fst (snd (snd (judge shown fmt4 (effective_dry_run e dry_run) f score assistant sel))),
      po_risk_score = score, po_severity = finding_severity shown f,
      po_required_approval = fst (snd (snd (snd (snd (judge shown fmt4 (effective_dry_run e dry_run) f score assistant sel))))),
      po_proposed_action = fst (snd (snd (snd (judge shown fmt4 (effective_dry_run e dry_run) f score assistant sel)))),
      po_limitations = policy_limitations assistant, po_timestamp = now, po_dry_run = effective_dry_run e dry_run,
      po_advisory_rejection = snd (snd (snd (snd (snd (judge shown fmt4 (effective_dry_run e dry_run) f score assistant sel)))))\<rparr>"
    using assms unfolding decide_def Let_def bind_exc_Inr split_beta effective_dry_run_def by auto
  have "to_float parse (dget f ''risk_score'') = Inr score"
    using sel(3) by (cases "to_float parse (dget f ''risk_score'')") (simp_all add: lift_py_def)
  with sel res show ?thesis by (intro that [of sel]) (simp_all add: judge_parts)
qed

text \<open>The assistant reaches selection only through the limitations, which are never empty.\<close>

lemma policy_limitations_not_Nil [simp]: "policy_limitations a \<noteq> []"
  by (simp add: policy_limitations_def split: option.split)

lemma rule_matches_assistant:
  "rule_matches parse shown r f (policy_limitations a) = rule_matches parse shown r f (policy_limitations b)"
  by (simp add: rule_matches_def Let_def)

lemma select_rule_assistant:
  "select_rule parse shown rs f (policy_limitations a) = select_rule parse shown rs f (policy_limitations b)"
  by (induction rs) (simp_all add: rule_matches_assistant [of _ _ _ _ a b] cong: if_cong)

lemma decide_error_assistant:
  "decide parse shown fmt4 e f a dry_run now = Inl err \<Longrightarrow> decide parse shown fmt4 e f b dry_run now = Inl err"
  unfolding decide_def Let_def select_rule_assistant [of _ _ _ _ a b] bind_exc_Inl split_beta by blast

lemma advisory_none [simp]: "advisory_check r None = None"
  by (simp add: advisory_check_def)

section \<open>Properties\<close>

text \<open>A policy document that is accepted yields a sound rule set: at least one rule, ordered by falling
  priority and then by id, every rule with a non-blank id and a proposed action that is not blank and
  contains none of the dangerous terms in any letter case.\<close>

theorem accepted_documents_are_sound:
  assumes "from_document document dry_run = Inr e"
  shows "pe_policies e \<noteq> [] \<and> sorted (map rule_key (pe_policies e)) \<and> list_all rule_ok (pe_policies e) \<and> pe_dry_run e = dry_run"
proof -
  obtain raws rules where rules: "parse_rules raws = Inr rules" "new_engine rules dry_run = Inr e"
    using assms by (auto simp: from_document_def bind_exc_Inr split: pyobj.splits if_splits)
  then have e: "e = \<lparr>pe_policies = sort_key rule_key rules, pe_dry_run = dry_run\<rparr>" "sort_key rule_key rules \<noteq> []"
    by (simp_all add: new_engine_def Let_def split: if_splits)
  then show ?thesis using parse_rules_ok [OF rules(1)] by (simp add: list_all_iff)
qed

definition demo_policy :: "string \<Rightarrow> int \<Rightarrow> doc" where
  "demo_policy i n = PDict [(''policy_id'', PStr i), (''match'', PDict [(''severity'', PList [PStr ''HIGH''])]),
     (''decision'', PStr ''LOG''), (''required_approval'', PBool False), (''proposed_action'', PStr ''Review.''),
     (''priority'', PInt n)]"

definition demo_rule :: "string \<Rightarrow> int \<Rightarrow> policy_rule" where
  "demo_rule i n = \<lparr>pr_policy_id = i, pr_priority = n,
     pr_match = \<lparr>pm_severity = Some [''HIGH''], pm_min_risk_score = None, pm_max_risk_score = None,
       pm_detection_type = None, pm_required_rule_ids = [], pm_telemetry_complete = None\<rparr>,
     pr_decision = LOG, pr_required_approval = False, pr_proposed_action = ''Review.'', pr_keywords = []\<rparr>"

lemma demo_document:
  "from_document (PDict [(''version'', PInt 1), (''policies'', PList [demo_policy ''a'' 1, demo_policy ''b'' 2])]) True =
    Inr \<lparr>pe_policies = [demo_rule ''b'' 2, demo_rule ''a'' 1], pe_dry_run = True\<rparr>"
  by code_simp

theorem accepted_documents_are_sound_witness:
  "let e = \<lparr>pe_policies = [demo_rule ''b'' 2, demo_rule ''a'' 1], pe_dry_run = True\<rparr> in
   pe_policies e \<noteq> [] \<and> sorted (map rule_key (pe_policies e)) \<and> list_all rule_ok (pe_policies e) \<and> pe_dry_run e = True"
  unfolding Let_def by (rule accepted_documents_are_sound [OF demo_document])

text \<open>Evaluation fails closed. It either returns a decision with a score in [0, 1], which is a required human
  review under \<open>policy.fail_closed\<close> whenever evaluating the rules raised, or it raises AttributeError, and that
  only for evidence that holds something other than dictionaries where \<open>.get\<close> is called.\<close>

theorem evaluation_fails_closed:
  shows "case evaluate parse shown fmt4 e f assistant dry_run now of
      Inl err \<Rightarrow> err = Raised (Attribute_Error ''get'') \<and> \<not> evidence_ok f
    | Inr res \<Rightarrow> 0 \<le> po_risk_score res \<and> po_risk_score res \<le> 1 \<and>
        (case decide parse shown fmt4 e f assistant dry_run now of
           Inl _ \<Rightarrow> po_decision res = REVIEW_REQUIRED \<and> po_required_approval res \<and> po_policy_id res = ''policy.fail_closed''
         | Inr _ \<Rightarrow> True)"
proof (cases "decide parse shown fmt4 e f assistant dry_run now")
  case (Inl err)
  have score: "0 \<le> po_risk_score (fail_closed parse shown err f now) \<and> po_risk_score (fail_closed parse shown err f now) \<le> 1"
    by (auto simp: fail_closed_def Let_def split: sum.split)
  show ?thesis
  proof (cases "caught err")
    case True
    then show ?thesis using Inl score by (simp add: evaluate_def) (simp add: fail_closed_def Let_def)
  next
    case False
    then show ?thesis using Inl decide_Inl [OF Inl] by (simp add: evaluate_def escapes_def)
  qed
next
  case (Inr res)
  obtain sel where "validate_finding parse f = Inr ()" "to_float parse (dget f ''risk_score'') = Inr (po_risk_score res)"
    using decide_Inr [OF Inr] by blast
  then show ?thesis using validate_score [of parse f "()"] Inr by (simp add: evaluate_def)
qed

text \<open>The order of the policies in the document has no influence: two rule lists with the same rules and
  distinct (priority, id) keys give the same engine, hence the same decision on every finding.\<close>

theorem policy_order_irrelevant:
  assumes "mset rules = mset rules'" and "distinct (map rule_key rules)"
  shows "new_engine rules dry_run = new_engine rules' dry_run"
proof -
  have "distinct (map rule_key rules')"
    using assms by (metis mset_map mset_eq_imp_distinct_iff)
  moreover have "inj_on rule_key (set rules \<union> set rules')"
    using assms by (metis distinct_map mset_eq_setD sup.idem)
  ultimately have "sort_key rule_key rules = sort_key rule_key rules'"
    using assms by (intro map_sorted_distinct_set_unique [of rule_key])
      (simp_all add: distinct_map mset_eq_setD [OF assms(1)])
  then show ?thesis by (simp add: new_engine_def)
qed

theorem policy_order_irrelevant_witness:
  "new_engine [demo_rule ''a'' 1, demo_rule ''b'' 2] True = new_engine [demo_rule ''b'' 2, demo_rule ''a'' 1] True"
  by (rule policy_order_irrelevant) (simp_all add: rule_key_def demo_rule_def)

text \<open>C12: the assistant is advisory only. With or without its response the same rule is applied to the same
  score and severity, errors are the same, a required approval stays required, and the only
  decisions it can bring about are human review and, in dry-run mode, the dry-run record.\<close>

theorem assistant_is_advisory:
  shows "case (evaluate parse shown fmt4 e f (Some response) dry_run now, evaluate parse shown fmt4 e f None dry_run now) of
      (Inr res, Inr base) \<Rightarrow> po_policy_id res = po_policy_id base \<and> po_risk_score res = po_risk_score base \<and>
        po_severity res = po_severity base \<and> (if po_required_approval base then po_required_approval res else True) \<and>
        po_decision res \<in> {po_decision base, REVIEW_REQUIRED, DRY_RUN}
    | (Inl x, Inl y) \<Rightarrow> x = y
    | _ \<Rightarrow> False"
proof (cases "decide parse shown fmt4 e f (Some response) dry_run now")
  case (Inl err)
  with decide_error_assistant [OF Inl, of None] show ?thesis by (simp add: evaluate_def fail_closed_def)
next
  case (Inr res)
  obtain base where base: "decide parse shown fmt4 e f None dry_run now = Inr base"
    using decide_error_assistant [of parse shown fmt4 e f None dry_run now _ "Some response"] Inr
    by (cases "decide parse shown fmt4 e f None dry_run now") auto
  obtain sel where sel: "select_rule parse shown (pe_policies e) f (policy_limitations (Some response)) = Inr sel"
    and r: "to_float parse (dget f ''risk_score'') = Inr (po_risk_score res)" "po_severity res = finding_severity shown f"
      "po_policy_id res = (case sel of None \<Rightarrow> ''policy.fail_closed'' | Some r \<Rightarrow> pr_policy_id r)"
      "po_required_approval res =
        (case sel of None \<Rightarrow> True | Some r \<Rightarrow> pr_required_approval r \<or> advisory_check r (Some response) \<noteq> None)"
      "po_decision res = final_decision (effective_dry_run e dry_run) (Some response) sel"
    using decide_Inr [OF Inr] by blast
  obtain sel' where sel': "select_rule parse shown (pe_policies e) f (policy_limitations None) = Inr sel'"
    and b: "to_float parse (dget f ''risk_score'') = Inr (po_risk_score base)" "po_severity base = finding_severity shown f"
      "po_policy_id base = (case sel' of None \<Rightarrow> ''policy.fail_closed'' | Some r \<Rightarrow> pr_policy_id r)"
      "po_required_approval base =
        (case sel' of None \<Rightarrow> True | Some r \<Rightarrow> pr_required_approval r \<or> advisory_check r None \<noteq> None)"
      "po_decision base = final_decision (effective_dry_run e dry_run) None sel'"
    using decide_Inr [OF base] by blast
  have "sel' = sel" using sel sel' select_rule_assistant [of parse shown "pe_policies e" f "Some response" None] by simp
  then show ?thesis
    using Inr base r b by (simp add: evaluate_def final_decision_def Let_def split: option.splits)
qed

text \<open>A rule that asks for complete telemetry can never be selected, whatever the finding and the assistant
  say: the limitations it requires to be empty always have one entry.\<close>

theorem telemetry_complete_never_matches:
  assumes "pm_telemetry_complete (pr_match r) = Some (PBool True)"
  shows "rule_matches parse shown r f (policy_limitations assistant) \<noteq> Inr True"
  using assms by (auto simp: rule_matches_def Let_def bind_exc_def split: sum.splits if_splits)

theorem telemetry_complete_never_matches_witness:
  "rule_matches (\<lambda>_. None) (\<lambda>_. []) ((demo_rule ''a'' 1)\<lparr>pr_match := (pr_match (demo_rule ''a'' 1))\<lparr>pm_telemetry_complete := Some (PBool True)\<rparr>\<rparr>)
     [(''severity'', PStr ''high''), (''evidence'', PList [])] (policy_limitations None) \<noteq> Inr True"
  by (rule telemetry_complete_never_matches) simp

end
