(* ===== verification/Live_Ingestion.thy ===== *)
theory Live_Ingestion
  imports Event_Store
begin

text \<open>
  The ingestion service of \<^verbatim>\<open>pipeline/live_ingestion.py\<close>: a producer thread, a bounded queue and a
  consumer thread over the event store. Each action of a thread between two points where the other can
  run is one step; a run is a sequence of steps, which fixes the interleaving, the outcome of every
  call that can fail and the clock. Normalisation and the event hash are parameters.
\<close>

section \<open>State\<close>

text \<open>
  What \<open>int(record["lost_events"])\<close> gives: a number, a KeyError, TypeError or ValueError, or the
  OverflowError of an infinite float (\<open>json.loads\<close> reads \<open>Infinity\<close>).
\<close>

datatype loss_count = Lost int | Unreadable | Infinite

text \<open>A record of the source: not a JSON object, a kernel-loss report, or telemetry.\<close>

datatype 'r raw_input = Undecodable | Loss_Report loss_count | Telemetry 'r

datatype ingest_status = St_Unknown | St_Running | St_Stopping | St_Stopped | St_Failed

record ingest_health =
  ih_status :: ingest_status
  ih_processed :: nat
  ih_malformed :: nat
  ih_dropped :: nat
  ih_duplicates :: nat
  ih_wait_count :: nat
  ih_wait_seconds :: rat
  ih_first_drop :: "rat option"
  ih_last_drop :: "rat option"
  ih_kernel_lost :: int
  ih_first_kernel_loss :: "rat option"
  ih_last_kernel_loss :: "rat option"
  ih_quarantined_batches :: nat
  ih_quarantined_events :: nat
  ih_last_event :: "rat option"

definition new_health :: ingest_health where
  "new_health = \<lparr>ih_status = St_Running, ih_processed = 0, ih_malformed = 0, ih_dropped = 0, ih_duplicates = 0,
     ih_wait_count = 0, ih_wait_seconds = 0, ih_first_drop = None, ih_last_drop = None, ih_kernel_lost = 0,
     ih_first_kernel_loss = None, ih_last_kernel_loss = None, ih_quarantined_batches = 0,
     ih_quarantined_events = 0, ih_last_event = None\<rparr>"

datatype 'r producer = Reading | Waiting 'r | Ending | Closing | Producer_Done

datatype consumer = Polling | Empty_Seen | Consumer_Done

record 'r ingest_config =
  ic_normalize :: "'r \<Rightarrow> event_in option"
  ic_hash :: "string \<Rightarrow> rat \<Rightarrow> row \<Rightarrow> string"
  ic_queue_size :: nat
  ic_batch_size :: nat
  ic_analysis :: bool
  ic_quarantine :: bool

text \<open>
  The queue holds items and, as None, the sentinel. \<open>in_taken\<close> and \<open>in_reports\<close> are history: records
  the producer has read, and the loss reports among them that were counted or that ended it. \<open>in_analysed\<close> and \<open>in_aside\<close> list the batches given to
  the analysis and stored by the quarantine.
\<close>

record 'r ingest =
  in_source :: "'r raw_input list"
  in_stop :: bool
  in_producer_done :: bool
  in_producer :: "'r producer"
  in_consumer :: consumer
  in_queue :: "'r option list"
  in_high_water :: nat
  in_pending :: "event_in list"
  in_batch :: "event_in list"
  in_table :: event_table
  in_analysed :: "event_in list list"
  in_aside :: "event_in list list"
  in_health :: ingest_health
  in_taken :: nat
  in_reports :: nat

definition start_ingest :: "'r raw_input list \<Rightarrow> event_table \<Rightarrow> 'r ingest" where
  "start_ingest source table =
     \<lparr>in_source = source, in_stop = False, in_producer_done = False, in_producer = Reading, in_consumer = Polling,
      in_queue = [], in_high_water = 0, in_pending = [], in_batch = [], in_table = table, in_analysed = [],
      in_aside = [], in_health = new_health, in_taken = 0, in_reports = 0\<rparr>"

definition on_health :: "(ingest_health \<Rightarrow> ingest_health) \<Rightarrow> 'r ingest \<Rightarrow> 'r ingest" where
  "on_health f s = s\<lparr>in_health := f (in_health s)\<rparr>"

definition set_error :: "ingest_health \<Rightarrow> ingest_health" where
  "set_error h = h\<lparr>ih_status := St_Failed\<rparr>"

section \<open>The producer\<close>

definition count_malformed :: "ingest_health \<Rightarrow> ingest_health" where
  "count_malformed h = h\<lparr>ih_malformed := ih_malformed h + 1\<rparr>"

text \<open>An OverflowError is not among the exceptions the source catches: it ends the producer's loop.\<close>

definition record_kernel_loss :: "rat \<Rightarrow> loss_count \<Rightarrow> 'r ingest \<Rightarrow> 'r ingest" where
  "record_kernel_loss now lost s =
     (case lost of
        Unreadable \<Rightarrow> on_health count_malformed s
      | Infinite \<Rightarrow> on_health set_error (s\<lparr>in_producer := Ending, in_reports := in_reports s + 1\<rparr>)
      | Lost n \<Rightarrow>
          if n \<le> 0 then on_health count_malformed s
          else on_health (\<lambda>h. h\<lparr>ih_kernel_lost := ih_kernel_lost h + n,
                 ih_first_kernel_loss := (case ih_first_kernel_loss h of None \<Rightarrow> Some now | Some t \<Rightarrow> Some t),
                 ih_last_kernel_loss := Some now\<rparr>) (s\<lparr>in_reports := in_reports s + 1\<rparr>))"

definition queue_full :: "'r ingest_config \<Rightarrow> 'r ingest \<Rightarrow> bool" where
  "queue_full cfg s \<longleftrightarrow> ic_queue_size cfg \<le> length (in_queue s)"

definition put_queue :: "'r option \<Rightarrow> 'r ingest \<Rightarrow> 'r ingest" where
  "put_queue x s = s\<lparr>in_queue := in_queue s @ [x]\<rparr>"

definition observe_depth :: "'r ingest \<Rightarrow> 'r ingest" where
  "observe_depth s = s\<lparr>in_high_water := max (in_high_water s) (length (in_queue s))\<rparr>"

text \<open>Which loss counts are logged.\<close>

fun is_order_of_magnitude :: "nat \<Rightarrow> bool" where
  "is_order_of_magnitude n =
     (if 1 < n \<and> n mod 10 = 0 then is_order_of_magnitude (n div 10) else n = 1)"

declare is_order_of_magnitude.simps [simp del]

text \<open>\<open>len(str(n))\<close>, 0 for zero.\<close>

fun decimal_magnitude :: "nat \<Rightarrow> nat" where
  "decimal_magnitude n = (if n = 0 then 0 else decimal_magnitude (n div 10) + 1)"

declare decimal_magnitude.simps [simp del]

definition crossed_order_of_magnitude :: "nat \<Rightarrow> nat \<Rightarrow> bool" where
  "crossed_order_of_magnitude before after \<longleftrightarrow> decimal_magnitude before < decimal_magnitude after"

text \<open>The fast path of \<open>_enqueue\<close>: a full queue starts the bounded wait.\<close>

definition enqueue :: "'r ingest_config \<Rightarrow> 'r \<Rightarrow> 'r ingest \<Rightarrow> 'r ingest" where
  "enqueue cfg r s =
     (if queue_full cfg s then s\<lparr>in_producer := Waiting r\<rparr> else observe_depth (put_queue (Some r) s))"

definition record_drop :: "rat \<Rightarrow> rat \<Rightarrow> 'r ingest \<Rightarrow> 'r ingest" where
  "record_drop now waited s =
     on_health (\<lambda>h. h\<lparr>ih_wait_count := ih_wait_count h + 1, ih_wait_seconds := ih_wait_seconds h + waited,
        ih_dropped := ih_dropped h + 1,
        ih_first_drop := (case ih_first_drop h of None \<Rightarrow> Some now | Some t \<Rightarrow> Some t),
        ih_last_drop := Some now\<rparr>) s"

text \<open>One record of \<open>_produce\<close>, after the stop test.\<close>

definition take_record :: "'r ingest_config \<Rightarrow> rat \<Rightarrow> 'r raw_input \<Rightarrow> 'r ingest \<Rightarrow> 'r ingest" where
  "take_record cfg now raw s =
     (let s = s\<lparr>in_taken := in_taken s + 1\<rparr> in
      case raw of
        Undecodable \<Rightarrow> on_health count_malformed s
      | Loss_Report lost \<Rightarrow> record_kernel_loss now lost s
      | Telemetry r \<Rightarrow> enqueue cfg r s)"

section \<open>The consumer\<close>

definition accepted :: "(string \<Rightarrow> rat \<Rightarrow> row \<Rightarrow> string) \<Rightarrow> event_in \<Rightarrow> bool" where
  "accepted hash e \<longleftrightarrow> (case event_row hash e of Inl _ \<Rightarrow> False | Inr _ \<Rightarrow> True)"

definition quarantine_batch :: "'r ingest_config \<Rightarrow> bool \<Rightarrow> event_in list \<Rightarrow> 'r ingest \<Rightarrow> 'r ingest" where
  "quarantine_batch cfg stored events s =
     on_health (\<lambda>h. h\<lparr>ih_quarantined_batches := ih_quarantined_batches h + 1,
        ih_quarantined_events := ih_quarantined_events h + length events\<rparr>)
       (if ic_quarantine cfg \<and> stored then s\<lparr>in_aside := in_aside s @ [events]\<rparr> else s)"

text \<open>
  The outcomes a step meets: whether the write transaction commits, whether the quarantine (if any)
  stores, whether the analysis returns, whether the health row can be written.
\<close>

record outcomes =
  oc_write :: bool
  oc_stored :: bool
  oc_analysis :: bool
  oc_health :: bool

definition flush :: "'r ingest_config \<Rightarrow> outcomes \<Rightarrow> 'r ingest \<Rightarrow> 'r ingest" where
  "flush cfg oc s =
     (if in_pending s = [] then s
      else if \<not> oc_write oc then (quarantine_batch cfg (oc_stored oc) (in_pending s) s)\<lparr>in_pending := []\<rparr>
      else let (res, table) = write_events (ic_hash cfg) (map Some (in_pending s)) (in_table s);
               s = on_health (\<lambda>h. h\<lparr>ih_processed := ih_processed h + (br_inserted res + br_duplicates res),
                     ih_duplicates := ih_duplicates h + br_duplicates res,
                     ih_malformed := ih_malformed h + length (br_rejected res),
                     ih_last_event := in_timestamp (last (in_pending s))\<rparr>) s
           in s\<lparr>in_table := table, in_batch := in_batch s @ filter (accepted (ic_hash cfg)) (in_pending s), in_pending := []\<rparr>)"

definition process_batch :: "'r ingest_config \<Rightarrow> outcomes \<Rightarrow> 'r ingest \<Rightarrow> 'r ingest" where
  "process_batch cfg oc s =
     (if \<not> ic_analysis cfg \<or> in_batch s = [] then s
      else let s = s\<lparr>in_analysed := in_analysed s @ [in_batch s]\<rparr>
           in if oc_analysis oc then s else on_health set_error s)"

definition maybe_analyse :: "'r ingest_config \<Rightarrow> outcomes \<Rightarrow> 'r ingest \<Rightarrow> 'r ingest" where
  "maybe_analyse cfg oc s =
     (if length (in_batch s) < ic_batch_size cfg then s else (process_batch cfg oc s)\<lparr>in_batch := []\<rparr>)"

text \<open>The \<open>finally\<close> block, after a clean end or an exception that left the loop.\<close>

definition finish :: "'r ingest \<Rightarrow> 'r ingest" where
  "finish s = on_health (\<lambda>h. if ih_status h \<noteq> St_Failed then h\<lparr>ih_status := St_Stopped\<rparr> else h) (s\<lparr>in_consumer := Consumer_Done\<rparr>)"

definition leave_loop :: "'r ingest_config \<Rightarrow> outcomes \<Rightarrow> 'r ingest \<Rightarrow> 'r ingest" where
  "leave_loop cfg oc s = finish (process_batch cfg oc (flush cfg oc s))"

text \<open>\<open>_persist_health\<close> at the end of a pass: an exception there ends the consumer.\<close>

definition persist_health :: "outcomes \<Rightarrow> 'r ingest \<Rightarrow> 'r ingest" where
  "persist_health oc s = (if oc_health oc then s\<lparr>in_consumer := Polling\<rparr> else finish (on_health set_error s))"

definition consume_item :: "'r ingest_config \<Rightarrow> outcomes \<Rightarrow> 'r \<Rightarrow> 'r ingest \<Rightarrow> 'r ingest" where
  "consume_item cfg oc r s =
     (case ic_normalize cfg r of
        None \<Rightarrow> on_health count_malformed s
      | Some e \<Rightarrow>
          let s = s\<lparr>in_pending := in_pending s @ [e]\<rparr>;
              s = (if ic_batch_size cfg \<le> length (in_pending s) then maybe_analyse cfg oc (flush cfg oc s) else s)
          in persist_health oc s)"

section \<open>Steps\<close>

datatype step =
    Take rat
  | Source_Ends
  | Source_Raises
  | Put_Waited rat
  | Give_Up rat rat
  | Signal_Done
  | Put_Sentinel
  | Abandon_Sentinel
  | Get outcomes
  | Get_Times_Out
  | After_Timeout outcomes
  | Stop nat

definition stop_health :: "ingest_health \<Rightarrow> ingest_health" where
  "stop_health h = (if ih_status h \<in> {St_Stopped, St_Failed, St_Unknown} then h else h\<lparr>ih_status := St_Stopping\<rparr>)"

text \<open>
  A step is None where the thread is not at that point. \<open>Source_Ends\<close> is the end of the iteration: the
  source is exhausted, or the stop flag is seen, which discards the record just read. \<open>Stop n\<close> closes
  the source, which still yields \<open>n\<close> records.
\<close>

fun ingest_step :: "'r ingest_config \<Rightarrow> step \<Rightarrow> 'r ingest \<Rightarrow> 'r ingest option" where
  "ingest_step cfg (Take now) s =
     (case (in_producer s, in_source s) of
        (Reading, raw # rest) \<Rightarrow> if in_stop s then None else Some (take_record cfg now raw (s\<lparr>in_source := rest\<rparr>))
      | _ \<Rightarrow> None)"
| "ingest_step cfg Source_Ends s =
     (if in_producer s = Reading \<and> (in_source s = [] \<or> in_stop s)
      then Some (s\<lparr>in_source := tl (in_source s), in_producer := Ending\<rparr>) else None)"
| "ingest_step cfg Source_Raises s =
     (if in_producer s = Reading then Some (on_health set_error (s\<lparr>in_producer := Ending\<rparr>)) else None)"
| "ingest_step cfg (Put_Waited waited) s =
     (case in_producer s of
        Waiting r \<Rightarrow>
          if queue_full cfg s then None
          else Some (observe_depth (on_health (\<lambda>h. h\<lparr>ih_wait_count := ih_wait_count h + 1, ih_wait_seconds := ih_wait_seconds h + waited\<rparr>)
                 (put_queue (Some r) (s\<lparr>in_producer := Reading\<rparr>))))
      | _ \<Rightarrow> None)"
| "ingest_step cfg (Give_Up now waited) s =
     (case in_producer s of
        Waiting r \<Rightarrow> Some (record_drop now waited (s\<lparr>in_producer := Reading\<rparr>))
      | _ \<Rightarrow> None)"
| "ingest_step cfg Signal_Done s =
     (if in_producer s = Ending then Some (s\<lparr>in_producer_done := True, in_producer := Closing\<rparr>) else None)"
| "ingest_step cfg Put_Sentinel s =
     (if in_producer s = Closing \<and> \<not> queue_full cfg s then Some (put_queue None (s\<lparr>in_producer := Producer_Done\<rparr>)) else None)"
| "ingest_step cfg Abandon_Sentinel s =
     (if in_producer s = Closing \<and> queue_full cfg s \<and> in_consumer s = Consumer_Done
      then Some (s\<lparr>in_producer := Producer_Done\<rparr>) else None)"
| "ingest_step cfg (Get oc) s =
     (case (in_consumer s, in_queue s) of
        (Polling, None # rest) \<Rightarrow> Some (leave_loop cfg oc (s\<lparr>in_queue := rest\<rparr>))
      | (Polling, Some r # rest) \<Rightarrow> Some (consume_item cfg oc r (s\<lparr>in_queue := rest\<rparr>))
      | _ \<Rightarrow> None)"
| "ingest_step cfg Get_Times_Out s =
     (if in_consumer s = Polling \<and> in_queue s = [] then Some (s\<lparr>in_consumer := Empty_Seen\<rparr>) else None)"
| "ingest_step cfg (After_Timeout oc) s =
     (if in_consumer s = Empty_Seen
      then Some (if in_producer_done s then leave_loop cfg oc s
                 else persist_health oc (maybe_analyse cfg oc (flush cfg oc s)))
      else None)"
| "ingest_step cfg (Stop n) s =
     Some (on_health stop_health (s\<lparr>in_stop := True, in_source := take n (in_source s)\<rparr>))"

fun ingest_run :: "'r ingest_config \<Rightarrow> step list \<Rightarrow> 'r ingest \<Rightarrow> 'r ingest option" where
  "ingest_run cfg [] s = Some s"
| "ingest_run cfg (l # ls) s = (case ingest_step cfg l s of None \<Rightarrow> None | Some s' \<Rightarrow> ingest_run cfg ls s')"

inductive ingest_reachable :: "'r ingest_config \<Rightarrow> 'r ingest \<Rightarrow> bool" for cfg :: "'r ingest_config" where
  ingest_init: "ingest_reachable cfg (start_ingest source table)"
| ingest_next: "ingest_reachable cfg s \<Longrightarrow> ingest_step cfg l s = Some s' \<Longrightarrow> ingest_reachable cfg s'"

end
