(* ===== verification/Ingestion_Accounting.thy ===== *)
theory Ingestion_Accounting
  imports Live_Ingestion
begin

text \<open>
  What the ingestion service accounts for: every record it has taken is counted or still held, the
  queue and the batches stay within their sizes, an analysed event is in the database, a shutdown
  ends, and it leaves nothing behind when the consumer gets the sentinel.
\<close>

section \<open>Conservation\<close>

definition queued :: "'r ingest \<Rightarrow> nat" where
  "queued s = length (filter (\<lambda>x. x \<noteq> None) (in_queue s))"

definition waiting :: "'r producer \<Rightarrow> nat" where
  "waiting p = (case p of Waiting _ \<Rightarrow> 1 | _ \<Rightarrow> 0)"

text \<open>Records that have a counter, and records that are in some thread's hands.\<close>

definition counted :: "'r ingest \<Rightarrow> nat" where
  "counted s = ih_malformed (in_health s) + ih_dropped (in_health s) + ih_processed (in_health s) +
     ih_quarantined_events (in_health s) + in_reports s"

definition held :: "'r ingest \<Rightarrow> nat" where
  "held s = queued s + waiting (in_producer s) + length (in_pending s)"

definition balanced :: "'r ingest \<Rightarrow> bool" where
  "balanced s \<longleftrightarrow> in_taken s = counted s + held s"

named_theorems ingest_defs
declare on_health_def [ingest_defs] count_malformed_def [ingest_defs] set_error_def [ingest_defs]
  put_queue_def [ingest_defs] observe_depth_def [ingest_defs] record_drop_def [ingest_defs]
  record_kernel_loss_def [ingest_defs] enqueue_def [ingest_defs] take_record_def [ingest_defs]
  quarantine_batch_def [ingest_defs] process_batch_def [ingest_defs] maybe_analyse_def [ingest_defs]
  finish_def [ingest_defs] persist_health_def [ingest_defs] stop_health_def [ingest_defs]

named_theorems balance_defs
declare balanced_def [balance_defs] counted_def [balance_defs] held_def [balance_defs]
  queued_def [balance_defs] waiting_def [balance_defs]

lemma written_counts:
  assumes "write_events hash (map Some es) t = (res, t')"
  shows "br_inserted res + br_duplicates res + length (br_rejected res) = length es"
proof -
  have "length (et_events (fold insert_or_ignore (fst (encode_batch hash (map Some es))) t)) - length (et_events t)
      \<le> length (fst (encode_batch hash (map Some es)))"
    using fold_grows [of t "fst (encode_batch hash (map Some es))"] by linarith
  with assms encode_lengths [of hash "map Some es"] show ?thesis
    by (auto simp: write_events_def Let_def split_beta)
qed

lemma balanced_flush: "balanced s \<Longrightarrow> balanced (flush cfg oc s)"
  by (auto simp: flush_def balance_defs ingest_defs split: prod.splits dest!: written_counts)

lemma flush_frame [simp]:
  "in_producer (flush cfg oc s) = in_producer s" "in_queue (flush cfg oc s) = in_queue s"
  "in_consumer (flush cfg oc s) = in_consumer s" "in_producer_done (flush cfg oc s) = in_producer_done s"
  "in_high_water (flush cfg oc s) = in_high_water s" "in_pending (flush cfg oc s) = []"
  "in_stop (flush cfg oc s) = in_stop s"
  by (auto simp: flush_def ingest_defs split: prod.splits)

lemma balanced_analyse:
  "balanced (process_batch cfg oc s) \<longleftrightarrow> balanced s" "balanced (maybe_analyse cfg oc s) \<longleftrightarrow> balanced s"
  by (simp_all add: balance_defs ingest_defs Let_def)

lemma balanced_end:
  "balanced (finish s) \<longleftrightarrow> balanced s" "balanced (persist_health oc s) \<longleftrightarrow> balanced s"
  by (simp_all add: balance_defs ingest_defs)

lemma balanced_leave: "balanced s \<Longrightarrow> balanced (leave_loop cfg oc s)"
  by (simp add: leave_loop_def balanced_end balanced_analyse balanced_flush)

lemma balanced_take:
  "in_producer s = Reading \<Longrightarrow> balanced s \<Longrightarrow> balanced (take_record cfg now raw s)"
  by (cases raw) (auto simp: balance_defs ingest_defs Let_def split: loss_count.splits option.splits)

lemma balanced_item:
  assumes "balanced s" and "in_queue s = Some r # rest"
  shows "balanced (consume_item cfg oc r (s\<lparr>in_queue := rest\<rparr>))"
proof (cases "ic_normalize cfg r")
  case None
  with assms show ?thesis by (simp add: consume_item_def balance_defs ingest_defs)
next
  case (Some e)
  have "balanced (s\<lparr>in_queue := rest, in_pending := in_pending s @ [e]\<rparr>)"
    using assms by (simp add: balance_defs)
  with Some show ?thesis
    by (simp add: consume_item_def Let_def balanced_end balanced_analyse balanced_flush)
qed

lemma balanced_frame:
  "balanced (s\<lparr>in_source := xs\<rparr>) \<longleftrightarrow> balanced s"
  "in_queue s = None # rest \<Longrightarrow> balanced (s\<lparr>in_queue := rest\<rparr>) \<longleftrightarrow> balanced s"
  by (simp_all add: balance_defs)

lemma balanced_step: "balanced s \<Longrightarrow> ingest_step cfg l s = Some s' \<Longrightarrow> balanced s'"
proof (induction cfg l s rule: ingest_step.induct)
  case (1 cfg now s)
  then show ?case by (auto simp: balanced_frame intro!: balanced_take split: producer.splits list.splits if_splits)
next
  case (9 cfg oc s)
  then show ?case
    by (auto simp: balanced_item balanced_frame intro!: balanced_leave split: consumer.splits list.splits option.splits)
next
  case (11 cfg oc s)
  then show ?case by (auto simp: balanced_leave balanced_end balanced_analyse balanced_flush split: if_splits)
qed (auto simp: balance_defs ingest_defs split: producer.splits if_splits)

lemma balanced_reachable: "ingest_reachable cfg s \<Longrightarrow> balanced s"
proof (induction rule: ingest_reachable.induct)
  case (ingest_init source table)
  show ?case by (simp add: start_ingest_def new_health_def balance_defs)
next
  case (ingest_next s l s')
  then show ?case by (blast intro: balanced_step)
qed

section \<open>Bounds\<close>

definition health_sane :: "ingest_health \<Rightarrow> bool" where
  "health_sane h \<longleftrightarrow> ih_dropped h \<le> ih_wait_count h \<and> (ih_first_drop h = None \<longleftrightarrow> ih_dropped h = 0) \<and>
     0 \<le> ih_kernel_lost h \<and> (ih_first_kernel_loss h = None \<longleftrightarrow> ih_kernel_lost h = 0)"

definition in_bounds :: "'r ingest_config \<Rightarrow> 'r ingest \<Rightarrow> bool" where
  "in_bounds cfg s \<longleftrightarrow> health_sane (in_health s) \<and> length (in_queue s) \<le> ic_queue_size cfg \<and>
     in_high_water s \<le> ic_queue_size cfg \<and> length (in_pending s) < ic_batch_size cfg \<and>
     (if in_consumer s = Consumer_Done then True else length (in_batch s) < ic_batch_size cfg)"

lemma sane_updates [simp]:
  "health_sane (h\<lparr>ih_malformed := a\<rparr>) \<longleftrightarrow> health_sane h" "health_sane (h\<lparr>ih_status := st\<rparr>) \<longleftrightarrow> health_sane h"
  "health_sane h \<Longrightarrow> health_sane (h\<lparr>ih_wait_count := Suc (ih_wait_count h), ih_wait_seconds := w\<rparr>)"
  by (simp_all add: health_sane_def)

lemma sane_drop: "health_sane (in_health s) \<Longrightarrow> health_sane (in_health (record_drop now waited s))"
  by (auto simp: health_sane_def record_drop_def on_health_def split: option.splits)

lemma sane_flush: "health_sane (in_health (flush cfg oc s)) \<longleftrightarrow> health_sane (in_health s)"
  by (auto simp: flush_def health_sane_def ingest_defs split: prod.splits)

lemma sane_frame:
  "health_sane (in_health (process_batch cfg oc s)) \<longleftrightarrow> health_sane (in_health s)"
  "health_sane (in_health (maybe_analyse cfg oc s)) \<longleftrightarrow> health_sane (in_health s)"
  "health_sane (in_health (finish s)) \<longleftrightarrow> health_sane (in_health s)"
  "health_sane (in_health (persist_health oc s)) \<longleftrightarrow> health_sane (in_health s)"
  by (simp_all add: health_sane_def ingest_defs Let_def)

lemma analyse_frame [simp]:
  "in_queue (process_batch cfg oc s) = in_queue s" "in_queue (maybe_analyse cfg oc s) = in_queue s"
  "in_producer (process_batch cfg oc s) = in_producer s" "in_producer (maybe_analyse cfg oc s) = in_producer s"
  "in_producer_done (process_batch cfg oc s) = in_producer_done s"
  "in_producer_done (maybe_analyse cfg oc s) = in_producer_done s"
  "in_pending (process_batch cfg oc s) = in_pending s" "in_pending (maybe_analyse cfg oc s) = in_pending s"
  "in_high_water (process_batch cfg oc s) = in_high_water s"
  "in_high_water (maybe_analyse cfg oc s) = in_high_water s"
  "in_consumer (process_batch cfg oc s) = in_consumer s" "in_consumer (maybe_analyse cfg oc s) = in_consumer s"
  by (simp_all add: ingest_defs Let_def)

lemma end_frame [simp]:
  "in_queue (finish s) = in_queue s" "in_queue (persist_health oc s) = in_queue s"
  "in_producer (finish s) = in_producer s" "in_producer (persist_health oc s) = in_producer s"
  "in_producer_done (finish s) = in_producer_done s" "in_producer_done (persist_health oc s) = in_producer_done s"
  "in_pending (finish s) = in_pending s" "in_pending (persist_health oc s) = in_pending s"
  "in_high_water (finish s) = in_high_water s" "in_high_water (persist_health oc s) = in_high_water s"
  "in_batch (finish s) = in_batch s" "in_batch (persist_health oc s) = in_batch s"
  "in_consumer (finish s) = Consumer_Done"
  by (simp_all add: ingest_defs)

lemma analyse_batch: "0 < ic_batch_size cfg \<Longrightarrow> length (in_batch (maybe_analyse cfg oc s)) < ic_batch_size cfg"
  by (simp add: maybe_analyse_def)

lemma leave_frame [simp]:
  "in_queue (leave_loop cfg oc s) = in_queue s" "in_producer (leave_loop cfg oc s) = in_producer s"
  "in_producer_done (leave_loop cfg oc s) = in_producer_done s" "in_pending (leave_loop cfg oc s) = []"
  "in_high_water (leave_loop cfg oc s) = in_high_water s" "in_consumer (leave_loop cfg oc s) = Consumer_Done"
  "health_sane (in_health (leave_loop cfg oc s)) \<longleftrightarrow> health_sane (in_health s)"
  by (simp_all add: leave_loop_def sane_flush sane_frame)

lemma item_frame [simp]:
  "in_queue (consume_item cfg oc r s) = in_queue s" "in_producer (consume_item cfg oc r s) = in_producer s"
  "in_producer_done (consume_item cfg oc r s) = in_producer_done s"
  "in_high_water (consume_item cfg oc r s) = in_high_water s"
  by (simp_all add: consume_item_def Let_def on_health_def split: option.splits)

lemma sane_item: "health_sane (in_health (consume_item cfg oc r s)) \<longleftrightarrow> health_sane (in_health s)"
  by (auto simp: consume_item_def sane_flush sane_frame Let_def split: option.splits)
    (simp_all add: health_sane_def ingest_defs)

lemma in_bounds_item:
  assumes "0 < ic_batch_size cfg" and "in_bounds cfg s" and "in_queue s = Some r # rest" and "in_consumer s = Polling"
  shows "in_bounds cfg (consume_item cfg oc r (s\<lparr>in_queue := rest\<rparr>))"
  using assms analyse_batch [OF assms(1)]
  by (auto simp: in_bounds_def sane_item sane_flush sane_frame consume_item_def Let_def on_health_def count_malformed_def split: option.splits)

lemma in_bounds_take:
  assumes "in_source s = raw # rest" and "in_bounds cfg s"
  shows "in_bounds cfg (take_record cfg now raw (s\<lparr>in_source := rest\<rparr>))"
  using assms by (cases raw) (auto simp: in_bounds_def health_sane_def queue_full_def ingest_defs Let_def
      split: loss_count.splits option.splits)

lemma in_bounds_step:
  "0 < ic_batch_size cfg \<Longrightarrow> in_bounds cfg s \<Longrightarrow> ingest_step cfg l s = Some s' \<Longrightarrow> in_bounds cfg s'"
proof (induction cfg l s rule: ingest_step.induct)
  case (1 cfg now s)
  then show ?case by (auto intro!: in_bounds_take split: producer.splits list.splits if_splits)
next
  case (9 cfg oc s)
  then show ?case
    by (auto simp: in_bounds_item split: consumer.splits list.splits option.splits) (simp add: in_bounds_def)
next
  case (11 cfg oc s)
  then show ?case using analyse_batch [OF 11(1)]
    by (auto simp: in_bounds_def sane_flush sane_frame split: if_splits)
next
  case (5 cfg now waited s)
  then have "health_sane (in_health (record_drop now waited (s\<lparr>in_producer := Reading\<rparr>)))"
    by (intro sane_drop) (simp add: in_bounds_def)
  with 5 show ?case by (auto simp: in_bounds_def record_drop_def on_health_def split: producer.splits)
next
  case (4 cfg waited s)
  then show ?case
    by (auto simp: in_bounds_def observe_depth_def on_health_def put_queue_def queue_full_def split: producer.splits if_splits)
qed (auto simp: in_bounds_def queue_full_def on_health_def put_queue_def set_error_def stop_health_def split: producer.splits if_splits)



section \<open>Analysed events are in the database\<close>

definition stored_in :: "(string \<Rightarrow> rat \<Rightarrow> row \<Rightarrow> string) \<Rightarrow> event_table \<Rightarrow> event_in \<Rightarrow> bool" where
  "stored_in hash t e =
     (case event_row hash e of Inl _ \<Rightarrow> False | Inr row \<Rightarrow> list_ex (\<lambda>x. se_hash x = se_hash (row 0)) (et_events t))"

definition analysis_backed :: "'r ingest_config \<Rightarrow> 'r ingest \<Rightarrow> bool" where
  "analysis_backed cfg s =
     list_all (stored_in (ic_hash cfg) (in_table s)) (concat (in_analysed s) @ in_batch s)"

lemma written_are_stored:
  assumes "write_events hash (map Some es) t = (res, t')"
  shows "e \<in> set es \<Longrightarrow> accepted hash e \<Longrightarrow> stored_in hash t' e" and "stored_in hash t e \<Longrightarrow> stored_in hash t' e"
proof -
  have t': "t' = fold insert_or_ignore (fst (encode_batch hash (map Some es))) t"
    using assms by (auto simp: write_events_def Let_def split_beta)
  show "stored_in hash t' e" if "stored_in hash t e"
    using that fold_hashes [of t "fst (encode_batch hash (map Some es))"] unfolding t'
    by (auto simp: stored_in_def list_ex_iff split: sum.splits) (smt (verit) image_iff subsetD)
  show "stored_in hash t' e" if e: "e \<in> set es" "accepted hash e"
  proof -
    obtain row where row: "event_row hash e = Inr row" using e(2) by (auto simp: accepted_def split: sum.splits)
    have "row \<in> set (fst (encode_batch hash (map Some es)))"
      using e(1) row by (induction es) (auto simp: Let_def split_beta split: sum.splits)
    then have "se_hash (row 0) \<in> set (map se_hash (et_events t'))"
      unfolding t' using fold_has_hash encode_numbered by blast
    with row show ?thesis by (auto simp: stored_in_def list_ex_iff)
  qed
qed

lemma backed_flush: "analysis_backed cfg s \<Longrightarrow> analysis_backed cfg (flush cfg oc s)"
  by (auto simp: flush_def analysis_backed_def ingest_defs list_all_iff dest: written_are_stored split: prod.splits)

lemma backed_frame:
  "analysis_backed cfg s \<Longrightarrow> analysis_backed cfg (process_batch cfg oc s)"
  "analysis_backed cfg s \<Longrightarrow> analysis_backed cfg (maybe_analyse cfg oc s)"
  "analysis_backed cfg (finish s) \<longleftrightarrow> analysis_backed cfg s"
  "analysis_backed cfg (persist_health oc s) \<longleftrightarrow> analysis_backed cfg s"
  by (auto simp: analysis_backed_def ingest_defs Let_def)

lemma backed_updates [simp]:
  "analysis_backed cfg (s\<lparr>in_source := xs\<rparr>) \<longleftrightarrow> analysis_backed cfg s"
  "analysis_backed cfg (s\<lparr>in_queue := q\<rparr>) \<longleftrightarrow> analysis_backed cfg s"
  "analysis_backed cfg (s\<lparr>in_pending := es\<rparr>) \<longleftrightarrow> analysis_backed cfg s"
  "analysis_backed cfg (on_health f s) \<longleftrightarrow> analysis_backed cfg s"
  by (simp_all add: analysis_backed_def on_health_def)

lemma backed_take: "analysis_backed cfg (take_record cfg now raw s) \<longleftrightarrow> analysis_backed cfg s"
  by (cases raw) (auto simp: analysis_backed_def ingest_defs Let_def split: loss_count.splits option.splits)

lemma backed_leave: "analysis_backed cfg s \<Longrightarrow> analysis_backed cfg (leave_loop cfg oc s)"
  by (simp add: leave_loop_def backed_frame backed_flush)

lemma backed_item: "analysis_backed cfg s \<Longrightarrow> analysis_backed cfg (consume_item cfg oc r s)"
  by (auto simp: consume_item_def Let_def backed_frame backed_flush split: option.splits)

lemma backed_step: "analysis_backed cfg s \<Longrightarrow> ingest_step cfg l s = Some s' \<Longrightarrow> analysis_backed cfg s'"
proof (induction cfg l s rule: ingest_step.induct)
  case (1 cfg now s)
  then show ?case by (auto simp: backed_take split: producer.splits list.splits if_splits)
next
  case (9 cfg oc s)
  then show ?case by (auto intro!: backed_leave backed_item split: consumer.splits list.splits option.splits)
next
  case (11 cfg oc s)
  then show ?case by (auto simp: backed_leave backed_frame backed_flush split: if_splits)
qed (auto simp: analysis_backed_def ingest_defs split: producer.splits if_splits)

text \<open>A finding can only cite an event that is in the database. In every state the service can
reach from an empty analysis queue, each event that was given to the analysis, or waits for it, has a
row in the events table: the row written for it or the earlier duplicate with the same hash.\<close>

theorem analysed_events_are_stored:
  assumes "ingest_reachable cfg s"
  shows "list_all (stored_in (ic_hash cfg) (in_table s)) (concat (in_analysed s) @ in_batch s)"
proof -
  have "analysis_backed cfg s" using assms
  proof (induction rule: ingest_reachable.induct)
    case (ingest_init source table)
    show ?case by (simp add: start_ingest_def analysis_backed_def)
  next
    case (ingest_next s l s')
    then show ?case by (blast intro: backed_step)
  qed
  then show ?thesis by (simp only: analysis_backed_def)
qed

section \<open>Shutdown\<close>

text \<open>The sentinel is the last thing in the queue, and the flag is set before it.\<close>

definition closing_ok :: "'r ingest \<Rightarrow> bool" where
  "closing_ok s \<longleftrightarrow> None \<notin> set (butlast (in_queue s)) \<and>
     (None \<in> set (in_queue s) \<longrightarrow> in_producer s = Producer_Done) \<and>
     (in_producer_done s \<longleftrightarrow> in_producer s \<in> {Closing, Producer_Done})"

lemma closing_snoc:
  "None \<notin> set q \<Longrightarrow> None \<notin> set (butlast (q @ [x]))" "None \<notin> set (butlast (x # q)) \<Longrightarrow> None \<notin> set (butlast q)"
  by (simp_all split: if_splits)

lemma closing_step: "closing_ok s \<Longrightarrow> ingest_step cfg l s = Some s' \<Longrightarrow> closing_ok s'"
proof (induction cfg l s rule: ingest_step.induct)
  case (1 cfg now s)
  then obtain raw rest where l: "in_producer s = Reading" "in_source s = raw # rest"
      and s': "s' = take_record cfg now raw (s\<lparr>in_source := rest\<rparr>)"
    by (auto split: producer.splits list.splits if_splits)
  show ?case using 1(1) l unfolding s'
    by (cases raw) (auto simp: closing_ok_def ingest_defs Let_def split: loss_count.splits option.splits)
next
  case (9 cfg oc s)
  then show ?case
    by (auto simp: closing_ok_def dest: closing_snoc(2) split: consumer.splits list.splits option.splits if_splits)
next
  case (11 cfg oc s)
  then show ?case by (auto simp: closing_ok_def split: if_splits)
qed (auto simp: closing_ok_def ingest_defs split: producer.splits if_splits)

lemma closing_reachable: "ingest_reachable cfg s \<Longrightarrow> closing_ok s"
proof (induction rule: ingest_reachable.induct)
  case (ingest_init source table)
  show ?case by (simp add: start_ingest_def closing_ok_def)
next
  case (ingest_next s l s')
  then show ?case by (blast intro: closing_step)
qed

text \<open>A consumer that leaves on the sentinel loses nothing. When it takes the sentinel from the
queue, it ends with an empty queue and no pending event, and every record the producer ever read has
been counted as malformed, dropped, processed, quarantined or a kernel-loss report.\<close>

theorem sentinel_shutdown_is_complete:
  assumes "ingest_reachable cfg s" and "in_queue s = None # rest" and "ingest_step cfg (Get oc) s = Some s'"
  shows "in_consumer s' = Consumer_Done \<and> in_queue s' = [] \<and> in_pending s' = [] \<and> in_taken s' = counted s'"
proof -
  have c: "closing_ok s" by (rule closing_reachable [OF assms(1)])
  then have rest: "rest = []" "in_producer s = Producer_Done"
    using assms(2) by (auto simp: closing_ok_def split: if_splits)
  have s': "s' = leave_loop cfg oc (s\<lparr>in_queue := []\<rparr>)" using assms(2,3) rest by (auto split: consumer.splits)
  have "balanced s'" using assms by (blast intro: balanced_reachable ingest_next)
  then show ?thesis unfolding s' by (simp add: balanced_def held_def queued_def waiting_def rest)
qed

definition is_stop :: "step \<Rightarrow> bool" where
  "is_stop l = (case l of Stop _ \<Rightarrow> True | _ \<Rightarrow> False)"

text \<open>Steps left once the producer has set its flag.\<close>

definition steps_left :: "'r ingest \<Rightarrow> nat" where
  "steps_left s = length (in_queue s) + (if in_producer s = Closing then 2 else 0) +
     (case in_consumer s of Polling \<Rightarrow> 2 | Empty_Seen \<Rightarrow> 1 | Consumer_Done \<Rightarrow> 0)"

lemma item_consumer: "in_consumer s = Polling \<Longrightarrow> in_consumer (consume_item cfg oc r s) \<in> {Polling, Consumer_Done}"
  by (auto simp: consume_item_def Let_def ingest_defs split: option.splits)

lemma closing_progress:
  assumes "closing_ok s" and "in_producer_done s" and "ingest_step cfg l s = Some s'" and "\<not> is_stop l"
  shows "steps_left s' < steps_left s" and "in_producer_done s'"
proof -
  have "in_producer s \<in> {Closing, Producer_Done}" using assms(1,2) by (simp add: closing_ok_def)
  then have "steps_left s' < steps_left s \<and> in_producer_done s'" using assms(2-4)
  proof (induction cfg l s rule: ingest_step.induct)
    case (9 cfg oc s)
    then show ?case using item_consumer [of "s\<lparr>in_queue := tl (in_queue s)\<rparr>" cfg oc]
      by (force simp: steps_left_def split: consumer.splits list.splits option.splits)
  qed (auto simp: steps_left_def is_stop_def on_health_def put_queue_def split: producer.splits if_splits)
  then show "steps_left s' < steps_left s" "in_producer_done s'" by simp_all
qed

lemma run_steps_left:
  "ingest_run cfg ls s = Some s' \<Longrightarrow> closing_ok s \<Longrightarrow> in_producer_done s \<Longrightarrow> \<forall>l \<in> set ls. \<not> is_stop l \<Longrightarrow>
   length ls + steps_left s' \<le> steps_left s \<and> closing_ok s' \<and> in_producer_done s'"
proof (induction ls arbitrary: s)
  case (Cons l ls)
  then obtain m where m: "ingest_step cfg l s = Some m" "ingest_run cfg ls m = Some s'"
    by (auto split: option.splits)
  have c: "closing_ok m" using closing_step [OF Cons.prems(2) m(1)] .
  have p: "steps_left m < steps_left s" "in_producer_done m"
    using closing_progress [OF Cons.prems(2,3) m(1)] Cons.prems(4) by simp_all
  show ?case using Cons.IH [OF m(2) c p(2)] Cons.prems(4) p(1) by simp
qed simp

lemma closing_enabled:
  assumes "closing_ok s" and "in_producer_done s" and "\<not> (in_consumer s = Consumer_Done \<and> in_producer s = Producer_Done)"
  shows "\<exists>l. \<not> is_stop l \<and> ingest_step cfg l s \<noteq> None"
proof -
  have p: "in_producer s \<in> {Closing, Producer_Done}" using assms(1,2) by (simp add: closing_ok_def)
  show ?thesis
  proof (cases "in_consumer s")
    case Polling
    show ?thesis
    proof (cases "in_queue s")
      case Nil
      with Polling show ?thesis by (intro exI [of _ Get_Times_Out]) (simp add: is_stop_def)
    next
      case (Cons x q)
      with Polling show ?thesis
        by (intro exI [of _ "Get \<lparr>oc_write = True, oc_stored = True, oc_analysis = True, oc_health = True\<rparr>"])
          (cases x; simp add: is_stop_def)
    qed
  next
    case Empty_Seen
    then show ?thesis
      by (intro exI [of _ "After_Timeout \<lparr>oc_write = True, oc_stored = True, oc_analysis = True, oc_health = True\<rparr>"])
        (simp add: is_stop_def)
  next
    case Consumer_Done
    with p assms(3) show ?thesis
      by (intro exI [of _ "if queue_full cfg s then Abandon_Sentinel else Put_Sentinel"]) (auto simp: is_stop_def)
  qed
qed

text \<open>A shutdown ends. Once the producer has set its done flag, every run of the two threads (stop
requests apart) takes at most as many steps as there are queued items, plus four; and as long as one
of the threads is not done, some thread can move: the producer is never left waiting to put its
sentinel into a full queue that nobody empties.\<close>

theorem shutdown_terminates:
  assumes "ingest_reachable cfg s" and "in_producer_done s" and "ingest_run cfg ls s = Some s'"
    and "list_all (\<lambda>l. \<not> is_stop l) ls"
  shows "length ls \<le> length (in_queue s) + 4 \<and>
    ((in_consumer s' = Consumer_Done \<and> in_producer s' = Producer_Done) \<or>
     (\<exists>l. \<not> is_stop l \<and> ingest_step cfg l s' \<noteq> None))"
proof -
  have c: "closing_ok s" by (rule closing_reachable [OF assms(1)])
  have r: "length ls + steps_left s' \<le> steps_left s" "closing_ok s'" "in_producer_done s'"
    using run_steps_left [OF assms(3) c assms(2)] assms(4) by (simp_all add: list_all_iff)
  have "steps_left s \<le> length (in_queue s) + 4" by (simp add: steps_left_def split: consumer.splits)
  with r show ?thesis using closing_enabled [OF r(2,3), of cfg] by auto
qed

section \<open>Loss that no counter shows\<close>

text \<open>C15: A record can be lost without a counter. The consumer finds the queue empty; the producer then
queues the last record, ends and sets its done flag; the consumer looks at the flag and leaves its
loop without looking at the queue again. The service ends with status stopped, nothing malformed,
dropped, processed or quarantined, and the record still in the queue that no thread reads.\<close>

theorem late_record_is_lost:
  assumes "2 \<le> ic_queue_size cfg" and "oc_health oc"
  shows "\<exists>s. ingest_run cfg [Get_Times_Out, Take now, Source_Ends, Signal_Done, After_Timeout oc, Put_Sentinel]
       (start_ingest [Telemetry r] table) = Some s \<and>
     in_consumer s = Consumer_Done \<and> in_producer s = Producer_Done \<and> ih_status (in_health s) = St_Stopped \<and>
     in_queue s = [Some r, None] \<and> in_table s = table \<and> in_taken s = 1 \<and> counted s = 0"
  using assms by (simp add: start_ingest_def new_health_def leave_loop_def flush_def queue_full_def counted_def ingest_defs Let_def)

lemma failed_frame:
  "ih_status (in_health (flush cfg oc s)) = ih_status (in_health s)"
  "ih_status (in_health s) = St_Failed \<Longrightarrow> ih_status (in_health (process_batch cfg oc s)) = St_Failed"
  "ih_status (in_health s) = St_Failed \<Longrightarrow> ih_status (in_health (maybe_analyse cfg oc s)) = St_Failed"
  "ih_status (in_health s) = St_Failed \<Longrightarrow> ih_status (in_health (finish s)) = St_Failed"
  "ih_status (in_health s) = St_Failed \<Longrightarrow> ih_status (in_health (persist_health oc s)) = St_Failed"
  by (auto simp: flush_def ingest_defs Let_def split: prod.splits)

lemma taken_frame:
  "in_taken (flush cfg oc s) = in_taken s" "in_taken (process_batch cfg oc s) = in_taken s"
  "in_taken (maybe_analyse cfg oc s) = in_taken s" "in_taken (finish s) = in_taken s"
  "in_taken (persist_health oc s) = in_taken s"
  by (auto simp: flush_def ingest_defs Let_def split: prod.splits)

lemma failed_item:
  assumes "ih_status (in_health s) = St_Failed"
  shows "ih_status (in_health (consume_item cfg oc r s)) = St_Failed" and "in_taken (consume_item cfg oc r s) = in_taken s"
  using assms by (auto simp: consume_item_def Let_def failed_frame taken_frame on_health_def count_malformed_def split: option.splits)

lemma ended_step:
  "in_producer s \<in> {Ending, Closing, Producer_Done} \<Longrightarrow> ih_status (in_health s) = St_Failed \<Longrightarrow> ingest_step cfg l s = Some s' \<Longrightarrow>
   in_producer s' \<in> {Ending, Closing, Producer_Done} \<and> ih_status (in_health s') = St_Failed \<and> in_taken s' = in_taken s"
proof (induction cfg l s rule: ingest_step.induct)
  case (9 cfg oc s)
  then show ?case
    by (auto simp: leave_loop_def failed_frame taken_frame failed_item split: consumer.splits list.splits option.splits)
next
  case (11 cfg oc s)
  then show ?case by (auto simp: leave_loop_def failed_frame taken_frame split: if_splits)
qed (auto simp: ingest_defs split: producer.splits list.splits if_splits)

lemma ended_run:
  "ingest_run cfg ls s = Some s' \<Longrightarrow> in_producer s \<in> {Ending, Closing, Producer_Done} \<Longrightarrow> ih_status (in_health s) = St_Failed \<Longrightarrow>
   in_taken s' = in_taken s \<and> ih_status (in_health s') = St_Failed"
proof (induction ls arbitrary: s)
  case (Cons l ls)
  then obtain m where m: "ingest_step cfg l s = Some m" "ingest_run cfg ls m = Some s'" by (auto split: option.splits)
  note e = ended_step [OF Cons.prems(2,3) m(1)]
  show ?case using Cons.IH [OF m(2) conjunct1 [OF e] conjunct1 [OF conjunct2 [OF e]]] e by simp
qed simp

text \<open>One loss report ends the collection. A kernel-loss report whose count is an infinite float is
not counted as malformed: the OverflowError leaves the producer's loop, the service is failed for
good, and no later record of the source is ever taken.\<close>

theorem infinite_loss_report_ends_collection:
  assumes "in_source s = Loss_Report Infinite # rest" and "ingest_run cfg (Take now # ls) s = Some s'"
  shows "in_taken s' = in_taken s + 1 \<and> ih_status (in_health s') = St_Failed"
proof -
  obtain m where m: "ingest_step cfg (Take now) s = Some m" "ingest_run cfg ls m = Some s'"
    using assms(2) by (auto split: option.splits)
  have "in_producer m = Ending" "ih_status (in_health m) = St_Failed" "in_taken m = in_taken s + 1"
    using m(1) assms(1) by (auto simp: take_record_def record_kernel_loss_def on_health_def set_error_def split: producer.splits if_splits)
  then show ?thesis using ended_run [OF m(2)] by simp
qed

section \<open>Which losses are logged\<close>

lemma power_ten_div: "n mod 10 = 0 \<Longrightarrow> 1 < n \<Longrightarrow> (\<exists>k. n div 10 = 10 ^ k) \<longleftrightarrow> (\<exists>k. n = (10::nat) ^ k)"
proof
  assume n: "n mod 10 = 0" "1 < n" and "\<exists>k. n div 10 = 10 ^ k"
  then obtain k where "n div 10 = 10 ^ k" by blast
  with n(1) have "n = 10 ^ Suc k" by (metis add.right_neutral mult_div_mod_eq power_Suc)
  then show "\<exists>k. n = 10 ^ k" ..
next
  assume n: "1 < n" and "\<exists>k. n = 10 ^ k"
  then obtain k where k: "n = 10 ^ k" by blast
  with n obtain j where "k = Suc j" by (cases k) auto
  with k show "\<exists>k. n div 10 = 10 ^ k" by auto
qed

text \<open>A drop is logged exactly when the counter reaches a power of ten.\<close>

lemma order_of_magnitude_iff: "is_order_of_magnitude n \<longleftrightarrow> (\<exists>k. n = 10 ^ k)"
proof (induction n rule: is_order_of_magnitude.induct)
  case (1 n)
  show ?case
  proof (cases "1 < n \<and> n mod 10 = 0")
    case True
    with 1 power_ten_div [of n] show ?thesis by (subst is_order_of_magnitude.simps) simp
  next
    case False
    have "k = 0" if n: "n = 10 ^ k" for k
    proof (cases k)
      case (Suc j)
      with n have m: "n = 10 * 10 ^ j" by simp
      have "(1::nat) \<le> 10 ^ j" by simp
      then have "1 < n" using m by linarith
      moreover have "n mod 10 = 0" using m by simp
      ultimately show ?thesis using False by simp
    qed simp
    then have "(\<exists>k. n = 10 ^ k) \<longleftrightarrow> n = 1" by (metis power_0)
    then show ?thesis unfolding is_order_of_magnitude.simps [of n] if_not_P [OF False] by simp
  qed
qed

text \<open>A kernel loss is logged when the total reaches a power of ten it was below.\<close>

lemma decimal_magnitude_le: "decimal_magnitude n \<le> k \<longleftrightarrow> n < 10 ^ k"
proof (induction k arbitrary: n)
  case 0
  show ?case by (subst decimal_magnitude.simps) simp
next
  case (Suc k)
  show ?case using Suc.IH [of "n div 10"] by (subst decimal_magnitude.simps) (auto simp: div_less_iff_less_mult)
qed

lemma crossed_iff: "crossed_order_of_magnitude before after \<longleftrightarrow> (\<exists>k. before < 10 ^ k \<and> 10 ^ k \<le> after)"
proof -
  have "decimal_magnitude before < decimal_magnitude after \<longleftrightarrow>
      (\<exists>k. decimal_magnitude before \<le> k \<and> \<not> decimal_magnitude after \<le> k)"
    by (metis dual_order.strict_trans2 le_less_linear le_refl not_le)
  then show ?thesis by (simp add: crossed_order_of_magnitude_def decimal_magnitude_le not_less)
qed

section \<open>Instances\<close>

text \<open>A queue of two, batches of one, no quarantine: each record is an event named after itself.\<close>

definition demo_ingest :: "string ingest_config" where
  "demo_ingest = \<lparr>ic_normalize = (\<lambda>r. Some \<lparr>in_type = Some r, in_timestamp = Some 1, in_columns = Inr (\<lambda>_. None)\<rparr>),
     ic_hash = (\<lambda>ty ts cols. ty), ic_queue_size = 2, ic_batch_size = 1, ic_analysis = True, ic_quarantine = False\<rparr>"

definition all_well :: outcomes where
  "all_well = \<lparr>oc_write = True, oc_stored = True, oc_analysis = True, oc_health = True\<rparr>"

definition demo_steps :: "step list" where
  "demo_steps = [Take 1, Take 2, Get all_well, Source_Ends, Signal_Done, Put_Sentinel]"

definition demo_source :: "string raw_input list" where
  "demo_source = [Undecodable, Telemetry ''exec'']"

lemmas demo_defs = demo_ingest_def all_well_def demo_steps_def demo_source_def start_ingest_def new_health_def
  consume_item_def flush_def write_events_def event_row_def insert_or_ignore_def accepted_def leave_loop_def
  queue_full_def empty_events_def

lemma run_reachable: "ingest_reachable cfg s \<Longrightarrow> ingest_run cfg ls s = Some s' \<Longrightarrow> ingest_reachable cfg s'"
proof (induction ls arbitrary: s)
  case (Cons l ls)
  then show ?case by (auto intro: ingest_next split: option.splits)
qed simp

definition demo_state :: "step list \<Rightarrow> string ingest" where
  "demo_state ls = the (ingest_run demo_ingest ls (start_ingest demo_source empty_events))"

lemma demo_reachable:
  "ingest_run demo_ingest ls (start_ingest demo_source empty_events) = Some (demo_state ls) \<Longrightarrow>
   ingest_reachable demo_ingest (demo_state ls)"
  using run_reachable ingest_init by blast

lemma demo_steps_run:
  "ingest_run demo_ingest demo_steps (start_ingest demo_source empty_events) = Some (demo_state demo_steps)"
  "in_queue (demo_state demo_steps) = [None]" "in_producer_done (demo_state demo_steps)"
  "ingest_run demo_ingest [Get all_well] (demo_state demo_steps) \<noteq> None"
  by (simp_all add: demo_state_def demo_defs ingest_defs Let_def)



lemma analysed_events_are_stored_witness:
  "let s = demo_state demo_steps
   in list_all (stored_in (ic_hash demo_ingest) (in_table s)) (concat (in_analysed s) @ in_batch s)"
  using analysed_events_are_stored [OF demo_reachable [OF demo_steps_run(1)]] by (simp only: Let_def)

lemma sentinel_shutdown_is_complete_witness:
  "case ingest_step demo_ingest (Get all_well) (demo_state demo_steps) of
     None \<Rightarrow> False
   | Some s' \<Rightarrow> in_consumer s' = Consumer_Done \<and> in_queue s' = [] \<and> in_pending s' = [] \<and> in_taken s' = counted s'"
proof -
  obtain s' where s': "ingest_step demo_ingest (Get all_well) (demo_state demo_steps) = Some s'"
    using demo_steps_run(4) by (auto split: option.splits)
  show ?thesis
    using sentinel_shutdown_is_complete [OF demo_reachable [OF demo_steps_run(1)] demo_steps_run(2) s'] s'
    by (simp only: option.case)
qed

lemma shutdown_terminates_witness:
  "case ingest_run demo_ingest [Get all_well] (demo_state demo_steps) of
     None \<Rightarrow> False
   | Some s' \<Rightarrow> length [Get all_well] \<le> length (in_queue (demo_state demo_steps)) + 4 \<and>
    ((in_consumer s' = Consumer_Done \<and> in_producer s' = Producer_Done) \<or>
     (\<exists>l. \<not> is_stop l \<and> ingest_step demo_ingest l s' \<noteq> None))"
proof -
  obtain s' where s': "ingest_run demo_ingest [Get all_well] (demo_state demo_steps) = Some s'"
    using demo_steps_run(4) by blast
  have "list_all (\<lambda>l. \<not> is_stop l) [Get all_well]" by (simp add: is_stop_def)
  from shutdown_terminates [OF demo_reachable [OF demo_steps_run(1)] demo_steps_run(3) s' this] s'
  show ?thesis by (simp only: option.case)
qed

lemma late_record_is_lost_witness:
  "\<exists>s. ingest_run demo_ingest [Get_Times_Out, Take 1, Source_Ends, Signal_Done, After_Timeout all_well, Put_Sentinel]
       (start_ingest [Telemetry ''exec''] empty_events) = Some s \<and>
     in_consumer s = Consumer_Done \<and> in_producer s = Producer_Done \<and> ih_status (in_health s) = St_Stopped \<and>
     in_queue s = [Some ''exec'', None] \<and> in_table s = empty_events \<and> in_taken s = 1 \<and> counted s = 0"
  by (rule late_record_is_lost) (simp_all add: demo_ingest_def all_well_def)

lemma infinite_loss_report_ends_collection_witness:
  "case ingest_run demo_ingest [Take 1, Signal_Done] (start_ingest [Loss_Report Infinite, Telemetry ''exec''] empty_events) of
     None \<Rightarrow> False
   | Some s' \<Rightarrow> in_taken s' = 1 \<and> ih_status (in_health s') = St_Failed"
proof -
  let ?init = "start_ingest [Loss_Report Infinite, Telemetry ''exec''] empty_events"
  obtain s' where s': "ingest_run demo_ingest [Take 1, Signal_Done] ?init = Some s'"
    by (simp add: demo_defs ingest_defs Let_def)
  have "in_source ?init = Loss_Report Infinite # [Telemetry ''exec'']" by (simp add: start_ingest_def)
  from infinite_loss_report_ends_collection [OF this s'] s'
  show ?thesis by (simp add: start_ingest_def)
qed

end
