(* ===== verification/Json_Text.thy ===== *)
theory Json_Text
  imports Py_Value
begin

text \<open>
  \<open>json.dumps(value, sort_keys=True)\<close> and \<open>json.loads\<close> of the Python standard library, on documents
  whose text is ASCII or Latin-1. The text of a float is a parameter: \<open>fr\<close> writes it, \<open>pf\<close> reads
  it. \<open>NaN\<close> and \<open>Infinity\<close>, which Python reads as floats, have no counterpart here and are refused.
\<close>

section \<open>Writing\<close>

text \<open>A document with the keys of every object sorted: the same value to Python.\<close>

fun canon :: "doc \<Rightarrow> doc" where
  "canon (PList xs) = PList (map canon xs)"
| "canon (PDict d) = PDict (sort_key fst (map (\<lambda>(k, v). (k, canon v)) d))"
| "canon v = v"

fun render :: "(rat \<Rightarrow> string) \<Rightarrow> string \<Rightarrow> string \<Rightarrow> doc \<Rightarrow> string" where
  "render fr comma colon PNone = ''null''"
| "render fr comma colon (PBool b) = (if b then ''true'' else ''false'')"
| "render fr comma colon (PInt i) = int_str i"
| "render fr comma colon (PFloat q) = fr q"
| "render fr comma colon (PStr s) = json_string s"
| "render fr comma colon (PList xs) = CHR ''['' # join_text comma (map (render fr comma colon) xs) @ '']''"
| "render fr comma colon (PDict d) =
     CHR ''{'' # join_text comma (map (\<lambda>(k, v). json_string k @ colon @ render fr comma colon v) d) @ ''}''"

definition dumps :: "(rat \<Rightarrow> string) \<Rightarrow> string \<Rightarrow> string \<Rightarrow> doc \<Rightarrow> string" where
  "dumps fr comma colon v = render fr comma colon (canon v)"

section \<open>Reading\<close>

definition json_ws :: "char \<Rightarrow> bool" where
  "json_ws c \<longleftrightarrow> c \<in> {CHR '' '', CHR 0x09, CHR 0x0A, CHR 0x0D}"

definition skip_ws :: "string \<Rightarrow> string" where
  "skip_ws s = dropWhile json_ws s"

definition is_digit :: "char \<Rightarrow> bool" where
  "is_digit c \<longleftrightarrow> (48::nat) \<le> of_char c \<and> (of_char c :: nat) < 58"

definition begins_with :: "char \<Rightarrow> string \<Rightarrow> bool" where
  "begins_with c s = (case s of [] \<Rightarrow> False | d # _ \<Rightarrow> d = c)"

text \<open>The regular expression of numbers: integer part, fraction, exponent; the flag says float.\<close>

definition scan_frac :: "string \<Rightarrow> string" where
  "scan_frac s = (case s of
      c # d # r \<Rightarrow> if c = CHR ''.'' \<and> is_digit d then c # takeWhile is_digit (d # r) else []
    | _ \<Rightarrow> [])"

definition scan_exp :: "string \<Rightarrow> string" where
  "scan_exp s = (case s of
      c # r \<Rightarrow>
        (let sign = (if begins_with CHR ''+'' r \<or> begins_with CHR ''-'' r then take 1 r else []);
             digits = takeWhile is_digit (drop (length sign) r)
         in if c \<in> {CHR ''e'', CHR ''E''} \<and> digits \<noteq> [] then c # sign @ digits else [])
    | [] \<Rightarrow> [])"

definition scan_number :: "string \<Rightarrow> (string \<times> bool \<times> string) option" where
  "scan_number s =
     (let sign = (if begins_with CHR ''-'' s then take 1 s else []);
          r = drop (length sign) s;
          int = (if begins_with CHR ''0'' r then take 1 r else takeWhile is_digit r);
          r1 = drop (length int) r;
          frac = scan_frac r1;
          r2 = drop (length frac) r1;
          ex = scan_exp r2
      in if int = [] then None
         else Some (sign @ int @ frac @ ex, frac \<noteq> [] \<or> ex \<noteq> [], drop (length ex) r2))"

definition int_val :: "string \<Rightarrow> int" where
  "int_val s = (if begins_with CHR ''-'' s then - int (digits_val (tl s)) else int (digits_val s))"

definition hex_digit :: "char \<Rightarrow> nat option" where
  "hex_digit c =
     (let n = of_char c in
      if 48 \<le> n \<and> n < 58 then Some (n - 48)
      else if 97 \<le> n \<and> n < 103 then Some (n - 87)
      else if 65 \<le> n \<and> n < 71 then Some (n - 55)
      else None)"

text \<open>The text after a backslash: the character it stands for and the rest.\<close>

definition unescape :: "string \<Rightarrow> (char \<times> string) option" where
  "unescape s = (case s of
      [] \<Rightarrow> None
    | d # r \<Rightarrow>
        if d \<in> {CHR 0x22, CHR 0x5C, CHR ''/''} then Some (d, r)
        else if d = CHR ''n'' then Some (CHR 0x0A, r)
        else if d = CHR ''r'' then Some (CHR 0x0D, r)
        else if d = CHR ''t'' then Some (CHR 0x09, r)
        else if d = CHR ''f'' then Some (CHR 0x0C, r)
        else if d = CHR ''b'' then Some (CHR 0x08, r)
        else if d = CHR ''u'' then
          (case map hex_digit (take 4 r) of
             [Some a, Some b, Some x, Some y] \<Rightarrow>
               if a = 0 \<and> b = 0 then Some (char_of (16 * x + y), drop 4 r) else None
           | _ \<Rightarrow> None)
        else None)"

lemma unescape_shorter: "unescape s = Some (c, r) \<Longrightarrow> length r < length s"
  by (auto simp: unescape_def split: list.splits option.splits if_splits)

text \<open>The text after the opening quote.\<close>

function scan_string :: "string \<Rightarrow> (string \<times> string) option" where
  "scan_string [] = None"
| "scan_string (c # r) =
     (if c = CHR 0x22 then Some ([], r)
      else if c = CHR 0x5C then
        (case unescape r of
           None \<Rightarrow> None
         | Some (d, r') \<Rightarrow> map_option (apfst (Cons d)) (scan_string r'))
      else if (of_char c :: nat) < 32 then None
      else map_option (apfst (Cons c)) (scan_string r))"
  by pat_completeness auto
termination by (relation "measure length") (auto dest: unescape_shorter)

text \<open>Duplicate keys: the last value wins, at the place of the first.\<close>

definition dict_of :: "(string \<times> doc) list \<Rightarrow> doc" where
  "dict_of kvs = PDict (fold (\<lambda>(k, v). AList.update k v) kvs [])"

text \<open>The scanner; \<open>fuel\<close> bounds its depth and is enough for every text in \<open>loads\<close>.\<close>

fun scan_value :: "(string \<Rightarrow> rat option) \<Rightarrow> nat \<Rightarrow> string \<Rightarrow> (doc \<times> string) option"
  and scan_items :: "(string \<Rightarrow> rat option) \<Rightarrow> nat \<Rightarrow> string \<Rightarrow> (doc list \<times> string) option"
  and scan_members :: "(string \<Rightarrow> rat option) \<Rightarrow> nat \<Rightarrow> string \<Rightarrow> ((string \<times> doc) list \<times> string) option" where
  "scan_value pf 0 s = None"
| "scan_value pf (Suc n) s =
     (if begins_with CHR 0x22 s then map_option (apfst PStr) (scan_string (tl s))
      else if begins_with CHR ''['' s then
        (let r = skip_ws (tl s) in
         if begins_with CHR '']'' r then Some (PList [], tl r) else map_option (apfst PList) (scan_items pf n r))
      else if begins_with CHR ''{'' s then
        (let r = skip_ws (tl s) in
         if begins_with CHR ''}'' r then Some (PDict [], tl r) else map_option (apfst dict_of) (scan_members pf n r))
      else if take 4 s = ''null'' then Some (PNone, drop 4 s)
      else if take 4 s = ''true'' then Some (PBool True, drop 4 s)
      else if take 5 s = ''false'' then Some (PBool False, drop 5 s)
      else (case scan_number s of
              None \<Rightarrow> None
            | Some (t, is_float, r) \<Rightarrow>
                if is_float then map_option (\<lambda>q. (PFloat q, r)) (pf t) else Some (PInt (int_val t), r)))"
| "scan_items pf 0 s = None"
| "scan_items pf (Suc n) s =
     (case scan_value pf n s of
        None \<Rightarrow> None
      | Some (v, r) \<Rightarrow>
          (let r = skip_ws r in
           if begins_with CHR '']'' r then Some ([v], tl r)
           else if begins_with CHR '','' r then map_option (apfst (Cons v)) (scan_items pf n (skip_ws (tl r)))
           else None))"
| "scan_members pf 0 s = None"
| "scan_members pf (Suc n) s =
     (if \<not> begins_with CHR 0x22 s then None
      else case scan_string (tl s) of
        None \<Rightarrow> None
      | Some (k, r) \<Rightarrow>
          (let r = skip_ws r in
           if \<not> begins_with CHR '':'' r then None
           else case scan_value pf n (skip_ws (tl r)) of
             None \<Rightarrow> None
           | Some (v, r) \<Rightarrow>
               (let r = skip_ws r in
                if begins_with CHR ''}'' r then Some ([(k, v)], tl r)
                else if begins_with CHR '','' r then map_option (apfst (Cons (k, v))) (scan_members pf n (skip_ws (tl r)))
                else None)))"

definition loads :: "(string \<Rightarrow> rat option) \<Rightarrow> string \<Rightarrow> doc option" where
  "loads pf s =
     (case scan_value pf (2 * length s + 2) (skip_ws s) of
        None \<Rightarrow> None
      | Some (v, r) \<Rightarrow> if skip_ws r = [] then Some v else None)"

section \<open>Scanning what was written\<close>

text \<open>What may follow a value in a document.\<close>

definition delimited :: "string \<Rightarrow> bool" where
  "delimited s \<longleftrightarrow> s = [] \<or> hd s \<in> {CHR '','', CHR '']'', CHR ''}''}"

lemma begins_Cons [simp]: "begins_with c (d # r) \<longleftrightarrow> d = c" "\<not> begins_with c []"
  by (simp_all add: begins_with_def)

lemma begins_append: "xs \<noteq> [] \<Longrightarrow> begins_with c (xs @ r) \<longleftrightarrow> hd xs = c"
  by (cases xs) simp_all

lemma skip_ws_Cons: "\<not> json_ws c \<Longrightarrow> skip_ws (c # r) = c # r"
  by (simp add: skip_ws_def)

lemma skip_ws_append: "list_all json_ws w \<Longrightarrow> skip_ws (w @ r) = skip_ws r"
  by (induction w) (simp_all add: skip_ws_def)

lemma unescape_escape: "json_escape c = CHR 0x5C # e \<Longrightarrow> unescape (e @ r) = Some (c, r)"
proof -
  assume e: "json_escape c = CHR 0x5C # e"
  have b: "(of_char c :: nat) div 16 < 16" "(of_char c :: nat) mod 16 < 16"
    using nat_of_char_less_256 [of c] by (linarith, simp)
  have c: "char_of (16 * (of_char c div 16) + of_char c mod 16 :: nat) = c" by (simp add: mult.commute [of 16])
  have h: "hex_digit (hex_char d) = Some d" if "d < 16" for d
    using that by (simp add: hex_digit_def hex_char_def Let_def)
  have "hex_digit CHR ''0'' = Some 0" by (simp add: hex_digit_def Let_def)
  with e b c h show ?thesis
    by (auto simp: json_escape_def unescape_def split: if_splits)
qed

lemma scan_escaped: "scan_string (json_escape c @ r) = map_option (apfst (Cons c)) (scan_string r)"
proof (cases "\<exists>e. json_escape c = CHR 0x5C # e")
  case True
  then obtain e where e: "json_escape c = CHR 0x5C # e" by blast
  then show ?thesis using unescape_escape [OF e, of r] by simp
next
  case False
  then have "json_escape c = [c]" "c \<noteq> CHR 0x22" "c \<noteq> CHR 0x5C" "\<not> (of_char c :: nat) < 32"
    by (auto simp: json_escape_def split: if_splits)
  then show ?thesis by simp
qed

lemma scan_written_string: "scan_string (tl (json_string s) @ r) = Some (s, r)"
proof -
  have "scan_string (concat (map json_escape s) @ CHR 0x22 # r) = Some (s, r)"
    by (induction s) (simp_all add: scan_escaped)
  then show ?thesis by (simp add: json_string_def)
qed

lemma json_string_hd: "json_string s \<noteq> []" "hd (json_string s) = CHR 0x22"
  by (simp_all add: json_string_def)

lemma nat_str_digits: "c \<in> set (nat_str n) \<Longrightarrow> is_digit c"
  using set_nat_str by (simp add: is_digit_def)

lemma char_zero: "char_of (48 :: nat) = CHR ''0''"
  by code_simp

lemma nat_str_zero: "hd (nat_str n) = CHR ''0'' \<longleftrightarrow> n = 0"
proof (induction n rule: nat_str.induct)
  case (1 n)
  have d: "digit_char d = CHR ''0'' \<longleftrightarrow> d = 0" if "d < 10" for d
  proof
    assume "digit_char d = CHR ''0''"
    with of_digit_char [OF that] show "d = 0" by simp
  qed (simp add: digit_char_def char_zero)
  show ?case
  proof (cases "n < 10")
    case True
    then show ?thesis using d [of n] by (subst nat_str.simps) simp
  next
    case False
    then show ?thesis using 1 by (subst nat_str.simps) (simp add: hd_append)
  qed
qed

lemma takeWhile_run: "\<forall>c \<in> set xs. p c \<Longrightarrow> r = [] \<or> \<not> p (hd r) \<Longrightarrow> takeWhile p (xs @ r) = xs"
  by (cases r) (simp_all add: takeWhile_append2)

lemma not_digits: "\<not> is_digit CHR ''.''" "\<not> is_digit CHR ''-''" "\<not> is_digit CHR '',''" "\<not> is_digit CHR '']''"
    "\<not> is_digit CHR ''}''" "\<not> is_digit CHR 0x22" "\<not> is_digit CHR ''[''" "\<not> is_digit CHR ''{''" "\<not> is_digit CHR ''n''"
    "\<not> is_digit CHR ''t''" "\<not> is_digit CHR ''f''" "is_digit CHR ''0''"
  by (simp_all add: is_digit_def)

text \<open>The integer part of a written number, whatever comes after it.\<close>

lemma scan_int_part:
  assumes "r = [] \<or> \<not> is_digit (hd r)"
  shows "(if begins_with CHR ''0'' (nat_str n @ r) then take 1 (nat_str n @ r) else takeWhile is_digit (nat_str n @ r)) = nat_str n"
proof (cases "n = 0")
  case True
  have "nat_str 0 = ''0''" by (subst nat_str.simps) (simp add: digit_char_def char_zero)
  with True show ?thesis by simp
next
  case False
  then have "\<not> begins_with CHR ''0'' (nat_str n @ r)" by (simp add: begins_append nat_str_zero)
  then show ?thesis using takeWhile_run [of "nat_str n" is_digit r] assms nat_str_digits by auto
qed

lemma scan_signed:
  assumes "r = [] \<or> \<not> is_digit (hd r)"
  shows "scan_number (int_str i @ r) =
    (let frac = scan_frac r; ex = scan_exp (drop (length frac) r)
     in Some (int_str i @ frac @ ex, frac \<noteq> [] \<or> ex \<noteq> [], drop (length ex) (drop (length frac) r)))"
proof -
  have core: "scan_number (sign @ nat_str n @ r) =
    (let frac = scan_frac r; ex = scan_exp (drop (length frac) r)
     in Some (sign @ nat_str n @ frac @ ex, frac \<noteq> [] \<or> ex \<noteq> [], drop (length ex) (drop (length frac) r)))"
    if sign: "(if begins_with CHR ''-'' (sign @ nat_str n @ r) then take 1 (sign @ nat_str n @ r) else []) = sign" for sign n
  proof -
    have "drop (length sign) (sign @ nat_str n @ r) = nat_str n @ r" by simp
    moreover have "drop (length (nat_str n)) (nat_str n @ r) = r" by simp
    ultimately show ?thesis
      unfolding scan_number_def Let_def sign by (simp only: scan_int_part [OF assms] nat_str_not_Nil if_False)
  qed
  show ?thesis
  proof (cases "i < 0")
    case True
    then show ?thesis using core [of "''-''" "nat (- i)"] by (simp add: int_str_def)
  next
    case False
    have "hd (nat_str (nat i)) \<noteq> CHR ''-''"
      using dash_not_in_nat_str [of "nat i"] by (metis hd_in_set nat_str_not_Nil)
    then have "\<not> begins_with CHR ''-'' (nat_str (nat i) @ r)" by (simp add: begins_append)
    with False show ?thesis using core [of "[]" "nat i"] by (simp add: int_str_def)
  qed
qed

lemma delimited_scan:
  assumes "delimited r"
  shows "r = [] \<or> \<not> is_digit (hd r)" "scan_frac r = []" "scan_exp r = []"
  using assms by (auto simp: delimited_def not_digits scan_frac_def scan_exp_def split: list.splits)

lemma scan_written_int: "delimited r \<Longrightarrow> scan_number (int_str i @ r) = Some (int_str i, False, r)"
  using scan_signed [of r i] delimited_scan [of r] by simp

lemma int_val_str: "int_val (int_str i) = i"
proof -
  have "\<not> begins_with CHR ''-'' (nat_str n)" for n
    using dash_not_in_nat_str [of n] by (cases "nat_str n") auto
  then show ?thesis by (simp add: int_val_def int_str_def digits_val_nat_str)
qed

text \<open>
  What is relied on of the text of a float: it is scanned as a float numeral up to whatever may
  follow it, and reading it gives the float back.
\<close>

definition float_text_ok :: "(rat \<Rightarrow> string) \<Rightarrow> (string \<Rightarrow> rat option) \<Rightarrow> bool" where
  "float_text_ok fr pf \<longleftrightarrow>
     (\<forall>q r. delimited r \<longrightarrow> scan_number (fr q @ r) = Some (fr q, True, r)) \<and> (\<forall>q. pf (fr q) = Some q)"

lemma scan_number_hd: "scan_number s = Some x \<Longrightarrow> s \<noteq> [] \<and> (hd s = CHR ''-'' \<or> is_digit (hd s))"
  by (cases s) (auto simp: scan_number_def Let_def not_digits split: if_splits)

lemma float_text_hd:
  assumes "float_text_ok fr pf"
  shows "fr q \<noteq> []" "hd (fr q) = CHR ''-'' \<or> is_digit (hd (fr q))"
proof -
  have "scan_number (fr q @ []) = Some (fr q, True, [])"
    using assms unfolding float_text_ok_def by (simp add: delimited_def)
  from scan_number_hd [OF this] show "fr q \<noteq> []" "hd (fr q) = CHR ''-'' \<or> is_digit (hd (fr q))" by simp_all
qed

lemma int_text_hd: "hd (int_str i) = CHR ''-'' \<or> is_digit (hd (int_str i))"
  using scan_number_hd [of "int_str i"] scan_written_int [of "[]" i] by (simp add: delimited_def)

section \<open>Reading back\<close>

text \<open>Separators of \<open>json.dumps\<close>: a comma or colon and blanks.\<close>

definition separator :: "char \<Rightarrow> string \<Rightarrow> bool" where
  "separator c s \<longleftrightarrow> begins_with c s \<and> list_all json_ws (tl s)"

lemma separator_Cons: "separator c s \<Longrightarrow> \<exists>w. s = c # w \<and> list_all json_ws w"
  by (cases s) (simp_all add: separator_def)

text \<open>Keys of an object are distinct, as in every Python dictionary.\<close>

fun doc_ok :: "doc \<Rightarrow> bool" where
  "doc_ok (PList xs) \<longleftrightarrow> list_all doc_ok xs"
| "doc_ok (PDict d) \<longleftrightarrow> distinct (map fst d) \<and> list_all (\<lambda>(k, v). doc_ok v) d"
| "doc_ok v \<longleftrightarrow> True"

lemma doc_ok_canon: "doc_ok v \<Longrightarrow> doc_ok (canon v)"
proof (induction v)
  case (PDict d)
  let ?c = "map (\<lambda>(k, v). (k, canon v)) d"
  have f: "map fst ?c = map fst d" by (induction d) auto
  have s: "distinct (map fst (sort_key fst kvs)) \<longleftrightarrow> distinct (map fst kvs)" for kvs :: "(string \<times> doc) list"
    by (simp add: distinct_map)
  have "distinct (map fst (sort_key fst ?c))" using PDict.prems unfolding s f by simp
  moreover have "\<forall>kv \<in> set d. doc_ok (canon (snd kv))"
    using PDict by (auto simp: list_all_iff snds.simps)
  ultimately show ?case by (auto simp: list_all_iff)
qed (simp_all add: list_all_iff)

lemma fresh_updates: "distinct (map fst (xs @ kvs)) \<Longrightarrow> fold (\<lambda>(k, v). AList.update k v) kvs xs = xs @ kvs"
proof (induction kvs arbitrary: xs)
  case (Cons kv kvs)
  obtain k v where kv: "kv = (k, v)" by (cases kv)
  have "AList.update k v xs = xs @ [(k, v)]" using Cons.prems kv by (intro update_fresh) auto
  with Cons.IH [of "xs @ [(k, v)]"] Cons.prems kv show ?case by simp
qed simp

lemma dict_of_distinct: "distinct (map fst d) \<Longrightarrow> dict_of d = PDict d"
  using fresh_updates [of "[]" d] by (simp add: dict_of_def)

lemma digit_facts: "is_digit c \<Longrightarrow> \<not> json_ws c \<and> c \<notin> {CHR 0x22, CHR ''['', CHR ''{'', CHR '']'', CHR ''n'', CHR ''t'', CHR ''f''}"
  by (auto simp: is_digit_def json_ws_def)

lemma render_hd:
  assumes "float_text_ok fr pf"
  shows "render fr comma colon v \<noteq> [] \<and> \<not> json_ws (hd (render fr comma colon v)) \<and> hd (render fr comma colon v) \<noteq> CHR '']''"
proof (cases v)
  case (PInt i)
  then show ?thesis using int_text_hd [of i] digit_facts [of "hd (int_str i)"] by (auto simp: json_ws_def)
next
  case (PFloat q)
  then show ?thesis using float_text_hd [OF assms, of q] digit_facts [of "hd (fr q)"] by (auto simp: json_ws_def)
qed (auto simp: json_ws_def json_string_hd)

lemma skip_render: "float_text_ok fr pf \<Longrightarrow> skip_ws (render fr comma colon v @ r) = render fr comma colon v @ r"
  using render_hd [of fr pf comma colon v] by (cases "render fr comma colon v") (auto simp: skip_ws_Cons)

lemma scan_value_number:
  assumes "s \<noteq> []" and "hd s = CHR ''-'' \<or> is_digit (hd s)"
  shows "scan_value pf (Suc n) s = (case scan_number s of
      None \<Rightarrow> None
    | Some (t, is_float, r) \<Rightarrow> if is_float then map_option (\<lambda>q. (PFloat q, r)) (pf t) else Some (PInt (int_val t), r))"
proof -
  obtain c u where s: "s = c # u" using assms(1) by (cases s) auto
  have "c \<notin> {CHR 0x22, CHR ''['', CHR ''{'', CHR ''n'', CHR ''t'', CHR ''f''}"
    using assms(2) digit_facts [of c] by (auto simp: s)
  then show ?thesis by (simp add: s)
qed

lemma scan_items_written:
  assumes fl: "float_text_ok fr pf" and sep: "separator CHR '','' comma"
    and each: "\<And>x n r. x \<in> set xs \<Longrightarrow> 2 * length (render fr comma colon x) < n \<Longrightarrow> delimited r \<Longrightarrow>
      scan_value pf n (render fr comma colon x @ r) = Some (x, r)"
    and "xs \<noteq> []" and "2 * length (join_text comma (map (render fr comma colon) xs)) + 1 < n"
  shows "scan_items pf n (join_text comma (map (render fr comma colon) xs) @ CHR '']'' # r) = Some (xs, r)"
  using assms(3-5)
proof (induction xs arbitrary: n)
  case (Cons x xs)
  let ?R = "render fr comma colon"
  obtain w where w: "comma = CHR '','' # w" "list_all json_ws w" using separator_Cons [OF sep] by blast
  have cs: "comma @ s = CHR '','' # w @ s" "delimited (comma @ s)" for s by (simp_all add: w(1) delimited_def)
  have lc: "1 \<le> length comma" by (simp add: w(1))
  obtain m where m: "n = Suc m" using Cons.prems(3) by (cases n) auto
  have nw: "\<not> json_ws CHR '']''" "\<not> json_ws CHR '',''" by (simp_all add: json_ws_def)
  show ?case
  proof (cases xs)
    case Nil
    have "scan_value pf m (?R x @ CHR '']'' # r) = Some (x, CHR '']'' # r)"
      using Cons.prems(3) by (intro Cons.prems(1)) (simp_all add: m Nil delimited_def)
    with Nil show ?thesis by (simp add: m skip_ws_Cons nw)
  next
    case (Cons y ys)
    let ?J = "join_text comma (map ?R xs)"
    have J: "join_text comma (map ?R (x # xs)) = ?R x @ comma @ ?J" using Cons by simp
    have hd: "?J \<noteq> []" "skip_ws (?J @ s) = ?J @ s" for s
    proof -
      obtain u where "?J = ?R y @ u" using Cons by (cases ys) auto
      with render_hd [OF fl, of comma colon y] skip_render [OF fl, of comma colon y]
      show "?J \<noteq> []" "skip_ws (?J @ s) = ?J @ s" by simp_all
    qed
    have len: "2 * length (?R x) + 2 * length ?J + 3 \<le> n"
      using Cons.prems(3) lc unfolding J by simp
    have "scan_value pf m (?R x @ comma @ ?J @ CHR '']'' # r) = Some (x, comma @ ?J @ CHR '']'' # r)"
      using len by (intro Cons.prems(1)) (simp_all add: m cs(2))
    moreover have "scan_items pf m (?J @ CHR '']'' # r) = Some (xs, r)"
      using len by (intro Cons.IH Cons.prems(1)) (simp_all add: m Cons)
    ultimately show ?thesis
      unfolding J m by (simp add: cs(1) w(2) skip_ws_Cons nw skip_ws_append hd)
  qed
qed simp

lemma scan_members_written:
  fixes comma colon fr
  defines "member \<equiv> \<lambda>(k, v). json_string k @ colon @ render fr comma colon v"
  assumes fl: "float_text_ok fr pf" and sep: "separator CHR '','' comma" and col: "separator CHR '':'' colon"
    and each: "\<And>k v n r. (k, v) \<in> set d \<Longrightarrow> 2 * length (render fr comma colon v) < n \<Longrightarrow> delimited r \<Longrightarrow>
      scan_value pf n (render fr comma colon v @ r) = Some (v, r)"
    and "d \<noteq> []" and "2 * length (join_text comma (map member d)) + 1 < n"
  shows "scan_members pf n (join_text comma (map member d) @ CHR ''}'' # r) = Some (d, r)"
  using assms(5-7)
proof (induction d arbitrary: n)
  case (Cons kv d)
  let ?R = "render fr comma colon"
  obtain k v where kv: "kv = (k, v)" by (cases kv)
  obtain w where w: "comma = CHR '','' # w" "list_all json_ws w" using separator_Cons [OF sep] by blast
  obtain u where u: "colon = CHR '':'' # u" "list_all json_ws u" using separator_Cons [OF col] by blast
  have us: "colon @ s = CHR '':'' # u @ s" for s by (simp add: u(1))
  have cs: "comma @ s = CHR '','' # w @ s" "delimited (comma @ s)" for s by (simp_all add: w(1) delimited_def)
  have lc: "1 \<le> length comma" by (simp add: w(1))
  obtain m where m: "n = Suc m" using Cons.prems(3) by (cases n) auto
  have nw: "\<not> json_ws CHR ''}''" "\<not> json_ws CHR '',''" "\<not> json_ws CHR '':''" "\<not> json_ws CHR 0x22"
    by (simp_all add: json_ws_def)
  have key: "begins_with CHR 0x22 (json_string k @ s)" "scan_string (tl (json_string k @ s)) = Some (k, s)" for k s
    using scan_written_string [of k s] json_string_hd [of k] by (simp_all add: begins_append)
  have sk: "skip_ws (json_string k @ s) = json_string k @ s" for k s
    by (simp add: json_string_def skip_ws_Cons nw)
  show ?case
  proof (cases d)
    case Nil
    have "scan_value pf m (?R v @ CHR ''}'' # r) = Some (v, CHR ''}'' # r)"
      using Cons.prems(3) by (intro Cons.prems(1) [where k = k]) (simp_all add: m Nil kv member_def delimited_def)
    with Nil show ?thesis
      by (simp add: m kv member_def key us u(2) skip_ws_Cons nw skip_ws_append skip_render [OF fl])
  next
    case (Cons y ys)
    let ?J = "join_text comma (map member d)"
    have J: "join_text comma (map member (kv # d)) = json_string k @ colon @ ?R v @ comma @ ?J"
      using Cons by (simp add: member_def kv)
    have hd: "skip_ws (?J @ s) = ?J @ s" for s
    proof -
      obtain t where "?J = json_string (fst y) @ t" using Cons by (cases ys; cases y) (simp_all add: member_def)
      with sk show ?thesis by simp
    qed
    have len: "2 * length (?R v) + 2 * length ?J + 3 \<le> n"
      using Cons.prems(3) lc unfolding J by simp
    have "scan_value pf m (?R v @ comma @ ?J @ CHR ''}'' # r) = Some (v, comma @ ?J @ CHR ''}'' # r)"
      using len by (intro Cons.prems(1) [where k = k]) (simp_all add: m kv cs(2))
    moreover have "scan_members pf m (?J @ CHR ''}'' # r) = Some (d, r)"
    proof (rule Cons.IH)
      show "scan_value pf n (render fr comma colon v @ r) = Some (v, r)"
        if "(k, v) \<in> set d" "2 * length (render fr comma colon v) < n" "delimited r" for k v n r
        using that Cons.prems(1) [of k v n r] by simp
      show "d \<noteq> []" "2 * length ?J + 1 < m" using Cons len m by simp_all
    qed
    ultimately show ?thesis
      unfolding J m by (simp add: kv key cs(1) w(2) us u(2) skip_ws_Cons nw skip_ws_append hd skip_render [OF fl])
  qed
qed simp

text \<open>Scanning a written document gives it back, whatever delimiter follows.\<close>

lemma scan_written:
  assumes fl: "float_text_ok fr pf" and sep: "separator CHR '','' comma" and col: "separator CHR '':'' colon"
  shows "doc_ok v \<Longrightarrow> 2 * length (render fr comma colon v) < n \<Longrightarrow> delimited r \<Longrightarrow>
    scan_value pf n (render fr comma colon v @ r) = Some (v, r)"
proof (induction v arbitrary: n r)
  case (PInt i)
  then obtain m where "n = Suc m" by (cases n) auto
  with PInt show ?case
    using scan_value_number [of "int_str i @ r" pf m] int_text_hd [of i]
    by (simp add: scan_written_int int_val_str hd_append)
next
  case (PFloat q)
  then obtain m where "n = Suc m" by (cases n) auto
  moreover have "scan_number (fr q @ r) = Some (fr q, True, r)" "pf (fr q) = Some q"
    using fl PFloat.prems by (simp_all add: float_text_ok_def)
  ultimately show ?case
    using scan_value_number [of "fr q @ r" pf m] float_text_hd [OF fl, of q] by (simp add: hd_append)
next
  case (PStr s)
  then obtain m where "n = Suc m" by (cases n) auto
  then show ?case using scan_written_string [of s r] by (simp add: begins_append json_string_hd)
next
  case (PList xs)
  let ?J = "join_text comma (map (render fr comma colon) xs)"
  obtain m where m: "n = Suc m" using PList.prems by (cases n) auto
  show ?case
  proof (cases xs)
    case Nil
    then show ?thesis by (simp add: m skip_ws_Cons json_ws_def)
  next
    case (Cons y ys)
    obtain t where "?J = render fr comma colon y @ t" using Cons by (cases ys) auto
    with render_hd [OF fl, of comma colon y] skip_render [OF fl, of comma colon y]
    have hd: "skip_ws (?J @ s) = ?J @ s" "\<not> begins_with CHR '']'' (?J @ s)" for s by (simp_all add: begins_append)
    have "scan_items pf m (?J @ CHR '']'' # r) = Some (xs, r)"
      using PList.prems Cons by (intro scan_items_written [OF fl sep PList.IH]) (auto simp: m list_all_iff)
    then show ?thesis by (simp add: m hd)
  qed
next
  case (PDict d)
  let ?J = "join_text comma (map (\<lambda>(k, v). json_string k @ colon @ render fr comma colon v) d)"
  obtain m where m: "n = Suc m" using PDict.prems by (cases n) auto
  show ?case
  proof (cases d)
    case Nil
    then show ?thesis by (simp add: m skip_ws_Cons json_ws_def)
  next
    case (Cons y ys)
    obtain t where "?J = json_string (fst y) @ t" using Cons by (cases ys; cases y) simp_all
    then have hd: "skip_ws (?J @ s) = ?J @ s" "\<not> begins_with CHR ''}'' (?J @ s)" for s
      by (simp_all add: json_string_def skip_ws_Cons json_ws_def)
    have "scan_members pf m (?J @ CHR ''}'' # r) = Some (d, r)"
      using PDict.prems Cons
      by (intro scan_members_written [OF fl sep col PDict.IH]) (auto simp: m list_all_iff snds.simps)
    then show ?thesis using PDict.prems by (simp add: m hd dict_of_distinct)
  qed
next
  case PNone
  then obtain m where "n = Suc m" by (cases n) auto
  then show ?case by simp
next
  case (PBool b)
  then obtain m where "n = Suc m" by (cases n) auto
  then show ?case by (cases b) simp_all
qed

lemma loads_render:
  assumes fl: "float_text_ok fr pf" and "separator CHR '','' comma" and "separator CHR '':'' colon" and "doc_ok v"
  shows "loads pf (render fr comma colon v) = Some v"
proof -
  have "scan_value pf (2 * length (render fr comma colon v) + 2) (render fr comma colon v @ []) = Some (v, [])"
    using assms by (intro scan_written) (simp_all add: delimited_def)
  then show ?thesis using skip_render [OF fl, of comma colon v "[]"] by (simp add: loads_def skip_ws_def)
qed

lemma loads_dumps:
  assumes "float_text_ok fr pf" and "separator CHR '','' comma" and "separator CHR '':'' colon" and "doc_ok v"
  shows "loads pf (dumps fr comma colon v) = Some (canon v)"
  unfolding dumps_def using assms by (intro loads_render doc_ok_canon)

text \<open>Equal texts come from documents that differ in the order of keys only.\<close>

lemma dumps_inject:
  assumes "float_text_ok fr pf" and "separator CHR '','' comma" and "separator CHR '':'' colon" and "doc_ok v" and "doc_ok w"
  shows "dumps fr comma colon v = dumps fr comma colon w \<longleftrightarrow> canon v = canon w"
  using loads_dumps [OF assms(1-3)] assms(4,5) unfolding dumps_def by (metis loads_render [OF assms(1-3)] option.inject doc_ok_canon)

section \<open>A float text\<close>

text \<open>
  For concrete evaluation: numerator, point, denominator. It is a JSON float numeral and determines
  the rational, which is what \<open>float_text_ok\<close> asks of \<open>float.__repr__\<close>.
\<close>

definition ratio_text :: "rat \<Rightarrow> string" where
  "ratio_text q = (case quotient_of q of (a, b) \<Rightarrow> int_str a @ CHR ''.'' # nat_str (nat b))"

definition ratio_parse :: "string \<Rightarrow> rat option" where
  "ratio_parse s =
     Some (Fract (int_val (takeWhile (\<lambda>c. c \<noteq> CHR ''.'') s)) (int (digits_val (tl (dropWhile (\<lambda>c. c \<noteq> CHR ''.'') s)))))"

lemma ratio_text_ok: "float_text_ok ratio_text ratio_parse"
proof -
  have scan: "scan_number (ratio_text q @ r) = Some (ratio_text q, True, r)" if r: "delimited r" for q r
  proof -
    obtain a b where ab: "quotient_of q = (a, b)" by (cases "quotient_of q")
    have "takeWhile is_digit (nat_str (nat b) @ r) = nat_str (nat b)"
      using takeWhile_run [of "nat_str (nat b)" is_digit r] nat_str_digits delimited_scan(1) [OF r] by blast
    moreover obtain d u where du: "nat_str (nat b) = d # u" by (cases "nat_str (nat b)") auto
    moreover have "is_digit d" using nat_str_digits [of d "nat b"] by (simp add: du)
    ultimately have "scan_frac (CHR ''.'' # nat_str (nat b) @ r) = CHR ''.'' # nat_str (nat b)"
      by (simp add: scan_frac_def)
    then show ?thesis
      using scan_signed [of "CHR ''.'' # nat_str (nat b) @ r" a] delimited_scan(3) [OF r]
      by (simp add: ratio_text_def ab not_digits)
  qed
  have "ratio_parse (ratio_text q) = Some q" for q
  proof -
    obtain a b where ab: "quotient_of q = (a, b)" by (cases "quotient_of q")
    have "CHR ''.'' \<notin> set (int_str a)" using set_int_str [of "CHR ''.''" a] by auto
    then have "takeWhile (\<lambda>c. c \<noteq> CHR ''.'') (int_str a @ CHR ''.'' # s) = int_str a"
      "dropWhile (\<lambda>c. c \<noteq> CHR ''.'') (int_str a @ CHR ''.'' # s) = CHR ''.'' # s" for s
      by (simp_all add: takeWhile_append dropWhile_append)
    moreover have "ratio_text q = int_str a @ CHR ''.'' # nat_str (nat b)" by (simp add: ratio_text_def ab)
    moreover have "0 < b" "q = Fract a b" using ab by (simp_all add: quotient_of_denom_pos quotient_of_div Fract_of_int_quotient)
    ultimately show ?thesis by (simp only: ratio_parse_def) (simp add: int_val_str digits_val_nat_str)
  qed
  with scan show ?thesis by (simp add: float_text_ok_def)
qed

end
