(* ===== verification/Event_Stream.thy ===== *)
theory Event_Stream
  imports Json_Text Event_Store
begin

text \<open>
  Canonical events: \<open>CanonicalNormalizer\<close> and \<open>Event\<close> of \<^verbatim>\<open>pipeline/event_stream.py\<close>, and the way
  \<^verbatim>\<open>storage/sqlite_store.py\<close> writes one to the \<open>events\<close> table, keys it for deduplication and reads it
  back. Field values are Python values, as the dataclass does not check its annotations.
\<close>

section \<open>Coercion\<close>

text \<open>
  \<open>parse_float\<close> is \<open>float(text)\<close>, None where it raises or is not finite; \<open>parse_int\<close> is \<open>int(text)\<close>.
  Documents carry finite floats, so the \<open>isfinite\<close> test of the source only matters on text.
\<close>

definition coerce_float :: "(string \<Rightarrow> rat option) \<Rightarrow> doc \<Rightarrow> rat option" where
  "coerce_float parse_float v = (case v of
      PInt i \<Rightarrow> Some (of_int i) | PFloat q \<Rightarrow> Some q | PStr s \<Rightarrow> parse_float s | _ \<Rightarrow> None)"

definition chop :: "rat \<Rightarrow> int" where
  "chop q = (if 0 \<le> q then \<lfloor>q\<rfloor> else \<lceil>q\<rceil>)"

text \<open>\<open>int(v)\<close>.\<close>

definition to_int :: "(string \<Rightarrow> int option) \<Rightarrow> doc \<Rightarrow> py_error + int" where
  "to_int parse_int v = (case v of
      PBool b \<Rightarrow> Inr (if b then 1 else 0)
    | PInt i \<Rightarrow> Inr i
    | PFloat q \<Rightarrow> Inr (chop q)
    | PStr s \<Rightarrow> (case parse_int s of None \<Rightarrow> Inl (Value_Error ''invalid literal for int()'') | Some i \<Rightarrow> Inr i)
    | _ \<Rightarrow> Inl (Type_Error ''int() argument must be a string or a real number''))"

definition coerce_int :: "(string \<Rightarrow> int option) \<Rightarrow> doc \<Rightarrow> doc" where
  "coerce_int parse_int v = (case v of
      PNone \<Rightarrow> PNone
    | PBool _ \<Rightarrow> PNone
    | _ \<Rightarrow> (case to_int parse_int v of Inl _ \<Rightarrow> PNone | Inr i \<Rightarrow> PInt i))"

section \<open>Events\<close>

datatype event_kind =
    Process_Exec
  | Tcp_Connect
  | File_Open
  | File_Write
  | Auth_Session
  | Service_State
  | Ipc_Event
  | System_Health
  | Telemetry_Startup
  | Telemetry_Shutdown
  | Telemetry_Info
  | Telemetry_Warning

definition kind_name :: "event_kind \<Rightarrow> string" where
  "kind_name k = (case k of
      Process_Exec \<Rightarrow> ''process_exec'' | Tcp_Connect \<Rightarrow> ''tcp_connect'' | File_Open \<Rightarrow> ''file_open''
    | File_Write \<Rightarrow> ''file_write'' | Auth_Session \<Rightarrow> ''auth_session'' | Service_State \<Rightarrow> ''service_state''
    | Ipc_Event \<Rightarrow> ''ipc_event'' | System_Health \<Rightarrow> ''system_health'' | Telemetry_Startup \<Rightarrow> ''telemetry_startup''
    | Telemetry_Shutdown \<Rightarrow> ''telemetry_shutdown'' | Telemetry_Info \<Rightarrow> ''telemetry_info''
    | Telemetry_Warning \<Rightarrow> ''telemetry_warning'')"

definition event_kinds :: "event_kind list" where
  "event_kinds = [Process_Exec, Tcp_Connect, File_Open, File_Write, Auth_Session, Service_State, Ipc_Event,
     System_Health, Telemetry_Startup, Telemetry_Shutdown, Telemetry_Info, Telemetry_Warning]"

text \<open>\<open>EventType(v)\<close>: the member with that value; anything else raises ValueError.\<close>

definition event_type_of :: "doc \<Rightarrow> event_kind option" where
  "event_type_of v = (case v of PStr s \<Rightarrow> find (\<lambda>k. kind_name k = s) event_kinds | _ \<Rightarrow> None)"

record event =
  ev_kind :: event_kind
  ev_timestamp :: doc
  ev_timestamp_ns :: doc
  ev_monotonic :: doc
  ev_pid :: doc
  ev_ppid :: doc
  ev_uid :: doc
  ev_gid :: doc
  ev_comm :: doc
  ev_executable :: doc
  ev_parent_comm :: doc
  ev_ancestry :: doc
  ev_payload :: doc
  ev_source :: doc
  ev_version :: doc
  ev_host :: doc
  ev_boot :: doc
  ev_agent :: doc
  ev_session :: doc

definition get_or :: "rat pymap \<Rightarrow> string \<Rightarrow> doc \<Rightarrow> doc" where
  "get_or d k other = (case map_of d k of None \<Rightarrow> other | Some v \<Rightarrow> v)"

definition copy_keys :: "rat pymap \<Rightarrow> string list \<Rightarrow> doc" where
  "copy_keys raw keys = PDict (map (\<lambda>k. (k, dget raw k)) keys)"

definition build_payload :: "event_kind \<Rightarrow> rat pymap \<Rightarrow> doc" where
  "build_payload kind raw =
     (if kind = Process_Exec then copy_keys raw [''filename'']
      else if kind = Tcp_Connect then copy_keys raw [''dest_ip'', ''dest_port'']
      else if kind = File_Open \<or> kind = File_Write then
        (let filename = get_or raw ''filename'' (dget raw ''path'') in
         PDict [(''filename'', filename), (''path'', get_or raw ''path'' filename),
                (''operation'', dget raw ''operation''), (''success'', dget raw ''success'')])
      else if kind = Auth_Session then copy_keys raw [''action'', ''result'', ''service'', ''account'', ''message'']
      else if kind = Service_State then copy_keys raw [''unit'', ''reporter_unit'', ''action'', ''result'', ''message'']
      else if kind = Ipc_Event then
        copy_keys raw [''action'', ''kind'', ''endpoint'', ''read_fd'', ''write_fd'', ''success'', ''errno'']
      else if kind = System_Health then copy_keys raw [''cpu_percent'', ''mem_percent'', ''disk_percent'', ''mem_available_mb'']
      else copy_keys raw [''message''])"

definition list_or_empty :: "doc \<Rightarrow> doc" where
  "list_or_empty v = (if is_list v then v else PList [])"

definition from_raw_json :: "rat pymap \<Rightarrow> event option" where
  "from_raw_json raw =
     (case event_type_of (get_or raw ''event_type'' (PStr '''')) of
        None \<Rightarrow> None
      | Some kind \<Rightarrow> Some
          \<lparr>ev_kind = kind, ev_timestamp = get_or raw ''timestamp'' (PFloat 0),
           ev_timestamp_ns = dget raw ''timestamp_ns'', ev_monotonic = dget raw ''timestamp_monotonic'',
           ev_pid = dget raw ''pid'', ev_ppid = dget raw ''ppid'', ev_uid = dget raw ''uid'', ev_gid = dget raw ''gid'',
           ev_comm = dget raw ''comm'',
           ev_executable = (if truthy (dget raw ''executable'') then dget raw ''executable'' else dget raw ''filename''),
           ev_parent_comm = dget raw ''parent_comm'', ev_ancestry = list_or_empty (get_or raw ''ancestry'' (PList [])),
           ev_payload = build_payload kind raw, ev_source = get_or raw ''source'' (PStr ''telemetry_bcc''),
           ev_version = get_or raw ''version'' (PStr ''1.0''), ev_host = dget raw ''host_id'', ev_boot = dget raw ''boot_id'',
           ev_agent = dget raw ''agent_id'', ev_session = dget raw ''session_id''\<rparr>)"

section \<open>Normalization\<close>

text \<open>What \<^verbatim>\<open>pipeline/identity.py\<close> reports for the running agent.\<close>

record identity =
  id_host :: "string option"
  id_boot :: "string option"
  id_agent :: "string option"
  id_session :: "string option"

definition opt_doc :: "string option \<Rightarrow> doc" where
  "opt_doc v = (case v of None \<Rightarrow> PNone | Some s \<Rightarrow> PStr s)"

definition fill :: "string \<Rightarrow> doc \<Rightarrow> rat pymap \<Rightarrow> rat pymap" where
  "fill k v raw = (if dget raw k = PNone then AList.update k v raw else raw)"

definition stamp_observation :: "identity \<Rightarrow> rat \<Rightarrow> rat pymap \<Rightarrow> rat pymap" where
  "stamp_observation ident monotonic raw =
     fill ''timestamp_monotonic'' (PFloat monotonic) (fill ''session_id'' (opt_doc (id_session ident))
       (fill ''agent_id'' (opt_doc (id_agent ident)) (fill ''boot_id'' (opt_doc (id_boot ident))
         (fill ''host_id'' (opt_doc (id_host ident)) raw))))"

definition normal_uid :: "(string \<Rightarrow> int option) \<Rightarrow> doc \<Rightarrow> py_error + doc" where
  "normal_uid parse_int v = (case v of
      PNone \<Rightarrow> Inr PNone | PInt i \<Rightarrow> Inr v | PBool b \<Rightarrow> Inr v
    | _ \<Rightarrow> (case to_int parse_int v of Inl _ \<Rightarrow> Inl (Value_Error ''uid must be numeric'') | Inr i \<Rightarrow> Inr (PInt i)))"

text \<open>The record after coercion: a copy of the caller's dictionary with the checked fields written back.\<close>

definition coerced :: "(string \<Rightarrow> int option) \<Rightarrow> rat \<Rightarrow> doc \<Rightarrow> rat pymap \<Rightarrow> rat pymap" where
  "coerced parse_int timestamp uid raw =
     (let r = AList.update ''uid'' uid (AList.update ''timestamp'' (PFloat timestamp) raw);
          r = fold (\<lambda>k r. AList.update k (coerce_int parse_int (dget r k)) r) [''pid'', ''ppid'', ''gid''] r;
          r = AList.update ''parent_comm'' (if is_str (dget r ''parent_comm'') then dget r ''parent_comm'' else PNone) r
      in AList.update ''ancestry'' (list_or_empty (get_or r ''ancestry'' (PList []))) r)"

text \<open>Every exception inside \<open>normalize\<close> is logged and gives None.\<close>

definition normalize :: "(string \<Rightarrow> rat option) \<Rightarrow> (string \<Rightarrow> int option) \<Rightarrow> identity \<Rightarrow> rat \<Rightarrow> rat pymap \<Rightarrow> event option" where
  "normalize parse_float parse_int ident monotonic raw =
     (if \<not> truthy (dget raw ''event_type'') then None
      else case coerce_float parse_float (dget raw ''timestamp'') of
        None \<Rightarrow> None
      | Some timestamp \<Rightarrow>
          (case normal_uid parse_int (dget raw ''uid'') of
             Inl _ \<Rightarrow> None
           | Inr uid \<Rightarrow> from_raw_json (stamp_observation ident monotonic (coerced parse_int timestamp uid raw))))"

section \<open>Writing\<close>

text \<open>\<open>json.dumps(value, sort_keys=True)\<close>, and the compact form the dedup key hashes.\<close>

definition dumps_sorted :: "(rat \<Rightarrow> string) \<Rightarrow> doc \<Rightarrow> string" where
  "dumps_sorted fr v = dumps fr '', '' '': '' v"

definition dumps_compact :: "(rat \<Rightarrow> string) \<Rightarrow> doc \<Rightarrow> string" where
  "dumps_compact fr v = dumps fr '','' '':'' v"

text \<open>\<open>_event_hash\<close>: \<open>H\<close> is SHA-256 of a text, in hex.\<close>

definition event_material :: "event \<Rightarrow> rat \<Rightarrow> doc" where
  "event_material e timestamp = PDict
     [(''event_type'', PStr (kind_name (ev_kind e))), (''timestamp'', PFloat timestamp),
      (''timestamp_ns'', ev_timestamp_ns e), (''pid'', ev_pid e), (''ppid'', ev_ppid e), (''uid'', ev_uid e),
      (''gid'', ev_gid e), (''comm'', ev_comm e), (''executable'', ev_executable e),
      (''parent_comm'', ev_parent_comm e), (''ancestry'', ev_ancestry e), (''payload'', ev_payload e),
      (''source'', ev_source e), (''version'', ev_version e), (''host_id'', ev_host e)]"

definition event_hash :: "(string \<Rightarrow> string) \<Rightarrow> (rat \<Rightarrow> string) \<Rightarrow> event \<Rightarrow> rat \<Rightarrow> string" where
  "event_hash H fr e timestamp = H (dumps_compact fr (event_material e timestamp))"

text \<open>Declared column types of the \<open>events\<close> table, in the order of \<open>EVENT_INSERT_SQL\<close>.\<close>

datatype column_type = Integer_Column | Real_Column | Text_Column

definition event_columns :: "(string \<times> column_type) list" where
  "event_columns =
     [(''event_type'', Text_Column), (''timestamp'', Real_Column), (''timestamp_ns'', Integer_Column),
      (''timestamp_monotonic'', Real_Column), (''pid'', Integer_Column), (''ppid'', Integer_Column),
      (''uid'', Integer_Column), (''gid'', Integer_Column), (''comm'', Text_Column), (''executable'', Text_Column),
      (''parent_comm'', Text_Column), (''ancestry_json'', Text_Column), (''source'', Text_Column),
      (''version'', Text_Column), (''payload_json'', Text_Column), (''event_hash'', Text_Column),
      (''host_id'', Text_Column), (''boot_id'', Text_Column), (''agent_id'', Text_Column), (''session_id'', Text_Column)]"

text \<open>The bind parameters of one event; \<open>float(event.timestamp)\<close> is the only step that can fail on a document.\<close>

definition event_binds :: "(string \<Rightarrow> rat option) \<Rightarrow> (string \<Rightarrow> string) \<Rightarrow> (rat \<Rightarrow> string) \<Rightarrow> event \<Rightarrow> py_error + doc list" where
  "event_binds parse_float H fr e =
     (case to_float parse_float (ev_timestamp e) of
        Inl _ \<Rightarrow> Inl (Value_Error ''event timestamp must be numeric'')
      | Inr timestamp \<Rightarrow> Inr
          [PStr (kind_name (ev_kind e)), PFloat timestamp, ev_timestamp_ns e, ev_monotonic e, ev_pid e, ev_ppid e,
           ev_uid e, ev_gid e, ev_comm e, ev_executable e, ev_parent_comm e, PStr (dumps_sorted fr (ev_ancestry e)),
           ev_source e, ev_version e, PStr (dumps_sorted fr (ev_payload e)), PStr (event_hash H fr e timestamp),
           ev_host e, ev_boot e, ev_agent e, ev_session e])"

text \<open>Binding one parameter in \<open>sqlite3\<close>: lists and dictionaries are refused, and integers beyond 64 bits.\<close>

datatype bind_error = Unsupported_Type | Integer_Overflow

definition bind_value :: "doc \<Rightarrow> bind_error + sqlval" where
  "bind_value v = (case v of
      PNone \<Rightarrow> Inr SNull
    | PBool b \<Rightarrow> Inr (SInt (if b then 1 else 0))
    | PInt i \<Rightarrow> if - (2 ^ 63) \<le> i \<and> i < 2 ^ 63 then Inr (SInt i) else Inl Integer_Overflow
    | PFloat q \<Rightarrow> Inr (SReal q)
    | PStr s \<Rightarrow> Inr (SText s)
    | _ \<Rightarrow> Inl Unsupported_Type)"

fun bind_all :: "doc list \<Rightarrow> bind_error + sqlval list" where
  "bind_all [] = Inr []"
| "bind_all (v # vs) =
     (case bind_value v of
        Inl err \<Rightarrow> Inl err
      | Inr x \<Rightarrow> (case bind_all vs of Inl err \<Rightarrow> Inl err | Inr xs \<Rightarrow> Inr (x # xs)))"

text \<open>\<open>affinity\<close> is SQLite's conversion of a value stored in a column of a declared type.\<close>

definition stored_columns :: "(column_type \<Rightarrow> sqlval \<Rightarrow> sqlval) \<Rightarrow> sqlval list \<Rightarrow> row" where
  "stored_columns affinity xs = map_of (map (\<lambda>((name, ty), x). (name, affinity ty x)) (zip event_columns xs))"

record write_env =
  we_parse_float :: "string \<Rightarrow> rat option"
  we_hash :: "string \<Rightarrow> string"
  we_repr :: "rat \<Rightarrow> string"
  we_affinity :: "column_type \<Rightarrow> sqlval \<Rightarrow> sqlval"

text \<open>
  The event as the batch writer of \<open>Event_Store\<close> takes it: its columns hold the dedup key, which
  \<open>column_hash\<close> reads. An unbindable event has no columns; \<open>write_batch\<close> stops before it is used.
\<close>

definition to_event_in :: "write_env \<Rightarrow> event \<Rightarrow> event_in" where
  "to_event_in env e =
     \<lparr>in_type = Some (kind_name (ev_kind e)),
      in_timestamp = (case to_float (we_parse_float env) (ev_timestamp e) of Inl _ \<Rightarrow> None | Inr q \<Rightarrow> Some q),
      in_columns = (case event_binds (we_parse_float env) (we_hash env) (we_repr env) e of
          Inl _ \<Rightarrow> Inr (\<lambda>_. None)
        | Inr vs \<Rightarrow> (case bind_all vs of Inl _ \<Rightarrow> Inr (\<lambda>_. None) | Inr xs \<Rightarrow> Inr (stored_columns (we_affinity env) xs)))\<rparr>"

definition column_hash :: "string \<Rightarrow> rat \<Rightarrow> row \<Rightarrow> string" where
  "column_hash ty timestamp columns = (case rget columns ''event_hash'' of SText h \<Rightarrow> h | _ \<Rightarrow> '''')"

definition bind_failure :: "write_env \<Rightarrow> event \<Rightarrow> bind_error option" where
  "bind_failure env e =
     (case event_binds (we_parse_float env) (we_hash env) (we_repr env) e of
        Inl _ \<Rightarrow> None
      | Inr vs \<Rightarrow> (case bind_all vs of Inl err \<Rightarrow> Some err | Inr _ \<Rightarrow> None))"

text \<open>
  \<open>write_events\<close> with the binding step: events without a numeric timestamp are set aside first, then
  \<open>executemany\<close> raises at the first value SQLite cannot take and the transaction rolls back.
\<close>

definition write_batch :: "write_env \<Rightarrow> event list \<Rightarrow> event_table \<Rightarrow> bind_error + (batch_result \<times> event_table)" where
  "write_batch env events t =
     (case List.map_filter (bind_failure env) events of
        err # _ \<Rightarrow> Inl err
      | [] \<Rightarrow> Inr (write_events column_hash (map (Some \<circ> to_event_in env) events) t))"

section \<open>Reading\<close>

definition unbind :: "sqlval \<Rightarrow> doc" where
  "unbind v = (case v of SNull \<Rightarrow> PNone | SInt i \<Rightarrow> PInt i | SReal q \<Rightarrow> PFloat q | SText s \<Rightarrow> PStr s)"

definition load_column :: "(string \<Rightarrow> rat option) \<Rightarrow> doc \<Rightarrow> sqlval \<Rightarrow> py_error + doc" where
  "load_column pf other v =
     (if \<not> truthy (unbind v) then Inr other
      else case v of
        SText s \<Rightarrow> (case loads pf s of None \<Rightarrow> Inl (Value_Error ''JSONDecodeError'') | Some d \<Rightarrow> Inr d)
      | _ \<Rightarrow> Inl (Type_Error ''the JSON object must be str, bytes or bytearray''))"

definition or_else :: "doc \<Rightarrow> doc \<Rightarrow> doc" where
  "or_else v other = (if truthy v then v else other)"

definition row_to_event :: "(string \<Rightarrow> rat option) \<Rightarrow> (string \<Rightarrow> rat option) \<Rightarrow> row \<Rightarrow> py_error + event" where
  "row_to_event parse_float pf r =
     (case load_column pf (PDict []) (rget r ''payload_json'') of
        Inl err \<Rightarrow> Inl err
      | Inr payload \<Rightarrow>
          (case event_type_of (if rget r ''event_type'' = SNull then PStr ''process_exec'' else unbind (rget r ''event_type'')) of
             None \<Rightarrow> Inl (Value_Error ''not a valid EventType'')
           | Some kind \<Rightarrow>
               (case to_float parse_float (unbind (rget r ''timestamp'')) of
                  Inl err \<Rightarrow> Inl err
                | Inr timestamp \<Rightarrow>
                    (case load_column pf (PList []) (rget r ''ancestry_json'') of
                       Inl err \<Rightarrow> Inl err
                     | Inr ancestry \<Rightarrow> Inr
                         \<lparr>ev_kind = kind, ev_timestamp = PFloat timestamp, ev_timestamp_ns = unbind (rget r ''timestamp_ns''),
                          ev_monotonic = unbind (rget r ''timestamp_monotonic''), ev_pid = unbind (rget r ''pid''),
                          ev_ppid = unbind (rget r ''ppid''), ev_uid = unbind (rget r ''uid''), ev_gid = unbind (rget r ''gid''),
                          ev_comm = unbind (rget r ''comm''), ev_executable = unbind (rget r ''executable''),
                          ev_parent_comm = unbind (rget r ''parent_comm''),
                          ev_ancestry = (if ancestry = PNone then PList [] else ancestry),
                          ev_payload = (if payload = PNone then PDict [] else payload),
                          ev_source = or_else (unbind (rget r ''source'')) (PStr ''telemetry_bcc''),
                          ev_version = or_else (unbind (rget r ''version'')) (PStr ''1.0''),
                          ev_host = unbind (rget r ''host_id''), ev_boot = unbind (rget r ''boot_id''),
                          ev_agent = unbind (rget r ''agent_id''), ev_session = unbind (rget r ''session_id'')\<rparr>))))"

end
