(* ===== verification/Event_Identity.thy ===== *)
theory Event_Identity
  imports Event_Stream
begin

text \<open>
  What the path from a telemetry record to the \<open>events\<close> table keeps: the types of a normalised event,
  the round trip through a row, the fields the deduplication key sees, and what an event SQLite cannot
  bind does to its batch.
\<close>

section \<open>Rows\<close>

text \<open>Documented behaviour of column affinity: a value of the column's own class, and NULL, are kept.\<close>

definition affinity_ok :: "(column_type \<Rightarrow> sqlval \<Rightarrow> sqlval) \<Rightarrow> bool" where
  "affinity_ok affinity \<longleftrightarrow> (\<forall>ty. affinity ty SNull = SNull) \<and> (\<forall>i. affinity Integer_Column (SInt i) = SInt i) \<and>
     (\<forall>q. affinity Real_Column (SReal q) = SReal q) \<and> (\<forall>s. affinity Text_Column (SText s) = SText s)"

text \<open>The declared type of a column, as a test on the Python value; integers within 64 bits.\<close>

definition fits :: "column_type \<Rightarrow> doc \<Rightarrow> bool" where
  "fits ty v = (case v of
      PNone \<Rightarrow> True
    | PInt i \<Rightarrow> ty = Integer_Column \<and> - (2 ^ 63) \<le> i \<and> i < 2 ^ 63
    | PFloat _ \<Rightarrow> ty = Real_Column
    | PStr _ \<Rightarrow> ty = Text_Column
    | _ \<Rightarrow> False)"

text \<open>An event whose fields have the types its dataclass declares, within 64 bits.\<close>

definition event_storable :: "event \<Rightarrow> bool" where
  "event_storable e \<longleftrightarrow> ev_timestamp e \<noteq> PNone \<and> list_all (fits Real_Column) [ev_timestamp e, ev_monotonic e] \<and>
     list_all (fits Integer_Column) [ev_timestamp_ns e, ev_pid e, ev_ppid e, ev_uid e, ev_gid e] \<and>
     list_all (fits Text_Column) [ev_comm e, ev_executable e, ev_parent_comm e, ev_source e, ev_version e,
       ev_host e, ev_boot e, ev_agent e, ev_session e] \<and>
     truthy (ev_source e) \<and> truthy (ev_version e) \<and>
     is_list (ev_ancestry e) \<and> doc_ok (ev_ancestry e) \<and>
     (case ev_payload e of PDict _ \<Rightarrow> doc_ok (ev_payload e) | _ \<Rightarrow> False)"

lemma kind_of_name: "event_type_of (PStr (kind_name k)) = Some k"
  by (cases k) (simp_all add: event_type_of_def event_kinds_def kind_name_def)

lemma bind_fits: "affinity_ok affinity \<Longrightarrow> fits ty v \<Longrightarrow> \<exists>x. bind_value v = Inr x \<and> unbind (affinity ty x) = v"
  by (auto simp: fits_def bind_value_def unbind_def affinity_ok_def split: pyobj.splits)

lemma bind_all_fits:
  "list_all2 fits tys vs \<Longrightarrow> affinity_ok affinity \<Longrightarrow>
   \<exists>xs. bind_all vs = Inr xs \<and> list_all2 (\<lambda>(ty, x) v. unbind (affinity ty x) = v) (zip tys xs) vs \<and> length xs = length tys"
proof (induction rule: list_all2_induct)
  case (Cons ty tys v vs)
  obtain x where "bind_value v = Inr x" "unbind (affinity ty x) = v" using bind_fits Cons by blast
  moreover obtain xs where "bind_all vs = Inr xs" "list_all2 (\<lambda>(ty, x) v. unbind (affinity ty x) = v) (zip tys xs) vs"
      "length xs = length tys"
    using Cons by blast
  ultimately show ?case by (intro exI [of _ "x # xs"]) simp
qed simp

lemma stored_column:
  assumes "length xs = length event_columns" and "i < length event_columns"
  shows "rget (stored_columns affinity xs) (fst (event_columns ! i)) = affinity (snd (event_columns ! i)) (xs ! i)"
proof -
  have d: "distinct (map fst (map (\<lambda>((name, ty), x). (name, affinity ty x)) (zip event_columns xs)))"
  proof -
    have "map fst (map (\<lambda>((name, ty), x). (name, affinity ty x)) (zip event_columns xs)) = map fst event_columns"
      using assms(1) by (intro nth_equalityI) (auto simp: split_beta)
    then show ?thesis by (simp add: event_columns_def)
  qed
  have "(fst (event_columns ! i), affinity (snd (event_columns ! i)) (xs ! i)) \<in>
      set (map (\<lambda>((name, ty), x). (name, affinity ty x)) (zip event_columns xs))"
    using assms by (force simp: set_zip split_beta)
  from map_of_is_SomeI [OF d this] show ?thesis by (simp add: rget_def stored_columns_def)
qed

text \<open>Reading every column of a row whose values fit gives the values that were bound.\<close>

lemma columns_read:
  assumes "affinity_ok affinity" and "list_all2 fits (map snd event_columns) vs"
  shows "\<exists>xs. bind_all vs = Inr xs \<and> list_all2 (\<lambda>name v. unbind (rget (stored_columns affinity xs) name) = v) (map fst event_columns) vs"
proof -
  obtain xs where xs: "bind_all vs = Inr xs" "length xs = length event_columns"
      "list_all2 (\<lambda>(ty, x) v. unbind (affinity ty x) = v) (zip (map snd event_columns) xs) vs"
    using bind_all_fits [OF assms(2,1)] by auto
  with stored_column [OF xs(2)] show ?thesis by (auto simp: list_all2_conv_all_nth)
qed

lemma unbind_iff: "unbind x = PNone \<longleftrightarrow> x = SNull" "unbind x = PInt i \<longleftrightarrow> x = SInt i" "unbind x = PFloat q \<longleftrightarrow> x = SReal q"
    "unbind x = PStr s \<longleftrightarrow> x = SText s"
  by (cases x; simp add: unbind_def)+

lemma spaced_separators: "separator CHR '','' '', ''" "separator CHR '':'' '': ''"
    "separator CHR '','' '',''" "separator CHR '':'' '':''"
  by (simp_all add: separator_def json_ws_def)

lemma load_dumped:
  assumes "float_text_ok fr pf" and "doc_ok v"
  shows "load_column pf other (SText (dumps_sorted fr v)) = Inr (canon v)"
proof -
  have "dumps_sorted fr v \<noteq> []" using render_hd [OF assms(1)] by (simp add: dumps_sorted_def dumps_def)
  then show ?thesis using loads_dumps [OF assms(1) spaced_separators(1,2) assms(2)]
    by (simp add: load_column_def unbind_def truthy_def dumps_sorted_def)
qed

definition event_of_row :: "write_env \<Rightarrow> (string \<Rightarrow> rat option) \<Rightarrow> event_in \<Rightarrow> py_error + event" where
  "event_of_row env pf e = (case in_columns e of Inl m \<Rightarrow> Inl (Type_Error m) | Inr r \<Rightarrow> row_to_event (we_parse_float env) pf r)"

text \<open>C16: An event survives the database. An event whose fields have their declared types (integers in 64
bits, a non-empty source and version) binds without failure, and reading its row gives it back: every
field equal, the payload and the ancestry equal up to the order of object keys.\<close>

theorem event_round_trip:
  assumes "float_text_ok (we_repr env) pf" and "affinity_ok (we_affinity env)" and "event_storable e"
  shows "bind_failure env e = None \<and>
    event_of_row env pf (to_event_in env e) = Inr (e\<lparr>ev_ancestry := canon (ev_ancestry e), ev_payload := canon (ev_payload e)\<rparr>)"
proof -
  obtain q where q: "ev_timestamp e = PFloat q"
    using assms(3) by (auto simp: event_storable_def fits_def split: pyobj.splits)
  obtain d where d: "ev_payload e = PDict d" "doc_ok (ev_payload e)"
    using assms(3) by (auto simp: event_storable_def split: pyobj.splits)
  obtain xs where xs: "ev_ancestry e = PList xs" "doc_ok (ev_ancestry e)"
    using assms(3) by (auto simp: event_storable_def is_list_def split: pyobj.splits)
  have l: "load_column pf other (SText (dumps_sorted (we_repr env) (ev_ancestry e))) = Inr (canon (ev_ancestry e))"
    "load_column pf other (SText (dumps_sorted (we_repr env) (ev_payload e))) = Inr (canon (ev_payload e))"
    "canon (ev_ancestry e) \<noteq> PNone" "canon (ev_payload e) \<noteq> PNone" for other
    using load_dumped [OF assms(1)] d xs by simp_all
  obtain vs where vs: "event_binds (we_parse_float env) (we_hash env) (we_repr env) e = Inr vs"
      "list_all2 fits (map snd event_columns) vs"
    using assms(3) q by (simp add: event_binds_def to_float_def event_columns_def event_storable_def) (simp add: fits_def)
  then obtain ys where ys: "bind_all vs = Inr ys"
      "list_all2 (\<lambda>name v. unbind (rget (stored_columns (we_affinity env) ys) name) = v) (map fst event_columns) vs"
    using columns_read [OF assms(2)] by blast
  have "vs = [PStr (kind_name (ev_kind e)), PFloat q, ev_timestamp_ns e, ev_monotonic e, ev_pid e, ev_ppid e, ev_uid e,
      ev_gid e, ev_comm e, ev_executable e, ev_parent_comm e, PStr (dumps_sorted (we_repr env) (ev_ancestry e)), ev_source e,
      ev_version e, PStr (dumps_sorted (we_repr env) (ev_payload e)), PStr (event_hash (we_hash env) (we_repr env) e q),
      ev_host e, ev_boot e, ev_agent e, ev_session e]"
    using vs(1) by (simp add: event_binds_def q to_float_def)
  note c = ys(2) [unfolded this event_columns_def, simplified, unfolded unbind_iff]
  have t: "truthy (ev_source e)" "truthy (ev_version e)" using assms(3) by (simp_all add: event_storable_def)
  have u: "unbind (SText s) = PStr s" "unbind (SReal r) = PFloat r" for s r by (simp_all add: unbind_def)
  have "row_to_event (we_parse_float env) pf (stored_columns (we_affinity env) ys) =
      Inr (e\<lparr>ev_ancestry := canon (ev_ancestry e), ev_payload := canon (ev_payload e)\<rparr>)"
    by (simp add: row_to_event_def c kind_of_name l to_float_def q or_else_def t u)
  with vs ys(1) show ?thesis by (simp add: event_of_row_def to_event_in_def bind_failure_def)
qed

section \<open>Reading a coerced record\<close>

lemma dget_update: "dget (AList.update k v d) j = (if j = k then v else dget d j)"
  by (simp add: dget_def update_conv)

lemma get_or_update: "get_or (AList.update k v d) j other = (if j = k then v else get_or d j other)"
  by (simp add: get_or_def update_conv)

lemma dget_fill: "dget (fill k v d) j = (if j = k \<and> dget d k = PNone then v else dget d j)"
  by (simp add: fill_def dget_update)

lemma get_or_fill: "j \<noteq> k \<Longrightarrow> get_or (fill k v d) j other = get_or d j other"
  by (simp add: fill_def get_or_update)

lemmas field_reads = dget_update get_or_update dget_fill get_or_fill

definition stamped :: "identity \<Rightarrow> rat \<Rightarrow> rat pymap \<Rightarrow> event \<Rightarrow> event" where
  "stamped ident monotonic r e = e\<lparr>ev_monotonic := dget (fill ''timestamp_monotonic'' (PFloat monotonic) r) ''timestamp_monotonic'',
     ev_host := dget (fill ''host_id'' (opt_doc (id_host ident)) r) ''host_id'',
     ev_boot := dget (fill ''boot_id'' (opt_doc (id_boot ident)) r) ''boot_id'',
     ev_agent := dget (fill ''agent_id'' (opt_doc (id_agent ident)) r) ''agent_id'',
     ev_session := dget (fill ''session_id'' (opt_doc (id_session ident)) r) ''session_id''\<rparr>"

text \<open>The stamp touches the five identity fields only.\<close>

lemma from_raw_stamped:
  "from_raw_json (stamp_observation ident monotonic r) = map_option (stamped ident monotonic r) (from_raw_json r)"
proof -
  have "build_payload kind (stamp_observation ident monotonic r) = build_payload kind r" for kind
    by (simp add: build_payload_def copy_keys_def stamp_observation_def field_reads Let_def)
  moreover have "get_or (stamp_observation ident monotonic r) ''event_type'' other = get_or r ''event_type'' other" for other
    by (simp add: stamp_observation_def field_reads)
  ultimately show ?thesis
    by (cases "event_type_of (get_or r ''event_type'' (PStr ''''))")
      (simp_all add: from_raw_json_def stamped_def stamp_observation_def field_reads)
qed

lemma normalize_Some:
  assumes "normalize parse_float parse_int ident monotonic raw = Some e"
  obtains timestamp uid e0 where "coerce_float parse_float (dget raw ''timestamp'') = Some timestamp"
    "normal_uid parse_int (dget raw ''uid'') = Inr uid"
    "from_raw_json (coerced parse_int timestamp uid raw) = Some e0"
    "e = stamped ident monotonic (coerced parse_int timestamp uid raw) e0"
  using assms by (auto simp: normalize_def from_raw_stamped split: if_splits option.splits sum.splits)

text \<open>A normalised event is typed. Whatever JSON object the normaliser accepts, the event it returns
has a float timestamp, process and group ids that are integers or absent, a user id that is an
integer, a boolean or absent, a textual parent name or none, a list of ancestors, an object as
payload with distinct keys, and a monotonic reading and host unless this host has no identity.\<close>

theorem normalised_event_is_typed:
  assumes "normalize parse_float parse_int ident monotonic raw = Some e"
  shows "(case ev_timestamp e of PFloat _ \<Rightarrow> True | _ \<Rightarrow> False) \<and>
    list_all (\<lambda>v. case v of PNone \<Rightarrow> True | PInt _ \<Rightarrow> True | _ \<Rightarrow> False) [ev_pid e, ev_ppid e, ev_gid e] \<and>
    (case ev_uid e of PNone \<Rightarrow> True | PInt _ \<Rightarrow> True | PBool _ \<Rightarrow> True | _ \<Rightarrow> False) \<and>
    (case ev_parent_comm e of PNone \<Rightarrow> True | PStr _ \<Rightarrow> True | _ \<Rightarrow> False) \<and> is_list (ev_ancestry e) \<and>
    (case ev_payload e of PDict d \<Rightarrow> distinct (map fst d) | _ \<Rightarrow> False) \<and> ev_monotonic e \<noteq> PNone \<and>
    (ev_host e = PNone \<longrightarrow> id_host ident = None)"
proof -
  obtain q uid e0 where n: "normal_uid parse_int (dget raw ''uid'') = Inr uid"
      "from_raw_json (coerced parse_int q uid raw) = Some e0" "e = stamped ident monotonic (coerced parse_int q uid raw) e0"
    using normalize_Some [OF assms] by metis
  let ?c = "coerced parse_int q uid raw"
  have reads: "get_or ?c ''timestamp'' other = PFloat q" "dget ?c ''uid'' = uid"
      "dget ?c ''pid'' = coerce_int parse_int (dget raw ''pid'')" "dget ?c ''ppid'' = coerce_int parse_int (dget raw ''ppid'')"
      "dget ?c ''gid'' = coerce_int parse_int (dget raw ''gid'')"
      "is_list (get_or ?c ''ancestry'' other)" "dget ?c ''parent_comm'' = (if is_str (dget raw ''parent_comm'') then dget raw ''parent_comm'' else PNone)"
      for other
    by (simp_all add: coerced_def Let_def field_reads list_or_empty_def is_list_def)
  have uid: "case uid of PNone \<Rightarrow> True | PInt _ \<Rightarrow> True | PBool _ \<Rightarrow> True | _ \<Rightarrow> False"
    using n(1) by (auto simp: normal_uid_def split: pyobj.splits sum.splits)
  have int: "case coerce_int parse_int v of PNone \<Rightarrow> True | PInt _ \<Rightarrow> True | _ \<Rightarrow> False" for v
    by (auto simp: coerce_int_def split: pyobj.splits sum.splits)
  have pay: "case build_payload kind r of PDict d \<Rightarrow> distinct (map fst d) | _ \<Rightarrow> False" for kind r
    by (simp add: build_payload_def copy_keys_def Let_def)
  obtain kind where e0: "ev_timestamp e0 = PFloat q" "ev_uid e0 = uid" "ev_pid e0 = coerce_int parse_int (dget raw ''pid'')"
      "ev_ppid e0 = coerce_int parse_int (dget raw ''ppid'')" "ev_gid e0 = coerce_int parse_int (dget raw ''gid'')"
      "is_list (ev_ancestry e0)" "ev_payload e0 = build_payload kind ?c"
      "ev_parent_comm e0 = (if is_str (dget raw ''parent_comm'') then dget raw ''parent_comm'' else PNone)"
    using n(2) by (auto simp: from_raw_json_def reads list_or_empty_def split: option.splits)
  have host: "opt_doc x = PNone \<longleftrightarrow> x = None" for x by (cases x) (simp_all add: opt_doc_def)
  show ?thesis using uid int pay
    by (auto simp: n(3) stamped_def e0 dget_fill host is_str_def split: pyobj.splits if_splits)
qed

section \<open>The deduplication key\<close>

text \<open>The fields of an event the key is computed from.\<close>

definition key_fields :: "event \<Rightarrow> doc list" where
  "key_fields e = [PStr (kind_name (ev_kind e)), ev_timestamp e, ev_timestamp_ns e, ev_pid e, ev_ppid e, ev_uid e, ev_gid e,
     ev_comm e, ev_executable e, ev_parent_comm e, ev_ancestry e, ev_payload e, ev_source e, ev_version e, ev_host e]"

definition key_names :: "string list" where
  "key_names = [''event_type'', ''timestamp'', ''timestamp_ns'', ''pid'', ''ppid'', ''uid'', ''gid'', ''comm'', ''executable'',
     ''parent_comm'', ''ancestry'', ''payload'', ''source'', ''version'', ''host_id'']"

lemma material_fields: "ev_timestamp e = PFloat q \<Longrightarrow> event_material e q = PDict (zip key_names (key_fields e))"
  by (simp add: event_material_def key_names_def key_fields_def)

lemma canon_dict_eq:
  assumes "distinct ks" and "length xs = length ks" and "length ys = length ks"
  shows "canon (PDict (zip ks xs)) = canon (PDict (zip ks ys)) \<longleftrightarrow> map canon xs = map canon ys"
proof -
  have c: "canon (PDict (zip ks zs)) = PDict (sort_key fst (zip ks (map canon zs)))" for zs by (simp add: zip_map2)
  have "map canon xs = map canon ys" if "sort_key fst (zip ks (map canon xs)) = sort_key fst (zip ks (map canon ys))"
  proof (rule nth_equalityI)
    have s: "set (zip ks (map canon xs)) = set (zip ks (map canon ys))" using arg_cong [OF that, of set] by simp
    fix i assume "i < length (map canon xs)"
    then have i: "i < length ks" using assms(2) by simp
    then have "(ks ! i, map canon xs ! i) \<in> set (zip ks (map canon xs))" using assms(2) by (force simp: set_zip)
    with s obtain j where "j < length ks" "ks ! i = ks ! j" "map canon xs ! i = map canon ys ! j"
      using assms(3) by (auto simp: set_zip)
    with i assms(1) show "map canon xs ! i = map canon ys ! i" by (simp add: nth_eq_iff_index_eq)
  qed (use assms in simp)
  then show ?thesis unfolding c by auto
qed


section \<open>Ingesting again\<close>

definition normalize_all :: "(string \<Rightarrow> rat option) \<Rightarrow> (string \<Rightarrow> int option) \<Rightarrow> identity \<Rightarrow> (rat pymap \<times> rat) list \<Rightarrow> event list" where
  "normalize_all parse_float parse_int ident raws =
     List.map_filter (\<lambda>(raw, monotonic). normalize parse_float parse_int ident monotonic raw) raws"

lemma normalize_host_only:
  assumes "id_host i1 = id_host i2"
  shows "map_option key_fields (normalize pfl pin i1 m1 raw) = map_option key_fields (normalize pfl pin i2 m2 raw)"
  unfolding normalize_def from_raw_stamped
  by (auto simp: stamped_def key_fields_def dget_fill assms option.map_comp comp_def split: option.splits sum.splits)

lemma normalize_all_keys:
  assumes "id_host i1 = id_host i2"
  shows "map fst r1 = map fst r2 \<Longrightarrow> map key_fields (normalize_all pfl pin i1 r1) = map key_fields (normalize_all pfl pin i2 r2)"
proof (induction r1 arbitrary: r2)
  case Nil
  then show ?case by (simp add: normalize_all_def List.map_filter_simps)
next
  case (Cons x r1)
  then obtain y ys where r2: "r2 = y # ys" "fst x = fst y" "map fst r1 = map fst ys" by (cases r2) auto
  show ?case
    using Cons.IH [OF r2(3)] normalize_host_only [OF assms, of pfl pin "snd x" "fst y" "snd y"]
    by (cases "normalize pfl pin i1 (snd x) (fst y)"; cases "normalize pfl pin i2 (snd y) (fst y)")
      (simp_all add: r2 normalize_all_def List.map_filter_simps split_beta)
qed

lemma bind_all_nth: "bind_all vs = Inr xs \<Longrightarrow> length xs = length vs \<and> (\<forall>i < length vs. bind_value (vs ! i) = Inr (xs ! i))"
proof (induction vs arbitrary: xs)
  case (Cons v vs)
  then show ?case by (auto simp: nth_Cons less_Suc_eq_0_disj split: sum.splits)
qed simp

lemma hash_column:
  assumes "affinity_ok (we_affinity env)" and "event_row column_hash (to_event_in env e) = Inr row" and "bind_failure env e = None"
  shows "\<exists>q. to_float (we_parse_float env) (ev_timestamp e) = Inr q \<and> se_hash (row i) = event_hash (we_hash env) (we_repr env) e q"
proof -
  obtain q where q: "to_float (we_parse_float env) (ev_timestamp e) = Inr q"
    using assms(2) by (auto simp: event_row_def to_event_in_def split: sum.splits)
  obtain vs where vs: "event_binds (we_parse_float env) (we_hash env) (we_repr env) e = Inr vs"
      "length vs = 20" "vs ! 15 = PStr (event_hash (we_hash env) (we_repr env) e q)"
    by (simp add: event_binds_def q)
  obtain xs where xs: "bind_all vs = Inr xs" using assms(3) vs(1) by (auto simp: bind_failure_def split: sum.splits)
  have len: "length xs = length event_columns" "15 < length event_columns" and x: "bind_value (vs ! 15) = Inr (xs ! 15)"
    using bind_all_nth [OF xs] vs(2) by (simp_all add: event_columns_def)
  have "rget (stored_columns (we_affinity env) xs) ''event_hash'' = we_affinity env Text_Column (xs ! 15)"
    using stored_column [OF len, of "we_affinity env"] by (simp add: event_columns_def)
  also have "\<dots> = SText (event_hash (we_hash env) (we_repr env) e q)"
  proof -
    have "xs ! 15 = SText (event_hash (we_hash env) (we_repr env) e q)" using x vs(3) by (simp add: bind_value_def)
    then show ?thesis using assms(1) by (simp only: affinity_ok_def)
  qed
  finally show ?thesis
    using assms(2) q vs(1) xs by (auto simp: event_row_def to_event_in_def column_hash_def)
qed

lemma encoded_rows: "row \<in> set (fst (encode_batch hash (map (Some \<circ> f) es))) \<longleftrightarrow> (\<exists>e \<in> set es. event_row hash (f e) = Inr row)"
  by (induction es) (auto simp: Let_def split_beta split: sum.splits)

lemma write_batch_Inr:
  assumes "write_batch env es t = Inr (res, t')"
  shows "\<forall>e \<in> set es. bind_failure env e = None" and "write_events column_hash (map (Some \<circ> to_event_in env) es) t = (res, t')"
proof -
  have "List.map_filter (bind_failure env) es = []" using assms by (auto simp: write_batch_def split: list.splits)
  then show "\<forall>e \<in> set es. bind_failure env e = None"
    by (induction es) (auto simp: List.map_filter_simps split: option.splits)
  show "write_events column_hash (map (Some \<circ> to_event_in env) es) t = (res, t')"
    using assms by (auto simp: write_batch_def split: list.splits)
qed

lemma key_fields_row:
  assumes "key_fields e1 = key_fields e2" and "affinity_ok (we_affinity env)" and "bind_failure env e1 = None" and "bind_failure env e2 = None"
    and "event_row column_hash (to_event_in env e2) = Inr row2"
  shows "\<exists>row1. event_row column_hash (to_event_in env e1) = Inr row1 \<and> se_hash (row1 i) = se_hash (row2 i)"
proof -
  have ts: "ev_timestamp e1 = ev_timestamp e2" and m: "event_material e1 q = event_material e2 q" for q
    using assms(1) by (simp_all add: key_fields_def event_material_def)
  obtain q where q: "to_float (we_parse_float env) (ev_timestamp e2) = Inr q" "se_hash (row2 i) = event_hash (we_hash env) (we_repr env) e2 q"
    using hash_column [OF assms(2,5,4)] by blast
  obtain row1 where row1: "event_row column_hash (to_event_in env e1) = Inr row1"
    using q(1) by (cases "in_columns (to_event_in env e1)")
      (auto simp: event_row_def to_event_in_def ts split: sum.splits)
  from hash_column [OF assms(2) row1 assms(3), of i] q ts row1 m show ?thesis by (auto simp: event_hash_def)
qed

text \<open>Ingesting a capture again changes nothing. When the records of a capture are normalised and
written in one agent session and then again in another on the same host (any boot, agent, login
session and monotonic clock), the second write inserts no row and leaves the table as it is: every
event it accepts is counted as a duplicate.\<close>

theorem reingestion_is_idempotent:
  assumes "affinity_ok (we_affinity env)" and "id_host i1 = id_host i2" and "map fst r1 = map fst r2"
    and "write_batch env (normalize_all pfl pin i1 r1) t = Inr (res1, t1)"
    and "write_batch env (normalize_all pfl pin i2 r2) t1 = Inr (res2, t2)"
  shows "t2 = t1 \<and> br_inserted res2 = 0 \<and> br_duplicates res2 = br_attempted res2 \<and>
    br_attempted res2 + length (br_rejected res2) = length (normalize_all pfl pin i1 r1)"
proof -
  let ?e1 = "normalize_all pfl pin i1 r1" and ?e2 = "normalize_all pfl pin i2 r2"
  have keys: "map key_fields ?e1 = map key_fields ?e2" by (rule normalize_all_keys [OF assms(2,3)])
  note w1 = write_batch_Inr [OF assms(4)] and w2 = write_batch_Inr [OF assms(5)]
  let ?rows1 = "fst (encode_batch column_hash (map (Some \<circ> to_event_in env) ?e1))"
  let ?rows2 = "fst (encode_batch column_hash (map (Some \<circ> to_event_in env) ?e2))"
  have t1: "t1 = fold insert_or_ignore ?rows1 t" using w1(2) by (auto simp: write_events_def Let_def split_beta)
  have "fold insert_or_ignore ?rows2 t1 = t1"
  proof (rule fold_known, intro ballI allI)
    fix row2 i assume "row2 \<in> set ?rows2"
    then obtain b where b: "b \<in> set ?e2" "event_row column_hash (to_event_in env b) = Inr row2"
      unfolding encoded_rows by blast
    obtain a where a: "a \<in> set ?e1" "key_fields a = key_fields b"
      using keys b(1) by (metis (no_types, lifting) imageE imageI set_map)
    obtain row1 where row1: "event_row column_hash (to_event_in env a) = Inr row1" "se_hash (row1 i) = se_hash (row2 i)"
      using key_fields_row [OF a(2) assms(1) _ _ b(2)] w1(1) w2(1) a(1) b(1) by blast
    have "row1 \<in> set ?rows1" unfolding encoded_rows using a(1) row1(1) by blast
    then have "se_hash (row1 i) \<in> set (map se_hash (et_events t1))"
      unfolding t1 by (intro fold_has_hash encode_numbered)
    then show "se_hash (row2 i) \<in> set (map se_hash (et_events t1))" using row1(2) by simp
  qed
  moreover have "length ?e2 = length ?e1" using arg_cong [OF keys, of length] by simp
  ultimately show ?thesis
    using w2(2) encode_lengths [of column_hash "map (Some \<circ> to_event_in env) ?e2"]
    by (auto simp: write_events_def Let_def split_beta)
qed

section \<open>Values SQLite cannot take\<close>

lemma bind_all_bad: "v \<in> set vs \<Longrightarrow> bind_value v = Inl err \<Longrightarrow> \<exists>err. bind_all vs = Inl err"
proof (induction vs)
  case (Cons w vs)
  then show ?case by (cases "bind_value w") (auto split: sum.splits)
qed simp

lemma batch_fails: "bind_failure env e = Some err \<Longrightarrow> \<exists>err. write_batch env (before @ e # after) t = Inl err"
  by (induction before) (auto simp: write_batch_def List.map_filter_simps split: option.splits list.splits)

lemma type_of_name: "event_type_of v = Some k \<Longrightarrow> v = PStr (kind_name k) \<and> kind_name k \<noteq> []"
  by (cases k) (auto simp: event_type_of_def find_Some_iff kind_name_def split: pyobj.splits)

text \<open>One malformed record costs the whole batch. A record with a valid type and timestamp whose
\<open>comm\<close> is a JSON list passes the normaliser, and its row is built without an exception, so the batch
writer does not set it aside; but SQLite cannot bind a list, so every batch the event is part of is
refused as a whole, whatever the other events are.\<close>

theorem unbindable_event_costs_batch:
  assumes "event_type_of (dget raw ''event_type'') = Some kind" and "coerce_float pfl (dget raw ''timestamp'') = Some q"
    and "dget raw ''uid'' = PNone" and "dget raw ''comm'' = PList xs"
  shows "\<exists>e. normalize pfl pin ident monotonic raw = Some e \<and>
    (case event_binds (we_parse_float env) (we_hash env) (we_repr env) e of Inl _ \<Rightarrow> False | Inr _ \<Rightarrow> True) \<and>
    (\<forall>before after t. \<exists>err. write_batch env (before @ e # after) t = Inl err)"
proof -
  define s where "s = kind_name kind"
  have s: "dget raw ''event_type'' = PStr s" "s \<noteq> []"
    unfolding s_def using type_of_name [OF assms(1)] by simp_all
  let ?c = "coerced pin q PNone raw"
  have g: "get_or raw ''event_type'' other = PStr s" for other
    using s(1) by (cases "map_of raw ''event_type''") (simp_all add: get_or_def dget_def)
  have c: "get_or ?c ''event_type'' other = PStr s" "get_or ?c ''timestamp'' other = PFloat q" "dget ?c ''comm'' = PList xs" for other
    by (simp_all add: coerced_def Let_def field_reads g assms(4))
  obtain e0 where e0: "from_raw_json ?c = Some e0" "ev_comm e0 = PList xs" "ev_timestamp e0 = PFloat q"
    using assms(1) by (simp add: from_raw_json_def c s(1))
  let ?e = "stamped ident monotonic ?c e0"
  have n: "normalize pfl pin ident monotonic raw = Some ?e"
    using assms(2,3) s e0(1) by (simp add: normalize_def normal_uid_def from_raw_stamped truthy_def)
  obtain vs where vs: "event_binds (we_parse_float env) (we_hash env) (we_repr env) ?e = Inr vs" "PList xs \<in> set vs"
    using e0(2,3) by (simp add: event_binds_def stamped_def to_float_def)
  have "\<exists>err. bind_failure env ?e = Some err"
    using bind_all_bad [OF vs(2)] vs(1) by (auto simp: bind_failure_def bind_value_def)
  with n vs(1) batch_fails show ?thesis by (intro exI [of _ ?e]) auto
qed

section \<open>Instances\<close>

text \<open>Identity affinity, the text itself as its digest, and one \<open>process_exec\<close> record.\<close>

definition demo_write_env :: write_env where
  "demo_write_env = \<lparr>we_parse_float = (\<lambda>_. None), we_hash = (\<lambda>s. s), we_repr = ratio_text, we_affinity = (\<lambda>_ v. v)\<rparr>"

definition demo_record :: "rat pymap" where
  "demo_record = [(''event_type'', PStr ''process_exec''), (''timestamp'', PInt 7), (''pid'', PInt 42), (''comm'', PStr ''sh'')]"

definition demo_identity :: "string \<Rightarrow> identity" where
  "demo_identity boot = \<lparr>id_host = Some ''h1'', id_boot = Some boot, id_agent = Some ''a'', id_session = None\<rparr>"

definition demo_event :: event where
  "demo_event = \<lparr>ev_kind = Process_Exec, ev_timestamp = PFloat 7, ev_timestamp_ns = PNone, ev_monotonic = PFloat 1, ev_pid = PInt 42,
     ev_ppid = PNone, ev_uid = PNone, ev_gid = PNone, ev_comm = PStr ''sh'', ev_executable = PNone, ev_parent_comm = PNone,
     ev_ancestry = PList [], ev_payload = PDict [(''filename'', PNone)], ev_source = PStr ''telemetry_bcc'',
     ev_version = PStr ''1.0'', ev_host = PStr ''h1'', ev_boot = PStr ''b1'', ev_agent = PStr ''a'', ev_session = PNone\<rparr>"

lemma demo_affinity: "affinity_ok (we_affinity demo_write_env)"
  by (simp add: affinity_ok_def demo_write_env_def)

lemma demo_normalized:
  "normalize (\<lambda>_. None) (\<lambda>_. None) (demo_identity boot) m demo_record = Some (demo_event\<lparr>ev_monotonic := PFloat m, ev_boot := PStr boot\<rparr>)"
  by (simp add: normalize_def demo_record_def demo_identity_def demo_event_def dget_def truthy_def coerce_float_def normal_uid_def
      from_raw_json_def coerced_def Let_def stamp_observation_def fill_def opt_doc_def get_or_def event_type_of_def event_kinds_def
      kind_name_def coerce_int_def to_int_def is_str_def list_or_empty_def is_list_def build_payload_def copy_keys_def)

lemma normalised_event_is_typed_witness:
  "case normalize (\<lambda>_. None) (\<lambda>_. None) (demo_identity ''b1'') 1 demo_record of
     None \<Rightarrow> False
   | Some e \<Rightarrow> (case ev_timestamp e of PFloat _ \<Rightarrow> True | _ \<Rightarrow> False) \<and> is_list (ev_ancestry e) \<and> ev_monotonic e \<noteq> PNone"
  using normalised_event_is_typed [OF demo_normalized [of "''b1''" 1]] demo_normalized [of "''b1''" 1] by simp

lemma demo_storable: "event_storable demo_event"
  by (simp add: event_storable_def demo_event_def fits_def truthy_def is_list_def)

lemma event_round_trip_witness:
  "event_of_row demo_write_env ratio_parse (to_event_in demo_write_env demo_event) = Inr demo_event"
proof -
  have "float_text_ok (we_repr demo_write_env) ratio_parse" by (simp add: demo_write_env_def ratio_text_ok)
  moreover have "demo_event\<lparr>ev_ancestry := canon (ev_ancestry demo_event), ev_payload := canon (ev_payload demo_event)\<rparr> = demo_event"
    by (simp add: demo_event_def)
  ultimately show ?thesis using event_round_trip [OF _ demo_affinity demo_storable, of ratio_parse] by simp
qed


lemma demo_binds: "bind_failure demo_write_env (demo_event\<lparr>ev_monotonic := PFloat m, ev_boot := PStr boot\<rparr>) = None"
  by (simp add: bind_failure_def event_binds_def demo_event_def to_float_def bind_value_def)

lemma reingestion_is_idempotent_witness:
  "case write_batch demo_write_env (normalize_all (\<lambda>_. None) (\<lambda>_. None) (demo_identity ''b1'') [(demo_record, 1)]) empty_events of
     Inl _ \<Rightarrow> False
   | Inr (res1, t1) \<Rightarrow>
       (case write_batch demo_write_env (normalize_all (\<lambda>_. None) (\<lambda>_. None) (demo_identity ''b2'') [(demo_record, 5)]) t1 of
          Inl _ \<Rightarrow> False | Inr (res2, t2) \<Rightarrow> t2 = t1 \<and> br_inserted res2 = 0)"
proof -
  let ?n = "\<lambda>boot m. normalize_all (\<lambda>_. None) (\<lambda>_. None) (demo_identity boot) [(demo_record, m)]"
  have "?n boot m = [demo_event\<lparr>ev_monotonic := PFloat m, ev_boot := PStr boot\<rparr>]" for boot m
    by (simp add: normalize_all_def List.map_filter_simps demo_normalized)
  then have w: "\<exists>x. write_batch demo_write_env (?n boot m) t = Inr x" for boot m t
    by (simp add: write_batch_def List.map_filter_simps demo_binds)
  obtain res1 t1 where 1: "write_batch demo_write_env (?n ''b1'' 1) empty_events = Inr (res1, t1)" using w by (metis surj_pair)
  obtain res2 t2 where 2: "write_batch demo_write_env (?n ''b2'' 5) t1 = Inr (res2, t2)" using w by (metis surj_pair)
  show ?thesis using reingestion_is_idempotent [OF demo_affinity _ _ 1 2] 1 2 by (simp add: demo_identity_def)
qed

lemma unbindable_event_costs_batch_witness:
  "\<exists>e. normalize (\<lambda>_. None) (\<lambda>_. None) (demo_identity ''b1'') 1 (AList.update ''comm'' (PList []) demo_record) = Some e \<and>
    (case event_binds (\<lambda>_. None) (\<lambda>s. s) ratio_text e of Inl _ \<Rightarrow> False | Inr _ \<Rightarrow> True) \<and>
    (\<forall>before after t. \<exists>err. write_batch demo_write_env (before @ e # after) t = Inl err)"
proof -
  let ?raw = "AList.update ''comm'' (PList []) demo_record"
  have "event_type_of (dget ?raw ''event_type'') = Some Process_Exec" "coerce_float (\<lambda>_. None) (dget ?raw ''timestamp'') = Some 7"
      "dget ?raw ''uid'' = PNone" "dget ?raw ''comm'' = PList []"
    by (simp_all add: demo_record_def dget_def event_type_of_def event_kinds_def kind_name_def coerce_float_def)
  from unbindable_event_costs_batch [OF this, of "\<lambda>_. None" "demo_identity ''b1''" 1 demo_write_env]
  show ?thesis by (simp add: demo_write_env_def)
qed

end
