(* ===== verification/Baseline.thy ===== *)
theory Baseline
  imports Event_Stream
begin

text \<open>
  The behavioural baseline of \<^verbatim>\<open>baseline/behavioral_baseline.py\<close> and the windowed analysis around it,
  \<^verbatim>\<open>baseline/behavior_analyzer.py\<close>, on events whose fields have their declared types. Arithmetic is
  exact; the explanation texts and the persisted copies of baselines and risks are left out.
\<close>

section \<open>Typed events and counters\<close>

record exec_event =
  xe_kind :: event_kind
  xe_timestamp :: rat
  xe_pid :: "int option"
  xe_ppid :: "int option"
  xe_uid :: "int option"
  xe_gid :: "int option"
  xe_comm :: "string option"
  xe_executable :: "string option"

text \<open>The typed view of a canonical event, None when a field has another type.\<close>

definition opt_int :: "doc \<Rightarrow> int option option" where
  "opt_int v = (case v of PNone \<Rightarrow> Some None | PInt i \<Rightarrow> Some (Some i) | _ \<Rightarrow> None)"

definition opt_str :: "doc \<Rightarrow> string option option" where
  "opt_str v = (case v of PNone \<Rightarrow> Some None | PStr s \<Rightarrow> Some (Some s) | _ \<Rightarrow> None)"

definition view_event :: "event \<Rightarrow> exec_event option" where
  "view_event e =
     (case (ev_timestamp e, opt_int (ev_pid e), opt_int (ev_ppid e), opt_int (ev_uid e), opt_int (ev_gid e),
            opt_str (ev_comm e), opt_str (ev_executable e)) of
        (PFloat q, Some pid, Some ppid, Some uid, Some gid, Some comm, Some executable) \<Rightarrow>
          Some \<lparr>xe_kind = ev_kind e, xe_timestamp = q, xe_pid = pid, xe_ppid = ppid, xe_uid = uid, xe_gid = gid,
                xe_comm = comm, xe_executable = executable\<rparr>
      | _ \<Rightarrow> None)"

text \<open>\<open>x or "unknown"\<close> on an optional text.\<close>

definition or_unknown :: "string option \<Rightarrow> string" where
  "or_unknown x = (case x of None \<Rightarrow> ''unknown'' | Some s \<Rightarrow> if s = [] then ''unknown'' else s)"

definition nonempty :: "string option \<Rightarrow> string option" where
  "nonempty x = (case x of None \<Rightarrow> None | Some s \<Rightarrow> if s = [] then None else Some s)"

text \<open>\<open>collections.Counter\<close>: counts in order of first occurrence; \<open>most_common(n)\<close> keeps that order among ties.\<close>

definition count_one :: "'a \<Rightarrow> ('a \<times> nat) list \<Rightarrow> ('a \<times> nat) list" where
  "count_one x c = AList.update x ((case map_of c x of None \<Rightarrow> 0 | Some n \<Rightarrow> n) + 1) c"

definition tally :: "'a list \<Rightarrow> ('a \<times> nat) list" where
  "tally xs = fold count_one xs []"

definition most_common :: "nat \<Rightarrow> ('a \<times> nat) list \<Rightarrow> ('a \<times> nat) list" where
  "most_common n c = take n (sort_key (\<lambda>(x, k). - int k) c)"

definition count_of :: "('a \<times> nat) list \<Rightarrow> 'a \<Rightarrow> nat" where
  "count_of c x = (case map_of c x of None \<Rightarrow> 0 | Some n \<Rightarrow> n)"

definition peak :: "('a \<times> nat) list \<Rightarrow> nat" where
  "peak c = fold (\<lambda>(x, k) m. max k m) c 0"

section \<open>The baseline\<close>

definition exec_events :: "exec_event list \<Rightarrow> exec_event list" where
  "exec_events es = filter (\<lambda>e. xe_kind e = Process_Exec) es"

definition window_counts :: "exec_event list \<Rightarrow> (int \<times> nat) list" where
  "window_counts es = tally (map (\<lambda>e. \<lfloor>xe_timestamp e / 60\<rfloor>) es)"

definition safe_ratio :: "rat \<Rightarrow> rat \<Rightarrow> rat" where
  "safe_ratio numerator denominator = (if denominator = 0 then 0 else numerator / denominator)"

record summary =
  su_total_execs :: nat
  su_unique_commands :: nat
  su_unique_uids :: nat
  su_top_commands :: "(string \<times> nat) list"
  su_top_executables :: "(string \<times> nat) list"
  su_top_uids :: "(int \<times> nat) list"
  su_top_gids :: "(int \<times> nat) list"
  su_top_ppids :: "(int \<times> nat) list"
  su_peak_window_count :: nat
  su_avg_window_count :: rat
  su_buckets :: "(int \<times> nat) list"

definition feature_summary :: "exec_event list \<Rightarrow> summary" where
  "feature_summary events =
     (let execs = exec_events events;
          commands = tally (List.map_filter (nonempty \<circ> xe_comm) execs);
          uids = tally (List.map_filter xe_uid execs);
          buckets = window_counts execs
      in \<lparr>su_total_execs = length execs, su_unique_commands = length commands, su_unique_uids = length uids,
          su_top_commands = most_common 10 commands,
          su_top_executables = most_common 10 (tally (List.map_filter (nonempty \<circ> xe_executable) execs)),
          su_top_uids = most_common 10 uids, su_top_gids = most_common 10 (tally (List.map_filter xe_gid execs)),
          su_top_ppids = most_common 10 (tally (List.map_filter xe_ppid execs)),
          su_peak_window_count = peak buckets,
          su_avg_window_count = (if buckets = [] then 0 else of_nat (sum_list (map snd buckets)) / of_nat (length buckets)),
          su_buckets = sort_key fst buckets\<rparr>)"

text \<open>\<open>learn\<close>: ready once enough executions were seen.\<close>

definition learn :: "nat \<Rightarrow> exec_event list \<Rightarrow> bool \<times> nat \<times> summary" where
  "learn minimum_samples events =
     (let n = length (exec_events events) in (minimum_samples \<le> n, n, feature_summary events))"

text \<open>
  Python's \<open>round(x, 4)\<close>: nearest, ties to even. Lookups of user, group and parent ids go by the integer
  or, in a summary read back from JSON, by its text; both give the same count.
\<close>

definition round_even :: "rat \<Rightarrow> int" where
  "round_even q =
     (let n = \<lfloor>q\<rfloor>; d = q - of_int n in
      if d < 1 / 2 then n else if 1 / 2 < d then n + 1 else if even n then n else n + 1)"

definition round4 :: "rat \<Rightarrow> rat" where
  "round4 q = of_int (round_even (q * 10000)) / 10000"

record feature_vector =
  fv_command_ratio :: rat
  fv_executable_ratio :: rat
  fv_uid_frequency :: nat
  fv_process_context_ratio :: rat
  fv_burst_ratio :: rat

definition id_or :: "int option \<Rightarrow> int" where
  "id_or x = (case x of None \<Rightarrow> - 1 | Some i \<Rightarrow> i)"

definition baseline_total :: "summary \<Rightarrow> rat" where
  "baseline_total base = (if su_total_execs base = 0 then 1 else of_nat (su_total_execs base))"

definition event_feature_vector :: "exec_event \<Rightarrow> summary \<Rightarrow> summary \<Rightarrow> feature_vector" where
  "event_feature_vector e base current =
     (let total = baseline_total base;
          base_peak = of_nat (su_peak_window_count base);
          burst = safe_ratio (max 0 (of_nat (su_peak_window_count current) - base_peak)) (max base_peak 1)
      in \<lparr>fv_command_ratio = safe_ratio (of_nat (count_of (su_top_commands base) (or_unknown (xe_comm e)))) total,
          fv_executable_ratio = safe_ratio (of_nat (count_of (su_top_executables base) (or_unknown (xe_executable e)))) total,
          fv_uid_frequency = count_of (su_top_uids base) (id_or (xe_uid e)),
          fv_process_context_ratio =
            safe_ratio (of_nat (count_of (su_top_gids base) (id_or (xe_gid e)) + count_of (su_top_ppids base) (id_or (xe_ppid e))))
              (max (total * 2) 1),
          fv_burst_ratio = min 1 burst\<rparr>)"

definition common_commands :: "string list" where
  "common_commands = [''bash'', ''sh'', ''timeout'', ''sudo'']"

definition raw_score :: "exec_event \<Rightarrow> summary \<Rightarrow> summary \<Rightarrow> rat" where
  "raw_score e base current =
     (let v = event_feature_vector e base current; total = baseline_total base;
          unusual_command = max 0 (1 - (7 / 10 * fv_command_ratio v + 3 / 10 * fv_executable_ratio v));
          unusual_uid = max 0 (1 - (8 / 10 * safe_ratio (of_nat (fv_uid_frequency v)) (max total 1) + 2 / 10 * fv_process_context_ratio v));
          score = min 1 (45 / 100 * unusual_command + 35 / 100 * unusual_uid + 20 / 100 * fv_burst_ratio v)
      in if (case xe_comm e of None \<Rightarrow> False | Some c \<Rightarrow> c \<in> set common_commands) then score * (65 / 100) else score)"

record scored_event =
  sc_event :: exec_event
  sc_anomaly :: rat
  sc_bucket :: string

definition score_events :: "exec_event list \<Rightarrow> summary \<Rightarrow> scored_event list" where
  "score_events events base =
     map (\<lambda>e. let s = raw_score e base (feature_summary events) in
          \<lparr>sc_event = e, sc_anomaly = round4 s,
           sc_bucket = (if 75 / 100 < s then ''high'' else if 45 / 100 < s then ''medium'' else ''normal'')\<rparr>)
       (exec_events events)"

section \<open>Windows\<close>

definition event_order :: "exec_event \<Rightarrow> rat \<times> string \<times> int \<times> string" where
  "event_order e = (xe_timestamp e, kind_name (xe_kind e), id_or (xe_pid e), (case xe_comm e of None \<Rightarrow> [] | Some c \<Rightarrow> c))"

definition window_start :: "nat \<Rightarrow> rat \<Rightarrow> rat" where
  "window_start seconds ts = of_int \<lfloor>ts / of_nat seconds\<rfloor> * of_nat seconds"

definition uid_text :: "int option \<Rightarrow> string" where
  "uid_text u = (case u of None \<Rightarrow> ''unknown'' | Some i \<Rightarrow> int_str i)"

record window =
  wi_start :: rat
  wi_end :: rat
  wi_total_execs :: nat
  wi_unique_commands :: nat
  wi_unique_uids :: nat
  wi_commands :: "(string \<times> nat) list"
  wi_uids :: "(string \<times> nat) list"
  wi_active_seconds :: nat
  wi_peak_per_second :: nat
  wi_events :: "exec_event list"

definition make_window :: "nat \<Rightarrow> rat \<Rightarrow> exec_event list \<Rightarrow> window" where
  "make_window seconds start es =
     (let commands = tally (map (or_unknown \<circ> xe_comm) es);
          uids = tally (map (uid_text \<circ> xe_uid) es);
          per_second = tally (map (chop \<circ> xe_timestamp) es)
      in \<lparr>wi_start = start, wi_end = start + of_nat seconds, wi_total_execs = length es, wi_unique_commands = length commands,
          wi_unique_uids = length uids, wi_commands = sort_key fst commands, wi_uids = sort_key fst uids,
          wi_active_seconds = length per_second, wi_peak_per_second = peak per_second, wi_events = es\<rparr>)"

text \<open>A \<open>defaultdict(list)\<close> filled by one pass, and its keys in order.\<close>

definition group_one :: "('a \<Rightarrow> 'k) \<Rightarrow> 'a \<Rightarrow> ('k \<times> 'a list) list \<Rightarrow> ('k \<times> 'a list) list" where
  "group_one key x g = AList.update (key x) ((case map_of g (key x) of None \<Rightarrow> [] | Some xs \<Rightarrow> xs) @ [x]) g"

definition group_by :: "('a \<Rightarrow> 'k) \<Rightarrow> 'a list \<Rightarrow> ('k \<times> 'a list) list" where
  "group_by key xs = fold (group_one key) xs []"

definition aggregate_windows :: "nat \<Rightarrow> exec_event list \<Rightarrow> window list" where
  "aggregate_windows seconds events =
     map (\<lambda>(start, es). make_window seconds start es)
       (sort_key fst (group_by (window_start seconds \<circ> xe_timestamp) (exec_events (sort_key event_order events))))"

section \<open>The analyzer\<close>

record analyzer =
  an_seconds :: nat
  an_minimum :: nat
  an_threshold :: rat
  an_normal :: "exec_event list"
  an_summary :: "summary option"

definition new_analyzer :: "int \<Rightarrow> int \<Rightarrow> rat \<Rightarrow> py_error + analyzer" where
  "new_analyzer seconds minimum threshold =
     (if seconds \<le> 0 then Inl (Value_Error ''window_seconds must be positive'')
      else if minimum \<le> 0 then Inl (Value_Error ''minimum_normal_execs must be positive'')
      else if \<not> (0 \<le> threshold \<and> threshold \<le> 1) then Inl (Value_Error ''detection_threshold must be between 0 and 1'')
      else Inr \<lparr>an_seconds = nat seconds, an_minimum = nat minimum, an_threshold = threshold, an_normal = [], an_summary = None\<rparr>)"

datatype learn_status = Verification_Required | Baseline_Ready | Insufficient_Data

definition learn_normal :: "exec_event list \<Rightarrow> bool \<Rightarrow> analyzer \<Rightarrow> (learn_status \<times> nat) \<times> analyzer" where
  "learn_normal events verified a =
     (if \<not> verified then ((Verification_Required, length (exec_events (an_normal a))), a)
      else case an_summary a of
        Some _ \<Rightarrow> ((Baseline_Ready, length (exec_events (an_normal a))), a)
      | None \<Rightarrow>
          (let normal = an_normal a @ sort_key event_order events;
               (ready, n, s) = learn (an_minimum a) normal
           in if ready then ((Baseline_Ready, n), a\<lparr>an_normal := normal, an_summary := Some s\<rparr>)
              else ((Insufficient_Data, n), a\<lparr>an_normal := normal\<rparr>)))"

text \<open>\<open>read_latest_ready_baseline\<close> of the store is the argument \<open>stored\<close>.\<close>

definition load_baseline :: "summary option \<Rightarrow> analyzer \<Rightarrow> summary option \<times> analyzer" where
  "load_baseline stored a =
     (case an_summary a of
        Some s \<Rightarrow> (Some s, a)
      | None \<Rightarrow> (case stored of None \<Rightarrow> (None, a) | Some s \<Rightarrow> (Some s, a\<lparr>an_summary := Some s\<rparr>)))"

definition risk_level :: "rat \<Rightarrow> rat \<Rightarrow> string" where
  "risk_level threshold score =
     (if 75 / 100 \<le> score then ''high'' else if threshold \<le> score then ''medium'' else ''normal'')"

record risk =
  ri_id :: "int option"
  ri_start :: rat
  ri_end :: rat
  ri_entity_type :: string
  ri_entity_key :: string
  ri_anomaly :: rat
  ri_level :: string
  ri_execution_frequency :: nat
  ri_unique_commands :: nat
  ri_unique_uids :: nat
  ri_peak_per_second :: nat
  ri_entity_count :: nat

text \<open>Both entities of every scored event, in the order the source appends them.\<close>

definition entity_scores :: "scored_event list \<Rightarrow> ((string \<times> string) \<times> scored_event) list" where
  "entity_scores scored =
     concat (map (\<lambda>s. [((''command'', or_unknown (xe_comm (sc_event s))), s), ((''uid'', uid_text (xe_uid (sc_event s))), s)]) scored)"

text \<open>\<open>max(..., key=(score, timestamp, pid or -1))\<close>: only the score is used, the first of equals is kept.\<close>

definition max_anomaly :: "scored_event list \<Rightarrow> rat" where
  "max_anomaly ss = (case map sc_anomaly ss of [] \<Rightarrow> 0 | x # xs \<Rightarrow> fold max xs x)"

definition entity_risk :: "rat \<Rightarrow> window \<Rightarrow> string \<Rightarrow> string \<Rightarrow> scored_event list \<Rightarrow> risk option" where
  "entity_risk threshold w entity_type entity_key ss =
     (let score = max_anomaly ss in
      if score < threshold then None
      else Some \<lparr>ri_id = None, ri_start = wi_start w, ri_end = wi_end w, ri_entity_type = entity_type, ri_entity_key = entity_key,
             ri_anomaly = score, ri_level = risk_level threshold score, ri_execution_frequency = wi_total_execs w,
             ri_unique_commands = wi_unique_commands w, ri_unique_uids = wi_unique_uids w,
             ri_peak_per_second = wi_peak_per_second w, ri_entity_count = length ss\<rparr>)"

definition window_risks :: "rat \<Rightarrow> summary \<Rightarrow> window \<Rightarrow> risk list" where
  "window_risks threshold base w =
     List.map_filter (\<lambda>((entity_type, entity_key), ss). entity_risk threshold w entity_type entity_key (map snd ss))
       (sort_key fst (group_by fst (entity_scores (score_events (wi_events w) base))))"

definition monitor :: "summary option \<Rightarrow> exec_event list \<Rightarrow> analyzer \<Rightarrow> risk list option \<times> analyzer" where
  "monitor stored events a =
     (case load_baseline stored a of
        (None, a) \<Rightarrow> (None, a)
      | (Some base, a) \<Rightarrow>
          (Some (concat (map (window_risks (an_threshold a) base)
             (aggregate_windows (an_seconds a) (sort_key event_order events)))), a))"

end
