(* ===== verification/Detection.thy ===== *)
theory Detection
  imports Baseline
begin

text \<open>
  Detection rules, \<^verbatim>\<open>detection/rules.py\<close>: the catalog and its four rules; and the fusion engine,
  \<^verbatim>\<open>detection/detector.py\<close>: scoring, correlation and suppression of findings. The catalog is the parsed
  YAML document. Scores are exact; the provenance digest and the correlation digest are parameters,
  texts built for display are left out.
\<close>

section \<open>The rules catalog\<close>

datatype catalog_exc = Catalog_Error string | Catalog_Raised py_error

datatype rule_body =
    Privileged_Execution "doc list" rat
  | Suspicious_Utility "doc list" rat
  | Execution_Burst int int
  | Multi_Uid int

record rule =
  ru_id :: string
  ru_version :: string
  ru_score :: rat
  ru_mitre :: "rat pymap"
  ru_body :: rule_body

definition required_entry_fields :: "string list" where
  "required_entry_fields = [''rule_id'', ''version'', ''score'', ''mitre'', ''mapping_rationale'', ''description'']"

definition hashable :: "doc \<Rightarrow> bool" where
  "hashable v = (case v of PList _ \<Rightarrow> False | PDict _ \<Rightarrow> False | _ \<Rightarrow> True)"

text \<open>\<open>isinstance(score, (int, float))\<close>, not a boolean, in the unit interval.\<close>

definition unit_number :: "doc \<Rightarrow> bool" where
  "unit_number v = (case v of PInt i \<Rightarrow> 0 \<le> i \<and> i \<le> 1 | PFloat q \<Rightarrow> 0 \<le> q \<and> q \<le> 1 | _ \<Rightarrow> False)"

definition blank :: "(doc \<Rightarrow> string) \<Rightarrow> doc \<Rightarrow> bool" where
  "blank shown v \<longleftrightarrow> strip (to_str shown v) = []"

definition validate_entry :: "(doc \<Rightarrow> string) \<Rightarrow> doc list \<Rightarrow> doc \<Rightarrow> catalog_exc + doc list" where
  "validate_entry shown seen v =
     (case v of
        PDict entry \<Rightarrow>
          if \<not> list_all (\<lambda>n. map_of entry n \<noteq> None) required_entry_fields then Inl (Catalog_Error ''missing fields'')
          else if \<not> hashable (dget entry ''rule_id'') then Inl (Catalog_Raised (Type_Error ''unhashable type''))
          else if dget entry ''rule_id'' \<in> set seen then Inl (Catalog_Error ''duplicate rule_id'')
          else if \<not> unit_number (dget entry ''score'') then Inl (Catalog_Error ''score must be a number in [0, 1]'')
          else (case dget entry ''mitre'' of
             PDict mitre \<Rightarrow>
               if blank shown (get_or mitre ''tactic'' (PStr [])) \<or> blank shown (get_or mitre ''technique'' (PStr []))
               then Inl (Catalog_Error ''must map a non-empty tactic and technique'')
               else if blank shown (get_or entry ''mapping_rationale'' (PStr [])) \<or> blank shown (get_or entry ''description'' (PStr []))
               then Inl (Catalog_Error ''needs a non-empty text field'')
               else Inr (seen @ [dget entry ''rule_id''])
           | _ \<Rightarrow> Inl (Catalog_Error ''must map a non-empty tactic and technique''))
      | _ \<Rightarrow> Inl (Catalog_Error ''non-mapping rule entry''))"

fun validate_entries :: "(doc \<Rightarrow> string) \<Rightarrow> doc list \<Rightarrow> doc list \<Rightarrow> catalog_exc + unit" where
  "validate_entries shown seen [] = Inr ()"
| "validate_entries shown seen (v # vs) =
     (case validate_entry shown seen v of Inl e \<Rightarrow> Inl e | Inr seen \<Rightarrow> validate_entries shown seen vs)"

text \<open>\<open>load_catalog\<close> after the YAML parser; the result is the list of entries.\<close>

definition load_catalog :: "(doc \<Rightarrow> string) \<Rightarrow> doc \<Rightarrow> catalog_exc + doc list" where
  "load_catalog shown document =
     (case document of
        PDict d \<Rightarrow>
          if \<not> list_all (\<lambda>(k, _). k \<in> {''version'', ''rules''}) d then Inl (Catalog_Error ''unknown top-level keys'')
          else (case dget d ''rules'' of
             PList rules \<Rightarrow>
               if rules = [] then Inl (Catalog_Error ''must define a non-empty rules list'')
               else (case validate_entries shown [] rules of Inl e \<Rightarrow> Inl e | Inr _ \<Rightarrow> Inr rules)
           | _ \<Rightarrow> Inl (Catalog_Error ''must define a non-empty rules list''))
      | _ \<Rightarrow> Inl (Catalog_Error ''must be a YAML mapping''))"

definition bind_py :: "py_error + 'a \<Rightarrow> ('a \<Rightarrow> py_error + 'b) \<Rightarrow> py_error + 'b" where
  "bind_py x f = (case x of Inl e \<Rightarrow> Inl e | Inr v \<Rightarrow> f v)"

definition require_key :: "rat pymap \<Rightarrow> string \<Rightarrow> py_error + doc" where
  "require_key entry k = (case map_of entry k of None \<Rightarrow> Inl (Key_Error k) | Some v \<Rightarrow> Inr v)"

text \<open>\<open>frozenset(value)\<close>.\<close>

definition frozen_set :: "doc \<Rightarrow> py_error + doc list" where
  "frozen_set v = bind_py (iterate v) (\<lambda>xs. if list_all hashable xs then Inr xs else Inl (Type_Error ''unhashable type''))"

record readers =
  rd_float :: "string \<Rightarrow> rat option"
  rd_int :: "string \<Rightarrow> int option"
  rd_shown :: "doc \<Rightarrow> string"

definition gated :: "readers \<Rightarrow> (doc list \<Rightarrow> rat \<Rightarrow> rule_body) \<Rightarrow> string \<Rightarrow> rat pymap \<Rightarrow> py_error + rule_body" where
  "gated rd con field entry =
     bind_py (require_key entry field) (\<lambda>items.
     bind_py (require_key entry ''behavior_gate'') (\<lambda>gate.
     bind_py (frozen_set items) (\<lambda>xs.
     bind_py (to_float (rd_float rd) gate) (\<lambda>g. Inr (con xs g)))))"

text \<open>\<open>from_entry\<close> of the class registered for the rule id; None when there is none.\<close>

definition build_body :: "readers \<Rightarrow> string \<Rightarrow> rat pymap \<Rightarrow> (py_error + rule_body) option" where
  "build_body rd rule_id entry =
     (if rule_id = ''privileged_unusual_execution'' then Some (gated rd Privileged_Execution ''safe_commands'' entry)
      else if rule_id = ''suspicious_utility_activity'' then Some (gated rd Suspicious_Utility ''utilities'' entry)
      else if rule_id = ''execution_burst'' then
        Some (bind_py (require_key entry ''peak_execs_per_second'') (\<lambda>p.
              bind_py (require_key entry ''window_execs'') (\<lambda>w.
              bind_py (to_int (rd_int rd) p) (\<lambda>p. bind_py (to_int (rd_int rd) w) (\<lambda>w. Inr (Execution_Burst p w))))))
      else if rule_id = ''multi_uid_activity'' then
        Some (bind_py (require_key entry ''min_unique_uids'') (\<lambda>m. bind_py (to_int (rd_int rd) m) (\<lambda>m. Inr (Multi_Uid m))))
      else None)"

definition load_rule :: "readers \<Rightarrow> doc \<Rightarrow> catalog_exc + rule option" where
  "load_rule rd v =
     (case v of
        PDict entry \<Rightarrow>
          if \<not> truthy (get_or entry ''enabled'' (PBool True)) then Inr None
          else (case dget entry ''rule_id'' of
             PStr rule_id \<Rightarrow>
               (case build_body rd rule_id entry of
                  None \<Rightarrow> Inl (Catalog_Error ''no matching rule implementation'')
                | Some (Inl _) \<Rightarrow> Inl (Catalog_Error ''catalog entry is invalid'')
                | Some (Inr body) \<Rightarrow>
                    (case (to_float (rd_float rd) (dget entry ''score''), dget entry ''mitre'') of
                       (Inr score, PDict mitre) \<Rightarrow> Inr (Some \<lparr>ru_id = rule_id, ru_version = to_str (rd_shown rd) (dget entry ''version''),
                          ru_score = score, ru_mitre = mitre, ru_body = body\<rparr>)
                     | _ \<Rightarrow> Inl (Catalog_Error ''catalog entry is invalid'')))
           | _ \<Rightarrow> Inl (Catalog_Error ''no matching rule implementation''))
      | _ \<Rightarrow> Inl (Catalog_Raised (Attribute_Error ''get'')))"

fun load_all :: "readers \<Rightarrow> doc list \<Rightarrow> catalog_exc + rule list" where
  "load_all rd [] = Inr []"
| "load_all rd (v # vs) =
     (case load_rule rd v of
        Inl e \<Rightarrow> Inl e
      | Inr r \<Rightarrow> (case load_all rd vs of Inl e \<Rightarrow> Inl e | Inr rs \<Rightarrow> Inr ((case r of None \<Rightarrow> [] | Some r \<Rightarrow> [r]) @ rs)))"

definition load_rules :: "readers \<Rightarrow> doc \<Rightarrow> catalog_exc + rule list" where
  "load_rules rd document =
     (case load_catalog (rd_shown rd) document of Inl e \<Rightarrow> Inl e | Inr entries \<Rightarrow> load_all rd entries)"

section \<open>Evaluating a rule\<close>

record rule_result =
  rr_id :: string
  rr_matched :: bool
  rr_score :: rat
  rr_evidence :: "rat pymap"
  rr_version :: string
  rr_mitre :: "rat pymap"

definition make_result :: "rule \<Rightarrow> bool \<Rightarrow> rat pymap \<Rightarrow> rule_result" where
  "make_result r matched evidence =
     \<lparr>rr_id = ru_id r, rr_matched = matched, rr_score = (if matched then ru_score r else 0), rr_evidence = evidence,
      rr_version = ru_version r, rr_mitre = ru_mitre r\<rparr>"

definition sorted_texts :: "string list \<Rightarrow> string list" where
  "sorted_texts xs = sort (remdups xs)"

definition text_list :: "string list \<Rightarrow> doc" where
  "text_list xs = PList (map PStr xs)"

definition evaluate_rule :: "rule \<Rightarrow> rat \<Rightarrow> risk \<Rightarrow> exec_event list \<Rightarrow> rule_result" where
  "evaluate_rule r behavior_score features events =
     (case ru_body r of
        Privileged_Execution safe gate \<Rightarrow>
          (let matches = filter (\<lambda>e. xe_uid e = Some 0 \<and> PStr (or_unknown (xe_comm e)) \<notin> set safe) events
           in make_result r (matches \<noteq> [] \<and> gate \<le> behavior_score)
                [(''root_event_count'', PInt (int (length matches))),
                 (''root_commands'', text_list (sorted_texts (map (or_unknown \<circ> xe_comm) matches)))])
      | Suspicious_Utility utilities gate \<Rightarrow>
          (let matches = filter (\<lambda>c. PStr c \<in> set utilities) (sorted_texts (map (or_unknown \<circ> xe_comm) events))
           in make_result r (matches \<noteq> [] \<and> gate \<le> behavior_score)
                [(''matched_utilities'', text_list matches), (''behavior_score_gate'', PFloat behavior_score)])
      | Execution_Burst peak_needed window_needed \<Rightarrow>
          make_result r (peak_needed \<le> int (ri_peak_per_second features) \<and> window_needed \<le> int (ri_execution_frequency features))
            [(''peak_execs_per_second'', PInt (int (ri_peak_per_second features))),
             (''window_execs'', PInt (int (ri_execution_frequency features)))]
      | Multi_Uid needed \<Rightarrow>
          make_result r (needed \<le> int (ri_unique_uids features)) [(''unique_uids'', PInt (int (ri_unique_uids features)))])"

section \<open>Fusion\<close>

definition in_window :: "risk \<Rightarrow> exec_event \<Rightarrow> bool" where
  "in_window r e \<longleftrightarrow> ri_start r \<le> xe_timestamp e \<and> xe_timestamp e < ri_end r"

definition events_for_risk :: "risk \<Rightarrow> exec_event list \<Rightarrow> exec_event list" where
  "events_for_risk r events =
     filter (\<lambda>e. in_window r e \<and> xe_kind e = Process_Exec \<and>
       ((ri_entity_type r = ''command'' \<and> or_unknown (xe_comm e) = ri_entity_key r) \<or>
        (ri_entity_type r = ''uid'' \<and> uid_text (xe_uid e) = ri_entity_key r))) events"

definition detection_context_score :: "exec_event list \<Rightarrow> risk \<Rightarrow> rat" where
  "detection_context_score events r =
     min 1 ((if list_ex (\<lambda>e. xe_uid e = Some 0) events then 60 / 100 else 0) +
            (if 2 \<le> ri_unique_uids r then 20 / 100 else 0) + (if 10 \<le> ri_execution_frequency r then 20 / 100 else 0))"

text \<open>The scorer: None when not configured; an error is the exception it raised.\<close>

record ml_payload =
  mp_available :: bool
  mp_active :: bool
  mp_normalized :: rat

definition ml_evidence :: "(exec_event list \<Rightarrow> py_error + ml_payload) option \<Rightarrow> risk \<Rightarrow> exec_event list \<Rightarrow> rat option" where
  "ml_evidence scorer r events =
     (case scorer of
        None \<Rightarrow> None
      | Some f \<Rightarrow>
          (case f (filter (in_window r) events) of
             Inl _ \<Rightarrow> None
           | Inr p \<Rightarrow> if mp_active p \<and> mp_available p then Some (mp_normalized p) else None))"

definition fuse_rules :: "rule_result list \<Rightarrow> rat" where
  "fuse_rules results = 1 - fold (\<lambda>r remaining. if rr_matched r then remaining * (1 - rr_score r) else remaining) results 1"

definition severity_of :: "rat \<Rightarrow> string" where
  "severity_of score =
     (if 80 / 100 \<le> score then ''CRITICAL'' else if 60 / 100 \<le> score then ''HIGH''
      else if 35 / 100 \<le> score then ''MEDIUM'' else ''LOW'')"

definition fused_score :: "rat \<Rightarrow> rat \<Rightarrow> rat \<Rightarrow> rat option \<Rightarrow> rat" where
  "fused_score behavior rules context ml =
     (case ml of
        Some m \<Rightarrow> min 1 (45 / 100 * behavior + 30 / 100 * rules + 15 / 100 * context + 10 / 100 * m)
      | None \<Rightarrow> min 1 (50 / 100 * behavior + 35 / 100 * rules + 15 / 100 * context))"

text \<open>What \<open>_provenance_hash\<close> digests: the identity of a finding. \<open>ma_ml\<close> is the evidence row of the model.\<close>

record material =
  ma_start :: rat
  ma_end :: rat
  ma_entity_type :: string
  ma_entity_key :: string
  ma_risk_score :: rat
  ma_behavior_score :: rat
  ma_rule_score :: rat
  ma_context_score :: rat
  ma_features :: risk
  ma_rules :: "rule_result list"
  ma_event_count :: nat
  ma_privileged_count :: nat
  ma_ml :: "rat option"

record finding =
  fd_material :: material
  fd_source_risk :: "int option"
  fd_severity :: string
  fd_with_ml :: bool
  fd_provenance :: string
  fd_correlation :: "string option"
  fd_suppressed :: bool
  fd_suppression_reason :: "string option"

definition make_finding ::
  "(material \<Rightarrow> string) \<Rightarrow> rule list \<Rightarrow> (exec_event list \<Rightarrow> py_error + ml_payload) option \<Rightarrow> risk \<Rightarrow> exec_event list \<Rightarrow> finding" where
  "make_finding digest rules scorer r events =
     (let behavior = ri_anomaly r;
          results = map (\<lambda>ru. evaluate_rule ru behavior r events) rules;
          rule_score = fuse_rules results;
          context = detection_context_score events r;
          ml = ml_evidence scorer r events;
          score = fused_score behavior rule_score context ml;
          m = \<lparr>ma_start = ri_start r, ma_end = ri_end r, ma_entity_type = ri_entity_type r, ma_entity_key = ri_entity_key r,
               ma_risk_score = round4 score, ma_behavior_score = round4 behavior, ma_rule_score = round4 rule_score,
               ma_context_score = round4 context, ma_features = r, ma_rules = results, ma_event_count = length events,
               ma_privileged_count = length (filter (\<lambda>e. xe_uid e = Some 0) events), ma_ml = map_option round4 ml\<rparr>
      in \<lparr>fd_material = m, fd_source_risk = ri_id r, fd_severity = severity_of score, fd_with_ml = (ml \<noteq> None),
          fd_provenance = digest m, fd_correlation = None, fd_suppressed = False, fd_suppression_reason = None\<rparr>)"

end
