(* ===== verification/Baseline_Properties.thy ===== *)
theory Baseline_Properties
  imports Baseline
begin

text \<open>
  The baseline and the analyzer: anomaly scores stay in the unit interval, behaviour windows tile the
  executions, monitoring reports exactly the entities at or above the threshold, and no call changes a
  promoted baseline.
\<close>

section \<open>Counters and groups\<close>

lemma keys_update: "fst ` set (AList.update k v d) = insert k (fst ` set d)"
  by (simp add: update_conv' dom_map_of_conv_image_fst [symmetric])

lemma distinct_update: "distinct (map fst d) \<Longrightarrow> distinct (map fst (AList.update k v d))"
  by (rule distinct_update)

lemma tally_snoc: "tally (xs @ [x]) = count_one x (tally xs)"
  by (simp add: tally_def)

lemma tally_distinct: "distinct (map fst (tally xs))"
  by (induction xs rule: rev_induct) (simp_all add: tally_snoc count_one_def tally_def distinct_update)

lemma count_of_counter: "count_of (tally xs) x = count_list xs x"
proof (induction xs rule: rev_induct)
  case Nil
  show ?case by (simp add: tally_def count_of_def)
next
  case (snoc y xs)
  then show ?case by (auto simp: tally_snoc count_one_def count_of_def update_conv split: option.splits)
qed

lemma tally_keys: "fst ` set (tally xs) = set xs"
  by (induction xs rule: rev_induct) (simp_all add: tally_snoc count_one_def tally_def keys_update)

lemma sum_update:
  "distinct (map fst c) \<Longrightarrow> sum_list (map snd (AList.update k v c)) + count_of c k = sum_list (map snd c) + v"
proof (induction c)
  case (Cons kv c)
  obtain l w where "kv = (l, w)" by (cases kv)
  with Cons show ?case by (cases "l = k") (auto simp: count_of_def image_iff split: option.splits dest: map_of_SomeD)
qed (simp add: count_of_def)

lemma tally_total: "sum_list (map snd (tally xs)) = length xs"
proof (induction xs rule: rev_induct)
  case Nil
  show ?case by (simp add: tally_def)
next
  case (snoc x xs)
  have "count_one x (tally xs) = AList.update x (count_of (tally xs) x + 1) (tally xs)"
    by (simp add: count_one_def count_of_def)
  with sum_update [OF tally_distinct, of x "count_of (tally xs) x + 1" xs] snoc show ?case
    by (simp add: tally_snoc)
qed

lemma group_snoc: "group_by key (xs @ [x]) = group_one key x (group_by key xs)"
  by (simp add: group_by_def)

lemma group_distinct: "distinct (map fst (group_by key xs))"
  by (induction xs rule: rev_induct) (simp_all add: group_snoc group_one_def group_by_def distinct_update)

lemma group_of: "map_of (group_by key xs) k = (if k \<in> key ` set xs then Some (filter (\<lambda>x. key x = k) xs) else None)"
proof (induction xs rule: rev_induct)
  case Nil
  show ?case by (simp add: group_by_def)
next
  case (snoc x xs)
  have "k \<notin> key ` set xs \<Longrightarrow> filter (\<lambda>y. key y = k) xs = []" by (auto simp: filter_empty_conv)
  with snoc show ?case by (auto simp: group_snoc group_one_def update_conv split: option.splits if_splits)
qed

lemma in_group: "(k, ys) \<in> set (group_by key xs) \<longleftrightarrow> k \<in> key ` set xs \<and> ys = filter (\<lambda>x. key x = k) xs"
  unfolding map_of_eq_Some_iff [OF group_distinct, symmetric] group_of by auto

section \<open>Scores\<close>

lemma round_even_mono: "p \<le> q \<Longrightarrow> round_even p \<le> round_even q"
proof -
  assume pq: "p \<le> q"
  then have f: "\<lfloor>p\<rfloor> \<le> \<lfloor>q\<rfloor>" by (rule floor_mono)
  show ?thesis
  proof (cases "\<lfloor>p\<rfloor> = \<lfloor>q\<rfloor>")
    case True
    then show ?thesis using pq by (auto simp: round_even_def Let_def)
  next
    case False
    with f have "\<lfloor>p\<rfloor> + 1 \<le> \<lfloor>q\<rfloor>" by simp
    then show ?thesis by (auto simp: round_even_def Let_def)
  qed
qed

lemma round4_mono: "p \<le> q \<Longrightarrow> round4 p \<le> round4 q"
  using round_even_mono [of "p * 10000" "q * 10000"] by (simp add: round4_def)

lemma round_even_int: "round_even (of_int n) = n"
  by (simp add: round_even_def)

lemma round4_unit: "0 \<le> q \<Longrightarrow> q \<le> 1 \<Longrightarrow> 0 \<le> round4 q \<and> round4 q \<le> 1"
proof -
  assume "0 \<le> q" "q \<le> 1"
  moreover have "round4 0 = 0" using round_even_int [of 0] by (simp add: round4_def)
  moreover have "round4 1 = 1" using round_even_int [of 10000] by (simp add: round4_def)
  ultimately show ?thesis using round4_mono [of 0 q] round4_mono [of q 1] by simp
qed

lemma safe_ratio_nonneg: "0 \<le> a \<Longrightarrow> 0 \<le> b \<Longrightarrow> 0 \<le> safe_ratio a b"
  by (simp add: safe_ratio_def)

lemma raw_score_unit: "0 \<le> raw_score e base current \<and> raw_score e base current \<le> 1"
proof -
  let ?v = "event_feature_vector e base current"
  have b: "0 \<le> fv_burst_ratio ?v" by (simp add: event_feature_vector_def Let_def safe_ratio_nonneg)
  define c where "c = 45 / 100 * max 0 (1 - (7 / 10 * fv_command_ratio ?v + 3 / 10 * fv_executable_ratio ?v)) +
    35 / 100 * max 0 (1 - (8 / 10 * safe_ratio (of_nat (fv_uid_frequency ?v)) (max (baseline_total base) 1) +
      2 / 10 * fv_process_context_ratio ?v)) + 20 / 100 * fv_burst_ratio ?v"
  have "0 \<le> c" unfolding c_def using b by simp
  then have "0 \<le> min 1 c" "min 1 c \<le> 1" by simp_all
  moreover have "raw_score e base current = (if (case xe_comm e of None \<Rightarrow> False | Some c \<Rightarrow> c \<in> set common_commands)
      then min 1 c * (65 / 100) else min 1 c)"
    by (simp add: raw_score_def Let_def c_def)
  ultimately show ?thesis by (auto simp: mult_le_one)
qed

lemma scored_unit: "s \<in> set (score_events events base) \<Longrightarrow> 0 \<le> sc_anomaly s \<and> sc_anomaly s \<le> 1"
proof -
  have "0 \<le> round4 (raw_score e b c) \<and> round4 (raw_score e b c) \<le> 1" for e b c
    using raw_score_unit [of e b c] round4_unit by blast
  then show "s \<in> set (score_events events base) \<Longrightarrow> 0 \<le> sc_anomaly s \<and> sc_anomaly s \<le> 1"
    by (auto simp: score_events_def Let_def)
qed

section \<open>Windows\<close>

lemma window_start_spec:
  assumes "0 < seconds"
  shows "window_start seconds ts = st \<longleftrightarrow> (\<exists>n::int. st = of_int n * of_nat seconds) \<and> st \<le> ts \<and> ts < st + of_nat seconds"
proof -
  have s: "(0::rat) < of_nat seconds" using assms by simp
  show ?thesis
  proof
    assume "window_start seconds ts = st"
    then have st: "st = of_int \<lfloor>ts / of_nat seconds\<rfloor> * of_nat seconds" by (simp add: window_start_def)
    have "of_int \<lfloor>ts / of_nat seconds\<rfloor> \<le> ts / of_nat seconds" "ts / of_nat seconds < of_int \<lfloor>ts / of_nat seconds\<rfloor> + 1"
      by linarith+
    then have "of_int \<lfloor>ts / of_nat seconds\<rfloor> * of_nat seconds \<le> ts" "ts < (of_int \<lfloor>ts / of_nat seconds\<rfloor> + 1) * of_nat seconds"
      using s by (simp_all only: pos_le_divide_eq pos_divide_less_eq)
    then have "st \<le> ts" "ts < st + of_nat seconds" by (simp_all add: st distrib_right)
    with st show "(\<exists>n::int. st = of_int n * of_nat seconds) \<and> st \<le> ts \<and> ts < st + of_nat seconds" by blast
  next
    assume "(\<exists>n::int. st = of_int n * of_nat seconds) \<and> st \<le> ts \<and> ts < st + of_nat seconds"
    then obtain n :: int where n: "st = of_int n * of_nat seconds" "st \<le> ts" "ts < st + of_nat seconds" by blast
    then have "of_int n * of_nat seconds \<le> ts" "ts < (of_int n + 1) * of_nat seconds" by (simp_all add: distrib_right)
    then have "of_int n \<le> ts / of_nat seconds" "ts / of_nat seconds < of_int n + 1"
      using s by (simp_all only: pos_le_divide_eq pos_divide_less_eq)
    then have "\<lfloor>ts / of_nat seconds\<rfloor> = n" by (simp add: floor_eq_iff)
    with n show "window_start seconds ts = st" by (simp add: window_start_def)
  qed
qed

lemma window_of:
  "w \<in> set (aggregate_windows seconds events) \<longleftrightarrow>
   (\<exists>e \<in> set (exec_events events). w = make_window seconds (window_start seconds (xe_timestamp e))
      (filter (\<lambda>x. window_start seconds (xe_timestamp x) = window_start seconds (xe_timestamp e)) (exec_events (sort_key event_order events))))"
proof -
  have s: "set (exec_events (sort_key event_order events)) = set (exec_events events)" by (simp add: exec_events_def)
  show ?thesis
    by (auto simp: aggregate_windows_def in_group s comp_def)
qed

lemma mset_groups: "mset (concat (map snd (group_by key xs))) = mset xs"
proof (induction xs rule: rev_induct)
  case Nil
  show ?case by (simp add: group_by_def)
next
  case (snoc x xs)
  have "mset (concat (map snd (AList.update k (f @ [x]) g))) = add_mset x (mset (concat (map snd g)))"
    if "distinct (map fst g)" "f = (case map_of g k of None \<Rightarrow> [] | Some ys \<Rightarrow> ys)" for k f and g :: "('b \<times> 'a list) list"
    using that
  proof (induction g arbitrary: f)
    case (Cons kv g)
    obtain l w where "kv = (l, w)" by (cases kv)
    with Cons show ?case by (cases "l = k") auto
  qed simp
  from this [where g = "group_by key xs" and k = "key x", OF group_distinct refl] snoc show ?case
    by (simp add: group_snoc group_one_def)
qed

lemma mset_concat_sorted: "mset (concat (map f (sort_key k xs))) = mset (concat (map f xs))"
proof -
  have "mset (concat (map f ys)) = \<Sum>\<^sub># (image_mset (mset \<circ> f) (mset ys))" for ys by (induction ys) simp_all
  then show ?thesis by simp
qed

text \<open>Behaviour windows tile the executions. For a positive window size the windows come in time order
without overlap; each starts at a multiple of the size, is not empty and holds exactly the process
executions of its interval, counted by command, by user and in total; and every execution is in one
window: together they hold the executions with their multiplicity.\<close>

theorem windows_tile_executions:
  assumes "0 < seconds"
  shows "sorted_wrt (\<lambda>v w. wi_end v \<le> wi_start w) (aggregate_windows seconds events) \<and>
    mset (concat (map wi_events (aggregate_windows seconds events))) = mset (exec_events events) \<and>
    list_all (\<lambda>w. wi_end w = wi_start w + of_nat seconds \<and> wi_events w \<noteq> [] \<and>
        wi_events w = filter (\<lambda>e. wi_start w \<le> xe_timestamp e \<and> xe_timestamp e < wi_end w) (exec_events (sort_key event_order events)) \<and>
        wi_total_execs w = length (wi_events w) \<and> sum_list (map snd (wi_commands w)) = wi_total_execs w \<and>
        sum_list (map snd (wi_uids w)) = wi_total_execs w)
      (aggregate_windows seconds events)"
proof (intro conjI)
  let ?g = "group_by (window_start seconds \<circ> xe_timestamp) (exec_events (sort_key event_order events))"
  have ev: "wi_events (make_window seconds st es) = es" "wi_start (make_window seconds st es) = st"
      "wi_end (make_window seconds st es) = st + of_nat seconds" for st es
    by (simp_all add: make_window_def Let_def)
  have "map wi_events (aggregate_windows seconds events) = map snd (sort_key fst ?g)"
    by (simp add: aggregate_windows_def split_beta ev)
  then show "mset (concat (map wi_events (aggregate_windows seconds events))) = mset (exec_events events)"
    by (simp only: mset_concat_sorted mset_groups) (simp add: exec_events_def)
  have d: "sorted_wrt (<) (map fst (sort_key fst ?g))"
    by (simp add: strict_sorted_iff distinct_map group_distinct)
      (metis distinct_map group_distinct)
  have mult: "\<exists>n::int. fst kv = of_int n * of_nat seconds" if "kv \<in> set ?g" for kv
  proof -
    obtain k ys where kv: "kv = (k, ys)" by (cases kv)
    show ?thesis using that unfolding kv in_group by (auto simp: window_start_def)
  qed
  have "sorted_wrt (\<lambda>a b. fst a + of_nat seconds \<le> fst b) (sort_key fst ?g)"
  proof (rule sorted_wrt_mono_rel [OF _ d [unfolded sorted_wrt_map]])
    fix a b assume "a \<in> set (sort_key fst ?g)" "b \<in> set (sort_key fst ?g)" "fst a < fst b"
    then obtain m n :: int where m: "fst a = of_int m * of_nat seconds" "fst b = of_int n * of_nat seconds"
      using mult by (metis set_sort)
    with \<open>fst a < fst b\<close> assms have "m < n" by simp
    then have "(of_int (m + 1) :: rat) \<le> of_int n" by linarith
    then have "of_int (m + 1) * of_nat seconds \<le> (of_int n * of_nat seconds :: rat)" by (rule mult_right_mono) simp
    with m show "fst a + of_nat seconds \<le> fst b" by (simp add: distrib_right)
  qed
  then show "sorted_wrt (\<lambda>v w. wi_end v \<le> wi_start w) (aggregate_windows seconds events)"
    by (simp add: aggregate_windows_def sorted_wrt_map split_beta ev)
  show "list_all (\<lambda>w. wi_end w = wi_start w + of_nat seconds \<and> wi_events w \<noteq> [] \<and>
        wi_events w = filter (\<lambda>e. wi_start w \<le> xe_timestamp e \<and> xe_timestamp e < wi_end w) (exec_events (sort_key event_order events)) \<and>
        wi_total_execs w = length (wi_events w) \<and> sum_list (map snd (wi_commands w)) = wi_total_execs w \<and>
        sum_list (map snd (wi_uids w)) = wi_total_execs w) (aggregate_windows seconds events)"
    unfolding list_all_iff
  proof
    fix w assume "w \<in> set (aggregate_windows seconds events)"
    then obtain e where e: "e \<in> set (exec_events events)"
      "w = make_window seconds (window_start seconds (xe_timestamp e))
        (filter (\<lambda>x. window_start seconds (xe_timestamp x) = window_start seconds (xe_timestamp e)) (exec_events (sort_key event_order events)))"
      unfolding window_of by blast
    have f: "filter (\<lambda>x. window_start seconds (xe_timestamp x) = st) es =
        filter (\<lambda>x. st \<le> xe_timestamp x \<and> xe_timestamp x < st + of_nat seconds) es"
      if "st = window_start seconds (xe_timestamp e)" for st es
      using that window_start_spec [OF assms] by (intro filter_cong refl) (metis window_start_def)
    have ne: "e \<in> set (wi_events w)" using e(1) by (simp add: e(2) ev exec_events_def)
    have c: "sum_list (map snd (sort_key fst (tally xs))) = length xs" for xs :: "string list"
    proof -
      have "mset (map snd (sort_key fst (tally xs))) = mset (map snd (tally xs))" by simp
      then show ?thesis using tally_total [of xs] by (metis sum_mset_sum_list)
    qed
    show "wi_end w = wi_start w + of_nat seconds \<and> wi_events w \<noteq> [] \<and>
        wi_events w = filter (\<lambda>e. wi_start w \<le> xe_timestamp e \<and> xe_timestamp e < wi_end w) (exec_events (sort_key event_order events)) \<and>
        wi_total_execs w = length (wi_events w) \<and> sum_list (map snd (wi_commands w)) = wi_total_execs w \<and>
        sum_list (map snd (wi_uids w)) = wi_total_execs w"
    proof -
      have w: "wi_events w = filter (\<lambda>e. wi_start w \<le> xe_timestamp e \<and> xe_timestamp e < wi_end w) (exec_events (sort_key event_order events))"
        using f [OF refl] by (simp add: e(2) ev)
      moreover have "wi_end w = wi_start w + of_nat seconds" by (simp add: e(2) ev)
      moreover have "wi_total_execs w = length (wi_events w)" "sum_list (map snd (wi_commands w)) = wi_total_execs w"
          "sum_list (map snd (wi_uids w)) = wi_total_execs w"
        by (simp_all add: e(2) make_window_def Let_def c)
      ultimately show ?thesis using ne by (metis empty_iff empty_set)
    qed
  qed
qed

section \<open>Monitoring\<close>

lemma max_anomaly_le: "ss \<noteq> [] \<Longrightarrow> threshold \<le> max_anomaly ss \<longleftrightarrow> (\<exists>s \<in> set ss. threshold \<le> sc_anomaly s)"
proof -
  assume "ss \<noteq> []"
  then obtain x xs where ss: "ss = x # xs" by (cases ss) auto
  have "threshold \<le> fold max ys a \<longleftrightarrow> threshold \<le> a \<or> (\<exists>y \<in> set ys. threshold \<le> y)" for ys and a :: rat
    by (induction ys arbitrary: a) (auto simp: le_max_iff_disj)
  then show ?thesis by (simp add: max_anomaly_def ss)
qed

definition entity_of :: "string \<Rightarrow> string \<Rightarrow> scored_event \<Rightarrow> bool" where
  "entity_of ty key s \<longleftrightarrow> (ty = ''command'' \<and> key = or_unknown (xe_comm (sc_event s))) \<or> (ty = ''uid'' \<and> key = uid_text (xe_uid (sc_event s)))"

lemma entity_scores_mem: "((ty, key), s) \<in> set (entity_scores scored) \<longleftrightarrow> s \<in> set scored \<and> entity_of ty key s"
  by (auto simp: entity_scores_def entity_of_def)

lemma entity_risk_Some:
  "entity_risk threshold w ty key ss = Some r \<Longrightarrow> threshold \<le> max_anomaly ss \<and> ri_entity_type r = ty \<and> ri_entity_key r = key"
  by (auto simp: entity_risk_def Let_def split: if_splits)

lemma entity_risk_iff: "(\<exists>r. entity_risk threshold w ty key ss = Some r) \<longleftrightarrow> threshold \<le> max_anomaly ss"
  by (simp add: entity_risk_def Let_def not_less)

lemma set_map_filter_eq: "set (List.map_filter f xs) = {y. \<exists>x \<in> set xs. f x = Some y}"
  by (induction xs) (auto simp: List.map_filter_simps split: option.splits)

lemma window_risk_mem:
  fixes base w
  defines "es \<equiv> entity_scores (score_events (wi_events w) base)"
  shows "r \<in> set (window_risks threshold base w) \<longleftrightarrow>
    (\<exists>ty key. (ty, key) \<in> fst ` set es \<and> entity_risk threshold w ty key (map snd (filter (\<lambda>x. fst x = (ty, key)) es)) = Some r)"
proof -
  have "r \<in> set (window_risks threshold base w) \<longleftrightarrow>
      (\<exists>ty key ss. ((ty, key), ss) \<in> set (group_by fst es) \<and> entity_risk threshold w ty key (map snd ss) = Some r)"
    by (force simp: window_risks_def set_map_filter_eq es_def)
  then show ?thesis unfolding in_group by blast
qed

lemma risk_scores:
  assumes "r \<in> set (window_risks threshold base w)"
  shows "threshold \<le> ri_anomaly r \<and> 0 \<le> ri_anomaly r \<and> ri_anomaly r \<le> 1"
proof -
  let ?es = "entity_scores (score_events (wi_events w) base)"
  obtain ty key where m: "(ty, key) \<in> fst ` set ?es"
      "entity_risk threshold w ty key (map snd (filter (\<lambda>x. fst x = (ty, key)) ?es)) = Some r"
    using assms unfolding window_risk_mem by blast
  let ?ss = "map snd (filter (\<lambda>x. fst x = (ty, key)) ?es)"
  have ne: "?ss \<noteq> []" using m(1) by (force simp: filter_empty_conv)
  have unit: "0 \<le> sc_anomaly s \<and> sc_anomaly s \<le> 1" if "s \<in> set ?ss" for s
  proof -
    have "((ty, key), s) \<in> set ?es" using that by auto
    then show ?thesis unfolding entity_scores_mem by (blast dest: scored_unit)
  qed
  have "0 \<le> max_anomaly ?ss"
    unfolding max_anomaly_le [OF ne] using ne unit by (metis list.set_intros(1) neq_Nil_conv)
  moreover have "max_anomaly ?ss \<le> 1"
    using max_anomaly_le [OF ne, of "max_anomaly ?ss"] unit by force
  moreover have "ri_anomaly r = max_anomaly ?ss" "threshold \<le> max_anomaly ?ss"
    using m(2) by (auto simp: entity_risk_def Let_def split: if_splits)
  ultimately show ?thesis by simp
qed

text \<open>Monitoring misses no deviation and invents none. Against a ready baseline, a risk is reported for an
entity (a command or a user) in a window exactly when some execution of that entity in that window has
an anomaly score at or above the detection threshold; the score of every reported risk is
at or above the threshold and between 0 and 1.\<close>

theorem monitor_reports_deviations:
  "((\<exists>r \<in> set (window_risks threshold base w). ri_entity_type r = ty \<and> ri_entity_key r = key) \<longleftrightarrow>
     (\<exists>s \<in> set (score_events (wi_events w) base). entity_of ty key s \<and> threshold \<le> sc_anomaly s)) \<and>
   list_all (\<lambda>r. threshold \<le> ri_anomaly r \<and> 0 \<le> ri_anomaly r \<and> ri_anomaly r \<le> 1) (window_risks threshold base w)"
proof -
  have scores: "list_all (\<lambda>r. threshold \<le> ri_anomaly r \<and> 0 \<le> ri_anomaly r \<and> ri_anomaly r \<le> 1) (window_risks threshold base w)"
    using risk_scores by (simp add: list_all_iff)
  let ?es = "entity_scores (score_events (wi_events w) base)"
  have "(\<exists>r \<in> set (window_risks threshold base w). ri_entity_type r = ty \<and> ri_entity_key r = key) \<longleftrightarrow>
      (ty, key) \<in> fst ` set ?es \<and> threshold \<le> max_anomaly (map snd (filter (\<lambda>x. fst x = (ty, key)) ?es))"
    (is "?L \<longleftrightarrow> ?in \<and> ?le")
  proof
    assume ?L
    then obtain r where q: "r \<in> set (window_risks threshold base w)" "ri_entity_type r = ty" "ri_entity_key r = key" by blast
    obtain ty' key' where r: "ri_entity_type r = ty" "ri_entity_key r = key" "(ty', key') \<in> fst ` set ?es"
      "entity_risk threshold w ty' key' (map snd (filter (\<lambda>x. fst x = (ty', key')) ?es)) = Some r"
      using q unfolding window_risk_mem by blast
    from entity_risk_Some [OF r(4)] r(1-3) show "?in \<and> ?le" by simp
  next
    assume R: "?in \<and> ?le"
    then obtain r where r: "entity_risk threshold w ty key (map snd (filter (\<lambda>x. fst x = (ty, key)) ?es)) = Some r"
      using entity_risk_iff by blast
    then have "r \<in> set (window_risks threshold base w)" using R unfolding window_risk_mem by blast
    with entity_risk_Some [OF r] show ?L by blast
  qed
  also have "\<dots> \<longleftrightarrow> (\<exists>x \<in> set ?es. fst x = (ty, key) \<and> threshold \<le> sc_anomaly (snd x))"
  proof (cases "(ty, key) \<in> fst ` set ?es")
    case True
    then have "map snd (filter (\<lambda>x. fst x = (ty, key)) ?es) \<noteq> []" by (force simp: filter_empty_conv)
    from max_anomaly_le [OF this, of threshold] True show ?thesis by force
  next
    case False
    then show ?thesis by force
  qed
  also have "\<dots> \<longleftrightarrow> (\<exists>s. ((ty, key), s) \<in> set ?es \<and> threshold \<le> sc_anomaly s)" by force
  finally show ?thesis using scores by (auto simp: entity_scores_mem)
qed

section \<open>Learning\<close>

datatype analyzer_call = Learn_Call "exec_event list" bool | Monitor_Call "summary option" "exec_event list"

fun analyzer_step :: "analyzer_call \<Rightarrow> analyzer \<Rightarrow> analyzer" where
  "analyzer_step (Learn_Call events verified) a = snd (learn_normal events verified a)"
| "analyzer_step (Monitor_Call stored events) a = snd (monitor stored events a)"

definition verified_call :: "analyzer_call \<Rightarrow> bool" where
  "verified_call c = (case c of Learn_Call _ v \<Rightarrow> v | Monitor_Call _ _ \<Rightarrow> False)"

lemma step_frozen: "an_summary a = Some s \<Longrightarrow> analyzer_step c a = a"
  by (cases c) (simp_all add: learn_normal_def monitor_def load_baseline_def)

lemma step_unverified: "\<not> verified_call c \<Longrightarrow> an_normal (analyzer_step c a) = an_normal a"
  by (cases c) (auto simp: learn_normal_def monitor_def load_baseline_def verified_call_def split: option.splits)

text \<open>The baseline cannot be poisoned through the analyzer. Calls that are not explicitly verified
learning never add to the normal sample set, and once a baseline is in place no sequence of learning
and monitoring calls changes the analyzer at all.\<close>

theorem baseline_is_frozen:
  "(if list_ex verified_call calls then True else an_normal (fold analyzer_step calls a) = an_normal a) \<and>
   (case an_summary a of None \<Rightarrow> True | Some _ \<Rightarrow> fold analyzer_step calls a = a)"
proof -
  have "\<not> list_ex verified_call calls \<Longrightarrow> an_normal (fold analyzer_step calls a) = an_normal a"
    by (induction calls arbitrary: a) (simp_all add: step_unverified)
  moreover have "an_summary a = Some s \<Longrightarrow> fold analyzer_step calls a = a" for s
    by (induction calls) (simp_all add: step_frozen)
  ultimately show ?thesis by (simp split: option.splits)
qed

section \<open>Instances\<close>

lemma windows_tile_executions_witness:
  "let ws = aggregate_windows 300 [\<lparr>xe_kind = Process_Exec, xe_timestamp = 310, xe_pid = None, xe_ppid = None, xe_uid = Some 0,
      xe_gid = None, xe_comm = Some ''sh'', xe_executable = None\<rparr>]
   in sorted_wrt (\<lambda>v w. wi_end v \<le> wi_start w) ws"
  using windows_tile_executions [of 300 "[\<lparr>xe_kind = Process_Exec, xe_timestamp = 310, xe_pid = None, xe_ppid = None, xe_uid = Some 0,
      xe_gid = None, xe_comm = Some ''sh'', xe_executable = None\<rparr>]"] by (simp add: Let_def)

end
