(* ===== verification/Correlation.thy ===== *)
theory Correlation
  imports Detection Baseline_Properties
begin

text \<open>
  The batch stages of \<^verbatim>\<open>detection/detector.py\<close>: correlation of findings into runs of contiguous
  windows, suppression specs, and \<open>detect\<close>. The list of findings stands for the Python list whose items
  the groups share; SHA-256 and the text of a float are parameters.
\<close>

section \<open>Correlation\<close>

definition correlation_id :: "(string \<Rightarrow> string) \<Rightarrow> (rat \<Rightarrow> string) \<Rightarrow> string \<Rightarrow> string \<Rightarrow> rat \<Rightarrow> string" where
  "correlation_id H fr entity_type entity_key anchor =
     take 16 (H (entity_type @ ''|'' @ entity_key @ ''|'' @ fr anchor))"

definition entity :: "finding \<Rightarrow> string \<times> string" where
  "entity f = (ma_entity_type (fd_material f), ma_entity_key (fd_material f))"

definition opens_at :: "finding \<Rightarrow> rat" where
  "opens_at f = ma_start (fd_material f)"

definition closes_at :: "finding \<Rightarrow> rat" where
  "closes_at f = ma_end (fd_material f)"

text \<open>The walk over one group, given by the positions of its findings: \<open>prev\<close> is the furthest end so far.\<close>

fun walk_group :: "(rat \<Rightarrow> string) \<Rightarrow> rat \<Rightarrow> rat option \<Rightarrow> nat list \<Rightarrow> finding list \<Rightarrow> finding list" where
  "walk_group cid anchor prev [] fs = fs"
| "walk_group cid anchor prev (i # is) fs =
     (let start = opens_at (fs ! i); end = closes_at (fs ! i);
          anchor = (case prev of None \<Rightarrow> start | Some p \<Rightarrow> if p < start then start else anchor)
      in walk_group cid anchor (Some (case prev of None \<Rightarrow> end | Some p \<Rightarrow> max p end)) is
           (fs[i := (fs ! i)\<lparr>fd_correlation := Some (cid anchor)\<rparr>]))"

definition assign_correlation :: "(string \<Rightarrow> string) \<Rightarrow> (rat \<Rightarrow> string) \<Rightarrow> finding list \<Rightarrow> finding list" where
  "assign_correlation H fr findings =
     fold (\<lambda>((entity_type, entity_key), group) fs.
            walk_group (correlation_id H fr entity_type entity_key) 0 None (sort_key (\<lambda>i. opens_at (fs ! i)) group) fs)
       (group_by (\<lambda>i. entity (findings ! i)) [0..<length findings]) findings"

section \<open>Suppression\<close>

record suppression =
  sp_entity_type :: doc
  sp_entity_key :: "string option"
  sp_matched_rule :: "string option"
  sp_reason :: string

definition text_or_none :: "(doc \<Rightarrow> string) \<Rightarrow> doc \<Rightarrow> string option" where
  "text_or_none shown v = (if v = PNone then None else Some (to_str shown v))"

definition validate_suppression :: "(doc \<Rightarrow> string) \<Rightarrow> doc \<Rightarrow> py_error + suppression" where
  "validate_suppression shown v =
     (case v of
        PDict spec \<Rightarrow>
          (let reason = strip (to_str shown (get_or spec ''reason'' (PStr []))) in
           if reason = [] then Inl (Value_Error ''suppression spec requires a non-empty reason'')
           else if dget spec ''entity_key'' = PNone \<and> dget spec ''matched_rule'' = PNone
           then Inl (Value_Error ''suppression spec must constrain entity_key and/or matched_rule'')
           else Inr \<lparr>sp_entity_type = dget spec ''entity_type'', sp_entity_key = text_or_none shown (dget spec ''entity_key''),
                  sp_matched_rule = text_or_none shown (dget spec ''matched_rule''), sp_reason = reason\<rparr>)
      | _ \<Rightarrow> Inl (Value_Error ''each suppression spec must be a mapping''))"

fun validate_suppressions :: "(doc \<Rightarrow> string) \<Rightarrow> doc list \<Rightarrow> py_error + suppression list" where
  "validate_suppressions shown [] = Inr []"
| "validate_suppressions shown (v # vs) =
     bind_py (validate_suppression shown v) (\<lambda>s. bind_py (validate_suppressions shown vs) (\<lambda>ss. Inr (s # ss)))"

definition finding_rule_ids :: "finding \<Rightarrow> string list" where
  "finding_rule_ids f = map rr_id (filter rr_matched (ma_rules (fd_material f)))"

definition spec_applies :: "suppression \<Rightarrow> finding \<Rightarrow> bool" where
  "spec_applies s f \<longleftrightarrow>
     (sp_entity_type s = PNone \<or> sp_entity_type s = PStr (fst (entity f))) \<and>
     (case sp_entity_key s of None \<Rightarrow> True | Some k \<Rightarrow> k = snd (entity f)) \<and>
     (case sp_matched_rule s of None \<Rightarrow> True | Some r \<Rightarrow> r \<in> set (finding_rule_ids f))"

definition suppress :: "suppression list \<Rightarrow> finding \<Rightarrow> finding" where
  "suppress specs f =
     (case find (\<lambda>s. spec_applies s f) specs of
        None \<Rightarrow> f
      | Some s \<Rightarrow> f\<lparr>fd_suppressed := True, fd_suppression_reason := Some (sp_reason s)\<rparr>)"

definition apply_suppressions :: "suppression list \<Rightarrow> finding list \<Rightarrow> finding list" where
  "apply_suppressions specs findings = map (suppress specs) findings"

section \<open>The engine\<close>

record engine =
  en_hash :: "string \<Rightarrow> string"
  en_float_text :: "rat \<Rightarrow> string"
  en_digest :: "material \<Rightarrow> string"
  en_rules :: "rule list"
  en_scorer :: "(exec_event list \<Rightarrow> py_error + ml_payload) option"
  en_suppressions :: "suppression list"

definition risk_order :: "risk \<Rightarrow> rat \<times> string \<times> string" where
  "risk_order r = (ri_start r, ri_entity_type r, ri_entity_key r)"

definition findings_of :: "engine \<Rightarrow> risk list \<Rightarrow> exec_event list \<Rightarrow> finding list" where
  "findings_of en risks events =
     map (\<lambda>r. make_finding (en_digest en) (en_rules en) (en_scorer en) r (events_for_risk r events)) (sort_key risk_order risks)"

definition detect :: "engine \<Rightarrow> risk list \<Rightarrow> exec_event list \<Rightarrow> finding list" where
  "detect en risks events =
     apply_suppressions (en_suppressions en) (assign_correlation (en_hash en) (en_float_text en) (findings_of en risks events))"

end
