(* ===== verification/Detection_Properties.thy ===== *)
theory Detection_Properties
  imports Correlation
begin

text \<open>
  The fusion engine: the walk over a group computes contiguous runs, suppression is a disposition, fused
  scores stay in the unit interval, and an accepted catalog gives sound rules.
\<close>

section \<open>Correlation\<close>

text \<open>Reference: a finding opens a run when every earlier window of its entity has ended before it opens_at; the
anchor of a finding is the latest opening at or before it.\<close>

definition opens_run :: "finding list \<Rightarrow> finding \<Rightarrow> bool" where
  "opens_run fs f = list_all (\<lambda>g. if entity g = entity f \<and> opens_at g < opens_at f then closes_at g < opens_at f else True) fs"

definition run_anchor :: "finding list \<Rightarrow> finding \<Rightarrow> rat" where
  "run_anchor fs f = Max (set (map opens_at (filter (\<lambda>g. entity g = entity f \<and> opens_at g \<le> opens_at f \<and> opens_run fs g) fs)))"

definition uncorrelated :: "finding \<Rightarrow> finding" where
  "uncorrelated f = f\<lparr>fd_correlation := None\<rparr>"

lemma uncorrelated_same [simp]:
  "uncorrelated (f\<lparr>fd_correlation := c\<rparr>) = uncorrelated f"
  "opens_at (f\<lparr>fd_correlation := c\<rparr>) = opens_at f" "closes_at (f\<lparr>fd_correlation := c\<rparr>) = closes_at f"
  "entity (f\<lparr>fd_correlation := c\<rparr>) = entity f"
  by (simp_all add: uncorrelated_def opens_at_def closes_at_def entity_def)

lemma walk_length [simp]: "length (walk_group cid a p is fs) = length fs"
  by (induction "is" arbitrary: a p fs) (simp_all add: Let_def)

lemma walk_starts [simp]:
  "opens_at (walk_group cid a p is fs ! j) = opens_at (fs ! j)" "closes_at (walk_group cid a p is fs ! j) = closes_at (fs ! j)"
proof (induction "is" arbitrary: a p fs)
  case (Cons i "is")
  { case 1 show ?case by (cases "i < length fs") (simp_all add: Let_def Cons nth_list_update list_update_beyond) }
  { case 2 show ?case by (cases "i < length fs") (simp_all add: Let_def Cons nth_list_update list_update_beyond) }
qed simp_all

lemma walk_other: "j \<notin> set is \<Longrightarrow> walk_group cid a p is fs ! j = fs ! j"
  by (induction "is" arbitrary: a p fs) (simp_all add: Let_def)

text \<open>Runs of one group, on the windows as pairs: the values of the openings.\<close>

definition openings :: "(nat \<Rightarrow> rat) \<Rightarrow> (nat \<Rightarrow> rat) \<Rightarrow> nat set \<Rightarrow> nat set \<Rightarrow> rat set" where
  "openings st en G D = st ` {k \<in> D. \<forall>l \<in> G. st l < st k \<longrightarrow> en l < st k}"

lemma openings_alt: "openings st en G D = {x \<in> st ` D. \<forall>l \<in> G. st l < x \<longrightarrow> en l < x}"
  by (auto simp: openings_def)

lemma openings_snoc:
  assumes "sorted (map st (D @ i # is))" "D \<noteq> []"
  defines "G \<equiv> set (D @ i # is)"
  shows "Max (openings st en G (insert i (set D))) =
    (if Max (en ` set D) < st i then st i else Max (openings st en G (set D)))"
proof -
  have le: "st l \<le> st i" if "l \<in> set D" for l using assms(1) that by (auto simp: sorted_append)
  have early: "l \<in> set D" if "l \<in> G" "st l < st i" for l
    using assms(1) that unfolding G_def by (auto simp: sorted_append)
  show ?thesis
  proof (cases "Max (en ` set D) < st i")
    case True
    then have "\<forall>l \<in> set D. en l < st i" using assms(2) by simp
    then have "st i \<in> openings st en G (insert i (set D))" using early by (auto simp: openings_def)
    moreover have "\<forall>x \<in> openings st en G (insert i (set D)). x \<le> st i" using le by (auto simp: openings_def)
    ultimately have "Max (openings st en G (insert i (set D))) = st i" by (intro Max_eqI) (auto simp: openings_def)
    with True show ?thesis by simp
  next
    case False
    have "Max (en ` set D) \<in> en ` set D" using assms(2) by (intro Max_in) auto
    then obtain l where l: "l \<in> set D" "Max (en ` set D) = en l" by blast
    with False have ge: "st i \<le> en l" by simp
    have "openings st en G (insert i (set D)) = openings st en G (set D)"
    proof (cases "st l < st i")
      case True
      with ge l(1) have "\<not> (\<forall>l \<in> G. st l < st i \<longrightarrow> en l < st i)" unfolding G_def by force
      then show ?thesis unfolding openings_def by blast
    next
      case False
      with le [OF l(1)] have "st l = st i" by simp
      then show ?thesis using l(1) unfolding openings_def by (auto 4 4 intro: rev_image_eqI)
    qed
    with False show ?thesis by simp
  qed
qed

lemma walk_anchor:
  assumes "sorted (map (\<lambda>i. opens_at (fs ! i)) (D @ ks))" "distinct (D @ ks)" "\<forall>i \<in> set ks. i < length fs"
    "D \<noteq> [] \<Longrightarrow> a = Max (openings (\<lambda>i. opens_at (fs ! i)) (\<lambda>i. closes_at (fs ! i)) (set (D @ ks)) (set D))"
    "p = (if D = [] then None else Some (Max ((\<lambda>i. closes_at (fs ! i)) ` set D)))"
  shows "\<forall>j \<in> set ks. walk_group cid a p ks fs ! j = (fs ! j)\<lparr>fd_correlation := Some (cid
    (Max (openings (\<lambda>i. opens_at (fs ! i)) (\<lambda>i. closes_at (fs ! i)) (set (D @ ks)) {k \<in> set (D @ ks). opens_at (fs ! k) \<le> opens_at (fs ! j)})))\<rparr>"
  using assms
proof (induction ks arbitrary: a p D fs)
  case (Cons i ks)
  let ?st = "\<lambda>i. opens_at (fs ! i)" and ?en = "\<lambda>i. closes_at (fs ! i)" and ?G = "set (D @ i # ks)"
  define a' where "a' = (case p of None \<Rightarrow> ?st i | Some q \<Rightarrow> if q < ?st i then ?st i else a)"
  define p' where "p' = Some (case p of None \<Rightarrow> ?en i | Some q \<Rightarrow> max q (?en i))"
  define fs' where "fs' = fs[i := (fs ! i)\<lparr>fd_correlation := Some (cid a')\<rparr>]"
  have i: "i < length fs" "i \<notin> set ks" "i \<notin> set D" using Cons.prems(2,3) by auto
  have same: "opens_at (fs' ! k) = ?st k" "closes_at (fs' ! k) = ?en k" for k
    using i(1) by (simp_all add: fs'_def nth_list_update)
  have walk: "walk_group cid a p (i # ks) fs = walk_group cid a' p' ks fs'"
    by (simp add: Let_def a'_def p'_def fs'_def)
  have a': "a' = Max (openings ?st ?en ?G (insert i (set D)))"
  proof (cases "D = []")
    case True
    then have "\<forall>l \<in> ?G. \<not> ?st l < ?st i" using Cons.prems(1) by (auto simp: not_less)
    with True have "openings ?st ?en ?G (insert i (set D)) = {?st i}" unfolding openings_def by auto
    then show ?thesis using True Cons.prems(5) by (simp add: a'_def)
  next
    case False
    then show ?thesis using Cons.prems(4,5) openings_snoc [OF Cons.prems(1) False] by (simp add: a'_def)
  qed
  have p': "p' = Some (Max (?en ` set (D @ [i])))"
  proof (cases "D = []")
    case False
    then have "Max (?en ` set (D @ [i])) = max (Max (?en ` set D)) (?en i)" by (simp add: Max_insert2 max.commute)
    then show ?thesis using False Cons.prems(5) by (simp add: p'_def)
  qed (simp add: p'_def Cons.prems(5))
  have l: "length fs' = length fs" by (simp add: fs'_def)
  have IH: "\<forall>j \<in> set ks. walk_group cid a' p' ks fs' ! j = (fs' ! j)\<lparr>fd_correlation := Some (cid
    (Max (openings ?st ?en (set ((D @ [i]) @ ks)) {k \<in> set ((D @ [i]) @ ks). ?st k \<le> ?st j})))\<rparr>"
  proof (rule Cons.IH [where fs = fs' and D = "D @ [i]" and a = a' and p = p', unfolded same l])
    show "sorted (map ?st ((D @ [i]) @ ks))" "distinct ((D @ [i]) @ ks)" "\<forall>i \<in> set ks. i < length fs"
      using Cons.prems(1-3) by simp_all
    show "a' = Max (openings ?st ?en (set ((D @ [i]) @ ks)) (set (D @ [i])))" using a' by simp
    show "p' = (if D @ [i] = [] then None else Some (Max (?en ` set (D @ [i]))))" using p' by simp
  qed
  have at: "openings ?st ?en ?G (insert i (set D)) = openings ?st ?en ?G {k \<in> ?G. ?st k \<le> ?st i}"
  proof -
    have "\<exists>k' \<in> insert i (set D). ?st k' = ?st k" if "k \<in> ?G" "?st k \<le> ?st i" for k
    proof (cases "k \<in> insert i (set D)")
      case False
      with that(1) have "k \<in> set ks" by auto
      with Cons.prems(1) that(2) have "?st k = ?st i" by (force simp: sorted_append)
      then show ?thesis by auto
    qed auto
    moreover have "?st k \<le> ?st i" if "k \<in> insert i (set D)" for k using Cons.prems(1) that by (auto simp: sorted_append)
    ultimately have "?st ` insert i (set D) = ?st ` {k \<in> ?G. ?st k \<le> ?st i}" by (intro set_eqI) (auto simp: image_iff; metis)
    then show ?thesis unfolding openings_alt by (rule arg_cong)
  qed
  show ?case
  proof
    fix j assume "j \<in> set (i # ks)"
    then consider "j = i" | "j \<in> set ks" "j \<noteq> i" using i by auto
    then show "walk_group cid a p (i # ks) fs ! j = (fs ! j)\<lparr>fd_correlation := Some (cid
        (Max (openings ?st ?en ?G {k \<in> ?G. ?st k \<le> ?st j})))\<rparr>"
    proof cases
      case 1
      then show ?thesis unfolding walk walk_other [OF i(2)] using i(1) a' at by (simp add: walk_other [OF i(2)] fs'_def)
    next
      case 2
      then show ?thesis unfolding walk using IH by (simp add: same fs'_def)
    qed
  qed
qed simp

lemma walk_group_sorted:
  assumes "distinct g" "\<forall>i \<in> set g. i < length fs" "j \<in> set g"
  shows "walk_group cid 0 None (sort_key (\<lambda>i. opens_at (fs ! i)) g) fs ! j = (fs ! j)\<lparr>fd_correlation := Some (cid
    (Max (openings (\<lambda>i. opens_at (fs ! i)) (\<lambda>i. closes_at (fs ! i)) (set g) {k \<in> set g. opens_at (fs ! k) \<le> opens_at (fs ! j)})))\<rparr>"
  using walk_anchor [where D = "[]" and ks = "sort_key (\<lambda>i. opens_at (fs ! i)) g" and fs = fs and cid = cid and a = 0 and p = None] assms
  by simp

lemma anchor_of_group:
  assumes "j < length fs"
  shows "Max (openings (\<lambda>i. opens_at (fs ! i)) (\<lambda>i. closes_at (fs ! i)) (set (filter (\<lambda>i. entity (fs ! i) = entity (fs ! j)) [0..<length fs]))
      {k \<in> set (filter (\<lambda>i. entity (fs ! i) = entity (fs ! j)) [0..<length fs]). opens_at (fs ! k) \<le> opens_at (fs ! j)}) =
    run_anchor fs (fs ! j)"
proof -
  let ?G = "set (filter (\<lambda>i. entity (fs ! i) = entity (fs ! j)) [0..<length fs])"
  have opens: "opens_run fs (fs ! k) \<longleftrightarrow> (\<forall>l \<in> ?G. opens_at (fs ! l) < opens_at (fs ! k) \<longrightarrow> closes_at (fs ! l) < opens_at (fs ! k))"
    if "entity (fs ! k) = entity (fs ! j)" for k
    using that by (auto simp: opens_run_def list_all_length split: if_splits)
  have nth: "{h \<in> set fs. Q h} = (!) fs ` {k. k < length fs \<and> Q (fs ! k)}" for Q
    by (auto simp: in_set_conv_nth)
  have "openings (\<lambda>i. opens_at (fs ! i)) (\<lambda>i. closes_at (fs ! i)) ?G {k \<in> ?G. opens_at (fs ! k) \<le> opens_at (fs ! j)} =
      opens_at ` (!) fs ` {k. k < length fs \<and> (entity (fs ! k) = entity (fs ! j) \<and> opens_at (fs ! k) \<le> opens_at (fs ! j) \<and> opens_run fs (fs ! k))}"
    unfolding openings_def image_image using opens by (intro image_cong) auto
  then show ?thesis unfolding run_anchor_def set_map set_filter nth by simp
qed

definition correlate_one :: "(string \<Rightarrow> string) \<Rightarrow> (rat \<Rightarrow> string) \<Rightarrow> finding list \<Rightarrow> finding \<Rightarrow> finding" where
  "correlate_one H fr fs f =
     f\<lparr>fd_correlation := Some (correlation_id H fr (fst (entity f)) (snd (entity f)) (run_anchor fs f))\<rparr>"

lemma correlate_fold:
  fixes fs0 H fr
  defines "F \<equiv> \<lambda>((entity_type, entity_key), group) fs.
    walk_group (correlation_id H fr entity_type entity_key) 0 None (sort_key (\<lambda>i. opens_at (fs ! i)) group) fs"
  assumes "distinct (map fst gs)" "length fs = length fs0" "\<And>j. opens_at (fs ! j) = opens_at (fs0 ! j)" "\<And>j. closes_at (fs ! j) = closes_at (fs0 ! j)"
    "\<forall>(k, g) \<in> set gs. g = filter (\<lambda>i. entity (fs0 ! i) = k) [0..<length fs0]"
    "\<forall>j < length fs0. entity (fs0 ! j) \<in> fst ` set gs \<longrightarrow> fs ! j = fs0 ! j" "j < length fs0"
  shows "length (fold F gs fs) = length fs0 \<and>
    fold F gs fs ! j = (if entity (fs0 ! j) \<in> fst ` set gs then correlate_one H fr fs0 (fs0 ! j) else fs ! j)"
  using assms(2-)
proof (induction gs arbitrary: fs)
  case (Cons kg gs)
  obtain ty key g where kg: "kg = ((ty, key), g)" by (cases kg) auto
  have g: "g = filter (\<lambda>i. entity (fs0 ! i) = (ty, key)) [0..<length fs0]" using Cons.prems(5) by (simp add: kg)
  define fs' where "fs' = F kg fs"
  have fs': "fs' = walk_group (correlation_id H fr ty key) 0 None (sort_key (\<lambda>i. opens_at (fs ! i)) g) fs"
    by (simp add: fs'_def F_def kg)
  have other: "fs' ! i = fs ! i" if "i < length fs0" "entity (fs0 ! i) \<noteq> (ty, key)" for i
    unfolding fs' using that by (intro walk_other) (simp add: g)
  have own: "fs' ! i = correlate_one H fr fs0 (fs0 ! i)" if i: "i < length fs0" "entity (fs0 ! i) = (ty, key)" for i
  proof -
    have "fs ! i = fs0 ! i" using Cons.prems(6) i by (simp add: kg)
    moreover have "i \<in> set g" "distinct g" "\<forall>i \<in> set g. i < length fs" using i Cons.prems(2) by (simp_all add: g)
    moreover have "Max (openings (\<lambda>i. opens_at (fs0 ! i)) (\<lambda>i. closes_at (fs0 ! i)) (set g) {k \<in> set g. opens_at (fs0 ! k) \<le> opens_at (fs0 ! i)}) =
        run_anchor fs0 (fs0 ! i)"
      using anchor_of_group [OF i(1)] i(2) by (simp only: g)
    ultimately show ?thesis unfolding fs' using i(2)
      by (subst walk_group_sorted) (simp_all add: correlate_one_def Cons.prems(3,4))
  qed
  have "length (fold F gs fs') = length fs0 \<and>
    fold F gs fs' ! j = (if entity (fs0 ! j) \<in> fst ` set gs then correlate_one H fr fs0 (fs0 ! j) else fs' ! j)"
  proof (rule Cons.IH)
    show "distinct (map fst gs)" "\<forall>(k, g) \<in> set gs. g = filter (\<lambda>i. entity (fs0 ! i) = k) [0..<length fs0]" "j < length fs0"
      using Cons.prems(1,5,7) by simp_all
    show "length fs' = length fs0" "\<And>j. opens_at (fs' ! j) = opens_at (fs0 ! j)" "\<And>j. closes_at (fs' ! j) = closes_at (fs0 ! j)"
      using Cons.prems(2-4) by (simp_all add: fs')
    show "\<forall>j < length fs0. entity (fs0 ! j) \<in> fst ` set gs \<longrightarrow> fs' ! j = fs0 ! j"
    proof (intro allI impI)
      fix i assume i: "i < length fs0" "entity (fs0 ! i) \<in> fst ` set gs"
      moreover have "(ty, key) \<notin> fst ` set gs" using Cons.prems(1) by (simp add: kg)
      ultimately have "entity (fs0 ! i) \<noteq> (ty, key)" by metis
      then show "fs' ! i = fs0 ! i" using other i Cons.prems(6) by simp
    qed
  qed
  then show ?case using own other Cons.prems(7) by (auto simp: fs'_def kg)
qed simp

lemma group_keys: "fst ` set (group_by key xs) = key ` set xs"
proof (rule set_eqI)
  fix k
  have "k \<in> fst ` set (group_by key xs) \<longleftrightarrow> (\<exists>ys. (k, ys) \<in> set (group_by key xs))" by (force simp: image_iff)
  then show "k \<in> fst ` set (group_by key xs) \<longleftrightarrow> k \<in> key ` set xs" unfolding in_group by simp
qed

lemma assign_reference: "assign_correlation H fr fs = map (correlate_one H fr fs) fs"
proof (rule nth_equalityI)
  let ?gs = "group_by (\<lambda>i. entity (fs ! i)) [0..<length fs]"
  have key: "entity (fs ! j) \<in> fst ` set ?gs" if "j < length fs" for j
    using that by (simp add: group_keys)
  have gs: "distinct (map fst ?gs)" "\<forall>(k, g) \<in> set ?gs. g = filter (\<lambda>i. entity (fs ! i) = k) [0..<length fs]"
    by (auto simp: group_distinct in_group)
  note fold = correlate_fold [OF gs(1) refl refl refl gs(2), where H = H and fr = fr]
  show len: "length (assign_correlation H fr fs) = length (map (correlate_one H fr fs) fs)"
  proof (cases fs)
    case Nil
    then show ?thesis by (simp add: assign_correlation_def group_by_def)
  next
    case Cons
    then show ?thesis using fold [of 0] unfolding assign_correlation_def by simp
  qed
  fix j assume "j < length (assign_correlation H fr fs)"
  with len have "j < length fs" by simp
  then show "assign_correlation H fr fs ! j = map (correlate_one H fr fs) fs ! j"
    using fold [of j] key unfolding assign_correlation_def by simp
qed

lemma same_anchor:
  assumes "f \<in> set fs" "entity f = entity g" "opens_at f \<le> opens_at g"
  shows "run_anchor fs f = run_anchor fs g \<longleftrightarrow>
    \<not> (\<exists>h \<in> set fs. entity h = entity f \<and> opens_run fs h \<and> opens_at f < opens_at h \<and> opens_at h \<le> opens_at g)"
proof -
  let ?A = "\<lambda>x. opens_at ` {h \<in> set fs. entity h = entity f \<and> opens_at h \<le> x \<and> opens_run fs h}"
  have anchor: "run_anchor fs f = Max (?A (opens_at f))" "run_anchor fs g = Max (?A (opens_at g))"
    unfolding run_anchor_def assms(2) [symmetric] by (simp_all add: conj_assoc)
  let ?E = "{h \<in> set fs. entity h = entity f}"
  have fin: "finite (opens_at ` ?E)" "f \<in> ?E" using assms(1) by simp_all
  then have "Min (opens_at ` ?E) \<in> opens_at ` ?E" by (intro Min_in) auto
  then obtain e where e: "e \<in> ?E" "opens_at e = Min (opens_at ` ?E)" by force
  have first: "opens_at e \<le> opens_at h" if "h \<in> ?E" for h using that fin(1) unfolding e(2) by (intro Min_le) auto
  have "opens_run fs e" using e(1) first by (force simp: opens_run_def list_all_iff)
  then have ne: "?A (opens_at f) \<noteq> {}" using e(1) first [OF fin(2)] by blast
  then have "Max (?A (opens_at f)) \<in> ?A (opens_at f)" by (intro Max_in) auto
  then have le: "Max (?A (opens_at f)) \<le> opens_at f" by auto
  show ?thesis
  proof (cases "\<exists>h \<in> set fs. entity h = entity f \<and> opens_run fs h \<and> opens_at f < opens_at h \<and> opens_at h \<le> opens_at g")
    case True
    then obtain h where h: "h \<in> set fs" "entity h = entity f" "opens_run fs h" "opens_at f < opens_at h" "opens_at h \<le> opens_at g" by blast
    then have "opens_at h \<le> Max (?A (opens_at g))" by (intro Max_ge) auto
    then have "run_anchor fs f \<noteq> run_anchor fs g" unfolding anchor using h(4) le by linarith
    with True show ?thesis by simp
  next
    case False
    then have "{h \<in> set fs. entity h = entity f \<and> opens_at h \<le> opens_at f \<and> opens_run fs h} =
        {h \<in> set fs. entity h = entity f \<and> opens_at h \<le> opens_at g \<and> opens_run fs h}"
      using assms(3) by (force simp: not_less)
    then show ?thesis using False unfolding anchor by simp
  qed
qed

lemma anchor_start: "f \<in> set fs \<Longrightarrow> run_anchor fs f \<in> opens_at ` set fs"
proof -
  assume f: "f \<in> set fs"
  let ?E = "{h \<in> set fs. entity h = entity f}" and ?A = "set (map opens_at (filter (\<lambda>g. entity g = entity f \<and> opens_at g \<le> opens_at f \<and> opens_run fs g) fs))"
  have "Min (opens_at ` ?E) \<in> opens_at ` ?E" using f by (intro Min_in) auto
  then obtain e where e: "e \<in> ?E" "opens_at e = Min (opens_at ` ?E)" by force
  have first: "opens_at e \<le> opens_at h" if "h \<in> ?E" for h using that unfolding e(2) by (intro Min_le) auto
  have "opens_run fs e" using e(1) first by (force simp: opens_run_def list_all_iff)
  then have "?A \<noteq> {}" using e(1) first [of f] f by auto
  then have "Max ?A \<in> ?A" by (intro Max_in) auto
  then show ?thesis unfolding run_anchor_def by auto
qed

lemma correlation_same:
  assumes "inj_on (\<lambda>((ty, key), a). correlation_id H fr ty key a) (entity ` set fs \<times> opens_at ` set fs)" "f \<in> set fs" "g \<in> set fs"
  shows "fd_correlation (correlate_one H fr fs f) = fd_correlation (correlate_one H fr fs g) \<longleftrightarrow>
    entity f = entity g \<and> run_anchor fs f = run_anchor fs g"
proof -
  have "fd_correlation (correlate_one H fr fs x) = Some ((\<lambda>((ty, key), a). correlation_id H fr ty key a) (entity x, run_anchor fs x))" for x
    by (simp add: correlate_one_def split_beta)
  then show ?thesis using inj_onD [OF assms(1), of "(entity f, run_anchor fs f)" "(entity g, run_anchor fs g)"] assms(2,3) anchor_start
    by auto
qed

lemma correlate_one_same [simp]:
  "opens_at (correlate_one H fr fs f) = opens_at f" "closes_at (correlate_one H fr fs f) = closes_at f" "entity (correlate_one H fr fs f) = entity f"
  by (simp_all add: correlate_one_def)

text \<open>C18: Correlation is the partition into contiguous runs. Walking each entity's findings in place, sorted by
window, gives every finding the id of the latest opening of a run at or before it and changes nothing
else; so, barring a digest collision, two findings share a correlation id exactly when they concern the
same entity and no window between them opens_at after all earlier windows of that entity have ended.\<close>

theorem correlation_is_contiguous_runs:
  assumes "inj_on (\<lambda>((ty, key), a). correlation_id H fr ty key a) (entity ` set fs \<times> opens_at ` set fs)"
  shows "assign_correlation H fr fs =
      map (\<lambda>f. f\<lparr>fd_correlation := Some (correlation_id H fr (fst (entity f)) (snd (entity f)) (run_anchor fs f))\<rparr>) fs \<and>
    list_all (\<lambda>f. list_all (\<lambda>g. (fd_correlation f = fd_correlation g) = (entity f = entity g \<and>
        \<not> list_ex (\<lambda>h. entity h = entity f \<and> opens_run fs h \<and> min (opens_at f) (opens_at g) < opens_at h \<and> opens_at h \<le> max (opens_at f) (opens_at g)) fs))
      (assign_correlation H fr fs)) (assign_correlation H fr fs)"
proof
  show "assign_correlation H fr fs =
      map (\<lambda>f. f\<lparr>fd_correlation := Some (correlation_id H fr (fst (entity f)) (snd (entity f)) (run_anchor fs f))\<rparr>) fs"
    unfolding assign_reference by (simp add: correlate_one_def)
  have "(entity f = entity g \<and> run_anchor fs f = run_anchor fs g) = (entity f = entity g \<and>
        \<not> list_ex (\<lambda>h. entity h = entity f \<and> opens_run fs h \<and> min (opens_at f) (opens_at g) < opens_at h \<and> opens_at h \<le> max (opens_at f) (opens_at g)) fs)"
    if "f \<in> set fs" "g \<in> set fs" for f g
  proof (cases "entity f = entity g")
    case True
    show ?thesis
    proof (cases "opens_at f \<le> opens_at g")
      case le: True
      show ?thesis using same_anchor [OF that(1) True le] True le by (auto simp: list_ex_iff)
    next
      case False
      then have le: "opens_at g \<le> opens_at f" by simp
      show ?thesis using same_anchor [OF that(2) True [symmetric] le] True le by (auto simp: list_ex_iff)
    qed
  qed simp
  then show "list_all (\<lambda>f. list_all (\<lambda>g. (fd_correlation f = fd_correlation g) = (entity f = entity g \<and>
        \<not> list_ex (\<lambda>h. entity h = entity f \<and> opens_run fs h \<and> min (opens_at f) (opens_at g) < opens_at h \<and> opens_at h \<le> max (opens_at f) (opens_at g)) fs))
      (assign_correlation H fr fs)) (assign_correlation H fr fs)"
    unfolding assign_reference by (simp add: list_all_iff correlation_same [OF assms])
qed

section \<open>Suppression\<close>

definition undisposed :: "finding \<Rightarrow> finding" where
  "undisposed f = f\<lparr>fd_suppressed := False, fd_suppression_reason := None\<rparr>"

lemma validated: "validate_suppressions shown vs = Inr specs \<Longrightarrow>
  list_all (\<lambda>s. sp_reason s \<noteq> [] \<and> (sp_entity_key s \<noteq> None \<or> sp_matched_rule s \<noteq> None)) specs"
proof (induction vs arbitrary: specs)
  case (Cons v vs)
  then show ?case
    by (auto simp: bind_py_def validate_suppression_def text_or_none_def Let_def split: sum.splits pyobj.splits if_splits)
qed simp

lemma made_undisposed: "fd_suppressed (make_finding d rules scorer r es) = False \<and> fd_suppression_reason (make_finding d rules scorer r es) = None"
  by (simp add: make_finding_def Let_def)

lemma plain_undisposed:
  "f \<in> set (assign_correlation H fr (findings_of en risks events)) \<Longrightarrow> fd_suppressed f = False \<and> fd_suppression_reason f = None"
  unfolding assign_reference by (auto simp: correlate_one_def findings_of_def made_undisposed)

lemma applies_same: "spec_applies s (f\<lparr>fd_suppressed := b, fd_suppression_reason := r\<rparr>) = spec_applies s f"
proof -
  have "entity (f\<lparr>fd_suppressed := b, fd_suppression_reason := r\<rparr>) = entity f"
    "finding_rule_ids (f\<lparr>fd_suppressed := b, fd_suppression_reason := r\<rparr>) = finding_rule_ids f"
    by (simp_all add: entity_def finding_rule_ids_def)
  then show ?thesis unfolding spec_applies_def by (simp split: option.split)
qed

lemma suppress_eq: "suppress specs f = (case find (\<lambda>s. spec_applies s f) specs of None \<Rightarrow> f
    | Some s \<Rightarrow> f\<lparr>fd_suppressed := True, fd_suppression_reason := Some (sp_reason s)\<rparr>)"
  by (simp add: suppress_def)

lemma find_suppress: "find (\<lambda>s. spec_applies s (suppress specs f)) specs = find (\<lambda>s. spec_applies s f) specs"
  by (simp add: suppress_eq applies_same split: option.split)

lemma undisposed_suppress:
  "fd_suppressed f = False \<Longrightarrow> fd_suppression_reason f = None \<Longrightarrow> undisposed (suppress specs f) = f"
  by (simp add: suppress_eq undisposed_def split: option.split)

text \<open>C19: Suppression is a disposition, never a drop. With specs the validator accepted, detection returns one
finding per risk, in the same order and equal, down to score, evidence, provenance and correlation, to the
findings of an engine without specs, except for the two disposition fields; a finding is suppressed
exactly when some spec applies, with the non-empty reason of the first such spec.\<close>

theorem suppression_is_disposition:
  assumes "validate_suppressions shown vs = Inr (en_suppressions en)"
  shows "map undisposed (detect en risks events) = detect (en\<lparr>en_suppressions := []\<rparr>) risks events \<and>
    length (detect en risks events) = length risks \<and>
    list_all (\<lambda>f. fd_suppression_reason f = map_option sp_reason (find (\<lambda>s. spec_applies s f) (en_suppressions en)) \<and>
        fd_suppressed f = list_ex (\<lambda>s. spec_applies s f) (en_suppressions en) \<and> fd_suppression_reason f \<noteq> Some [])
      (detect en risks events)"
proof (intro conjI)
  let ?plain = "assign_correlation (en_hash en) (en_float_text en) (findings_of en risks events)"
  have none: "suppress [] = (\<lambda>f. f)" by (rule ext) (simp add: suppress_def)
  have same: "findings_of (en\<lparr>en_suppressions := []\<rparr>) risks events = findings_of en risks events" by (simp add: findings_of_def)
  show "map undisposed (detect en risks events) = detect (en\<lparr>en_suppressions := []\<rparr>) risks events"
    by (simp add: detect_def apply_suppressions_def none same map_idI undisposed_suppress plain_undisposed)
  show "length (detect en risks events) = length risks"
    by (simp add: detect_def apply_suppressions_def assign_reference findings_of_def)
  show "list_all (\<lambda>f. fd_suppression_reason f = map_option sp_reason (find (\<lambda>s. spec_applies s f) (en_suppressions en)) \<and>
        fd_suppressed f = list_ex (\<lambda>s. spec_applies s f) (en_suppressions en) \<and> fd_suppression_reason f \<noteq> Some [])
      (detect en risks events)"
    unfolding list_all_iff
  proof
    fix f assume "f \<in> set (detect en risks events)"
    then obtain g where g: "g \<in> set ?plain" "f = suppress (en_suppressions en) g"
      by (auto simp: detect_def apply_suppressions_def)
    have ex: "list_ex P xs \<longleftrightarrow> find P xs \<noteq> None" for P and xs :: "suppression list" by (induction xs) auto
    have reason: "sp_reason s \<noteq> []" if "find P (en_suppressions en) = Some s" for P s
      using validated [OF assms] that by (auto simp: list_all_iff find_Some_iff)
    show "fd_suppression_reason f = map_option sp_reason (find (\<lambda>s. spec_applies s f) (en_suppressions en)) \<and>
        fd_suppressed f = list_ex (\<lambda>s. spec_applies s f) (en_suppressions en) \<and> fd_suppression_reason f \<noteq> Some []"
      unfolding g(2) ex find_suppress using plain_undisposed [OF g(1)]
      by (simp add: suppress_eq reason split: option.split)
  qed
qed

section \<open>The catalog\<close>

definition enabled_entry :: "doc \<Rightarrow> bool" where
  "enabled_entry v = (case v of PDict entry \<Rightarrow> truthy (get_or entry ''enabled'' (PBool True)) | _ \<Rightarrow> False)"

definition entry_id :: "doc \<Rightarrow> doc" where
  "entry_id v = (case v of PDict entry \<Rightarrow> dget entry ''rule_id'' | _ \<Rightarrow> PNone)"

definition rule_types :: "string list" where
  "rule_types = [''privileged_unusual_execution'', ''suspicious_utility_activity'', ''execution_burst'', ''multi_uid_activity'']"

definition valid_entry :: "(doc \<Rightarrow> string) \<Rightarrow> doc \<Rightarrow> bool" where
  "valid_entry shown v = (case v of
     PDict entry \<Rightarrow> unit_number (dget entry ''score'') \<and> \<not> blank shown (get_or entry ''mapping_rationale'' (PStr [])) \<and>
       (case dget entry ''mitre'' of
          PDict mitre \<Rightarrow> \<not> blank shown (get_or mitre ''tactic'' (PStr [])) \<and> \<not> blank shown (get_or mitre ''technique'' (PStr []))
        | _ \<Rightarrow> False)
   | _ \<Rightarrow> False)"

lemma validate_entry_Inr:
  assumes "validate_entry shown seen v = Inr seen'"
  shows "valid_entry shown v \<and> entry_id v \<notin> set seen \<and> seen' = seen @ [entry_id v]"
proof -
  obtain entry where v: "v = PDict entry" using assms by (cases v) (simp_all add: validate_entry_def)
  from assms show ?thesis
    unfolding v by (cases "dget entry ''mitre''") (simp_all add: validate_entry_def valid_entry_def entry_id_def split: if_splits)
qed

lemma validate_entries_Inr:
  "validate_entries shown seen vs = Inr () \<Longrightarrow>
    list_all (valid_entry shown) vs \<and> distinct (map entry_id vs) \<and> set seen \<inter> set (map entry_id vs) = {}"
proof (induction vs arbitrary: seen)
  case (Cons v vs)
  obtain seen' where s: "validate_entry shown seen v = Inr seen'" "validate_entries shown seen' vs = Inr ()"
    using Cons.prems by (auto split: sum.splits)
  from validate_entry_Inr [OF s(1)] Cons.IH [OF s(2)] show ?case by auto
qed simp

definition sound_rule :: "(doc \<Rightarrow> string) \<Rightarrow> rule \<Rightarrow> bool" where
  "sound_rule shown r \<longleftrightarrow> 0 \<le> ru_score r \<and> ru_score r \<le> 1 \<and> ru_id r \<in> set rule_types \<and>
     \<not> blank shown (get_or (ru_mitre r) ''tactic'' (PStr [])) \<and> \<not> blank shown (get_or (ru_mitre r) ''technique'' (PStr []))"

lemma unit_float: "unit_number v \<Longrightarrow> to_float f v = Inr q \<Longrightarrow> 0 \<le> q \<and> q \<le> 1"
  by (auto simp: unit_number_def to_float_def split: pyobj.splits)

lemma build_body_types: "build_body rd rule_id entry \<noteq> None \<Longrightarrow> rule_id \<in> set rule_types"
  by (simp add: build_body_def rule_types_def split: if_splits)

lemma load_rule_Some:
  assumes "load_rule rd v = Inr (Some r)" "valid_entry (rd_shown rd) v"
  shows "sound_rule (rd_shown rd) r \<and> entry_id v = PStr (ru_id r) \<and> enabled_entry v"
proof -
  obtain entry where v: "v = PDict entry" using assms(1) by (cases v) (simp_all add: load_rule_def)
  from assms(1) obtain rule_id body score mitre where
    r: "truthy (get_or entry ''enabled'' (PBool True))" "dget entry ''rule_id'' = PStr rule_id" "build_body rd rule_id entry = Some (Inr body)"
      "to_float (rd_float rd) (dget entry ''score'') = Inr score" "dget entry ''mitre'' = PDict mitre"
      "r = \<lparr>ru_id = rule_id, ru_version = to_str (rd_shown rd) (dget entry ''version''), ru_score = score, ru_mitre = mitre, ru_body = body\<rparr>"
    unfolding v by (simp add: load_rule_def split: pyobj.splits option.splits sum.splits if_splits)
  have "0 \<le> score \<and> score \<le> 1" using unit_float [OF _ r(4)] assms(2) by (simp add: valid_entry_def v)
  then show ?thesis using assms(2) r build_body_types [of rd rule_id entry]
    by (simp add: sound_rule_def valid_entry_def v entry_id_def enabled_entry_def)
qed

lemma load_rule_None: "load_rule rd v = Inr None \<Longrightarrow> \<not> enabled_entry v"
  by (auto simp: load_rule_def enabled_entry_def split: pyobj.splits option.splits sum.splits if_splits)

lemma load_all_Inr:
  "load_all rd vs = Inr rules \<Longrightarrow> list_all (valid_entry (rd_shown rd)) vs \<Longrightarrow>
    map (\<lambda>r. PStr (ru_id r)) rules = map entry_id (filter enabled_entry vs) \<and> list_all (sound_rule (rd_shown rd)) rules"
proof (induction vs arbitrary: rules)
  case (Cons v vs)
  obtain r rs where r: "load_rule rd v = Inr r" "load_all rd vs = Inr rs" "rules = (case r of None \<Rightarrow> [] | Some r \<Rightarrow> [r]) @ rs"
    using Cons.prems(1) by (auto split: sum.splits)
  have IH: "map (\<lambda>r. PStr (ru_id r)) rs = map entry_id (filter enabled_entry vs) \<and> list_all (sound_rule (rd_shown rd)) rs"
    using Cons.IH [OF r(2)] Cons.prems(2) by simp
  show ?case
  proof (cases r)
    case None
    then show ?thesis using IH load_rule_None r by simp
  next
    case (Some x)
    then show ?thesis using IH load_rule_Some r Cons.prems(2) by simp
  qed
qed simp

lemma catalog_sound: "load_rules rd document = Inr rules \<Longrightarrow> list_all (sound_rule (rd_shown rd)) rules"
proof -
  assume "load_rules rd document = Inr rules"
  then obtain entries where "validate_entries (rd_shown rd) [] entries = Inr ()" "load_all rd entries = Inr rules"
    by (auto simp: load_rules_def load_catalog_def split: sum.splits pyobj.splits if_splits)
  with validate_entries_Inr load_all_Inr show ?thesis by blast
qed

text \<open>C20: The rules catalog fails closed. Whenever loading succeeds the document is a mapping with a non-empty
list of rules whose ids are all different; there is exactly one rule per enabled entry, in order; every
rule is of an implemented type, has a score between 0 and 1, and carries a non-blank ATT&CK tactic and
technique. A catalog with any other enabled entry is refused, whatever else it holds.\<close>

theorem catalog_fails_closed:
  assumes "load_rules rd document = Inr rules"
  shows "case document of
      PDict d \<Rightarrow> (case dget d ''rules'' of
        PList entries \<Rightarrow> entries \<noteq> [] \<and> distinct (map entry_id entries) \<and>
          map (\<lambda>r. PStr (ru_id r)) rules = map entry_id (filter enabled_entry entries) \<and> distinct (map ru_id rules) \<and>
          list_all (sound_rule (rd_shown rd)) rules
      | _ \<Rightarrow> False)
    | _ \<Rightarrow> False"
proof -
  obtain d entries where d: "document = PDict d" "dget d ''rules'' = PList entries" "entries \<noteq> []"
      "validate_entries (rd_shown rd) [] entries = Inr ()" "load_all rd entries = Inr rules"
    using assms by (auto simp: load_rules_def load_catalog_def split: sum.splits pyobj.splits if_splits)
  from validate_entries_Inr [OF d(4)] have v: "list_all (valid_entry (rd_shown rd)) entries" "distinct (map entry_id entries)" by simp_all
  from load_all_Inr [OF d(5) v(1)] have l: "map (\<lambda>r. PStr (ru_id r)) rules = map entry_id (filter enabled_entry entries)"
      "list_all (sound_rule (rd_shown rd)) rules" by simp_all
  have "distinct (map (\<lambda>r. PStr (ru_id r) :: doc) rules)" using distinct_map_filter [OF v(2), of enabled_entry] unfolding l(1) [symmetric] .
  then have "distinct (map ru_id rules)" by (simp add: distinct_map inj_on_def)
  then show ?thesis using d(1-3) v(2) l by simp
qed

section \<open>Fusion\<close>

lemma fuse_prod: "fuse_rules rs = 1 - prod_list (map (\<lambda>r. if rr_matched r then 1 - rr_score r else 1) rs)"
proof -
  have "fold (\<lambda>r remaining. if rr_matched r then remaining * (1 - rr_score r) else remaining) rs a =
      a * prod_list (map (\<lambda>r. if rr_matched r then 1 - rr_score r else 1) rs)" for a
    by (induction rs arbitrary: a) simp_all
  then show ?thesis by (simp add: fuse_rules_def)
qed

lemma prod_list_mset: "mset xs = mset ys \<Longrightarrow> prod_list xs = prod_list (ys :: rat list)"
  by (metis prod_mset_prod_list)

lemma prod_unit:
  fixes xs :: "rat list"
  assumes "\<forall>x \<in> set xs. 0 \<le> x \<and> x \<le> 1"
  shows "0 \<le> prod_list xs \<and> prod_list xs \<le> 1 \<and> (\<forall>x \<in> set xs. prod_list xs \<le> x) \<and> 1 - prod_list xs \<le> sum_list (map (\<lambda>x. 1 - x) xs)"
  using assms
proof (induction xs)
  case (Cons x xs)
  then have IH: "0 \<le> prod_list xs" "prod_list xs \<le> 1" "\<forall>x \<in> set xs. prod_list xs \<le> x"
      "1 - prod_list xs \<le> sum_list (map (\<lambda>x. 1 - x) xs)" and x: "0 \<le> x" "x \<le> 1" by simp_all
  have a: "x * prod_list xs \<le> prod_list xs" using mult_right_mono [OF x(2) IH(1)] by simp
  have b: "x * prod_list xs \<le> x" using mult_left_mono [OF IH(2) x(1)] by simp
  have "(1 - x) * (1 - prod_list xs) \<ge> 0" using x IH by simp
  then have "1 - x * prod_list xs \<le> (1 - x) + (1 - prod_list xs)" by (simp add: algebra_simps)
  with a b IH x show ?case by force
qed simp

lemma made_scores:
  defines "results rules r es \<equiv> map (\<lambda>ru. evaluate_rule ru (ri_anomaly r) r es) rules"
  shows "ma_behavior_score (fd_material (make_finding d rules scorer r es)) = round4 (ri_anomaly r)"
    "ma_rule_score (fd_material (make_finding d rules scorer r es)) = round4 (fuse_rules (results rules r es))"
    "ma_context_score (fd_material (make_finding d rules scorer r es)) = round4 (detection_context_score es r)"
    "ma_risk_score (fd_material (make_finding d rules scorer r es)) =
      round4 (fused_score (ri_anomaly r) (fuse_rules (results rules r es)) (detection_context_score es r) (ml_evidence scorer r es))"
    "fd_severity (make_finding d rules scorer r es) =
      severity_of (fused_score (ri_anomaly r) (fuse_rules (results rules r es)) (detection_context_score es r) (ml_evidence scorer r es))"
    "ma_rules (fd_material (make_finding d rules scorer r es)) = results rules r es"
    "ma_ml (fd_material (make_finding d rules scorer r es)) = map_option round4 (ml_evidence scorer r es)"
  by (simp_all add: make_finding_def Let_def results_def)

lemma result_fields: "rr_id (evaluate_rule ru b r es) = ru_id ru \<and>
  rr_score (evaluate_rule ru b r es) = (if rr_matched (evaluate_rule ru b r es) then ru_score ru else 0)"
  by (simp add: evaluate_rule_def make_result_def Let_def split: rule_body.split)

text \<open>Fusion is a bounded noisy-or. For a risk with a score in the unit interval, rules of an accepted
catalog and model scores in the unit interval, every stored score of a finding lies between 0 and 1;
the fused rule score is at least the score of each matched rule and at most their sum, zero when none
matched; and the finding's scores and severity do not depend on the order of the rules.\<close>

theorem fusion_is_bounded_noisy_or:
  assumes "load_rules rd document = Inr rules" "mset shuffled = mset rules" "0 \<le> ri_anomaly r" "ri_anomaly r \<le> 1"
    "case ml_evidence scorer r events of None \<Rightarrow> True | Some m \<Rightarrow> 0 \<le> m \<and> m \<le> 1"
  shows "let results = map (\<lambda>ru. evaluate_rule ru (ri_anomaly r) r events) rules;
      f = make_finding digest rules scorer r events; g = make_finding digest shuffled scorer r events in
    list_all (\<lambda>q. 0 \<le> q \<and> q \<le> 1) [ma_risk_score (fd_material f), ma_behavior_score (fd_material f),
      ma_rule_score (fd_material f), ma_context_score (fd_material f)] \<and>
    list_all (\<lambda>x. if rr_matched x then rr_score x \<le> fuse_rules results else True) results \<and>
    fuse_rules results \<le> sum_list (map rr_score (filter rr_matched results)) \<and>
    ma_risk_score (fd_material g) = ma_risk_score (fd_material f) \<and> ma_rule_score (fd_material g) = ma_rule_score (fd_material f) \<and>
    fd_severity g = fd_severity f"
proof -
  let ?results = "\<lambda>rules. map (\<lambda>ru. evaluate_rule ru (ri_anomaly r) r events) rules"
  let ?factor = "\<lambda>x. if rr_matched x then 1 - rr_score x else 1"
  have "list_all (sound_rule (rd_shown rd)) rules"
    using catalog_sound [OF assms(1)] .
  then have unit: "0 \<le> rr_score x \<and> rr_score x \<le> 1" if "x \<in> set (?results rules)" for x
    using that result_fields by (auto simp: list_all_iff sound_rule_def)
  have p: "\<forall>y \<in> set (map ?factor (?results rules)). 0 \<le> y \<and> y \<le> 1" using unit by auto
  let ?fused = "fuse_rules (?results rules)"
  have "mset (map ?factor (?results shuffled)) = mset (map ?factor (?results rules))" using assms(2) by simp
  then have same: "fuse_rules (?results shuffled) = ?fused" unfolding fuse_prod
    by (intro arg_cong [where f = "\<lambda>x. 1 - x"] prod_list_mset)
  have bounds: "0 \<le> ?fused" "?fused \<le> 1" using prod_unit [OF p] unfolding fuse_prod by simp_all
  have lower: "rr_score x \<le> ?fused" if "x \<in> set (?results rules)" "rr_matched x" for x
  proof -
    have "?factor x \<in> set (map ?factor (?results rules))"
      unfolding set_map [of ?factor] using that(1) by (rule imageI)
    then have "prod_list (map ?factor (?results rules)) \<le> ?factor x" using prod_unit [OF p] by blast
    then show ?thesis using that(2) unfolding fuse_prod by simp
  qed
  have "sum_list (map (\<lambda>y. 1 - y) (map ?factor xs)) = sum_list (map rr_score (filter rr_matched xs))" for xs
    by (induction xs) simp_all
  then have upper: "?fused \<le> sum_list (map rr_score (filter rr_matched (?results rules)))"
    using prod_unit [OF p] unfolding fuse_prod by metis
  have ctx: "0 \<le> detection_context_score events r \<and> detection_context_score events r \<le> 1"
    by (simp add: detection_context_score_def)
  have score: "0 \<le> fused_score (ri_anomaly r) ?fused (detection_context_score events r) (ml_evidence scorer r events) \<and>
      fused_score (ri_anomaly r) ?fused (detection_context_score events r) (ml_evidence scorer r events) \<le> 1"
    using assms(3-5) bounds ctx by (simp add: fused_score_def split: option.splits)
  show ?thesis
    unfolding Let_def made_scores same
  proof (intro conjI)
    show "list_all (\<lambda>q. 0 \<le> q \<and> q \<le> 1) [round4 (fused_score (ri_anomaly r) ?fused (detection_context_score events r) (ml_evidence scorer r events)),
        round4 (ri_anomaly r), round4 ?fused, round4 (detection_context_score events r)]"
      using score bounds ctx assms(3,4) by (simp add: round4_unit)
    show "list_all (\<lambda>x. if rr_matched x then rr_score x \<le> ?fused else True) (?results rules)"
      unfolding list_all_iff using lower by simp
    show "?fused \<le> sum_list (map rr_score (filter rr_matched (?results rules)))" by (rule upper)
  qed (rule refl)+
qed

section \<open>Instances\<close>

definition sample_readers :: readers where
  "sample_readers = \<lparr>rd_float = (\<lambda>_. None), rd_int = (\<lambda>_. None), rd_shown = (\<lambda>_. ''1'')\<rparr>"

definition sample_mitre :: "rat pymap" where
  "sample_mitre = [(''tactic'', PStr ''TA0002''), (''technique'', PStr ''T1059'')]"

definition sample_entry :: "rat pymap" where
  "sample_entry = [(''rule_id'', PStr ''multi_uid_activity''), (''version'', PInt 1), (''score'', PFloat (2 / 5)),
    (''mitre'', PDict sample_mitre), (''mapping_rationale'', PStr ''m''), (''description'', PStr ''d''), (''min_unique_uids'', PInt 2)]"

definition sample_document :: doc where
  "sample_document = PDict [(''version'', PInt 1), (''rules'', PList [PDict sample_entry])]"

definition sample_rule :: rule where
  "sample_rule = \<lparr>ru_id = ''multi_uid_activity'', ru_version = ''1'', ru_score = 2 / 5, ru_mitre = sample_mitre, ru_body = Multi_Uid 2\<rparr>"

definition sample_risk :: "rat \<Rightarrow> rat \<Rightarrow> risk" where
  "sample_risk st en = \<lparr>ri_id = None, ri_start = st, ri_end = en, ri_entity_type = ''uid'', ri_entity_key = ''0'', ri_anomaly = 1 / 2,
     ri_level = ''medium'', ri_execution_frequency = 3, ri_unique_commands = 1, ri_unique_uids = 2, ri_peak_per_second = 1, ri_entity_count = 3\<rparr>"

definition sample_finding :: "rat \<Rightarrow> rat \<Rightarrow> finding" where
  "sample_finding st en = make_finding (\<lambda>_. []) [] None (sample_risk st en) []"

lemma sample_entry_get:
  "dget sample_entry ''rule_id'' = PStr ''multi_uid_activity''" "dget sample_entry ''version'' = PInt 1" "dget sample_entry ''score'' = PFloat (2 / 5)"
  "dget sample_entry ''mitre'' = PDict sample_mitre" "get_or sample_entry ''mapping_rationale'' (PStr []) = PStr ''m''"
  "get_or sample_entry ''description'' (PStr []) = PStr ''d''" "get_or sample_entry ''enabled'' (PBool True) = PBool True"
  "require_key sample_entry ''min_unique_uids'' = Inr (PInt 2)" "list_all (\<lambda>n. \<exists>y. map_of sample_entry n = Some y) required_entry_fields"
  by (simp_all add: sample_entry_def dget_def get_or_def require_key_def required_entry_fields_def)

lemma sample_mitre_get:
  "get_or sample_mitre ''tactic'' (PStr []) = PStr ''TA0002''" "get_or sample_mitre ''technique'' (PStr []) = PStr ''T1059''"
  by (simp_all add: sample_mitre_def get_or_def)

lemma sample_shown: "rd_shown sample_readers v = ''1''"
  by (simp add: sample_readers_def)

lemma not_blank: "\<not> blank shown (PStr ''TA0002'')" "\<not> blank shown (PStr ''T1059'')" "\<not> blank shown (PStr ''m'')" "\<not> blank shown (PStr ''d'')"
  by (simp_all add: blank_def to_str_def strip_def is_space_def)

lemma sample_validates: "load_catalog (rd_shown sample_readers) sample_document = Inr [PDict sample_entry]"
proof -
  have "validate_entry (rd_shown sample_readers) [] (PDict sample_entry) = Inr [PStr ''multi_uid_activity'']"
    by (simp add: validate_entry_def sample_entry_get sample_mitre_get not_blank hashable_def unit_number_def)
  then show ?thesis by (simp add: load_catalog_def sample_document_def dget_def)
qed

lemma sample_loads: "load_rules sample_readers sample_document = Inr [sample_rule]"
proof -
  have body: "build_body sample_readers ''multi_uid_activity'' sample_entry = Some (Inr (Multi_Uid 2))"
    by (simp add: build_body_def sample_entry_get bind_py_def to_int_def)
  have "load_rule sample_readers (PDict sample_entry) = Inr (Some sample_rule)"
    by (simp add: load_rule_def sample_entry_get body truthy_def to_float_def to_str_def sample_shown sample_rule_def)
  then show ?thesis by (simp add: load_rules_def sample_validates)
qed

lemma sample_fields: "entity (sample_finding st en) = (''uid'', ''0'')" "opens_at (sample_finding st en) = st" "closes_at (sample_finding st en) = en"
  by (simp_all add: sample_finding_def make_finding_def Let_def entity_def opens_at_def closes_at_def sample_risk_def)

lemma catalog_fails_closed_witness:
  "load_rules sample_readers sample_document = Inr [sample_rule] \<and>
   map entry_id (filter enabled_entry [PDict sample_entry]) = map (\<lambda>r. PStr (ru_id r)) [sample_rule]"
  using catalog_fails_closed [OF sample_loads] sample_loads by (simp add: sample_document_def dget_def)

lemma correlation_is_contiguous_runs_witness:
  "map fd_correlation (assign_correlation (\<lambda>s. rev s) (\<lambda>q. if q = 0 then ''0.0'' else if q = 5 then ''5.0'' else ''9.0'') [sample_finding 5 8, sample_finding 0 5, sample_finding 9 12])
    = [Some ''0.0|0|diu'', Some ''0.0|0|diu'', Some ''0.9|0|diu'']"
proof -
  let ?fs = "[sample_finding 5 8, sample_finding 0 5, sample_finding 9 12]"
  show ?thesis
    using correlation_is_contiguous_runs [of "\<lambda>s. rev s" "\<lambda>q. if q = 0 then ''0.0'' else if q = 5 then ''5.0'' else ''9.0''" ?fs]
    by (simp add: sample_fields run_anchor_def opens_run_def correlation_id_def inj_on_def)
qed

definition sample_engine :: engine where
  "sample_engine = \<lparr>en_hash = rev, en_float_text = (\<lambda>_. ''0.0''), en_digest = (\<lambda>_. ''d''), en_rules = [sample_rule], en_scorer = None,
     en_suppressions = [\<lparr>sp_entity_type = PNone, sp_entity_key = Some ''0'', sp_matched_rule = None, sp_reason = ''maintenance''\<rparr>]\<rparr>"

lemma sample_specs:
  "validate_suppressions (\<lambda>_. []) [PDict [(''entity_key'', PStr ''0''), (''reason'', PStr ''maintenance'')]] = Inr (en_suppressions sample_engine)"
  by (simp add: validate_suppression_def bind_py_def get_or_def dget_def to_str_def strip_def is_space_def text_or_none_def sample_engine_def Let_def)

lemma suppression_is_disposition_witness:
  "length (detect sample_engine [sample_risk 0 300] []) = 1 \<and>
   map undisposed (detect sample_engine [sample_risk 0 300] []) = detect (sample_engine\<lparr>en_suppressions := []\<rparr>) [sample_risk 0 300] []"
  using suppression_is_disposition [OF sample_specs, of "[sample_risk 0 300]" "[]"] by simp

lemma fusion_is_bounded_noisy_or_witness:
  "fuse_rules [evaluate_rule sample_rule (1 / 2) (sample_risk 0 300) []] \<le> 2 / 5"
proof -
  have a: "ri_anomaly (sample_risk 0 300) = 1 / 2" by (simp add: sample_risk_def)
  have m: "ml_evidence None (sample_risk 0 300) [] = None" by (simp add: ml_evidence_def)
  have "fuse_rules [evaluate_rule sample_rule (1 / 2) (sample_risk 0 300) []] \<le>
      sum_list (map rr_score (filter rr_matched [evaluate_rule sample_rule (1 / 2) (sample_risk 0 300) []]))"
    using fusion_is_bounded_noisy_or [OF sample_loads refl, of "sample_risk 0 300" None "[]"] by (simp add: a m Let_def)
  also have "\<dots> = 2 / 5"
    by (simp add: evaluate_rule_def sample_rule_def make_result_def sample_risk_def)
  finally show ?thesis .
qed

end
