(* ===== verification/Explanation.thy ===== *)
theory Explanation
  imports Detection_Properties
begin

text \<open>
  The explainer of \<^verbatim>\<open>explainability/explainer.py\<close>, on findings as the dictionaries the detector builds and the
  store returns. It recomputes both fused scores from the recorded evidence and raises when they differ;
  the catalog it reads is the map of entries, empty when loading fails. Sentences for display are left out,
  with the type error that summing a \<open>matched\<close> flag that is not a number would raise in one of them.
\<close>

section \<open>The dictionary of a finding\<close>

text \<open>\<open>_finding\<close> with its nested evidence; display texts, and the command and user counts inside the features, are left out.\<close>

definition features_doc :: "risk \<Rightarrow> doc" where
  "features_doc r = PDict [(''execution_frequency'', PInt (int (ri_execution_frequency r))),
     (''unique_commands'', PInt (int (ri_unique_commands r))), (''unique_uids'', PInt (int (ri_unique_uids r))),
     (''burst_activity'', PDict [(''peak_execs_per_second'', PInt (int (ri_peak_per_second r)))]),
     (''entity_event_count'', PInt (int (ri_entity_count r))), (''event_max_score'', PFloat (ri_anomaly r))]"

definition rule_map :: "rule_result \<Rightarrow> rat pymap" where
  "rule_map x = [(''rule_id'', PStr (rr_id x)), (''version'', PStr (rr_version x)), (''mitre'', PDict (rr_mitre x)),
     (''matched'', PBool (rr_matched x)), (''score'', PFloat (rr_score x)), (''evidence'', PDict (rr_evidence x))]"

definition behavior_item :: "material \<Rightarrow> rat pymap" where
  "behavior_item m = [(''signal'', PStr ''behavior_anomaly''), (''score'', PFloat (ma_behavior_score m)),
     (''features'', features_doc (ma_features m)), (''source'', PStr ''behavior_risk'')]"

definition rules_item :: "material \<Rightarrow> rat pymap" where
  "rules_item m = [(''signal'', PStr ''rule_fusion''), (''score'', PFloat (ma_rule_score m)),
     (''rules'', PList (map (\<lambda>x. PDict (rule_map x)) (ma_rules m)))]"

definition context_item :: "material \<Rightarrow> rat pymap" where
  "context_item m = [(''signal'', PStr ''process_context''), (''score'', PFloat (ma_context_score m)),
     (''event_count'', PInt (int (ma_event_count m))), (''privileged_event_count'', PInt (int (ma_privileged_count m)))]"

definition ml_item :: "rat \<Rightarrow> rat pymap" where
  "ml_item q = [(''signal'', PStr ''ml_anomaly''), (''score'', PFloat q)]"

definition evidence_docs :: "material \<Rightarrow> rat pymap list" where
  "evidence_docs m = [behavior_item m, rules_item m, context_item m] @ (case ma_ml m of None \<Rightarrow> [] | Some q \<Rightarrow> [ml_item q])"

definition finding_map :: "int \<Rightarrow> finding \<Rightarrow> rat pymap" where
  "finding_map i f = (let m = fd_material f in
     [(''id'', PInt i), (''window_start'', PFloat (ma_start m)), (''window_end'', PFloat (ma_end m)),
      (''entity_type'', PStr (ma_entity_type m)), (''entity_key'', PStr (ma_entity_key m)),
      (''risk_score'', PFloat (ma_risk_score m)), (''severity'', PStr (fd_severity f)),
      (''behavior_score'', PFloat (ma_behavior_score m)), (''rule_score'', PFloat (ma_rule_score m)),
      (''context_score'', PFloat (ma_context_score m)), (''evidence'', PList (map PDict (evidence_docs m))), (''mode'', PStr ''detection''),
      (''provenance_hash'', PStr (fd_provenance f)),
      (''correlation_id'', (case fd_correlation f of None \<Rightarrow> PNone | Some c \<Rightarrow> PStr c))])"

section \<open>Checks on the dictionary\<close>

definition explained_fields :: "string list" where
  "explained_fields = [''id'', ''window_start'', ''window_end'', ''entity_type'', ''entity_key'', ''risk_score'', ''severity'',
     ''behavior_score'', ''rule_score'', ''context_score'', ''evidence'', ''mode'']"

definition require_fields :: "rat pymap \<Rightarrow> py_error + unit" where
  "require_fields finding =
     (if list_all (\<lambda>k. map_of finding k \<noteq> None) explained_fields then Inr ()
      else Inl (Value_Error ''finding is missing required fields''))"

fun index_evidence :: "doc list \<Rightarrow> (doc \<times> rat pymap) list \<Rightarrow> py_error + (doc \<times> rat pymap) list" where
  "index_evidence [] by_signal = Inr by_signal"
| "index_evidence (item # items) by_signal =
     (case item of
        PDict d \<Rightarrow>
          if \<not> truthy (dget d ''signal'') then Inl (Value_Error ''each finding evidence item needs a signal'')
          else if \<not> hashable (dget d ''signal'') then Inl (Type_Error ''unhashable type'')
          else index_evidence items (AList.update (dget d ''signal'') d by_signal)
      | _ \<Rightarrow> Inl (Value_Error ''each finding evidence item needs a signal''))"

definition evidence_by_signal :: "rat pymap \<Rightarrow> py_error + (doc \<times> rat pymap) list" where
  "evidence_by_signal finding =
     (case dget finding ''evidence'' of
        PList items \<Rightarrow>
          bind_py (index_evidence items []) (\<lambda>by_signal.
            if list_all (\<lambda>k. map_of by_signal (PStr k) \<noteq> None) [''behavior_anomaly'', ''rule_fusion'', ''process_context'']
            then Inr by_signal else Inl (Value_Error ''finding evidence is missing signals''))
      | _ \<Rightarrow> Inl (Value_Error ''finding evidence must be a list''))"

definition signal_item :: "(doc \<times> rat pymap) list \<Rightarrow> string \<Rightarrow> rat pymap" where
  "signal_item by_signal k = (case map_of by_signal (PStr k) of None \<Rightarrow> [] | Some d \<Rightarrow> d)"

section \<open>Recomputing the scores\<close>

record calculation =
  ca_behavior :: rat
  ca_rules :: rat
  ca_context :: rat
  ca_ml :: "rat option"
  ca_matched :: "rat list"
  ca_reconstructed :: rat
  ca_calculated :: rat
  ca_stored :: rat
  ca_severity :: doc

fun matched_scores :: "(string \<Rightarrow> rat option) \<Rightarrow> doc list \<Rightarrow> py_error + rat list" where
  "matched_scores pf [] = Inr []"
| "matched_scores pf (item # items) =
     (case item of
        PDict d \<Rightarrow>
          if truthy (dget d ''matched'') then
            bind_py (require_key d ''score'') (\<lambda>s. bind_py (to_float pf s) (\<lambda>q.
            bind_py (matched_scores pf items) (\<lambda>qs. Inr (q # qs))))
          else matched_scores pf items
      | _ \<Rightarrow> Inl (Attribute_Error ''get''))"

definition ml_score_of :: "(string \<Rightarrow> rat option) \<Rightarrow> (doc \<times> rat pymap) list \<Rightarrow> py_error + rat option" where
  "ml_score_of pf by_signal =
     (case map_of by_signal (PStr ''ml_anomaly'') of
        None \<Rightarrow> Inr None
      | Some d \<Rightarrow> bind_py (require_key d ''score'') (\<lambda>s. bind_py (to_float pf s) (\<lambda>q. Inr (Some q))))"

definition reconstruct :: "rat list \<Rightarrow> rat" where
  "reconstruct scores = 1 - fold (\<lambda>s remaining. remaining * (1 - s)) scores 1"

definition calculate :: "(string \<Rightarrow> rat option) \<Rightarrow> rat pymap \<Rightarrow> (doc \<times> rat pymap) list \<Rightarrow> py_error + calculation" where
  "calculate pf finding by_signal =
     bind_py (to_float pf (dget finding ''behavior_score'')) (\<lambda>behavior.
     bind_py (to_float pf (dget finding ''rule_score'')) (\<lambda>rules.
     bind_py (to_float pf (dget finding ''context_score'')) (\<lambda>ctx.
     bind_py (ml_score_of pf by_signal) (\<lambda>ml.
     bind_py (to_float pf (dget finding ''risk_score'')) (\<lambda>stored.
       if round4 (fused_score behavior rules ctx ml) \<noteq> round4 stored
       then Inl (Value_Error ''stored finding score does not match its evidence components'')
       else bind_py (iterate (get_or (signal_item by_signal ''rule_fusion'') ''rules'' (PList []))) (\<lambda>items.
         bind_py (matched_scores pf items) (\<lambda>scores.
           if round4 (reconstruct scores) \<noteq> round4 rules
           then Inl (Value_Error ''stored rule score does not match stored rule evidence'')
           else Inr \<lparr>ca_behavior = behavior, ca_rules = rules, ca_context = ctx, ca_ml = ml, ca_matched = scores,
                  ca_reconstructed = round4 (reconstruct scores), ca_calculated = round4 (fused_score behavior rules ctx ml),
                  ca_stored = round4 stored, ca_severity = dget finding ''severity''\<rparr>)))))))"

section \<open>The counterfactual\<close>

text \<open>A threshold a matched rule had to meet, with the value observed; the comparator is always at least.\<close>

record boundary =
  bo_signal :: string
  bo_observed :: rat
  bo_threshold :: rat

definition doc_length :: "doc \<Rightarrow> py_error + nat" where
  "doc_length v = (case v of
      PList xs \<Rightarrow> Inr (length xs) | PStr s \<Rightarrow> Inr (length s) | PDict d \<Rightarrow> Inr (length d)
    | _ \<Rightarrow> Inl (Type_Error ''object has no len()''))"

definition float_boundary :: "(string \<Rightarrow> rat option) \<Rightarrow> string \<Rightarrow> doc \<Rightarrow> rat pymap \<Rightarrow> string \<Rightarrow> py_error + boundary" where
  "float_boundary pf signal observed entry k =
     bind_py (to_float pf observed) (\<lambda>seen. bind_py (require_key entry k) (\<lambda>t. bind_py (to_float pf t) (\<lambda>t.
       Inr \<lparr>bo_signal = signal, bo_observed = round4 seen, bo_threshold = t\<rparr>)))"

definition int_boundary :: "(string \<Rightarrow> int option) \<Rightarrow> string \<Rightarrow> doc \<Rightarrow> rat pymap \<Rightarrow> string \<Rightarrow> py_error + boundary" where
  "int_boundary parse signal observed entry k =
     bind_py (to_int parse observed) (\<lambda>seen. bind_py (require_key entry k) (\<lambda>t. bind_py (to_int parse t) (\<lambda>t.
       Inr \<lparr>bo_signal = signal, bo_observed = of_int seen, bo_threshold = of_int t\<rparr>)))"

definition one_boundary :: "string \<Rightarrow> int \<Rightarrow> boundary" where
  "one_boundary signal observed = \<lparr>bo_signal = signal, bo_observed = of_int observed, bo_threshold = 1\<rparr>"

text \<open>None when there is no builder for the rule id.\<close>

definition boundaries :: "readers \<Rightarrow> string \<Rightarrow> doc \<Rightarrow> rat pymap \<Rightarrow> rat pymap \<Rightarrow> (py_error + boundary list) option" where
  "boundaries rd rule_id item_evidence entry finding =
     (if rule_id = ''privileged_unusual_execution'' then Some (
        bind_py (float_boundary (rd_float rd) ''behavior_score'' (dget finding ''behavior_score'') entry ''behavior_gate'') (\<lambda>b.
        bind_py (get_item item_evidence ''root_event_count'' (PInt 0)) (\<lambda>v. bind_py (to_int (rd_int rd) v) (\<lambda>n.
          Inr [b, one_boundary ''root_event_count'' n]))))
      else if rule_id = ''suspicious_utility_activity'' then Some (
        bind_py (get_item item_evidence ''behavior_score_gate'' (dget finding ''behavior_score'')) (\<lambda>seen.
        bind_py (float_boundary (rd_float rd) ''behavior_score'' seen entry ''behavior_gate'') (\<lambda>b.
        bind_py (get_item item_evidence ''matched_utilities'' (PList [])) (\<lambda>v. bind_py (doc_length v) (\<lambda>n.
          Inr [b, one_boundary ''matched_utilities'' (int n)])))))
      else if rule_id = ''execution_burst'' then Some (
        bind_py (get_item item_evidence ''peak_execs_per_second'' (PInt 0)) (\<lambda>p.
        bind_py (int_boundary (rd_int rd) ''peak_execs_per_second'' p entry ''peak_execs_per_second'') (\<lambda>b.
        bind_py (get_item item_evidence ''window_execs'' (PInt 0)) (\<lambda>w.
        bind_py (int_boundary (rd_int rd) ''window_execs'' w entry ''window_execs'') (\<lambda>c. Inr [b, c])))))
      else if rule_id = ''multi_uid_activity'' then Some (
        bind_py (get_item item_evidence ''unique_uids'' (PInt 0)) (\<lambda>u.
        bind_py (int_boundary (rd_int rd) ''unique_uids'' u entry ''min_unique_uids'') (\<lambda>b. Inr [b])))
      else None)"

record threshold_record =
  tr_rule_id :: doc
  tr_score :: rat
  tr_version :: doc
  tr_catalog_version :: doc
  tr_boundaries :: "boundary list"
  tr_note :: bool

text \<open>\<open>_rule_catalog\<close>: entries by rule id; loading errors give the empty map.\<close>

definition rule_catalog :: "(doc \<Rightarrow> string) \<Rightarrow> doc \<Rightarrow> (doc \<times> rat pymap) list" where
  "rule_catalog shown document =
     (case load_catalog shown document of
        Inl _ \<Rightarrow> []
      | Inr entries \<Rightarrow> List.map_filter (\<lambda>v. case v of PDict d \<Rightarrow> Some (dget d ''rule_id'', d) | _ \<Rightarrow> None) entries)"

definition threshold_of :: "readers \<Rightarrow> (doc \<times> rat pymap) list \<Rightarrow> rat pymap \<Rightarrow> rat pymap \<Rightarrow> py_error + threshold_record" where
  "threshold_of rd catalog finding item =
     (if \<not> hashable (dget item ''rule_id'') then Inl (Type_Error ''unhashable type'')
      else bind_py (to_float (rd_float rd) (get_or item ''score'' (PFloat 0))) (\<lambda>score.
        let entry = map_of catalog (dget item ''rule_id'');
            record_of = (\<lambda>bs note. \<lparr>tr_rule_id = dget item ''rule_id'', tr_score = round4 score, tr_version = dget item ''version'',
              tr_catalog_version = (case entry of None \<Rightarrow> PNone | Some e \<Rightarrow> dget e ''version''), tr_boundaries = bs, tr_note = note\<rparr>)
        in case entry of
             None \<Rightarrow> Inr (record_of [] True)
           | Some e \<Rightarrow>
               (case (case dget item ''rule_id'' of PStr rule_id \<Rightarrow> boundaries rd rule_id (get_or item ''evidence'' (PDict [])) e finding | _ \<Rightarrow> None) of
                  None \<Rightarrow> Inr (record_of [] True)
                | Some (Inr bs) \<Rightarrow> Inr (record_of bs False)
                | Some (Inl (Attribute_Error m)) \<Rightarrow> Inl (Attribute_Error m)
                | Some (Inl _) \<Rightarrow> Inr (record_of [] True))))"

fun thresholds :: "readers \<Rightarrow> (doc \<times> rat pymap) list \<Rightarrow> rat pymap \<Rightarrow> doc list \<Rightarrow> py_error + threshold_record list" where
  "thresholds rd catalog finding [] = Inr []"
| "thresholds rd catalog finding (item # items) =
     (case item of
        PDict d \<Rightarrow>
          if truthy (dget d ''matched'') then
            bind_py (threshold_of rd catalog finding d) (\<lambda>t. bind_py (thresholds rd catalog finding items) (\<lambda>ts. Inr (t # ts)))
          else thresholds rd catalog finding items
      | _ \<Rightarrow> Inl (Attribute_Error ''get''))"

text \<open>\<open>max(details, key=score)\<close>: the first of the largest, whose first boundary leads the sentence.\<close>

definition dominant :: "threshold_record list \<Rightarrow> threshold_record option" where
  "dominant ts = (case ts of [] \<Rightarrow> None | t # ts \<Rightarrow> Some (fold (\<lambda>u best. if tr_score best < tr_score u then u else best) ts t))"

section \<open>Explaining\<close>

record explanation =
  ex_finding_id :: doc
  ex_start :: rat
  ex_end :: rat
  ex_severity :: doc
  ex_risk_score :: rat
  ex_calculation :: calculation
  ex_thresholds :: "threshold_record list"
  ex_dominant :: "threshold_record option"
  ex_siblings :: "doc list"
  ex_baseline_ready :: bool
  ex_evidence :: doc

text \<open>\<open>siblings\<close> is \<open>read_findings_by_correlation\<close>, \<open>ready\<close> is whether a ready baseline is stored.\<close>

definition explain_finding ::
  "readers \<Rightarrow> (doc \<times> rat pymap) list \<Rightarrow> (doc \<Rightarrow> rat pymap list) \<Rightarrow> bool \<Rightarrow> rat pymap \<Rightarrow> py_error + explanation" where
  "explain_finding rd catalog siblings ready finding =
     bind_py (require_fields finding) (\<lambda>_.
     bind_py (evidence_by_signal finding) (\<lambda>by_signal.
     bind_py (calculate (rd_float rd) finding by_signal) (\<lambda>calculation.
     bind_py (to_float (rd_float rd) (dget finding ''risk_score'')) (\<lambda>score.
     bind_py (to_float (rd_float rd) (dget finding ''window_start'')) (\<lambda>start.
     bind_py (to_float (rd_float rd) (dget finding ''window_end'')) (\<lambda>end.
     bind_py (iterate (get_or (signal_item by_signal ''rule_fusion'') ''rules'' (PList []))) (\<lambda>items.
     bind_py (thresholds rd catalog finding items) (\<lambda>ts.
       let cid = dget finding ''correlation_id'';
           others = (if truthy cid then filter (\<lambda>g. dget g ''id'' \<noteq> dget finding ''id'') (siblings cid) else [])
       in Inr \<lparr>ex_finding_id = dget finding ''id'', ex_start = start, ex_end = end, ex_severity = dget finding ''severity'',
            ex_risk_score = round4 score, ex_calculation = calculation, ex_thresholds = ts, ex_dominant = dominant ts,
            ex_siblings = map (\<lambda>g. dget g ''id'') others, ex_baseline_ready = ready, ex_evidence = dget finding ''evidence''\<rparr>))))))))"

text \<open>\<open>explain_all\<close>: the explanations written before the first error, and the error.\<close>

fun explain_all ::
  "readers \<Rightarrow> (doc \<times> rat pymap) list \<Rightarrow> (doc \<Rightarrow> rat pymap list) \<Rightarrow> bool \<Rightarrow> rat pymap list \<Rightarrow> explanation list \<times> py_error option" where
  "explain_all rd catalog siblings ready [] = ([], None)"
| "explain_all rd catalog siblings ready (f # fs) =
     (case explain_finding rd catalog siblings ready f of
        Inl e \<Rightarrow> ([], Some e)
      | Inr x \<Rightarrow> (case explain_all rd catalog siblings ready fs of (xs, e) \<Rightarrow> (x # xs, e)))"

end
