(* ===== verification/Explanation_Properties.thy ===== *)
theory Explanation_Properties
  imports Explanation
begin

text \<open>
  The explainer on the detector's own findings: with the bundled rules and no model every finding of a
  monitored risk is explained and its scores reconstructed; the thresholds shown for a matched rule
  are met; with an active model a finding exists that cannot be explained and stops the batch.
\<close>

section \<open>The bundled catalog\<close>

definition mitre_map :: "string \<Rightarrow> string \<Rightarrow> rat pymap" where
  "mitre_map tactic technique = [(''tactic'', PStr tactic), (''technique'', PStr technique)]"

definition bundled_rules :: "rule list" where
  "bundled_rules =
     [\<lparr>ru_id = ''privileged_unusual_execution'', ru_version = ''1'', ru_score = 80 / 100,
       ru_mitre = mitre_map ''TA0002 Execution'' ''T1059 Command and Scripting Interpreter'',
       ru_body = Privileged_Execution (map PStr [''sudo'', ''systemd'', ''(systemd-hostn)'', ''sshd'', ''login'']) (45 / 100)\<rparr>,
      \<lparr>ru_id = ''suspicious_utility_activity'', ru_version = ''1'', ru_score = 65 / 100,
       ru_mitre = mitre_map ''TA0011 Command and Control'' ''T1105 Ingress Tool Transfer'',
       ru_body = Suspicious_Utility (map PStr [''nc'', ''ncat'', ''socat'', ''curl'', ''wget'', ''openssl'', ''ssh'']) (45 / 100)\<rparr>,
      \<lparr>ru_id = ''execution_burst'', ru_version = ''1'', ru_score = 60 / 100,
       ru_mitre = mitre_map ''TA0002 Execution'' ''T1059.004 Unix Shell'', ru_body = Execution_Burst 5 10\<rparr>,
      \<lparr>ru_id = ''multi_uid_activity'', ru_version = ''1'', ru_score = 40 / 100,
       ru_mitre = mitre_map ''TA0005 Defense Evasion'' ''T1078 Valid Accounts'', ru_body = Multi_Uid 3\<rparr>]"

section \<open>Rounding\<close>

lemma floor_rat: "\<lfloor>numeral a / numeral b :: rat\<rfloor> = numeral a div numeral b"
  using floor_divide_of_int_eq [where ?'a = rat, of "numeral a" "numeral b"] by simp

lemma round4_fixed: "q * 10000 = of_int n \<Longrightarrow> round4 q = q"
proof -
  assume "q * 10000 = of_int n"
  then have "round4 q = of_int n / 10000" by (simp add: round4_def round_even_int)
  also have "\<dots> = q" using \<open>q * 10000 = of_int n\<close> by (metis nonzero_mult_div_cancel_right zero_neq_numeral)
  finally show ?thesis .
qed

lemma round4_idem [simp]: "round4 (round4 q) = round4 q"
  by (rule round4_fixed [of _ "round_even (q * 10000)"]) (simp add: round4_def)

lemma max_anomaly_in: "ss \<noteq> [] \<Longrightarrow> max_anomaly ss \<in> sc_anomaly ` set ss"
proof -
  assume "ss \<noteq> []"
  then obtain x xs where ss: "ss = x # xs" by (cases ss) auto
  have "fold max ys a \<in> insert a (set ys)" for ys and a :: rat
    by (induction ys arbitrary: a) (auto simp: max_def split: if_splits)
  from this [of "map sc_anomaly xs" "sc_anomaly x"] show ?thesis unfolding max_anomaly_def ss by auto
qed

lemma scored_rounded: "s \<in> set (score_events es base) \<Longrightarrow> round4 (sc_anomaly s) = sc_anomaly s"
  by (auto simp: score_events_def Let_def)

lemma risk_rounded: "r \<in> set (window_risks threshold base w) \<Longrightarrow> round4 (ri_anomaly r) = ri_anomaly r"
proof -
  let ?es = "entity_scores (score_events (wi_events w) base)"
  assume "r \<in> set (window_risks threshold base w)"
  then obtain ty key where m: "(ty, key) \<in> fst ` set ?es"
      "entity_risk threshold w ty key (map snd (filter (\<lambda>x. fst x = (ty, key)) ?es)) = Some r"
    unfolding window_risk_mem by blast
  let ?ss = "map snd (filter (\<lambda>x. fst x = (ty, key)) ?es)"
  have "?ss \<noteq> []" using m(1) by (force simp: filter_empty_conv)
  from max_anomaly_in [OF this] obtain s where s: "s \<in> set ?ss" "max_anomaly ?ss = sc_anomaly s" by blast
  from s(1) have "((ty, key), s) \<in> set ?es" by auto
  then have "round4 (sc_anomaly s) = sc_anomaly s" unfolding entity_scores_mem using scored_rounded by blast
  moreover have "ri_anomaly r = max_anomaly ?ss" using m(2) by (auto simp: entity_risk_def Let_def split: if_splits)
  ultimately show ?thesis using s(2) by simp
qed

lemma context_rounded: "round4 (detection_context_score es r) = detection_context_score es r"
proof -
  have "\<exists>n::int. detection_context_score es r * 10000 = of_int n"
    by (rule exI [of _ "(if list_ex (\<lambda>e. xe_uid e = Some 0) es then 6000 else 0) + (if 2 \<le> ri_unique_uids r then 2000 else 0) +
      (if 10 \<le> ri_execution_frequency r then 2000 else 0)"]) (simp add: detection_context_score_def min_def)
  then show ?thesis using round4_fixed by blast
qed

lemma bundled_rounded:
  "round4 (fuse_rules (map (\<lambda>ru. evaluate_rule ru b r es) bundled_rules)) = fuse_rules (map (\<lambda>ru. evaluate_rule ru b r es) bundled_rules)"
proof -
  obtain p q s t where r: "map (\<lambda>ru. evaluate_rule ru b r es) bundled_rules = [p, q, s, t]"
      "rr_score p = (if rr_matched p then 80 / 100 else 0)" "rr_score q = (if rr_matched q then 65 / 100 else 0)"
      "rr_score s = (if rr_matched s then 60 / 100 else 0)" "rr_score t = (if rr_matched t then 40 / 100 else 0)"
    using result_fields unfolding bundled_rules_def by simp
  let ?f = "\<lambda>b k. if b then k else (1::rat)"
  have "fuse_rules [p, q, s, t] = 1 - ?f (rr_matched p) (2 / 10) * ?f (rr_matched q) (35 / 100) * ?f (rr_matched s) (4 / 10) * ?f (rr_matched t) (6 / 10)"
    by (simp add: fuse_prod r(2-))
  moreover have "\<exists>n::int. (1 - ?f a (2 / 10) * ?f b (35 / 100) * ?f c (4 / 10) * ?f d (6 / 10)) * 10000 = of_int n" for a b c d
    by (rule exI [of _ "\<lfloor>(1 - ?f a (2 / 10) * ?f b (35 / 100) * ?f c (4 / 10) * ?f d (6 / 10)) * 10000\<rfloor>"])
      (cases a; cases b; cases c; cases d; simp)
  ultimately show ?thesis unfolding r(1) using round4_fixed by metis
qed

section \<open>Reading the dictionary back\<close>

lemma finding_map_get:
  "dget (finding_map i f) ''id'' = PInt i"
  "dget (finding_map i f) ''window_start'' = PFloat (ma_start (fd_material f))"
  "dget (finding_map i f) ''window_end'' = PFloat (ma_end (fd_material f))"
  "dget (finding_map i f) ''risk_score'' = PFloat (ma_risk_score (fd_material f))"
  "dget (finding_map i f) ''behavior_score'' = PFloat (ma_behavior_score (fd_material f))"
  "dget (finding_map i f) ''rule_score'' = PFloat (ma_rule_score (fd_material f))"
  "dget (finding_map i f) ''context_score'' = PFloat (ma_context_score (fd_material f))"
  "dget (finding_map i f) ''severity'' = PStr (fd_severity f)"
  "dget (finding_map i f) ''evidence'' = PList (map PDict (evidence_docs (fd_material f)))"
  by (simp_all add: finding_map_def dget_def Let_def)

lemma finding_map_complete: "require_fields (finding_map i f) = Inr ()"
proof -
  have "list_all (\<lambda>k. k \<in> set (map fst (finding_map i f))) explained_fields"
    by (simp add: finding_map_def explained_fields_def Let_def)
  then have "list_all (\<lambda>k. map_of (finding_map i f) k \<noteq> None) explained_fields"
    by (simp add: list_all_iff map_of_eq_None_iff)
  then show ?thesis by (simp only: require_fields_def if_True)
qed

lemma item_signals:
  "dget (behavior_item m) ''signal'' = PStr ''behavior_anomaly''" "dget (rules_item m) ''signal'' = PStr ''rule_fusion''"
  "dget (context_item m) ''signal'' = PStr ''process_context''" "dget (ml_item q) ''signal'' = PStr ''ml_anomaly''"
  "get_or (rules_item m) ''rules'' (PList []) = PList (map (\<lambda>x. PDict (rule_map x)) (ma_rules m))" "require_key (ml_item q) ''score'' = Inr (PFloat q)"
  by (simp_all add: behavior_item_def rules_item_def context_item_def ml_item_def dget_def get_or_def require_key_def)

definition indexed :: "material \<Rightarrow> (doc \<times> rat pymap) list" where
  "indexed m = [(PStr ''behavior_anomaly'', behavior_item m), (PStr ''rule_fusion'', rules_item m), (PStr ''process_context'', context_item m)] @
     (case ma_ml m of None \<Rightarrow> [] | Some q \<Rightarrow> [(PStr ''ml_anomaly'', ml_item q)])"

lemma evidence_indexed: "evidence_by_signal (finding_map i f) = Inr (indexed (fd_material f))"
proof -
  have "index_evidence (map PDict (evidence_docs m)) [] = Inr (indexed m)" for m
    by (cases "ma_ml m") (simp_all add: evidence_docs_def indexed_def item_signals truthy_def hashable_def)
  then show ?thesis by (simp add: evidence_by_signal_def finding_map_get bind_py_def indexed_def)
qed

lemma indexed_get:
  "signal_item (indexed m) ''rule_fusion'' = rules_item m"
  "ml_score_of pf (indexed m) = Inr (ma_ml m)"
  by (cases "ma_ml m"; simp add: indexed_def signal_item_def ml_score_of_def item_signals bind_py_def to_float_def)+

lemma rule_map_get:
  "dget (rule_map x) ''matched'' = PBool (rr_matched x)" "require_key (rule_map x) ''score'' = Inr (PFloat (rr_score x))"
  "dget (rule_map x) ''rule_id'' = PStr (rr_id x)" "get_or (rule_map x) ''score'' (PFloat 0) = PFloat (rr_score x)"
  "get_or (rule_map x) ''evidence'' (PDict []) = PDict (rr_evidence x)" "dget (rule_map x) ''version'' = PStr (rr_version x)"
  by (simp_all add: rule_map_def dget_def require_key_def get_or_def)

lemma matched_scores_rules:
  "matched_scores pf (map (\<lambda>x. PDict (rule_map x)) xs) = Inr (map rr_score (filter rr_matched xs))"
  by (induction xs) (simp_all add: rule_map_get truthy_def bind_py_def to_float_def)

lemma reconstruct_fuse: "reconstruct (map rr_score (filter rr_matched xs)) = fuse_rules xs"
proof -
  have "fold (\<lambda>s remaining. remaining * (1 - s)) (map rr_score (filter rr_matched xs)) a =
      fold (\<lambda>r remaining. if rr_matched r then remaining * (1 - rr_score r) else remaining) xs a" for a
    by (induction xs arbitrary: a) simp_all
  then show ?thesis by (simp add: reconstruct_def fuse_rules_def)
qed

text \<open>The two checks of \<open>_calculation\<close> on a finding of the detector: the second never fails.\<close>

lemma calculate_finding:
  fixes f
  defines "m \<equiv> fd_material f"
  defines "score \<equiv> fused_score (ma_behavior_score m) (ma_rule_score m) (ma_context_score m) (ma_ml m)"
  assumes "round4 (fuse_rules (ma_rules m)) = round4 (ma_rule_score m)"
  shows "calculate pf (finding_map i f) (indexed m) =
    (if round4 score \<noteq> round4 (ma_risk_score m)
     then Inl (Value_Error ''stored finding score does not match its evidence components'')
     else Inr \<lparr>ca_behavior = ma_behavior_score m, ca_rules = ma_rule_score m, ca_context = ma_context_score m, ca_ml = ma_ml m,
       ca_matched = map rr_score (filter rr_matched (ma_rules m)), ca_reconstructed = round4 (ma_rule_score m),
       ca_calculated = round4 score, ca_stored = round4 (ma_risk_score m), ca_severity = PStr (fd_severity f)\<rparr>)"
  using assms(3)
  by (simp add: calculate_def finding_map_get m_def [symmetric] bind_py_def to_float_def indexed_get item_signals iterate_def
      matched_scores_rules reconstruct_fuse score_def)

definition quiet :: "py_error + 'a \<Rightarrow> bool" where
  "quiet x = (\<forall>e. x \<noteq> Inl (Attribute_Error e))"

lemma quiet_bind: "quiet x \<Longrightarrow> (\<And>v. quiet (f v)) \<Longrightarrow> quiet (bind_py x f)"
  by (cases x) (simp_all add: quiet_def bind_py_def)

lemma quiet_base:
  "quiet (Inr x)" "quiet (to_float pf v)" "quiet (to_int parse v)" "quiet (require_key d k)" "quiet (doc_length v)"
  "quiet (get_item (PDict d) k other)"
  by (auto simp: quiet_def to_float_def to_int_def require_key_def doc_length_def get_item_def split: pyobj.splits option.splits)

lemma quiet_boundary: "quiet (float_boundary pf s v entry k)" "quiet (int_boundary parse s v entry k)"
  unfolding float_boundary_def int_boundary_def by (intro quiet_bind quiet_base)+

lemma quiet_boundaries: "boundaries rd rule_id (PDict ev) entry finding = Some x \<Longrightarrow> quiet x"
proof -
  have some: "(if c then Some y else z) = Some x \<Longrightarrow> (c \<Longrightarrow> quiet y) \<Longrightarrow> (z = Some x \<Longrightarrow> quiet x) \<Longrightarrow> quiet x" for c z and y :: "py_error + boundary list"
    by (cases c) simp_all
  show "boundaries rd rule_id (PDict ev) entry finding = Some x \<Longrightarrow> quiet x"
    unfolding boundaries_def by (elim some) (intro quiet_bind quiet_base quiet_boundary | simp only: option.distinct)+
qed

lemma boundaries_no_attribute_error: "boundaries rd rule_id (PDict ev) entry finding \<noteq> Some (Inl (Attribute_Error e))"
  using quiet_boundaries unfolding quiet_def by blast

lemma threshold_total: "\<exists>t. threshold_of rd catalog finding (rule_map x) = Inr t"
proof (cases "map_of catalog (PStr (rr_id x))")
  case None
  then show ?thesis by (simp add: threshold_of_def rule_map_get hashable_def bind_py_def to_float_def Let_def)
next
  case (Some e)
  have "boundaries rd (rr_id x) (PDict (rr_evidence x)) e finding \<noteq> Some (Inl (Attribute_Error m))" for m
    by (rule boundaries_no_attribute_error)
  then have "\<exists>t. (case boundaries rd (rr_id x) (PDict (rr_evidence x)) e finding of
      None \<Rightarrow> Inr a | Some (Inr bs) \<Rightarrow> Inr (g bs) | Some (Inl (Attribute_Error m)) \<Rightarrow> Inl (Attribute_Error m) | Some (Inl _) \<Rightarrow> Inr c) = Inr t"
      for a c :: threshold_record and g
    by (auto split: option.split sum.split py_error.split)
  with Some show ?thesis by (simp add: threshold_of_def rule_map_get hashable_def bind_py_def to_float_def Let_def)
qed

lemma thresholds_total:
  "\<exists>ts. thresholds rd catalog finding (map (\<lambda>x. PDict (rule_map x)) xs) = Inr ts \<and> length ts = length (filter rr_matched xs)"
proof (induction xs)
  case (Cons x xs)
  then obtain ts where ts: "thresholds rd catalog finding (map (\<lambda>x. PDict (rule_map x)) xs) = Inr ts" "length ts = length (filter rr_matched xs)" by blast
  obtain t where "threshold_of rd catalog finding (rule_map x) = Inr t" using threshold_total by blast
  with ts show ?case by (simp add: rule_map_get truthy_def bind_py_def)
qed simp

section \<open>Findings explain themselves\<close>

lemma explain_calculated:
  assumes "calculate (rd_float rd) (finding_map i f) (indexed (fd_material f)) = Inr c"
  shows "\<exists>x. explain_finding rd catalog siblings ready (finding_map i f) = Inr x \<and> ex_calculation x = c \<and>
    length (ex_thresholds x) = length (filter rr_matched (ma_rules (fd_material f)))"
proof -
  obtain ts where "thresholds rd catalog (finding_map i f) (map (\<lambda>x. PDict (rule_map x)) (ma_rules (fd_material f))) = Inr ts"
      "length ts = length (filter rr_matched (ma_rules (fd_material f)))"
    using thresholds_total by blast
  then show ?thesis
    by (simp add: explain_finding_def finding_map_complete evidence_indexed bind_py_def assms finding_map_get to_float_def
        indexed_get item_signals iterate_def Let_def)
qed

lemma explain_refused:
  "calculate (rd_float rd) (finding_map i f) (indexed (fd_material f)) = Inl e \<Longrightarrow>
    explain_finding rd catalog siblings ready (finding_map i f) = Inl e"
  by (simp add: explain_finding_def finding_map_complete evidence_indexed bind_py_def)

lemma made_fuse_rounded:
  "round4 (fuse_rules (ma_rules (fd_material (make_finding digest rules scorer r es)))) =
    round4 (ma_rule_score (fd_material (make_finding digest rules scorer r es)))"
  unfolding made_scores by simp

text \<open>Without an active model every finding is explained. For every risk monitoring reports, whatever the
events, and every state of the catalog file, the explainer accepts the finding the engine makes with
the bundled rules: both fused scores recomputed from the stored evidence equal the stored ones, the
recorded rule scores are those of the matched rules, and each matched rule gets one threshold record.\<close>

theorem deterministic_findings_explain:
  "list_all (\<lambda>r.
     let f = make_finding digest bundled_rules scorer r es; m = fd_material f in
     if ml_evidence scorer r es = None then
       (case explain_finding rd catalog siblings ready (finding_map i f) of
          Inl _ \<Rightarrow> False
        | Inr x \<Rightarrow> ca_calculated (ex_calculation x) = ma_risk_score m \<and> ca_reconstructed (ex_calculation x) = ma_rule_score m \<and>
            ca_matched (ex_calculation x) = map rr_score (filter rr_matched (ma_rules m)) \<and>
            length (ex_thresholds x) = length (filter rr_matched (ma_rules m)))
     else True) (window_risks threshold base w)"
  unfolding list_all_iff Let_def
proof (intro ballI)
  fix r assume r: "r \<in> set (window_risks threshold base w)"
  let ?f = "make_finding digest bundled_rules scorer r es"
  show "if ml_evidence scorer r es = None then
       (case explain_finding rd catalog siblings ready (finding_map i ?f) of
          Inl _ \<Rightarrow> False
        | Inr x \<Rightarrow> ca_calculated (ex_calculation x) = ma_risk_score (fd_material ?f) \<and> ca_reconstructed (ex_calculation x) = ma_rule_score (fd_material ?f) \<and>
            ca_matched (ex_calculation x) = map rr_score (filter rr_matched (ma_rules (fd_material ?f))) \<and>
            length (ex_thresholds x) = length (filter rr_matched (ma_rules (fd_material ?f))))
     else True"
  proof (cases "ml_evidence scorer r es = None")
    case True
    have score: "round4 (fused_score (ma_behavior_score (fd_material ?f)) (ma_rule_score (fd_material ?f)) (ma_context_score (fd_material ?f))
        (ma_ml (fd_material ?f))) = ma_risk_score (fd_material ?f)"
      unfolding made_scores by (simp add: risk_rounded [OF r] bundled_rounded context_rounded True)
    have fixed: "round4 (ma_risk_score (fd_material ?f)) = ma_risk_score (fd_material ?f)"
        "round4 (ma_rule_score (fd_material ?f)) = ma_rule_score (fd_material ?f)"
      unfolding made_scores by simp_all
    obtain c where c: "calculate (rd_float rd) (finding_map i ?f) (indexed (fd_material ?f)) = Inr c"
        "ca_calculated c = ma_risk_score (fd_material ?f)" "ca_reconstructed c = ma_rule_score (fd_material ?f)"
        "ca_matched c = map rr_score (filter rr_matched (ma_rules (fd_material ?f)))"
      using calculate_finding [OF made_fuse_rounded, of "rd_float rd" i] by (simp add: score fixed)
    obtain x where x: "explain_finding rd catalog siblings ready (finding_map i ?f) = Inr x" "ex_calculation x = c"
        "length (ex_thresholds x) = length (filter rr_matched (ma_rules (fd_material ?f)))"
      using explain_calculated [OF c(1)] by blast
    show ?thesis by (simp only: True x c(2-) if_True sum.case simp_thms)
  next
    case False
    show ?thesis unfolding if_not_P [OF False] by (rule TrueI)
  qed
qed

section \<open>A finding that cannot be explained\<close>

definition model_risk :: risk where
  "model_risk = (sample_risk 0 300)\<lparr>ri_entity_key := ''1000'', ri_anomaly := 9446 / 10000\<rparr>"

definition model_event :: exec_event where
  "model_event = \<lparr>xe_kind = Process_Exec, xe_timestamp = 10, xe_pid = Some 7, xe_ppid = Some 1, xe_uid = Some 1000, xe_gid = None,
     xe_comm = Some ''vim'', xe_executable = None\<rparr>"

definition model_scorer :: "exec_event list \<Rightarrow> py_error + ml_payload" where
  "model_scorer es = Inr \<lparr>mp_available = True, mp_active = True, mp_normalized = 15676 / 100000\<rparr>"

lemma model_results: "fuse_rules (map (\<lambda>ru. evaluate_rule ru (ri_anomaly model_risk) model_risk [model_event]) bundled_rules) = 0"
proof -
  have "\<forall>ru \<in> set bundled_rules. \<not> rr_matched (evaluate_rule ru (ri_anomaly model_risk) model_risk [model_event])"
    by (simp add: bundled_rules_def evaluate_rule_def make_result_def model_risk_def model_event_def sample_risk_def or_unknown_def
        sorted_texts_def Let_def)
  then show ?thesis by (simp add: fuse_prod bundled_rules_def)
qed

lemma model_scores:
  fixes digest
  defines "m \<equiv> fd_material (make_finding digest bundled_rules (Some model_scorer) model_risk [model_event])"
  shows "ma_behavior_score m = 9446 / 10000" "ma_rule_score m = 0" "ma_context_score m = 2 / 10" "ma_ml m = Some (1568 / 10000)"
    "ma_risk_score m = 4707 / 10000"
proof -
  have ml: "ml_evidence (Some model_scorer) model_risk [model_event] = Some (15676 / 100000)"
    by (simp add: ml_evidence_def model_scorer_def)
  have ctx: "detection_context_score [model_event] model_risk = 2 / 10"
    by (simp add: detection_context_score_def model_event_def model_risk_def sample_risk_def)
  have a: "ri_anomaly model_risk = 9446 / 10000" by (simp add: model_risk_def)
  note made = made_scores [of digest bundled_rules "Some model_scorer" model_risk "[model_event]"]
  show "ma_behavior_score m = 9446 / 10000" "ma_rule_score m = 0" "ma_context_score m = 2 / 10" "ma_ml m = Some (1568 / 10000)"
    "ma_risk_score m = 4707 / 10000"
    unfolding m_def made model_results ml ctx
    by (simp_all add: a round4_def round_even_def fused_score_def Let_def floor_rat)
qed

text \<open>With an active model the explainer can refuse the detector's own finding. There is a risk, an event and
a model score for which the engine with the bundled rules stores a finding whose fused score was computed
from the unrounded model score while the explainer recomputes it from the rounded one; the two differ
in the fourth decimal, the explanation raises, and the batch of explanations ends there.\<close>

theorem ml_finding_unexplainable:
  "let f = finding_map i (make_finding digest bundled_rules (Some model_scorer) model_risk [model_event]);
       e = Value_Error ''stored finding score does not match its evidence components'' in
   explain_finding rd catalog siblings ready f = Inl e \<and> explain_all rd catalog siblings ready (f # fs) = ([], Some e)"
proof -
  have "round4 (fused_score (9446 / 10000) 0 (2 / 10) (Some (1568 / 10000))) \<noteq> round4 (4707 / 10000)"
    by (simp add: fused_score_def round4_def round_even_def Let_def floor_rat)
  then have "calculate (rd_float rd) (finding_map i (make_finding digest bundled_rules (Some model_scorer) model_risk [model_event]))
      (indexed (fd_material (make_finding digest bundled_rules (Some model_scorer) model_risk [model_event]))) =
    Inl (Value_Error ''stored finding score does not match its evidence components'')"
    using calculate_finding [OF made_fuse_rounded, of "rd_float rd" i digest bundled_rules "Some model_scorer" model_risk "[model_event]"]
    by (simp add: model_scores)
  from explain_refused [OF this] show ?thesis by (simp add: Let_def)
qed

section \<open>Thresholds\<close>

lemma load_all_member:
  "load_all rd vs = Inr rules \<Longrightarrow> ru \<in> set rules \<Longrightarrow>
    \<exists>entry. PDict entry \<in> set vs \<and> dget entry ''rule_id'' = PStr (ru_id ru) \<and> build_body rd (ru_id ru) entry = Some (Inr (ru_body ru)) \<and>
      ru_version ru = to_str (rd_shown rd) (dget entry ''version'')"
proof (induction vs arbitrary: rules)
  case (Cons v vs)
  obtain r rs where r: "load_rule rd v = Inr r" "load_all rd vs = Inr rs" "rules = (case r of None \<Rightarrow> [] | Some r \<Rightarrow> [r]) @ rs"
    using Cons.prems(1) by (auto split: sum.splits)
  show ?case
  proof (cases "ru \<in> set rs")
    case True
    then show ?thesis using Cons.IH [OF r(2)] by auto
  next
    case False
    then have v: "load_rule rd v = Inr (Some ru)" using r Cons.prems(2) by (auto split: option.splits)
    obtain entry where e: "v = PDict entry" using v by (cases v) (simp_all add: load_rule_def)
    have "dget entry ''rule_id'' = PStr (ru_id ru) \<and> build_body rd (ru_id ru) entry = Some (Inr (ru_body ru)) \<and>
        ru_version ru = to_str (rd_shown rd) (dget entry ''version'')"
      using v unfolding e by (auto simp: load_rule_def split: pyobj.splits option.splits sum.splits if_splits)
    then show ?thesis using e by auto
  qed
qed simp

lemma catalog_entry:
  assumes "load_rules rd document = Inr rules" "ru \<in> set rules"
  obtains entry where "map_of (rule_catalog (rd_shown rd) document) (PStr (ru_id ru)) = Some entry"
    "build_body rd (ru_id ru) entry = Some (Inr (ru_body ru))" "ru_version ru = to_str (rd_shown rd) (dget entry ''version'')"
proof -
  obtain entries where c: "load_catalog (rd_shown rd) document = Inr entries" "load_all rd entries = Inr rules"
      "validate_entries (rd_shown rd) [] entries = Inr ()"
    using assms(1) by (auto simp: load_rules_def load_catalog_def split: sum.splits pyobj.splits if_splits)
  have ids: "distinct (map entry_id entries)" using validate_entries_Inr [OF c(3)] by simp
  let ?pair = "\<lambda>v. case v of PDict d \<Rightarrow> Some (dget d ''rule_id'', d) | _ \<Rightarrow> None"
  have sub: "set (map fst (List.map_filter ?pair vs)) \<subseteq> set (map entry_id vs)" for vs
    by (induction vs) (auto simp: List.map_filter_simps entry_id_def split: pyobj.splits)
  have "distinct (map fst (List.map_filter ?pair vs))" if "distinct (map entry_id vs)" for vs
    using that
  proof (induction vs)
    case (Cons v vs)
    then show ?case using sub [of vs] by (cases v) (auto simp: List.map_filter_simps entry_id_def)
  qed (simp add: List.map_filter_simps)
  then have dist: "distinct (map fst (List.map_filter ?pair entries))" using ids .
  obtain entry where e: "PDict entry \<in> set entries" "dget entry ''rule_id'' = PStr (ru_id ru)"
      "build_body rd (ru_id ru) entry = Some (Inr (ru_body ru))" "ru_version ru = to_str (rd_shown rd) (dget entry ''version'')"
    using load_all_member [OF c(2) assms(2)] by blast
  have "(PStr (ru_id ru), entry) \<in> set (List.map_filter ?pair entries)"
    unfolding set_map_filter_eq using e(1,2) by force
  then have "map_of (rule_catalog (rd_shown rd) document) (PStr (ru_id ru)) = Some entry"
    using dist by (simp add: rule_catalog_def c(1))
  then show ?thesis using that e by blast
qed

definition thresholds_met :: "boundary list \<Rightarrow> bool" where
  "thresholds_met bs \<longleftrightarrow> bs \<noteq> [] \<and> list_all (\<lambda>b. bo_threshold b \<le> bo_observed b) bs"

lemma bind_Inr: "bind_py x f = Inr y \<longleftrightarrow> (\<exists>v. x = Inr v \<and> f v = Inr y)"
  by (cases x) (simp_all add: bind_py_def)

lemma bind_of_Inr [simp]: "bind_py (Inr v) f = f v"
  by (simp add: bind_py_def)

lemma get_item_map: "get_item (PDict d) k other = Inr (get_or d k other)"
  by (simp add: get_item_def get_or_def)

lemma gated_Inr:
  assumes "gated rd con k entry = Inr body"
  shows "\<exists>xs g gate. body = con xs g \<and> require_key entry ''behavior_gate'' = Inr gate \<and> to_float (rd_float rd) gate = Inr g"
  using assms unfolding gated_def bind_Inr by auto

lemma matched_evidence:
  assumes "rr_matched (evaluate_rule ru b r es)"
  shows "case ru_body ru of
      Privileged_Execution _ g \<Rightarrow> g \<le> b \<and> (\<exists>n \<ge> 1. get_or (rr_evidence (evaluate_rule ru b r es)) ''root_event_count'' (PInt 0) = PInt n)
    | Suspicious_Utility _ g \<Rightarrow> g \<le> b \<and> (\<forall>d. get_or (rr_evidence (evaluate_rule ru b r es)) ''behavior_score_gate'' d = PFloat b) \<and>
        (\<exists>xs. xs \<noteq> [] \<and> get_or (rr_evidence (evaluate_rule ru b r es)) ''matched_utilities'' (PList []) = text_list xs)
    | Execution_Burst p w \<Rightarrow> \<exists>n m. p \<le> n \<and> w \<le> m \<and> get_or (rr_evidence (evaluate_rule ru b r es)) ''peak_execs_per_second'' (PInt 0) = PInt n \<and>
        get_or (rr_evidence (evaluate_rule ru b r es)) ''window_execs'' (PInt 0) = PInt m
    | Multi_Uid u \<Rightarrow> \<exists>n \<ge> u. get_or (rr_evidence (evaluate_rule ru b r es)) ''unique_uids'' (PInt 0) = PInt n"
proof (cases "ru_body ru")
  case (Privileged_Execution safe g)
  let ?ms = "filter (\<lambda>e. xe_uid e = Some 0 \<and> PStr (or_unknown (xe_comm e)) \<notin> set safe) es"
  have "?ms \<noteq> []" "g \<le> b"
    using assms unfolding evaluate_rule_def make_result_def Privileged_Execution Let_def by simp_all
  moreover from this(1) have "1 \<le> int (length ?ms)" by (cases ?ms) simp_all
  moreover have "get_or (rr_evidence (evaluate_rule ru b r es)) ''root_event_count'' (PInt 0) = PInt (int (length ?ms))"
    by (simp add: evaluate_rule_def make_result_def Privileged_Execution Let_def get_or_def)
  ultimately show ?thesis unfolding Privileged_Execution by auto
next
  case (Suspicious_Utility utilities g)
  then show ?thesis using assms
    by (auto simp: evaluate_rule_def make_result_def Let_def get_or_def)
next
  case (Execution_Burst p w)
  then show ?thesis using assms by (auto simp: evaluate_rule_def make_result_def Let_def get_or_def)
next
  case (Multi_Uid u)
  then show ?thesis using assms by (auto simp: evaluate_rule_def make_result_def Let_def get_or_def)
qed

lemma result_version: "rr_version (evaluate_rule ru b r es) = ru_version ru"
  by (simp add: evaluate_rule_def make_result_def Let_def split: rule_body.split)

lemma matched_boundaries:
  assumes "rr_matched (evaluate_rule ru b r es)" "build_body rd (ru_id ru) entry = Some (Inr (ru_body ru))"
    "round4 b = b" "dget finding ''behavior_score'' = PFloat b"
  shows "\<exists>bs. boundaries rd (ru_id ru) (PDict (rr_evidence (evaluate_rule ru b r es))) entry finding = Some (Inr bs) \<and> thresholds_met bs"
proof -
  note m = matched_evidence [OF assms(1)]
  consider "ru_id ru = ''privileged_unusual_execution''" | "ru_id ru = ''suspicious_utility_activity''"
    | "ru_id ru = ''execution_burst''" | "ru_id ru = ''multi_uid_activity''"
    using build_body_types [of rd "ru_id ru" entry] assms(2) by (auto simp: rule_types_def)
  then show ?thesis
  proof cases
    case 1
    then have "gated rd Privileged_Execution ''safe_commands'' entry = Inr (ru_body ru)" using assms(2) by (simp add: build_body_def)
    from gated_Inr [OF this] obtain xs g gate where body: "ru_body ru = Privileged_Execution xs g"
      "require_key entry ''behavior_gate'' = Inr gate" "to_float (rd_float rd) gate = Inr g" by blast
    from m obtain n where "g \<le> b" "1 \<le> n" "get_or (rr_evidence (evaluate_rule ru b r es)) ''root_event_count'' (PInt 0) = PInt n"
      unfolding body(1) by auto
    then show ?thesis unfolding boundaries_def
      by (simp add: 1 float_boundary_def assms(3,4) to_float_def [of _ "PFloat b"] body get_item_map to_int_def one_boundary_def thresholds_met_def)
  next
    case 2
    then have "gated rd Suspicious_Utility ''utilities'' entry = Inr (ru_body ru)" using assms(2) by (simp add: build_body_def)
    from gated_Inr [OF this] obtain xs g gate where body: "ru_body ru = Suspicious_Utility xs g"
      "require_key entry ''behavior_gate'' = Inr gate" "to_float (rd_float rd) gate = Inr g" by blast
    from m obtain ys where y: "g \<le> b" "ys \<noteq> []" "get_or (rr_evidence (evaluate_rule ru b r es)) ''matched_utilities'' (PList []) = text_list ys"
      "\<forall>d. get_or (rr_evidence (evaluate_rule ru b r es)) ''behavior_score_gate'' d = PFloat b"
      unfolding body(1) by auto
    from y(2) have "1 \<le> length ys" by (cases ys) simp_all
    with y show ?thesis unfolding boundaries_def
      by (simp add: 2 float_boundary_def assms(3) to_float_def [of _ "PFloat b"] body get_item_map doc_length_def text_list_def one_boundary_def thresholds_met_def)
  next
    case 3
    then obtain p w p' w' where *: "Execution_Burst p w = ru_body ru" and body: "require_key entry ''peak_execs_per_second'' = Inr p'"
      "require_key entry ''window_execs'' = Inr w'" "to_int (rd_int rd) p' = Inr p" "to_int (rd_int rd) w' = Inr w"
      using assms(2) unfolding build_body_def by (auto simp: bind_Inr)
    note body = * [symmetric] body
    from m obtain n k where "p \<le> n" "w \<le> k" "get_or (rr_evidence (evaluate_rule ru b r es)) ''peak_execs_per_second'' (PInt 0) = PInt n"
      "get_or (rr_evidence (evaluate_rule ru b r es)) ''window_execs'' (PInt 0) = PInt k" unfolding body(1) by auto
    then show ?thesis unfolding boundaries_def
      by (simp add: 3 int_boundary_def body get_item_map to_int_def [of _ "PInt _"] thresholds_met_def)
  next
    case 4
    then obtain u u' where *: "Multi_Uid u = ru_body ru" and body: "require_key entry ''min_unique_uids'' = Inr u'" "to_int (rd_int rd) u' = Inr u"
      using assms(2) unfolding build_body_def by (auto simp: bind_Inr)
    note body = * [symmetric] body
    from m obtain n where "u \<le> n" "get_or (rr_evidence (evaluate_rule ru b r es)) ''unique_uids'' (PInt 0) = PInt n" unfolding body(1) by auto
    then show ?thesis unfolding boundaries_def
      by (simp add: 4 int_boundary_def body get_item_map to_int_def [of _ "PInt _"] thresholds_met_def)
  qed
qed

text \<open>The counterfactual shows thresholds that were met. When the catalog the explainer reads is the one the
rules were loaded from, every rule that matched in a finding of the engine gets a threshold record
without a note, with at least one boundary, each of whose observed values is at least its threshold.\<close>

theorem counterfactual_thresholds_are_met:
  assumes "load_rules rd document = Inr rules" "ru \<in> set rules" "round4 (ri_anomaly r) = ri_anomaly r"
    "rr_matched (evaluate_rule ru (ri_anomaly r) r es)"
  shows "case threshold_of rd (rule_catalog (rd_shown rd) document) (finding_map i (make_finding digest rules scorer r es))
      (rule_map (evaluate_rule ru (ri_anomaly r) r es)) of
    Inl _ \<Rightarrow> False
  | Inr t \<Rightarrow> tr_rule_id t = PStr (ru_id ru) \<and> tr_score t = round4 (ru_score ru) \<and> tr_version t = PStr (ru_version ru) \<and>
      \<not> tr_note t \<and> tr_boundaries t \<noteq> [] \<and> list_all (\<lambda>b. bo_threshold b \<le> bo_observed b) (tr_boundaries t)"
proof -
  let ?x = "evaluate_rule ru (ri_anomaly r) r es"
  have x: "rr_id ?x = ru_id ru" "rr_version ?x = ru_version ru" "rr_score ?x = ru_score ru"
    using assms(4) by (simp_all add: result_fields result_version)
  obtain entry where e: "map_of (rule_catalog (rd_shown rd) document) (PStr (ru_id ru)) = Some entry"
      "build_body rd (ru_id ru) entry = Some (Inr (ru_body ru))"
    using catalog_entry [OF assms(1,2)] .
  have "dget (finding_map i (make_finding digest rules scorer r es)) ''behavior_score'' = PFloat (ri_anomaly r)"
    by (simp add: finding_map_get made_scores assms(3))
  from matched_boundaries [OF assms(4) e(2) assms(3) this] obtain bs where
    "boundaries rd (ru_id ru) (PDict (rr_evidence ?x)) entry (finding_map i (make_finding digest rules scorer r es)) = Some (Inr bs)"
    "thresholds_met bs" by blast
  then show ?thesis
    by (simp add: threshold_of_def rule_map_get x hashable_def to_float_def e(1) Let_def thresholds_met_def)
qed

lemma counterfactual_thresholds_are_met_witness:
  "case threshold_of sample_readers (rule_catalog (rd_shown sample_readers) sample_document)
      (finding_map 1 (make_finding (\<lambda>_. []) [sample_rule] None (sample_risk 0 300) []))
      (rule_map (evaluate_rule sample_rule (1 / 2) (sample_risk 0 300) [])) of
    Inl _ \<Rightarrow> False
  | Inr t \<Rightarrow> tr_boundaries t \<noteq> []"
proof -
  have a: "ri_anomaly (sample_risk 0 300) = 1 / 2" by (simp add: sample_risk_def)
  have "round4 (ri_anomaly (sample_risk 0 300)) = ri_anomaly (sample_risk 0 300)"
    unfolding a by (rule round4_fixed [of _ 5000]) simp
  moreover have "rr_matched (evaluate_rule sample_rule (ri_anomaly (sample_risk 0 300)) (sample_risk 0 300) [])"
    by (simp add: evaluate_rule_def sample_rule_def make_result_def sample_risk_def)
  ultimately show ?thesis
    using counterfactual_thresholds_are_met [OF sample_loads, of sample_rule "sample_risk 0 300" "[]" 1 "\<lambda>_. []" None]
    unfolding a by (auto split: sum.splits)
qed

end
