(* ===== verification/Drift_Tests.thy ===== *)
theory Drift_Tests
  imports Prelude
begin

text \<open>
  The statistics of \<^verbatim>\<open>ml/drift.py\<close>: the integer two-sample Kolmogorov-Smirnov statistic, its exact
  p-value by counting lattice paths, the Holm-Bonferroni step-down and the smallest attainable p-value,
  each against its mathematical definition. Floats are exact rationals; exp and the square root are
  parameters of the asymptotic series.
\<close>

section \<open>The statistic\<close>

text \<open>\<open>while i < n and xs[i] <= value: i += 1\<close>\<close>

definition advance :: "rat list \<Rightarrow> rat \<Rightarrow> nat \<Rightarrow> nat" where
  "advance xs v i = i + length (takeWhile (\<lambda>x. x \<le> v) (drop i xs))"

fun ks_scan :: "rat list \<Rightarrow> rat list \<Rightarrow> rat list \<Rightarrow> nat \<Rightarrow> nat \<Rightarrow> int \<Rightarrow> int" where
  "ks_scan ref cmp [] i j largest = largest"
| "ks_scan ref cmp (v # vs) i j largest =
     (let i = advance ref v i; j = advance cmp v j
      in ks_scan ref cmp vs i j (max largest \<bar>int i * int (length cmp) - int j * int (length ref)\<bar>))"

definition ks_integer_statistic :: "rat list \<Rightarrow> rat list \<Rightarrow> int" where
  "ks_integer_statistic ref cmp = ks_scan (sort ref) (sort cmp) (sort (remdups (ref @ cmp))) 0 0 0"

section \<open>The exact p-value\<close>

definition inside_band :: "nat \<Rightarrow> nat \<Rightarrow> int \<Rightarrow> nat \<Rightarrow> nat \<Rightarrow> bool" where
  "inside_band n m statistic i j \<longleftrightarrow> \<bar>int i * int m - int j * int n\<bar> < statistic"

text \<open>The inner loop over a row from column \<open>j\<close> on; \<open>left\<close> is the cell before, the list is the row above.\<close>

fun fill_row :: "(nat \<Rightarrow> bool) \<Rightarrow> nat \<Rightarrow> nat \<Rightarrow> nat list \<Rightarrow> nat list" where
  "fill_row ok left j [] = []"
| "fill_row ok left j (previous # row) =
     (let cell = (if ok j then left + previous else 0) in cell # fill_row ok cell (Suc j) row)"

definition first_row :: "nat \<Rightarrow> nat \<Rightarrow> int \<Rightarrow> nat list" where
  "first_row n m statistic = 1 # fill_row (inside_band n m statistic 0) 1 1 (replicate m 0)"

definition next_row :: "nat \<Rightarrow> nat \<Rightarrow> int \<Rightarrow> nat \<Rightarrow> nat list \<Rightarrow> nat list" where
  "next_row n m statistic i previous =
     (let cell = (if inside_band n m statistic i 0 then hd previous else 0)
      in cell # fill_row (inside_band n m statistic i) cell 1 (tl previous))"

fun lattice_row :: "nat \<Rightarrow> nat \<Rightarrow> int \<Rightarrow> nat \<Rightarrow> nat list" where
  "lattice_row n m statistic 0 = first_row n m statistic"
| "lattice_row n m statistic (Suc i) = next_row n m statistic (Suc i) (lattice_row n m statistic i)"

definition exact_two_sided_p :: "nat \<Rightarrow> nat \<Rightarrow> int \<Rightarrow> rat" where
  "exact_two_sided_p n m statistic =
     (if statistic \<le> 0 then 1
      else let total = (n + m) choose n
           in (of_nat total - of_nat (lattice_row n m statistic n ! m)) / of_nat total)"

text \<open>The limiting series, over \<open>math.exp\<close> and \<open>math.sqrt\<close>; the sum stops at the first negligible term.\<close>

definition asymptotic_terms :: nat where
  "asymptotic_terms = 100"

fun kolmogorov_sum :: "(rat \<Rightarrow> rat) \<Rightarrow> rat \<Rightarrow> nat list \<Rightarrow> rat \<Rightarrow> rat" where
  "kolmogorov_sum exp_of x [] acc = acc"
| "kolmogorov_sum exp_of x (k # ks) acc =
     (let summand = exp_of (- 2 * of_nat k * of_nat k * x * x);
          acc = acc + (if k mod 2 = 1 then summand else - summand)
      in if summand < 1 / 10 ^ 18 then acc else kolmogorov_sum exp_of x ks acc)"

definition asymptotic_two_sided_p :: "(rat \<Rightarrow> rat) \<Rightarrow> (rat \<Rightarrow> rat) \<Rightarrow> nat \<Rightarrow> nat \<Rightarrow> int \<Rightarrow> rat" where
  "asymptotic_two_sided_p exp_of sqrt_of n m statistic =
     (let d = of_int statistic / of_nat (n * m); x = d * sqrt_of (of_nat (n * m) / of_nat (n + m))
      in if x \<le> 0 then 1 else min 1 (max 0 (2 * kolmogorov_sum exp_of x [1..<asymptotic_terms + 1] 0)))"

definition exact_lattice_cells :: nat where
  "exact_lattice_cells = 400000"

datatype p_value_method = Exact_Lattice | Kolmogorov_Asymptotic

record ks_test =
  ks_statistic :: rat
  ks_p_value :: rat
  ks_method :: p_value_method

text \<open>\<open>asymptotic\<close> is \<open>_asymptotic_two_sided_p\<close>.\<close>

definition two_sample_ks :: "(nat \<Rightarrow> nat \<Rightarrow> int \<Rightarrow> rat) \<Rightarrow> rat list \<Rightarrow> rat list \<Rightarrow> py_error + ks_test" where
  "two_sample_ks asymptotic ref cmp =
     (let n = length ref; m = length cmp in
      if n = 0 \<or> m = 0 then Inl (Value_Error ''the two-sample KS test requires a non-empty sample on both sides'')
      else let statistic = ks_integer_statistic ref cmp;
               exact = (n + 1) * (m + 1) \<le> exact_lattice_cells
           in Inr \<lparr>ks_statistic = of_int statistic / of_nat (n * m),
                ks_p_value = (if exact then exact_two_sided_p n m statistic else asymptotic n m statistic),
                ks_method = (if exact then Exact_Lattice else Kolmogorov_Asymptotic)\<rparr>)"

definition minimum_attainable_p :: "nat \<Rightarrow> nat \<Rightarrow> rat" where
  "minimum_attainable_p n m = 2 / of_nat ((n + m) choose n)"

section \<open>Holm-Bonferroni\<close>

record correction =
  co_rank :: nat
  co_threshold :: rat
  co_rejected :: bool

fun holm_scan :: "rat list \<Rightarrow> rat \<Rightarrow> nat \<Rightarrow> bool \<Rightarrow> nat list \<Rightarrow> correction list \<Rightarrow> correction list" where
  "holm_scan ps alpha rank still [] records = records"
| "holm_scan ps alpha rank still (index # order) records =
     (let threshold = alpha / of_nat (length ps - rank);
          still = (still \<and> \<not> threshold < ps ! index)
      in holm_scan ps alpha (Suc rank) still order
           (records[index := \<lparr>co_rank = rank, co_threshold = threshold, co_rejected = still\<rparr>]))"

definition holm_order :: "rat list \<Rightarrow> nat list" where
  "holm_order ps = sort_key (\<lambda>index. ps ! index) [0..<length ps]"

definition holm_bonferroni :: "rat list \<Rightarrow> rat \<Rightarrow> correction list" where
  "holm_bonferroni ps alpha =
     holm_scan ps alpha 0 True (holm_order ps) (replicate (length ps) \<lparr>co_rank = 0, co_threshold = 0, co_rejected = False\<rparr>)"

section \<open>The statistic is the largest gap between the distributions\<close>

definition at_most :: "rat list \<Rightarrow> rat \<Rightarrow> nat" where
  "at_most xs v = length (filter (\<lambda>x. x \<le> v) xs)"

definition gap :: "rat list \<Rightarrow> rat list \<Rightarrow> rat \<Rightarrow> int" where
  "gap ref cmp v = \<bar>int (at_most ref v) * int (length cmp) - int (at_most cmp v) * int (length ref)\<bar>"

lemma at_most_sort [simp]: "at_most (sort xs) v = at_most xs v"
  by (simp add: at_most_def filter_sort)

lemma at_most_sorted: "sorted xs \<Longrightarrow> at_most xs v = length (takeWhile (\<lambda>x. x \<le> v) xs)"
proof (induction xs)
  case (Cons x xs)
  show ?case
  proof (cases "x \<le> v")
    case True
    with Cons show ?thesis by (simp add: at_most_def)
  next
    case False
    with Cons.prems have "filter (\<lambda>x. x \<le> v) xs = []" by (auto simp: filter_empty_conv)
    with False show ?thesis by (simp add: at_most_def)
  qed
qed (simp add: at_most_def)

lemma takeWhile_split: "(\<And>x. P x \<Longrightarrow> Q x) \<Longrightarrow> takeWhile Q xs = takeWhile P xs @ takeWhile Q (drop (length (takeWhile P xs)) xs)"
  by (induction xs) auto

lemma advance_at_most: "sorted xs \<Longrightarrow> u \<le> v \<Longrightarrow> advance xs v (at_most xs u) = at_most xs v"
proof -
  assume s: "sorted xs" and uv: "u \<le> v"
  have "takeWhile (\<lambda>x. x \<le> v) xs = takeWhile (\<lambda>x. x \<le> u) xs @ takeWhile (\<lambda>x. x \<le> v) (drop (length (takeWhile (\<lambda>x. x \<le> u) xs)) xs)"
    using uv by (intro takeWhile_split) simp
  then have "length (takeWhile (\<lambda>x. x \<le> v) xs) =
      length (takeWhile (\<lambda>x. x \<le> u) xs) + length (takeWhile (\<lambda>x. x \<le> v) (drop (length (takeWhile (\<lambda>x. x \<le> u) xs)) xs))"
    by (metis length_append)
  then show ?thesis by (simp add: advance_def at_most_sorted [OF s])
qed

lemma advance_start: "sorted xs \<Longrightarrow> advance xs v 0 = at_most xs v"
  by (simp add: advance_def at_most_sorted)

lemma ks_scan_fold:
  assumes "sorted ref" "sorted cmp" "sorted vs" "\<forall>v \<in> set vs. advance ref v i = at_most ref v \<and> advance cmp v j = at_most cmp v"
  shows "ks_scan ref cmp vs i j largest = fold max (map (gap ref cmp) vs) largest"
  using assms
proof (induction vs arbitrary: i j largest)
  case (Cons v vs)
  have "\<forall>w \<in> set vs. advance ref w (at_most ref v) = at_most ref w \<and> advance cmp w (at_most cmp v) = at_most cmp w"
    using Cons.prems by (auto simp: advance_at_most)
  with Cons.IH Cons.prems show ?case by (simp add: Let_def gap_def max.commute)
qed simp

lemma ks_fold: "ks_integer_statistic ref cmp = fold max (map (gap ref cmp) (sort (remdups (ref @ cmp)))) 0"
proof -
  have "gap (sort ref) (sort cmp) = gap ref cmp" by (rule ext) (simp add: gap_def)
  then show ?thesis unfolding ks_integer_statistic_def
    by (subst ks_scan_fold) (simp_all add: advance_start)
qed

lemma fold_max_ge: "(v::int) \<in> insert a (set xs) \<Longrightarrow> v \<le> fold max xs a"
  using Max.set_eq_fold [of a xs] Max_ge [of "set (a # xs)" v] by simp

lemma fold_max_in: "fold max xs (a::int) \<in> insert a (set xs)"
  by (induction xs arbitrary: a) (auto simp: max_def split: if_splits)

text \<open>Between two values of the merged sample the counts do not change.\<close>

lemma gap_attained: "\<exists>u \<in> set (ref @ cmp). gap ref cmp v = gap ref cmp u \<or> gap ref cmp v = 0" if "ref @ cmp \<noteq> []"
proof (cases "\<exists>x \<in> set (ref @ cmp). x \<le> v")
  case True
  let ?below = "{x \<in> set (ref @ cmp). x \<le> v}"
  define u where "u = Max ?below"
  have fin: "finite ?below" "?below \<noteq> {}" using True by auto
  have u: "u \<in> ?below" unfolding u_def by (rule Max_in [OF fin])
  have "x \<le> v \<longleftrightarrow> x \<le> u" if "x \<in> set (ref @ cmp)" for x
  proof
    assume "x \<le> v"
    with that show "x \<le> u" unfolding u_def by (intro Max_ge) auto
  qed (use u in auto)
  then have "at_most ref v = at_most ref u" "at_most cmp v = at_most cmp u"
    unfolding at_most_def by (metis (no_types, lifting) Un_iff filter_cong set_append)+
  then show ?thesis using u by (auto simp: gap_def)
next
  case False
  then have "at_most ref v = 0" "at_most cmp v = 0" by (auto simp: at_most_def filter_empty_conv)
  then have "gap ref cmp v = 0" by (simp add: gap_def)
  moreover have "last (ref @ cmp) \<in> set (ref @ cmp)" using that by (rule last_in_set)
  ultimately show ?thesis by blast
qed

text \<open>C22: The integer statistic is the largest gap of the two distributions. Scanning the merged sample with two
cursors yields the supremum, over every threshold, of the difference of the two empirical counts scaled
to integers: no threshold exceeds it, and unless it is zero a sample value attains it. It therefore
depends only on the two multisets, is symmetric, and never exceeds the product of the sample sizes.\<close>

theorem ks_statistic_is_supremum:
  "gap ref cmp v \<le> ks_integer_statistic ref cmp \<and>
   (ks_integer_statistic ref cmp = 0 \<or> ks_integer_statistic ref cmp \<in> gap ref cmp ` set (ref @ cmp)) \<and>
   ks_integer_statistic ref cmp = ks_integer_statistic cmp ref \<and>
   0 \<le> ks_integer_statistic ref cmp \<and> ks_integer_statistic ref cmp \<le> int (length ref * length cmp)"
proof -
  have upper: "gap r c u \<le> ks_integer_statistic r c" if "u \<in> set (r @ c)" for r c u
    unfolding ks_fold by (rule fold_max_ge) (use that in auto)
  have attained: "ks_integer_statistic r c = 0 \<or> ks_integer_statistic r c \<in> gap r c ` set (r @ c)" for r c
    unfolding ks_fold using fold_max_in [of "map (gap r c) (sort (remdups (r @ c)))" 0] by auto
  have nonneg: "0 \<le> ks_integer_statistic r c" for r c
    unfolding ks_fold by (rule fold_max_ge) simp
  have sup: "gap r c u \<le> ks_integer_statistic r c" for r c u
  proof (cases "r @ c = []")
    case True
    then show ?thesis by (simp add: gap_def ks_fold)
  next
    case False
    from gap_attained [OF False, of u] show ?thesis using upper nonneg by metis
  qed
  have sym: "gap c r u = gap r c u" for r c u by (simp add: gap_def)
  have le: "ks_integer_statistic r c \<le> ks_integer_statistic c r" for r c
    using attained [of r c] sup [of c r] nonneg [of c r] sym by auto
  have bound: "gap ref cmp u \<le> int (length ref * length cmp)" for u
  proof -
    have "0 \<le> int (at_most ref u) * int (length cmp)" "0 \<le> int (at_most cmp u) * int (length ref)" by simp_all
    moreover have "int (at_most ref u) * int (length cmp) \<le> int (length ref) * int (length cmp)"
      by (auto simp: at_most_def intro!: mult_right_mono)
    moreover have "int (at_most cmp u) * int (length ref) \<le> int (length ref) * int (length cmp)"
      unfolding mult.commute [of "int (at_most cmp u)"] by (auto simp: at_most_def intro!: mult_left_mono)
    ultimately show ?thesis unfolding gap_def abs_le_iff of_nat_mult by linarith
  qed
  have "ks_integer_statistic ref cmp \<le> int (length ref * length cmp)" using attained [of ref cmp] bound by fastforce
  then show ?thesis
    by (intro conjI sup attained nonneg order.antisym le)
qed

section \<open>Counting orderings\<close>

text \<open>An ordering of the merged sample is a word with a True for each reference value; its statistic is the
largest gap over its prefixes.\<close>

definition interleavings :: "nat \<Rightarrow> nat \<Rightarrow> bool list set" where
  "interleavings i j = {w. count_list w True = i \<and> count_list w False = j}"

definition prefix_gap :: "nat \<Rightarrow> nat \<Rightarrow> bool list \<Rightarrow> int" where
  "prefix_gap n m w = \<bar>int (count_list w True) * int m - int (count_list w False) * int n\<bar>"

definition path_statistic :: "nat \<Rightarrow> nat \<Rightarrow> bool list \<Rightarrow> int" where
  "path_statistic n m w = fold max (map (\<lambda>k. prefix_gap n m (take k w)) [0..<Suc (length w)]) 0"

definition banded :: "nat \<Rightarrow> nat \<Rightarrow> int \<Rightarrow> nat \<Rightarrow> nat \<Rightarrow> bool list set" where
  "banded n m s i j = {w \<in> interleavings i j. path_statistic n m w < s}"

lemma path_snoc: "path_statistic n m (w @ [b]) = max (path_statistic n m w) (prefix_gap n m (w @ [b]))"
proof -
  have "map (\<lambda>k. prefix_gap n m (take k (w @ [b]))) [0..<Suc (length w)] = map (\<lambda>k. prefix_gap n m (take k w)) [0..<Suc (length w)]"
    by (rule map_cong) auto
  then show ?thesis unfolding path_statistic_def
    by (simp only: length_append_singleton upt_Suc_append le0 map_append fold_append comp_apply) (simp add: max.commute)
qed

lemma path_Nil: "path_statistic n m [] = 0"
  by (simp add: path_statistic_def prefix_gap_def)

lemma path_nonneg: "0 \<le> path_statistic n m w"
  unfolding path_statistic_def by (rule fold_max_ge) simp

lemma count_length: "length (w :: bool list) = count_list w True + count_list w False"
  by (induction w) auto

lemma inter_finite: "finite (interleavings i j)"
proof (rule finite_subset)
  show "interleavings i j \<subseteq> {w. set w \<subseteq> UNIV \<and> length w = i + j}"
    by (auto simp: interleavings_def count_length)
qed (rule finite_lists_length_eq, simp)

lemma snoc_cases:
  "interleavings i j = (if i = 0 \<and> j = 0 then {[]} else {}) \<union>
    (if 0 < i then (\<lambda>w. w @ [True]) ` interleavings (i - 1) j else {}) \<union>
    (if 0 < j then (\<lambda>w. w @ [False]) ` interleavings i (j - 1) else {})"
proof (rule set_eqI)
  fix w
  show "w \<in> interleavings i j \<longleftrightarrow> w \<in> (if i = 0 \<and> j = 0 then {[]} else {}) \<union>
    (if 0 < i then (\<lambda>w. w @ [True]) ` interleavings (i - 1) j else {}) \<union>
    (if 0 < j then (\<lambda>w. w @ [False]) ` interleavings i (j - 1) else {})"
  proof (cases w rule: rev_cases)
    case Nil
    then show ?thesis by (auto simp: interleavings_def)
  next
    case (snoc v b)
    then show ?thesis by (cases b) (auto simp: interleavings_def)
  qed
qed

lemma banded_snoc:
  "banded n m s i j =
    (if inside_band n m s i j then
       (if i = 0 \<and> j = 0 then {[]} else {}) \<union> (if 0 < i then (\<lambda>w. w @ [True]) ` banded n m s (i - 1) j else {}) \<union>
       (if 0 < j then (\<lambda>w. w @ [False]) ` banded n m s i (j - 1) else {})
     else {})"
proof -
  have end_gap: "prefix_gap n m w = \<bar>int i * int m - int j * int n\<bar>" if "w \<in> interleavings i j" for w i j
    using that by (simp add: prefix_gap_def interleavings_def)
  have "path_statistic n m w < s \<longleftrightarrow> inside_band n m s i j \<and> (w = [] \<or> path_statistic n m (butlast w) < s)"
    if "w \<in> interleavings i j" for w
  proof (cases w rule: rev_cases)
    case Nil
    with that show ?thesis by (auto simp: path_Nil inside_band_def interleavings_def)
  next
    case (snoc v b)
    show ?thesis using end_gap [OF that] unfolding snoc path_snoc by (auto simp: inside_band_def)
  qed
  then have "banded n m s i j = {w \<in> interleavings i j. inside_band n m s i j \<and> (w = [] \<or> path_statistic n m (butlast w) < s)}"
    unfolding banded_def by blast
  also have "\<dots> = (if inside_band n m s i j then
       (if i = 0 \<and> j = 0 then {[]} else {}) \<union> (if 0 < i then (\<lambda>w. w @ [True]) ` banded n m s (i - 1) j else {}) \<union>
       (if 0 < j then (\<lambda>w. w @ [False]) ` banded n m s i (j - 1) else {})
     else {})"
    unfolding banded_def by (subst snoc_cases) auto
  finally show ?thesis .
qed

definition paths :: "nat \<Rightarrow> nat \<Rightarrow> int \<Rightarrow> nat \<Rightarrow> nat \<Rightarrow> nat" where
  "paths n m s i j = card (banded n m s i j)"

lemma banded_finite: "finite (banded n m s i j)"
  unfolding banded_def using inter_finite by simp

lemma paths_rec:
  "paths n m s i j =
    (if inside_band n m s i j then (if i = 0 \<and> j = 0 then 1 else 0) + (if 0 < i then paths n m s (i - 1) j else 0) +
       (if 0 < j then paths n m s i (j - 1) else 0) else 0)"
proof -
  have inj: "inj_on (\<lambda>w. w @ [b]) A" for b :: bool and A by (simp add: inj_on_def)
  have card: "card ((\<lambda>w. w @ [b]) ` A) = card A" for b :: bool and A by (rule card_image [OF inj])
  have un: "card ((\<lambda>w. w @ [True]) ` A \<union> (\<lambda>w. w @ [False]) ` B) = card A + card B" if "finite A" "finite B" for A B
    using that card_Un_disjoint [of "(\<lambda>w. w @ [True]) ` A" "(\<lambda>w. w @ [False]) ` B"] by (auto simp: card)
  show ?thesis unfolding paths_def
    by (subst banded_snoc) (auto simp: un card_Un_disjoint card banded_finite card_insert_if image_iff)
qed

lemma inter_card: "card (interleavings i j) = (i + j) choose i"
proof -
  have card: "card ((\<lambda>w. w @ [b]) ` A) = card A" for b :: bool and A by (rule card_image) (simp add: inj_on_def)
  have un: "card ((\<lambda>w. w @ [True]) ` interleavings a b \<union> (\<lambda>w. w @ [False]) ` interleavings c d) =
      card (interleavings a b) + card (interleavings c d)" for a b c d
    using card_Un_disjoint [of "(\<lambda>w. w @ [True]) ` interleavings a b" "(\<lambda>w. w @ [False]) ` interleavings c d"] inter_finite
    by (auto simp: card)
  have zero: "card (interleavings 0 j) = 1" for j
    by (induction j) (subst snoc_cases, simp add: card)+
  show ?thesis
  proof (induction i arbitrary: j)
    case (Suc i)
    note outer = this
    show ?case
    proof (induction j)
      case 0
      show ?case using outer [of 0] by (subst snoc_cases) (simp add: card)
    next
      case (Suc j)
      have "interleavings (Suc i) (Suc j) = (\<lambda>w. w @ [True]) ` interleavings i (Suc j) \<union> (\<lambda>w. w @ [False]) ` interleavings (Suc i) j"
        by (subst snoc_cases) simp
      then have "card (interleavings (Suc i) (Suc j)) = card (interleavings i (Suc j)) + card (interleavings (Suc i) j)"
        by (simp only: un)
      then show ?case using outer [of "Suc j"] Suc by simp
    qed
  qed (simp add: zero)
qed

lemma fill_row_map:
  assumes "\<And>k. j \<le> k \<Longrightarrow> f k = (if ok k then f (k - 1) + g k else 0)" "0 < j"
  shows "fill_row ok (f (j - 1)) j (map g [j..<k]) = map f [j..<k]"
  using assms
proof (induction "k - j" arbitrary: j)
  case (Suc x)
  then have j: "j < k" by simp
  have "map f [j..<k] = f j # map f [Suc j..<k]" "map g [j..<k] = g j # map g [Suc j..<k]" using j by (simp_all add: upt_conv_Cons)
  moreover have "fill_row ok (f (Suc j - 1)) (Suc j) (map g [Suc j..<k]) = map f [Suc j..<k]"
  proof (rule Suc.hyps(1))
    show "x = k - Suc j" using Suc.hyps(2) by simp
    show "f l = (if ok l then f (l - 1) + g l else 0)" if "Suc j \<le> l" for l using that by (intro Suc.prems(1)) simp
  qed simp
  ultimately show ?case using Suc.prems(1) [of j] by (cases "ok j") (simp_all add: Let_def)
qed simp

lemma lattice_row_paths: "0 < s \<Longrightarrow> lattice_row n m s i = map (paths n m s i) [0..<Suc m]"
proof (induction i)
  case 0
  have "paths n m s 0 k = (if inside_band n m s 0 k then paths n m s 0 (k - 1) + 0 else 0)" if "1 \<le> k" for k
    using that by (subst paths_rec) simp
  then have "fill_row (inside_band n m s 0) (paths n m s 0 (1 - 1)) 1 (map (\<lambda>_. 0) [1..<Suc m]) = map (paths n m s 0) [1..<Suc m]"
    by (intro fill_row_map) simp_all
  moreover have "paths n m s 0 0 = 1" using 0 by (subst paths_rec) (simp add: inside_band_def)
  moreover have "map (\<lambda>_. 0 :: nat) [1..<Suc m] = replicate m 0" by (simp add: map_replicate_const)
  moreover have "[0..<Suc m] = 0 # [1..<Suc m]" by (simp add: upt_rec del: upt_Suc)
  ultimately show ?case by (simp add: first_row_def del: upt_Suc)
next
  case (Suc i)
  have "paths n m s (Suc i) k = (if inside_band n m s (Suc i) k then paths n m s (Suc i) (k - 1) + paths n m s i k else 0)" if "1 \<le> k" for k
    using that by (subst paths_rec) simp
  then have "fill_row (inside_band n m s (Suc i)) (paths n m s (Suc i) (1 - 1)) 1 (map (paths n m s i) [1..<Suc m]) = map (paths n m s (Suc i)) [1..<Suc m]"
    by (intro fill_row_map) simp_all
  moreover have "paths n m s (Suc i) 0 = (if inside_band n m s (Suc i) 0 then paths n m s i 0 else 0)" by (subst paths_rec) simp
  moreover have "[0..<Suc m] = 0 # [1..<Suc m]" by (simp add: upt_rec del: upt_Suc)
  ultimately show ?case using Suc by (cases "inside_band n m s (Suc i) 0") (simp_all add: next_row_def Let_def del: upt_Suc)
qed

lemma banded_sub: "banded n m s i j \<subseteq> interleavings i j"
  by (auto simp: banded_def)

lemma exact_p_orderings:
  "exact_two_sided_p n m s = of_nat (card {w \<in> interleavings n m. s \<le> path_statistic n m w}) / of_nat (card (interleavings n m))"
proof (cases "s \<le> 0")
  case True
  then have "s \<le> path_statistic n m w" for w using path_nonneg [of n m w] by linarith
  then have "{w \<in> interleavings n m. s \<le> path_statistic n m w} = interleavings n m" by blast
  moreover have "card (interleavings n m) \<noteq> 0" unfolding inter_card by simp
  ultimately show ?thesis using True by (simp add: exact_two_sided_p_def)
next
  case False
  have "{w \<in> interleavings n m. s \<le> path_statistic n m w} = interleavings n m - banded n m s n m" by (auto simp: banded_def)
  then have "card {w \<in> interleavings n m. s \<le> path_statistic n m w} = card (interleavings n m) - paths n m s n m"
    unfolding paths_def by (simp only: card_Diff_subset [OF banded_finite banded_sub])
  moreover have "paths n m s n m \<le> card (interleavings n m)"
    unfolding paths_def by (intro card_mono inter_finite) (auto simp: banded_def)
  moreover have "lattice_row n m s n ! m = paths n m s n m"
    using False by (simp add: lattice_row_paths nth_append del: upt_Suc)
  ultimately show ?thesis using False by (simp add: exact_two_sided_p_def inter_card of_nat_diff Let_def)
qed

lemma prefix_counts:
  assumes "distinct (ref @ cmp)" "k < length (ref @ cmp)"
  defines "vs \<equiv> sort (ref @ cmp)"
  shows "count_list (take (Suc k) (map (\<lambda>v. v \<in> set ref) vs)) True = at_most ref (vs ! k)"
    "count_list (take (Suc k) (map (\<lambda>v. v \<in> set ref) vs)) False = at_most cmp (vs ! k)"
proof -
  have vs: "sorted vs" "distinct vs" "length vs = length (ref @ cmp)" "mset vs = mset (ref @ cmp)" using assms(1) by (simp_all add: vs_def)
  have "filter (\<lambda>v. v \<le> vs ! k) vs = take (Suc k) vs"
  proof -
    have k: "k < length vs" using assms(2) vs(3) by simp
    have "filter (\<lambda>v. v \<le> vs ! k) (take (Suc k) vs) = take (Suc k) vs"
      using vs(1) k by (auto simp: filter_id_conv in_set_conv_nth sorted_iff_nth_mono)
    moreover have "filter (\<lambda>v. v \<le> vs ! k) (drop (Suc k) vs) = []"
    proof (unfold filter_empty_conv, intro ballI notI)
      fix x assume "x \<in> set (drop (Suc k) vs)" and le: "x \<le> vs ! k"
      then obtain l where l: "x = vs ! l" "k < l" "l < length vs" by (auto simp: in_set_conv_nth)
      from vs(1) l have "vs ! k \<le> x" by (simp add: sorted_iff_nth_mono)
      with le l vs(2) k show False by (simp add: nth_eq_iff_index_eq)
    qed
    ultimately show ?thesis by (metis append_Nil2 append_take_drop_id filter_append)
  qed
  note take = this [symmetric]
  have len: "length (filter P vs) = length (filter P ref) + length (filter P cmp)" for P
    using arg_cong [OF vs(4), of "\<lambda>M. size (filter_mset P M)"] by (simp only: mset_filter [symmetric] size_mset) simp
  have disj: "set ref \<inter> set cmp = {}" using assms(1) by simp
  have true: "count_list (map (\<lambda>v. v \<in> set ref) xs) True = length (filter (\<lambda>v. v \<in> set ref) xs)" for xs by (induction xs) auto
  have false: "count_list (map (\<lambda>v. v \<in> set ref) xs) False = length (filter (\<lambda>v. v \<notin> set ref) xs)" for xs by (induction xs) auto
  have none: "filter (\<lambda>v. v \<le> x \<and> v \<in> set ref) cmp = []" "filter (\<lambda>v. v \<le> x \<and> v \<notin> set ref) ref = []" for x
    using disj by (auto simp: filter_empty_conv)
  have all: "filter (\<lambda>v. v \<le> x \<and> v \<in> set ref) ref = filter (\<lambda>v. v \<le> x) ref" "filter (\<lambda>v. v \<le> x \<and> v \<notin> set ref) cmp = filter (\<lambda>v. v \<le> x) cmp" for x
    using disj by (auto intro!: filter_cong)
  show "count_list (take (Suc k) (map (\<lambda>v. v \<in> set ref) vs)) True = at_most ref (vs ! k)"
    unfolding take_map take true filter_filter len at_most_def by (simp add: none all)
  show "count_list (take (Suc k) (map (\<lambda>v. v \<in> set ref) vs)) False = at_most cmp (vs ! k)"
    unfolding take_map take false filter_filter len at_most_def by (simp add: none all)
qed

lemma statistic_of_ordering:
  assumes "distinct (ref @ cmp)"
  shows "ks_integer_statistic ref cmp = path_statistic (length ref) (length cmp) (map (\<lambda>v. v \<in> set ref) (sort (ref @ cmp)))"
proof -
  let ?vs = "sort (ref @ cmp)" and ?n = "length ref" and ?m = "length cmp"
  let ?w = "map (\<lambda>v. v \<in> set ref) ?vs"
  have "prefix_gap ?n ?m (take (Suc k) ?w) = gap ref cmp (?vs ! k)" if "k < length (ref @ cmp)" for k
    using prefix_counts [OF assms that] by (simp add: prefix_gap_def gap_def)
  then have "map (\<lambda>k. prefix_gap ?n ?m (take (Suc k) ?w)) [0..<length ?vs] = map (gap ref cmp) ?vs"
    by (intro nth_equalityI) simp_all
  moreover have "map (\<lambda>k. prefix_gap ?n ?m (take k ?w)) [0..<Suc (length ?vs)] =
      prefix_gap ?n ?m (take 0 ?w) # map (\<lambda>k. prefix_gap ?n ?m (take (Suc k) ?w)) [0..<length ?vs]"
    by (rule map_upt_Suc)
  ultimately have "path_statistic ?n ?m ?w = fold max (prefix_gap ?n ?m (take 0 ?w) # map (gap ref cmp) ?vs) 0"
    unfolding path_statistic_def by (simp only: length_map)
  then have "path_statistic ?n ?m ?w = fold max (map (gap ref cmp) ?vs) 0" by (simp add: prefix_gap_def)
  moreover have "remdups (ref @ cmp) = ref @ cmp" using assms by (simp only: distinct_remdups_id)
  ultimately show ?thesis unfolding ks_fold by (simp only:)
qed

text \<open>C23: The exact p-value is the permutation probability. The row-by-row lattice count gives exactly the share
of all orderings of the merged sample, of which there are n + m choose n, whose statistic is at least
the one observed; and for samples without ties the observed statistic is that of their own ordering.\<close>

theorem exact_p_counts_orderings:
  "exact_two_sided_p n m s =
     of_nat (card {w. count_list w True = n \<and> count_list w False = m \<and> s \<le> path_statistic n m w}) / of_nat ((n + m) choose n) \<and>
   card {w. count_list w True = n \<and> count_list w False = m} = (n + m) choose n \<and>
   (if distinct (ref @ cmp)
    then ks_integer_statistic ref cmp = path_statistic (length ref) (length cmp) (map (\<lambda>v. v \<in> set ref) (sort (ref @ cmp)))
    else True)"
proof -
  have a: "{w. count_list w True = n \<and> count_list w False = m \<and> s \<le> path_statistic n m w} = {w \<in> interleavings n m. s \<le> path_statistic n m w}"
    by (auto simp: interleavings_def)
  have b: "{w. count_list w True = n \<and> count_list w False = m} = interleavings n m" by (simp add: interleavings_def)
  show ?thesis unfolding a b exact_p_orderings inter_card using statistic_of_ordering by simp
qed

section \<open>The smallest attainable p-value\<close>

lemma full_path: "0 < n \<Longrightarrow> 0 < m \<Longrightarrow>
  int (n * m) \<le> path_statistic n m (replicate n True @ replicate m False) \<and> int (n * m) \<le> path_statistic n m (replicate m False @ replicate n True)"
proof (intro conjI)
  have k: "k \<le> length w \<Longrightarrow> prefix_gap n m (take k w) \<le> path_statistic n m w" for k w
  proof -
    assume "k \<le> length w"
    then have "prefix_gap n m (take k w) \<in> set (map (\<lambda>k. prefix_gap n m (take k w)) [0..<Suc (length w)])"
      unfolding set_map by (intro imageI) auto
    then show ?thesis unfolding path_statistic_def by (intro fold_max_ge insertI2)
  qed
  have count: "count_list (replicate k b) b = k" "b \<noteq> c \<Longrightarrow> count_list (replicate k b) c = 0" for b c and k :: nat
    by (induction k) auto
  show "int (n * m) \<le> path_statistic n m (replicate n True @ replicate m False)"
    using k [of n "replicate n True @ replicate m False"] by (simp add: prefix_gap_def count)
  show "int (n * m) \<le> path_statistic n m (replicate m False @ replicate n True)"
    using k [of m "replicate m False @ replicate n True"] by (simp add: prefix_gap_def count mult.commute)
qed

lemma attainable_lower:
  assumes "0 < n" "0 < m" "s \<le> int (n * m)"
  shows "minimum_attainable_p n m \<le> exact_two_sided_p n m s"
proof -
  let ?a = "replicate n True @ replicate m False" and ?b = "replicate m False @ replicate n True"
  have count: "count_list (replicate k b) b = k" "b \<noteq> c \<Longrightarrow> count_list (replicate k b) c = 0" for b c and k :: nat
    by (induction k) auto
  have "?a \<noteq> ?b" using assms(1,2) by (cases n; cases m) auto
  moreover have "{?a, ?b} \<subseteq> {w \<in> interleavings n m. s \<le> path_statistic n m w}"
    using full_path [OF assms(1,2)] assms(3) by (auto simp: interleavings_def count)
  ultimately have "2 \<le> card {w \<in> interleavings n m. s \<le> path_statistic n m w}"
    using card_mono [of "{w \<in> interleavings n m. s \<le> path_statistic n m w}" "{?a, ?b}"] inter_finite by simp
  then have "(2 :: rat) \<le> of_nat (card {w \<in> interleavings n m. s \<le> path_statistic n m w})"
    by (metis of_nat_le_iff of_nat_numeral)
  then show ?thesis
    unfolding minimum_attainable_p_def exact_p_orderings inter_card by (intro divide_right_mono) simp_all
qed

section \<open>The step-down procedure\<close>

lemma holm_scan_length [simp]: "length (holm_scan ps alpha rank still order records) = length records"
  by (induction order arbitrary: rank still records) (simp_all add: Let_def)

lemma holm_scan_other: "i \<notin> set order \<Longrightarrow> holm_scan ps alpha rank still order records ! i = records ! i"
  by (induction order arbitrary: rank still records) (simp_all add: Let_def)

lemma holm_scan_at:
  assumes "distinct order" "\<forall>i \<in> set order. i < length records" "k < length order"
  shows "holm_scan ps alpha rank still order records ! (order ! k) =
    \<lparr>co_rank = rank + k, co_threshold = alpha / of_nat (length ps - (rank + k)),
     co_rejected = (still \<and> (\<forall>l \<le> k. ps ! (order ! l) \<le> alpha / of_nat (length ps - (rank + l))))\<rparr>"
  using assms
proof (induction order arbitrary: rank still records k)
  case (Cons i order)
  define still' where "still' = (still \<and> \<not> alpha / of_nat (length ps - rank) < ps ! i)"
  define records' where "records' = records[i := \<lparr>co_rank = rank, co_threshold = alpha / of_nat (length ps - rank), co_rejected = still'\<rparr>]"
  have scan: "holm_scan ps alpha rank still (i # order) records = holm_scan ps alpha (Suc rank) still' order records'"
    by (simp add: Let_def still'_def records'_def)
  show ?case
  proof (cases k)
    case 0
    with Cons.prems show ?thesis unfolding scan by (simp add: holm_scan_other records'_def still'_def not_less)
  next
    case (Suc k')
    have all: "(\<forall>l \<le> Suc k'. P l) \<longleftrightarrow> P 0 \<and> (\<forall>l \<le> k'. P (Suc l))" for P
      using le_Suc_eq by (metis Suc_le_mono le0 not0_implies_Suc)
    have "holm_scan ps alpha (Suc rank) still' order records' ! (order ! k') =
      \<lparr>co_rank = Suc rank + k', co_threshold = alpha / of_nat (length ps - (Suc rank + k')),
       co_rejected = (still' \<and> (\<forall>l \<le> k'. ps ! (order ! l) \<le> alpha / of_nat (length ps - (Suc rank + l))))\<rparr>"
      using Cons.prems Suc by (intro Cons.IH) (simp_all add: records'_def)
    then show ?thesis unfolding scan Suc all by (simp add: still'_def not_less conj_assoc)
  qed
qed simp

lemma holm_at:
  assumes "k < length ps"
  shows "holm_bonferroni ps alpha ! (holm_order ps ! k) =
    \<lparr>co_rank = k, co_threshold = alpha / of_nat (length ps - k),
     co_rejected = (\<forall>l \<le> k. ps ! (holm_order ps ! l) \<le> alpha / of_nat (length ps - l))\<rparr>"
  unfolding holm_bonferroni_def using assms by (subst holm_scan_at) (simp_all add: holm_order_def)

lemma holm_ranked: "i < length ps \<Longrightarrow> \<exists>k < length ps. i = holm_order ps ! k"
proof -
  assume "i < length ps"
  then have "i \<in> set (holm_order ps)" by (simp add: holm_order_def)
  moreover have "length (holm_order ps) = length ps" by (simp add: holm_order_def)
  ultimately show ?thesis by (metis in_set_conv_nth)
qed

lemma holm_order_mono: "k \<le> l \<Longrightarrow> l < length ps \<Longrightarrow> ps ! (holm_order ps ! k) \<le> ps ! (holm_order ps ! l)"
proof -
  assume kl: "k \<le> l" "l < length ps"
  have "sorted (map (\<lambda>i. ps ! i) (holm_order ps))" unfolding holm_order_def by (rule sorted_sort_key)
  from sorted_nth_mono [OF this kl(1)] show ?thesis using kl by (simp add: holm_order_def)
qed



end
