(* ===== verification/Feature_Schema.thy ===== *)
theory Feature_Schema
  imports Event_Identity Detection_Properties
begin

text \<open>
  The named window features of \<^verbatim>\<open>ml/feature_schema.py\<close>: the schema document and its hash, and the
  extraction of all features from a window of canonical events. The square sqrt_of is a parameter, process
  ids are integers or absent, and values that compare equal across Python types count as different.
\<close>

section \<open>The schema\<close>

definition feature_definitions :: "(string \<times> string) list" where
  "feature_definitions =
     [(''event_count'', ''Number of canonical events in the window.''),
      (''window_seconds'', ''Observed timestamp span, zero for fewer than two events.''),
      (''events_per_minute'', ''Event count divided by observed span, normalized to a minute.''),
      (''interevent_mean_seconds'', ''Mean adjacent timestamp interval.''),
      (''interevent_std_seconds'', ''Population standard deviation of adjacent timestamp intervals.''),
      (''interevent_max_seconds'', ''Maximum adjacent timestamp interval.''),
      (''unique_event_types'', ''Distinct canonical event types.''),
      (''unique_pids'', ''Distinct non-null process IDs.''),
      (''unique_uids'', ''Distinct non-null user IDs.''),
      (''unique_commands'', ''Distinct non-null command names.''),
      (''privileged_event_count'', ''Events with uid equal to zero.''),
      (''process_exec_count'', ''process_exec events.''),
      (''process_executable_diversity'', ''Distinct known executable paths on process events.''),
      (''process_parent_diversity'', ''Distinct known parent command names on process events.''),
      (''file_event_count'', ''file_open plus file_write events.''),
      (''file_unique_path_count'', ''Distinct known file paths.''),
      (''file_operation_diversity'', ''Distinct known file operations.''),
      (''network_connection_count'', ''tcp_connect events.''),
      (''network_unique_destination_ip_count'', ''Distinct known TCP destination IPs.''),
      (''network_unique_destination_port_count'', ''Distinct known TCP destination ports.''),
      (''network_repeated_destination_count'', ''Destination IP/port pairs observed more than once.''),
      (''auth_event_count'', ''auth_session events.''),
      (''auth_failure_count'', ''Authentication/session records with result=failure.''),
      (''auth_successful_session_count'', ''Successful session_opened/session_closed records.''),
      (''auth_service_diversity'', ''Distinct known PAM service names.''),
      (''service_event_count'', ''service_state events.''),
      (''service_started_count'', ''Service lifecycle records with action=started.''),
      (''service_stopped_count'', ''Service lifecycle records with action=stopped.''),
      (''service_failed_count'', ''Service lifecycle records with action=failed.''),
      (''service_restarted_count'', ''Service lifecycle records with action=restarted.''),
      (''service_unique_unit_count'', ''Distinct known affected systemd units.''),
      (''ipc_event_count'', ''ipc_event records.''),
      (''ipc_pipe_created_count'', ''IPC records with action=pipe_created.''),
      (''ipc_process_diversity'', ''Distinct PIDs associated with IPC events.'')]"

definition feature_names :: "string list" where
  "feature_names = map fst feature_definitions"

definition feature_schema_version :: string where
  "feature_schema_version = ''canonical-window.v1''"

definition schema_document :: doc where
  "schema_document = PDict [(''schema_version'', PStr feature_schema_version), (''feature_names'', PList (map PStr feature_names)),
     (''definitions'', PDict (map (\<lambda>(k, v). (k, PStr v)) feature_definitions))]"

definition schema_hash :: "(string \<Rightarrow> string) \<Rightarrow> (rat \<Rightarrow> string) \<Rightarrow> string" where
  "schema_hash H fr = H (dumps_compact fr schema_document)"

section \<open>Extraction\<close>

definition payload_map :: "event \<Rightarrow> rat pymap" where
  "payload_map e = (case ev_payload e of PDict d \<Rightarrow> d | _ \<Rightarrow> [])"

definition payload_get :: "string \<Rightarrow> event \<Rightarrow> doc" where
  "payload_get k e = dget (payload_map e) k"

text \<open>\<open>len({v for v in values if v is not None and v != ""})\<close>\<close>

definition known :: "doc \<Rightarrow> bool" where
  "known v \<longleftrightarrow> v \<noteq> PNone \<and> v \<noteq> PStr []"

definition distinct_known :: "doc list \<Rightarrow> py_error + rat" where
  "distinct_known vs =
     (if list_all hashable (filter known vs) then Inr (of_nat (length (remdups (filter known vs))))
      else Inl (Type_Error ''unhashable type''))"

definition counting :: "('a \<Rightarrow> bool) \<Rightarrow> 'a list \<Rightarrow> py_error + rat" where
  "counting P xs = Inr (of_nat (length (filter P xs)))"

definition differences :: "rat list \<Rightarrow> rat list" where
  "differences ts = map2 (\<lambda>left right. right - left) ts (tl ts)"

definition mean_of :: "rat list \<Rightarrow> rat" where
  "mean_of xs = (if xs = [] then 0 else sum_list xs / of_nat (length xs))"

definition variance_of :: "rat list \<Rightarrow> rat" where
  "variance_of xs = mean_of (map (\<lambda>x. (x - mean_of xs)\<^sup>2) xs)"

definition span_of :: "rat list \<Rightarrow> rat" where
  "span_of ts = (if 2 \<le> length ts then Max (set ts) - Min (set ts) else 0)"

text \<open>Destination pairs that are fully known and occur more than once.\<close>

definition known_pair :: "doc \<times> doc \<Rightarrow> bool" where
  "known_pair p \<longleftrightarrow> fst p \<noteq> PNone \<and> snd p \<noteq> PNone"

definition repeated_pairs :: "(doc \<times> doc) list \<Rightarrow> py_error + rat" where
  "repeated_pairs pairs =
     (let ps = filter known_pair pairs in
      if list_all (\<lambda>p. hashable (fst p) \<and> hashable (snd p)) ps
      then Inr (of_nat (length (filter (\<lambda>p. 1 < count_list ps p) (remdups ps))))
      else Inl (Type_Error ''unhashable type''))"

definition path_of :: "event \<Rightarrow> doc" where
  "path_of e = (if truthy (payload_get ''path'' e) then payload_get ''path'' e else payload_get ''filename'' e)"

definition session_success :: "(doc \<Rightarrow> string) \<Rightarrow> event \<Rightarrow> bool" where
  "session_success shown e \<longleftrightarrow> payload_get ''result'' e = PStr ''success'' \<and>
     take 8 (to_str shown (get_or (payload_map e) ''action'' (PStr []))) = ''session_''"

definition action_is :: "string \<Rightarrow> event \<Rightarrow> bool" where
  "action_is a e \<longleftrightarrow> payload_get ''action'' e = PStr a"

definition of_kinds :: "event_kind list \<Rightarrow> event list \<Rightarrow> event list" where
  "of_kinds ks es = filter (\<lambda>e. ev_kind e \<in> set ks) es"

definition destinations :: "event list \<Rightarrow> (doc \<times> doc) list" where
  "destinations es = map (\<lambda>e. (payload_get ''dest_ip'' e, payload_get ''dest_port'' e)) (of_kinds [Tcp_Connect] es)"

text \<open>The values dictionary; \<open>ts\<close> are the timestamps in order, \<open>es\<close> the events.\<close>

definition timing_values :: "(rat \<Rightarrow> rat) \<Rightarrow> rat list \<Rightarrow> (py_error + rat) list" where
  "timing_values sqrt_of ts =
     (let n = of_nat (length ts); span = span_of ts; intervals = differences ts
      in [Inr n, Inr span, Inr (if 0 < span then n * 60 / span else 0), Inr (mean_of intervals),
          Inr (sqrt_of (variance_of intervals)), Inr (if intervals = [] then 0 else Max (set intervals))])"

definition count_values :: "(doc \<Rightarrow> string) \<Rightarrow> event list \<Rightarrow> (py_error + rat) list" where
  "count_values shown es =
     (let process = of_kinds [Process_Exec] es; files = of_kinds [File_Open, File_Write] es;
          auth = of_kinds [Auth_Session] es; service = of_kinds [Service_State] es; ipc = of_kinds [Ipc_Event] es
      in [Inr (of_nat (length (remdups (map ev_kind es)))), distinct_known (map ev_pid es), distinct_known (map ev_uid es),
          distinct_known (map ev_comm es), counting (\<lambda>e. equals_int 0 (ev_uid e)) es,
          Inr (of_nat (length process)), distinct_known (map ev_executable process), distinct_known (map ev_parent_comm process),
          Inr (of_nat (length files)), distinct_known (map path_of files), distinct_known (map (payload_get ''operation'') files),
          Inr (of_nat (length (of_kinds [Tcp_Connect] es))), distinct_known (map fst (destinations es)),
          distinct_known (map snd (destinations es)), repeated_pairs (destinations es),
          Inr (of_nat (length auth)), counting (\<lambda>e. payload_get ''result'' e = PStr ''failure'') auth,
          counting (session_success shown) auth, distinct_known (map (payload_get ''service'') auth),
          Inr (of_nat (length service)), counting (action_is ''started'') service, counting (action_is ''stopped'') service,
          counting (action_is ''failed'') service, counting (action_is ''restarted'') service,
          distinct_known (map (payload_get ''unit'') service),
          Inr (of_nat (length ipc)), counting (action_is ''pipe_created'') ipc, distinct_known (map ev_pid ipc)])"

fun sequence :: "(py_error + 'a) list \<Rightarrow> py_error + 'a list" where
  "sequence [] = Inr []"
| "sequence (x # xs) = bind_py x (\<lambda>v. bind_py (sequence xs) (\<lambda>vs. Inr (v # vs)))"

definition timed :: "(string \<Rightarrow> rat option) \<Rightarrow> event \<Rightarrow> py_error + (rat \<times> event)" where
  "timed parse_float e = bind_py (to_float parse_float (ev_timestamp e)) (\<lambda>t. Inr (t, e))"

definition pid_or_minus_one :: "event \<Rightarrow> int" where
  "pid_or_minus_one e = (case ev_pid e of PInt i \<Rightarrow> if i = 0 then - 1 else i | _ \<Rightarrow> - 1)"

definition feature_order :: "rat \<times> event \<Rightarrow> rat \<times> string \<times> int" where
  "feature_order = (\<lambda>(t, e). (t, kind_name (ev_kind e), pid_or_minus_one e))"

definition extract_features ::
  "(rat \<Rightarrow> rat) \<Rightarrow> (string \<Rightarrow> rat option) \<Rightarrow> (doc \<Rightarrow> string) \<Rightarrow> event list \<Rightarrow> py_error + (string \<times> rat) list" where
  "extract_features sqrt_of parse_float shown events =
     bind_py (sequence (map (timed parse_float) events)) (\<lambda>pairs.
       let ordered = sort_key feature_order pairs
       in bind_py (sequence (timing_values sqrt_of (map fst ordered) @ count_values shown (map snd ordered)))
            (\<lambda>vs. Inr (zip feature_names vs)))"

definition feature_vector_of ::
  "(rat \<Rightarrow> rat) \<Rightarrow> (string \<Rightarrow> rat option) \<Rightarrow> (doc \<Rightarrow> string) \<Rightarrow> event list \<Rightarrow> py_error + rat list" where
  "feature_vector_of sqrt_of parse_float shown events =
     bind_py (extract_features sqrt_of parse_float shown events) (\<lambda>fs. Inr (map snd fs))"

section \<open>Features depend on the window only\<close>

lemma sequence_Inr: "sequence xs = Inr vs \<longleftrightarrow> xs = map Inr vs"
proof (induction xs arbitrary: vs)
  case Nil
  show ?case by auto
next
  case (Cons x xs)
  have "sequence (x # xs) = Inr vs \<longleftrightarrow> (\<exists>v ws. x = Inr v \<and> sequence xs = Inr ws \<and> vs = v # ws)"
    by (auto simp: bind_py_def split: sum.splits)
  then show ?case unfolding Cons.IH by (cases vs) auto
qed

lemma distinct_known_mset: "mset vs = mset ws \<Longrightarrow> distinct_known vs = distinct_known ws"
proof -
  assume m: "mset vs = mset ws"
  then have s: "set vs = set ws" by (metis set_mset_mset)
  then have "set (filter known vs) = set (filter known ws)" by simp
  then have "length (remdups (filter known vs)) = length (remdups (filter known ws))" by (metis length_remdups_card_conv)
  with s show ?thesis by (simp add: distinct_known_def list_all_iff)
qed

lemma counting_mset: "mset vs = mset ws \<Longrightarrow> counting P vs = counting P ws"
  by (metis counting_def mset_filter size_mset)

lemma of_kinds_mset: "mset vs = mset ws \<Longrightarrow> mset (of_kinds ks vs) = mset (of_kinds ks ws)"
  by (simp add: of_kinds_def)

lemma repeated_mset:
  assumes "mset vs = mset ws"
  shows "repeated_pairs vs = repeated_pairs ws"
proof -
  let ?v = "filter known_pair vs" and ?w = "filter known_pair ws"
  have m: "mset ?v = mset ?w" using assms by simp
  then have s: "set ?v = set ?w" by (metis set_mset_mset)
  have c: "count_list ?v p = count_list ?w p" for p using m by (metis count_mset)
  have len: "length (filter P (remdups xs)) = card (set xs \<inter> {p. P p})" for P and xs :: "(doc \<times> doc) list"
    by (metis distinct_card distinct_filter distinct_remdups filter_set set_filter set_remdups Collect_conj_eq Collect_mem_eq)
  show ?thesis unfolding repeated_pairs_def Let_def len list_all_iff s c by simp
qed

lemma mset_map_cong: "mset vs = mset ws \<Longrightarrow> mset (map f vs) = mset (map f ws)"
  by simp

lemma mset_length: "mset vs = mset ws \<Longrightarrow> length vs = length ws"
  by (metis size_mset)

lemma kinds_mset: "mset vs = mset ws \<Longrightarrow> length (remdups (map ev_kind vs)) = length (remdups (map ev_kind ws))"
  by (metis length_remdups_card_conv mset_map_cong set_mset_mset)

lemma destinations_mset: "mset vs = mset ws \<Longrightarrow> mset (destinations vs) = mset (destinations ws)"
  unfolding destinations_def by (intro mset_map_cong of_kinds_mset)

lemma count_values_mset: "mset vs = mset ws \<Longrightarrow> count_values shown vs = count_values shown ws"
proof -
  assume m: "mset vs = mset ws"
  have k: "mset (of_kinds ks vs) = mset (of_kinds ks ws)" for ks using of_kinds_mset [OF m] .
  have "distinct_known (map f vs) = distinct_known (map f ws)" "distinct_known (map f (of_kinds ks vs)) = distinct_known (map f (of_kinds ks ws))"
      "counting P vs = counting P ws" "counting P (of_kinds ks vs) = counting P (of_kinds ks ws)"
      "length (of_kinds ks vs) = length (of_kinds ks ws)" for f ks P
    by (intro distinct_known_mset counting_mset mset_length mset_map_cong m k)+
  moreover have "distinct_known (map f (destinations vs)) = distinct_known (map f (destinations ws))" for f
    by (intro distinct_known_mset mset_map_cong destinations_mset m)
  moreover note repeated_mset [OF destinations_mset [OF m]] kinds_mset [OF m]
  ultimately show ?thesis unfolding count_values_def Let_def by (simp only:)
qed

lemma timed_Inr: "timed parse_float e = Inr p \<longleftrightarrow> snd p = e \<and> to_float parse_float (ev_timestamp e) = Inr (fst p)"
  by (cases p) (auto simp: timed_def bind_py_def split: sum.splits)

lemma timed_mset:
  assumes "sequence (map (timed pf) vs) = Inr ps" "mset vs = mset ws"
  shows "\<exists>qs. sequence (map (timed pf) ws) = Inr qs \<and> mset ps = mset qs"
proof -
  define t where "t = (\<lambda>e :: event. (case to_float pf (ev_timestamp e) of Inr q \<Rightarrow> q | Inl _ \<Rightarrow> 0, e))"
  have each: "timed pf e = Inr (t e)" if "e \<in> set vs" for e
  proof -
    have "timed pf e \<in> Inr ` set ps" using assms(1) that unfolding sequence_Inr by (metis image_eqI image_set)
    then obtain p where "timed pf e = Inr p" by blast
    then show ?thesis by (cases p) (simp add: timed_Inr t_def)
  qed
  have "set ws = set vs" using assms(2) by (metis set_mset_mset)
  then have "map (timed pf) ws = map Inr (map t ws)" using each by simp
  then have w: "sequence (map (timed pf) ws) = Inr (map t ws)" by (simp only: sequence_Inr)
  have "map (timed pf) vs = map Inr (map t vs)" using each by simp
  then have "ps = map t vs" using assms(1) by (simp only: sequence_Inr) (metis map_injective Inr_inject injI)
  then show ?thesis using w assms(2) by simp
qed

lemma sorted_times: "map fst (sort_key feature_order ps) = sort (map fst ps)"
proof (rule properties_for_sort [symmetric])
  have "sorted (map feature_order (sort_key feature_order ps))" by (rule sorted_sort_key)
  then have "sorted (map fst (map feature_order (sort_key feature_order ps)))"
    by (rule sorted_map_mono) (auto simp: mono_on_def less_eq_prod_def)
  moreover have "map fst (map feature_order qs) = map fst qs" for qs by (simp add: feature_order_def split_beta)
  ultimately show "sorted (map fst (sort_key feature_order ps))" by metis
qed simp

text \<open>Window features ignore arrival order and are complete. When the events of a window carry numeric
timestamps, extraction gives the same named features, or raises the same error, for every order in
which the events are listed, and the names are those of the schema, each exactly once and in its order.\<close>

theorem features_ignore_arrival_order:
  assumes "mset arrived = mset events" "sequence (map (timed parse_float) events) = Inr pairs"
  shows "extract_features sqrt_of parse_float shown arrived = extract_features sqrt_of parse_float shown events \<and>
    distinct feature_names \<and>
    (case extract_features sqrt_of parse_float shown events of Inl _ \<Rightarrow> True | Inr fs \<Rightarrow> map fst fs = feature_names)"
proof (intro conjI)
  obtain qs where q: "sequence (map (timed parse_float) arrived) = Inr qs" "mset pairs = mset qs"
    using timed_mset [OF assms(2) assms(1) [symmetric]] by blast
  let ?p = "sort_key feature_order pairs" and ?q = "sort_key feature_order qs"
  have "map fst ?q = map fst ?p" unfolding sorted_times using q(2) by (metis mset_map sorted_list_of_multiset_mset)
  moreover have "count_values shown (map snd ?q) = count_values shown (map snd ?p)"
    using q(2) by (intro count_values_mset) simp
  ultimately show "extract_features sqrt_of parse_float shown arrived = extract_features sqrt_of parse_float shown events"
    by (simp add: extract_features_def q(1) assms(2) bind_py_def Let_def)
  show "distinct feature_names" by (simp add: feature_names_def feature_definitions_def)
  have len: "length (timing_values sqrt_of ts @ count_values shown es) = length feature_names" for ts es
    by (simp add: timing_values_def count_values_def feature_names_def feature_definitions_def Let_def)
  show "case extract_features sqrt_of parse_float shown events of Inl _ \<Rightarrow> True | Inr fs \<Rightarrow> map fst fs = feature_names"
  proof (cases "sequence (timing_values sqrt_of (map fst ?p) @ count_values shown (map snd ?p))")
    case (Inr vs)
    then have "length vs = length feature_names" unfolding sequence_Inr by (metis len length_map)
    then show ?thesis using Inr by (simp add: extract_features_def assms(2) bind_py_def Let_def)
  qed (simp add: extract_features_def assms(2) bind_py_def Let_def)
qed


definition sample_exec :: "rat \<Rightarrow> int \<Rightarrow> event" where
  "sample_exec t p = \<lparr>ev_kind = Process_Exec, ev_timestamp = PFloat t, ev_timestamp_ns = PNone, ev_monotonic = PNone, ev_pid = PInt p, ev_ppid = PInt 1,
     ev_uid = PInt 0, ev_gid = PInt 0, ev_comm = PStr ''sh'', ev_executable = PStr ''/bin/sh'', ev_parent_comm = PStr ''init'', ev_ancestry = PList [],
     ev_payload = PDict [], ev_source = PStr ''audit'', ev_version = PInt 1, ev_host = PNone, ev_boot = PNone, ev_agent = PNone, ev_session = PNone\<rparr>"

lemma features_ignore_arrival_order_witness:
  "extract_features (\<lambda>q. q) (\<lambda>_. None) (\<lambda>_. ''?'') [sample_exec 3 8, sample_exec 2 7] =
   extract_features (\<lambda>q. q) (\<lambda>_. None) (\<lambda>_. ''?'') [sample_exec 2 7, sample_exec 3 8]"
proof -
  have "mset [sample_exec 3 8, sample_exec 2 7] = mset [sample_exec 2 7, sample_exec 3 8]" by simp
  moreover have "sequence (map (timed (\<lambda>_. None)) [sample_exec 2 7, sample_exec 3 8]) = Inr [(2, sample_exec 2 7), (3, sample_exec 3 8)]"
    by (simp add: timed_def bind_py_def to_float_def sample_exec_def)
  ultimately show ?thesis by (rule conjunct1 [OF features_ignore_arrival_order])
qed

end
