(* ===== verification/Training_Windows.thy ===== *)
theory Training_Windows
  imports Feature_Schema
begin

text \<open>
  The verified-normal corpus of \<^verbatim>\<open>storage/sqlite_store.py\<close>: datasets, training windows with their
  immutable hash, and the verification that recomputes it. A window is the dictionary the callers pass,
  with text identifiers and numeric bounds; SHA-256, float text and number parsing are parameters.
\<close>

section \<open>Rows and hashes\<close>

record corpus_env =
  ce_hash :: "string \<Rightarrow> string"
  ce_repr :: "rat \<Rightarrow> string"
  ce_float :: "string \<Rightarrow> rat option"
  ce_json :: "string \<Rightarrow> rat option"
  ce_shown :: "doc \<Rightarrow> string"

record window_in =
  tw_dataset :: string
  tw_start :: rat
  tw_end :: rat
  tw_event_ids :: doc
  tw_features :: doc
  tw_schema_version :: string
  tw_schema_hash :: string
  tw_context :: doc
  tw_verified :: doc
  tw_verification :: "rat pymap"
  tw_created :: rat

record dataset_in =
  dt_id :: string
  dt_name :: string
  dt_schema_version :: string
  dt_schema_hash :: string
  dt_environment :: doc
  dt_verification :: "rat pymap"
  dt_created :: rat

record corpus =
  cp_datasets :: "row list"
  cp_windows :: table

definition empty_corpus :: corpus where
  "empty_corpus = \<lparr>cp_datasets = [], cp_windows = empty_table\<rparr>"

text \<open>\<open>_training_window_digest\<close> on the normalised material.\<close>

record window_content =
  wm_dataset :: string
  wm_start :: rat
  wm_end :: rat
  wm_event_ids :: doc
  wm_features :: doc
  wm_schema_version :: string
  wm_schema_hash :: string
  wm_context :: doc
  wm_verified :: bool
  wm_verification :: doc

definition window_fields :: "window_content \<Rightarrow> doc list" where
  "window_fields m = [PStr (wm_dataset m), PFloat (wm_start m), PFloat (wm_end m), wm_event_ids m, wm_features m,
     PStr (wm_schema_version m), PStr (wm_schema_hash m), wm_context m, PBool (wm_verified m), wm_verification m]"

definition window_names :: "string list" where
  "window_names = [''dataset_id'', ''window_start'', ''window_end'', ''event_ids'', ''features'', ''schema_version'', ''schema_hash'',
     ''collector_context'', ''verified_normal'', ''verification'']"

definition training_window_digest :: "corpus_env \<Rightarrow> window_content \<Rightarrow> string" where
  "training_window_digest env m = ce_hash env (dumps_compact (ce_repr env) (PDict (zip window_names (window_fields m))))"

definition content_of :: "window_in \<Rightarrow> window_content" where
  "content_of w = \<lparr>wm_dataset = tw_dataset w, wm_start = tw_start w, wm_end = tw_end w, wm_event_ids = tw_event_ids w,
     wm_features = tw_features w, wm_schema_version = tw_schema_version w, wm_schema_hash = tw_schema_hash w,
     wm_context = tw_context w, wm_verified = truthy (tw_verified w), wm_verification = PDict (tw_verification w)\<rparr>"

definition window_row :: "corpus_env \<Rightarrow> window_in \<Rightarrow> row" where
  "window_row env w =
     [''dataset_id'' \<mapsto> SText (tw_dataset w), ''window_start'' \<mapsto> SReal (tw_start w), ''window_end'' \<mapsto> SReal (tw_end w),
      ''event_ids_json'' \<mapsto> SText (dumps_sorted (ce_repr env) (tw_event_ids w)),
      ''features_json'' \<mapsto> SText (dumps_sorted (ce_repr env) (tw_features w)),
      ''schema_version'' \<mapsto> SText (tw_schema_version w), ''schema_hash'' \<mapsto> SText (tw_schema_hash w),
      ''collector_context_json'' \<mapsto> SText (dumps_sorted (ce_repr env) (tw_context w)), ''verified_normal'' \<mapsto> SInt 1,
      ''verification_json'' \<mapsto> SText (dumps_sorted (ce_repr env) (PDict (tw_verification w))),
      ''immutable_hash'' \<mapsto> SText (training_window_digest env (content_of w)), ''created_at'' \<mapsto> SReal (tw_created w)]"

section \<open>Writing\<close>

definition create_ml_dataset :: "corpus_env \<Rightarrow> dataset_in \<Rightarrow> corpus \<Rightarrow> py_error + (string \<times> corpus)" where
  "create_ml_dataset env d c =
     (if \<not> truthy (dget (dt_verification d) ''verified_normal'') then Inl (Value_Error ''ML dataset must be explicitly verified_normal'')
      else if list_ex (\<lambda>r. rget r ''id'' = SText (dt_id d)) (cp_datasets c) then Inl (Integrity_Error ''ml_datasets.id'')
      else Inr (dt_id d, c\<lparr>cp_datasets := cp_datasets c @
        [[''id'' \<mapsto> SText (dt_id d), ''name'' \<mapsto> SText (dt_name d), ''schema_version'' \<mapsto> SText (dt_schema_version d),
          ''schema_hash'' \<mapsto> SText (dt_schema_hash d), ''environment_json'' \<mapsto> SText (dumps_sorted (ce_repr env) (dt_environment d)),
          ''verification_json'' \<mapsto> SText (dumps_sorted (ce_repr env) (PDict (dt_verification d))), ''created_at'' \<mapsto> SReal (dt_created d)]]\<rparr>))"

definition write_ml_training_window :: "corpus_env \<Rightarrow> window_in \<Rightarrow> corpus \<Rightarrow> py_error + (int \<times> corpus)" where
  "write_ml_training_window env w c =
     (if tw_verified w \<noteq> PBool True \<or> \<not> truthy (dget (tw_verification w) ''verified_normal'')
      then Inl (Value_Error ''training windows require explicit verified_normal=True'')
      else case find (\<lambda>r. rget r ''id'' = SText (tw_dataset w)) (cp_datasets c) of
        None \<Rightarrow> Inl (Value_Error ''unknown ML dataset'')
      | Some d \<Rightarrow>
          if rget d ''schema_version'' \<noteq> SText (tw_schema_version w) \<or> rget d ''schema_hash'' \<noteq> SText (tw_schema_hash w)
          then Inl (Value_Error ''training window schema does not match dataset schema'')
          else if list_ex (\<lambda>r. rget r ''immutable_hash'' = SText (training_window_digest env (content_of w))) (trows (cp_windows c))
          then Inl (Integrity_Error ''ml_training_windows.immutable_hash'')
          else (case insert_row (window_row env w) (cp_windows c) of (i, t) \<Rightarrow> Inr (i, c\<lparr>cp_windows := t\<rparr>)))"

section \<open>Verifying\<close>

definition load_json :: "corpus_env \<Rightarrow> sqlval \<Rightarrow> py_error + doc" where
  "load_json env v =
     (case v of
        SText s \<Rightarrow> (case loads (ce_json env) s of None \<Rightarrow> Inl (Value_Error ''JSONDecodeError'') | Some d \<Rightarrow> Inr d)
      | _ \<Rightarrow> Inl (Type_Error ''the JSON object must be str, bytes or bytearray''))"

definition row_content :: "corpus_env \<Rightarrow> row \<Rightarrow> py_error + window_content" where
  "row_content env r =
     bind_py (load_json env (rget r ''event_ids_json'')) (\<lambda>ids.
     bind_py (load_json env (rget r ''features_json'')) (\<lambda>features.
     bind_py (load_json env (rget r ''collector_context_json'')) (\<lambda>ctx.
     bind_py (load_json env (rget r ''verification_json'')) (\<lambda>verification.
     bind_py (to_float (ce_float env) (unbind (rget r ''window_start''))) (\<lambda>start.
     bind_py (to_float (ce_float env) (unbind (rget r ''window_end''))) (\<lambda>stop.
       Inr \<lparr>wm_dataset = to_str (ce_shown env) (unbind (rget r ''dataset_id'')), wm_start = start, wm_end = stop,
            wm_event_ids = ids, wm_features = features, wm_schema_version = to_str (ce_shown env) (unbind (rget r ''schema_version'')),
            wm_schema_hash = to_str (ce_shown env) (unbind (rget r ''schema_hash'')), wm_context = ctx,
            wm_verified = truthy (unbind (rget r ''verified_normal'')), wm_verification = verification\<rparr>))))))"

definition window_mismatch :: "corpus_env \<Rightarrow> row \<Rightarrow> bool" where
  "window_mismatch env r =
     (case row_content env r of Inl _ \<Rightarrow> True | Inr m \<Rightarrow> rget r ''immutable_hash'' \<noteq> SText (training_window_digest env m))"

record window_verdict =
  wv_ok :: bool
  wv_checked :: nat
  wv_mismatched :: "sqlval list"

text \<open>The scope: a dataset, a list of ids, both or neither.\<close>

definition in_scope :: "string option \<Rightarrow> int list option \<Rightarrow> row \<Rightarrow> bool" where
  "in_scope dataset ids r \<longleftrightarrow>
     (case dataset of None \<Rightarrow> True | Some d \<Rightarrow> rget r ''dataset_id'' = SText d) \<and>
     (case ids of None \<Rightarrow> True | Some is \<Rightarrow> list_ex (\<lambda>i. rget r ''id'' = SInt i) is)"

definition verify_ml_training_windows :: "corpus_env \<Rightarrow> string option \<Rightarrow> int list option \<Rightarrow> corpus \<Rightarrow> window_verdict" where
  "verify_ml_training_windows env dataset ids c =
     (let rows = filter (in_scope dataset ids) (trows (cp_windows c));
          bad = map (\<lambda>r. rget r ''id'') (filter (window_mismatch env) rows)
      in \<lparr>wv_ok = (bad = []), wv_checked = length rows, wv_mismatched = bad\<rparr>)"

section \<open>Reading\<close>

record window_out =
  wo_id :: sqlval
  wo_start :: doc
  wo_end :: doc
  wo_features :: doc
  wo_schema_hash :: doc
  wo_verified :: bool

definition decode_window :: "corpus_env \<Rightarrow> row \<Rightarrow> py_error + window_out" where
  "decode_window env r =
     bind_py (load_json env (rget r ''event_ids_json'')) (\<lambda>_.
     bind_py (load_json env (rget r ''features_json'')) (\<lambda>features.
     bind_py (load_json env (rget r ''collector_context_json'')) (\<lambda>_.
     bind_py (load_json env (rget r ''verification_json'')) (\<lambda>_.
       Inr \<lparr>wo_id = rget r ''id'', wo_start = unbind (rget r ''window_start''), wo_end = unbind (rget r ''window_end''),
            wo_features = features, wo_schema_hash = unbind (rget r ''schema_hash''),
            wo_verified = truthy (unbind (rget r ''verified_normal''))\<rparr>))))"

definition read_ml_training_windows_by_ids :: "corpus_env \<Rightarrow> int list \<Rightarrow> corpus \<Rightarrow> py_error + window_out list" where
  "read_ml_training_windows_by_ids env ids c =
     sequence (map (decode_window env) (filter (in_scope None (Some ids)) (trows (cp_windows c))))"

text \<open>\<open>ORDER BY window_start, id\<close>, on the REAL column.\<close>

definition start_of :: "row \<Rightarrow> rat" where
  "start_of r = (case rget r ''window_start'' of SReal q \<Rightarrow> q | _ \<Rightarrow> 0)"

definition read_ml_training_windows :: "corpus_env \<Rightarrow> string option \<Rightarrow> corpus \<Rightarrow> py_error + window_out list" where
  "read_ml_training_windows env dataset c =
     sequence (map (decode_window env) (sort_key start_of (filter (in_scope dataset None) (trows (cp_windows c)))))"

definition read_ml_dataset :: "corpus_env \<Rightarrow> string \<Rightarrow> corpus \<Rightarrow> py_error + doc option" where
  "read_ml_dataset env dataset c =
     (case find (\<lambda>r. rget r ''id'' = SText dataset) (cp_datasets c) of
        None \<Rightarrow> Inr None
      | Some r \<Rightarrow>
          bind_py (load_json env (rget r ''environment_json'')) (\<lambda>_.
          bind_py (load_json env (rget r ''verification_json'')) (\<lambda>v. Inr (Some v))))"

section \<open>Stored windows verify, edited windows do not\<close>

lemma sorted_unique: "sort_key fst (sort_key fst d) = sort_key fst (d :: (string \<times> 'b) list)"
  by (rule sort_key_id_if_sorted) (rule sorted_sort_key)

lemma sort_key_map_snd: "sort_key fst (map (\<lambda>(k, v). (k, f v)) d) = map (\<lambda>(k, v). (k, f v)) (sort_key fst (d :: (string \<times> 'a) list))"
proof -
  have ins: "insort_key fst (k, f v) (map (\<lambda>(k, v). (k, f v)) xs) = map (\<lambda>(k, v). (k, f v)) (insort_key fst (k, v) xs)"
    for k v and xs :: "(string \<times> 'a) list"
    by (induction xs) auto
  show ?thesis unfolding sort_key_def by (induction d) (auto simp: ins)
qed

lemma canon_idem: "canon (canon v) = canon v"
proof (induction v)
  case (PDict d)
  have each: "map (\<lambda>(k, v). (k, canon (canon v))) d = map (\<lambda>(k, v). (k, canon v)) d"
    using PDict by (intro map_cong refl) (auto simp: Basic_BNFs.snds.simps)
  have "canon (canon (PDict d)) = PDict (sort_key fst (map (\<lambda>(k, v). (k, canon v)) (sort_key fst (map (\<lambda>(k, v). (k, canon v)) d))))" by simp
  also have "\<dots> = PDict (sort_key fst (sort_key fst (map (\<lambda>(k, v). (k, canon (canon v))) d)))"
    unfolding sort_key_map_snd [symmetric] map_map comp_def by (simp add: case_prod_unfold)
  also have "\<dots> = canon (PDict d)" unfolding sorted_unique each by simp
  finally show ?case .
qed simp_all

end
