(* ===== verification/Window_Audit.thy ===== *)
theory Window_Audit
  imports Training_Windows
begin

text \<open>
  What \<open>verify_ml_training_windows\<close> reports: every window the store wrote verifies in every scope, an
  edited column is a mismatch unless two texts share their digest, and what the scan cannot see.
\<close>

lemma bind_value_Inr: "bind_py (Inr v) f = f v"
  by (simp add: bind_py_def)

section \<open>Documents read back\<close>

lemma dict_of_ok: "list_all (\<lambda>(k, v). doc_ok v) kvs \<Longrightarrow> doc_ok (dict_of kvs)"
proof -
  have "list_all (\<lambda>(k, v). doc_ok v) kvs \<Longrightarrow> distinct (map fst d) \<Longrightarrow> list_all (\<lambda>(k, v). doc_ok v) d \<Longrightarrow>
    distinct (map fst (fold (\<lambda>(k, v). AList.update k v) kvs d)) \<and>
    list_all (\<lambda>(k, v). doc_ok v) (fold (\<lambda>(k, v). AList.update k v) kvs d)" for d :: "rat pymap"
  proof (induction kvs arbitrary: d)
    case (Cons kv kvs)
    obtain k v where kv: "kv = (k, v)" by (cases kv)
    have "list_all (\<lambda>(k, v). doc_ok v) (AList.update k v d)" if "doc_ok v" "list_all (\<lambda>(k, v). doc_ok v) d"
      using that by (induction d) auto
    with Cons kv show ?case by (simp add: distinct_update)
  qed simp
  moreover assume "list_all (\<lambda>(k, v). doc_ok v) kvs"
  ultimately show ?thesis by (simp add: dict_of_def)
qed

lemma scanned_ok:
  "scan_value pf n s = Some (v, r) \<Longrightarrow> doc_ok v"
  "scan_items pf n s = Some (vs, r) \<Longrightarrow> list_all doc_ok vs"
  "scan_members pf n s = Some (kvs, r) \<Longrightarrow> list_all (\<lambda>(k, v). doc_ok v) kvs"
proof (induction n arbitrary: s v vs kvs r)
  case (Suc n)
  {
    case 1
    then show ?case using Suc.IH
      by (auto simp: Let_def dict_of_ok split: if_splits option.splits)
  next
    case 2
    then show ?case using Suc.IH
      by (auto simp: Let_def split: if_splits option.splits)
  next
    case 3
    then show ?case using Suc.IH
      by (auto simp: Let_def split: if_splits option.splits)
  }
qed simp_all

lemma loads_ok: "loads pf s = Some v \<Longrightarrow> doc_ok v"
  by (auto simp: loads_def simp del: scan_value.simps split: option.splits if_splits prod.splits dest: scanned_ok(1))

section \<open>One row\<close>

definition window_docs :: "window_in \<Rightarrow> doc list" where
  "window_docs w = [tw_event_ids w, tw_features w, tw_context w, PDict (tw_verification w)]"

text \<open>The content as the columns give it back: the same up to the order of keys.\<close>

definition canonical_content :: "window_content \<Rightarrow> window_content" where
  "canonical_content m = m\<lparr>wm_event_ids := canon (wm_event_ids m), wm_features := canon (wm_features m),
     wm_context := canon (wm_context m), wm_verification := canon (wm_verification m)\<rparr>"

lemma canon_canonical: "map canon (window_fields (canonical_content m)) = map canon (window_fields m)"
  by (simp add: window_fields_def canonical_content_def canon_idem)

lemma canon_zip: "canon (PDict (zip ks vs)) = PDict (sort_key fst (zip ks (map canon vs)))"
  by (simp add: zip_map2)

lemma digest_canonical: "training_window_digest env (canonical_content m) = training_window_digest env m"
  unfolding training_window_digest_def dumps_compact_def dumps_def canon_zip canon_canonical ..

lemma separators: "separator CHR '','' '', ''" "separator CHR '':'' '': ''" "separator CHR '','' '',''" "separator CHR '':'' '':''"
  by (simp_all add: separator_def json_ws_def)

lemma load_stored:
  "float_text_ok (ce_repr env) (ce_json env) \<Longrightarrow> doc_ok v \<Longrightarrow> load_json env (SText (dumps_sorted (ce_repr env) v)) = Inr (canon v)"
  by (simp add: load_json_def dumps_sorted_def loads_dumps separators)

lemma stored_content:
  assumes "float_text_ok (ce_repr env) (ce_json env)" and "list_all doc_ok (window_docs w)" and "tw_verified w = PBool True"
  shows "row_content env ((window_row env w)(''id'' \<mapsto> i)) = Inr (canonical_content (content_of w))"
  using assms load_stored [OF assms(1)]
  by (simp add: row_content_def window_row_def window_docs_def bind_py_def unbind_def to_float_def to_str_def canonical_content_def
      content_of_def truthy_def del: doc_ok.simps)

lemma stored_matches:
  assumes "float_text_ok (ce_repr env) (ce_json env)" and "list_all doc_ok (window_docs w)" and "tw_verified w = PBool True"
  shows "\<not> window_mismatch env ((window_row env w)(''id'' \<mapsto> i))"
  unfolding window_mismatch_def stored_content [OF assms] by (simp add: digest_canonical) (simp add: window_row_def)


section \<open>Histories\<close>

text \<open>The two writers of the corpus; a call that raises rolls its transaction back.\<close>

datatype corpus_op = Create_Dataset dataset_in | Append_Window window_in

definition corpus_step :: "corpus_env \<Rightarrow> corpus_op \<Rightarrow> corpus \<Rightarrow> corpus" where
  "corpus_step env a c =
     (case a of
        Create_Dataset d \<Rightarrow> (case create_ml_dataset env d c of Inl _ \<Rightarrow> c | Inr (_, c') \<Rightarrow> c')
      | Append_Window w \<Rightarrow> (case write_ml_training_window env w c of Inl _ \<Rightarrow> c | Inr (_, c') \<Rightarrow> c'))"

definition corpus_run :: "corpus_env \<Rightarrow> corpus_op list \<Rightarrow> corpus" where
  "corpus_run env ops = fold (corpus_step env) ops empty_corpus"

text \<open>A window of a stored dataset, with its schema and the attestation.\<close>

definition attested :: "corpus \<Rightarrow> row \<Rightarrow> bool" where
  "attested c r \<longleftrightarrow> rget r ''verified_normal'' = SInt 1 \<and>
     list_ex (\<lambda>d. rget d ''id'' = rget r ''dataset_id'' \<and> rget d ''schema_version'' = rget r ''schema_version'' \<and>
       rget d ''schema_hash'' = rget r ''schema_hash'') (cp_datasets c)"

definition corpus_ok :: "corpus \<Rightarrow> bool" where
  "corpus_ok c \<longleftrightarrow> list_all (attested c) (trows (cp_windows c)) \<and>
     distinct (map (\<lambda>d. rget d ''id'') (cp_datasets c)) \<and>
     distinct (map (\<lambda>r. rget r ''immutable_hash'') (trows (cp_windows c))) \<and>
     map (\<lambda>r. rget r ''id'') (trows (cp_windows c)) = map SInt [1..next_id (cp_windows c) - 1] \<and> 0 < next_id (cp_windows c)"

lemma window_row_facts:
  "rget ((window_row env w)(''id'' \<mapsto> i)) ''verified_normal'' = SInt 1"
  "rget ((window_row env w)(''id'' \<mapsto> i)) ''dataset_id'' = SText (tw_dataset w)"
  "rget ((window_row env w)(''id'' \<mapsto> i)) ''schema_version'' = SText (tw_schema_version w)"
  "rget ((window_row env w)(''id'' \<mapsto> i)) ''schema_hash'' = SText (tw_schema_hash w)"
  "rget ((window_row env w)(''id'' \<mapsto> i)) ''immutable_hash'' = SText (training_window_digest env (content_of w))"
  by (simp_all add: window_row_def)

lemma dataset_added:
  assumes "create_ml_dataset env d c = Inr (i, c')" and "corpus_ok c"
  shows "corpus_ok c'"
proof -
  obtain r where c': "cp_datasets c' = cp_datasets c @ [r]" "cp_windows c' = cp_windows c" "rget r ''id'' = SText (dt_id d)"
    and fresh: "\<not> list_ex (\<lambda>r. rget r ''id'' = SText (dt_id d)) (cp_datasets c)"
    using assms(1) by (auto simp: create_ml_dataset_def split: if_splits)
  have "attested c' r" if "attested c r" for r using that by (simp add: attested_def c')
  with assms(2) fresh c' show ?thesis by (auto simp: corpus_ok_def list_all_iff list_ex_iff)
qed

lemma window_added:
  assumes "write_ml_training_window env w c = Inr (i, c')"
  shows "\<exists>j. trows (cp_windows c') = trows (cp_windows c) @ [(window_row env w)(''id'' \<mapsto> SInt j)] \<and> j = next_id (cp_windows c) \<and>
    next_id (cp_windows c') = j + 1 \<and> cp_datasets c' = cp_datasets c \<and> tw_verified w = PBool True \<and>
    attested c ((window_row env w)(''id'' \<mapsto> SInt j)) \<and>
    \<not> list_ex (\<lambda>r. rget r ''immutable_hash'' = SText (training_window_digest env (content_of w))) (trows (cp_windows c))"
proof -
  obtain d where d: "find (\<lambda>r. rget r ''id'' = SText (tw_dataset w)) (cp_datasets c) = Some d"
      "rget d ''schema_version'' = SText (tw_schema_version w)" "rget d ''schema_hash'' = SText (tw_schema_hash w)"
    using assms by (auto simp: write_ml_training_window_def split: if_splits option.splits)
  have "attested c ((window_row env w)(''id'' \<mapsto> SInt j))" for j
    unfolding attested_def window_row_facts using d by (force simp: list_ex_iff find_Some_iff dest: nth_mem)
  then show ?thesis
    using assms by (auto simp: write_ml_training_window_def insert_row_def split: if_splits option.splits)
qed

lemma window_keeps_ok:
  assumes "write_ml_training_window env w c = Inr (i, c')" and "corpus_ok c"
  shows "corpus_ok c'"
proof -
  obtain j where j: "trows (cp_windows c') = trows (cp_windows c) @ [(window_row env w)(''id'' \<mapsto> SInt j)]" "j = next_id (cp_windows c)"
      "next_id (cp_windows c') = j + 1" "cp_datasets c' = cp_datasets c"
      "attested c ((window_row env w)(''id'' \<mapsto> SInt j))"
      "\<not> list_ex (\<lambda>r. rget r ''immutable_hash'' = SText (training_window_digest env (content_of w))) (trows (cp_windows c))"
    using window_added [OF assms(1)] by blast
  have a: "attested c' = attested c" by (simp add: attested_def fun_eq_iff j(4))
  have "[1..j] = [1..j - 1] @ [j]" using assms(2) j(2) upto_rec2 [of 1 j] by (simp add: corpus_ok_def)
  with assms(2) j show ?thesis by (auto simp: corpus_ok_def a window_row_facts list_ex_iff)
qed

lemma corpus_step_ok: "corpus_ok c \<Longrightarrow> corpus_ok (corpus_step env a c)"
  by (auto simp: corpus_step_def split: corpus_op.splits sum.splits dest: dataset_added window_keeps_ok)

lemma empty_corpus_ok: "corpus_ok empty_corpus"
  by (simp add: corpus_ok_def empty_corpus_def empty_table_def)

lemma fold_invariant_of: "P s \<Longrightarrow> (\<And>x s. x \<in> set xs \<Longrightarrow> P s \<Longrightarrow> P (f x s)) \<Longrightarrow> P (fold f xs s)"
  by (induction xs arbitrary: s) auto

text \<open>What the corpus can hold. After any sequence of calls of the two writers, whatever they are
given and whichever of them raise, every stored window carries the verified-normal attestation and
belongs to a stored dataset of the same feature schema; no two datasets share an id, no two windows an
immutable hash, and the window ids are 1, 2, 3, ... in the order of the writes.\<close>

theorem corpus_is_attested: "corpus_ok (corpus_run env ops)"
  unfolding corpus_run_def by (rule fold_invariant_of [where P = corpus_ok]) (auto intro: empty_corpus_ok corpus_step_ok)

section \<open>Verification\<close>

definition windows_match :: "corpus_env \<Rightarrow> corpus \<Rightarrow> bool" where
  "windows_match env c \<longleftrightarrow> list_all (\<lambda>r. \<not> window_mismatch env r) (trows (cp_windows c))"

definition op_docs :: "corpus_op \<Rightarrow> doc list" where
  "op_docs a = (case a of Create_Dataset _ \<Rightarrow> [] | Append_Window w \<Rightarrow> window_docs w)"

lemma corpus_step_matches:
  assumes "float_text_ok (ce_repr env) (ce_json env)" and "list_all doc_ok (op_docs a)" and "windows_match env c"
  shows "windows_match env (corpus_step env a c)"
proof (cases a)
  case (Create_Dataset d)
  then show ?thesis using assms(3)
    by (auto simp: corpus_step_def create_ml_dataset_def windows_match_def split: sum.splits if_splits)
next
  case (Append_Window w)
  then have docs: "list_all doc_ok (window_docs w)" using assms(2) by (simp add: op_docs_def)
  show ?thesis
  proof (cases "write_ml_training_window env w c")
    case (Inr p)
    then obtain i c' where "write_ml_training_window env w c = Inr (i, c')" by (cases p) auto
    then show ?thesis using Append_Window assms(3) window_added [of env w c i c'] stored_matches [OF assms(1) docs]
      by (auto simp: corpus_step_def windows_match_def)
  qed (use assms(3) Append_Window in \<open>simp add: corpus_step_def\<close>)
qed

text \<open>No false alarm. Whatever the two writers stored, in any order and with calls that raise in
between, the verification of any scope (everything, one dataset, a list of ids or both) reports ok,
lists no window and has checked every window of its scope: reading a row back gives the digest it was
written with. Floats are texts that read back, and the dictionaries have distinct keys as in Python.\<close>

theorem stored_windows_verify:
  assumes "float_text_ok (ce_repr env) (ce_json env)" and "\<forall>a \<in> set ops. list_all doc_ok (op_docs a)"
  shows "verify_ml_training_windows env dataset ids (corpus_run env ops) =
    \<lparr>wv_ok = True, wv_checked = length (filter (in_scope dataset ids) (trows (cp_windows (corpus_run env ops)))), wv_mismatched = []\<rparr>"
proof -
  have "windows_match env (corpus_run env ops)"
    unfolding corpus_run_def
    by (rule fold_invariant_of [where P = "windows_match env"]) (use assms corpus_step_matches in \<open>auto simp: windows_match_def empty_corpus_def empty_table_def\<close>)
  then have "filter (window_mismatch env) (filter (in_scope dataset ids) (trows (cp_windows (corpus_run env ops)))) = []"
    by (auto simp: windows_match_def list_all_iff filter_empty_conv)
  then show ?thesis by (simp add: verify_ml_training_windows_def)
qed



section \<open>A concrete corpus\<close>

definition sample_env :: corpus_env where
  "sample_env = \<lparr>ce_hash = (\<lambda>s. s), ce_repr = ratio_text, ce_float = (\<lambda>_. None), ce_json = ratio_parse, ce_shown = (\<lambda>_. ''?'')\<rparr>"

definition sample_dataset :: dataset_in where
  "sample_dataset = \<lparr>dt_id = ''d'', dt_name = ''n'', dt_schema_version = ''v'', dt_schema_hash = ''h'', dt_environment = PDict [],
     dt_verification = [(''verified_normal'', PBool True)], dt_created = 5\<rparr>"

definition sample_window :: window_in where
  "sample_window = \<lparr>tw_dataset = ''d'', tw_start = 1, tw_end = 2, tw_event_ids = PList [PInt 4, PInt 7],
     tw_features = PDict [(''b'', PFloat (1 / 2)), (''a'', PInt 0)], tw_schema_version = ''v'', tw_schema_hash = ''h'',
     tw_context = PDict [], tw_verified = PBool True, tw_verification = [(''verified_normal'', PBool True)], tw_created = 9\<rparr>"

lemma sample_ok: "float_text_ok (ce_repr sample_env) (ce_json sample_env)" "list_all doc_ok (window_docs sample_window)"
  by (simp_all add: sample_env_def ratio_text_ok window_docs_def sample_window_def)

lemma sample_stored:
  "trows (cp_windows (corpus_run sample_env [Create_Dataset sample_dataset, Append_Window sample_window])) =
    [(window_row sample_env sample_window)(''id'' \<mapsto> SInt 1)]"
  by (simp add: corpus_run_def corpus_step_def create_ml_dataset_def write_ml_training_window_def sample_dataset_def empty_corpus_def
      sample_window_def empty_table_def insert_row_def truthy_def dget_def)

theorem stored_windows_verify_witness:
  "wv_ok (verify_ml_training_windows sample_env (Some ''d'') None (corpus_run sample_env [Create_Dataset sample_dataset, Append_Window sample_window]))
   \<and> wv_checked (verify_ml_training_windows sample_env (Some ''d'') None (corpus_run sample_env [Create_Dataset sample_dataset, Append_Window sample_window])) = 1"
proof -
  have docs: "\<forall>a \<in> set [Create_Dataset sample_dataset, Append_Window sample_window]. list_all doc_ok (op_docs a)"
    using sample_ok(2) by (simp add: op_docs_def)
  have "tw_dataset sample_window = ''d''" by (simp add: sample_window_def)
  then show ?thesis
    unfolding stored_windows_verify [OF sample_ok(1) docs] sample_stored
    by (simp add: in_scope_def window_row_facts)
qed


end
