(* ===== verification/Drift.thy ===== *)
theory Drift
  imports Drift_Tests Window_Audit Ml_Lifecycle
begin

text \<open>
  The drift assessment of \<^verbatim>\<open>ml/drift.py\<close> over the model registry and the verified-normal corpus, with the
  read-only source \<^verbatim>\<open>scripts/ml_drift_check.py\<close> passes for a corpus in another file. Reasons are constructors
  with the numbers their texts show; the labelled factors and the clock are left out.
\<close>

section \<open>Sources\<close>

text \<open>
  \<open>comparison_store or store\<close>: the model's own store, another event store, or a \<open>ReadOnlyWindowSource\<close>, a
  class with the one method \<open>read_ml_training_windows\<close>.
\<close>

datatype comparison_source = Own_Store | Event_Store_At corpus | Window_Source corpus

definition source_dataset :: "corpus_env \<Rightarrow> corpus \<Rightarrow> comparison_source \<Rightarrow> string \<Rightarrow> py_error + doc option" where
  "source_dataset env own src dataset =
     (case src of
        Own_Store \<Rightarrow> read_ml_dataset env dataset own
      | Event_Store_At c \<Rightarrow> read_ml_dataset env dataset c
      | Window_Source c \<Rightarrow> Inl (Attribute_Error ''read_ml_dataset''))"

definition source_windows :: "corpus_env \<Rightarrow> corpus \<Rightarrow> comparison_source \<Rightarrow> string \<Rightarrow> py_error + window_out list" where
  "source_windows env own src dataset =
     read_ml_training_windows env (Some dataset) (case src of Own_Store \<Rightarrow> own | Event_Store_At c \<Rightarrow> c | Window_Source c \<Rightarrow> c)"

definition source_verdict :: "corpus_env \<Rightarrow> corpus \<Rightarrow> comparison_source \<Rightarrow> string \<Rightarrow> py_error + window_verdict" where
  "source_verdict env own src dataset =
     (case src of
        Own_Store \<Rightarrow> Inr (verify_ml_training_windows env (Some dataset) None own)
      | Event_Store_At c \<Rightarrow> Inr (verify_ml_training_windows env (Some dataset) None c)
      | Window_Source c \<Rightarrow> Inl (Attribute_Error ''verify_ml_training_windows''))"

definition read_ml_model :: "string \<Rightarrow> ml_store \<Rightarrow> ml_model option" where
  "read_ml_model model_id st = find (\<lambda>m. mm_id m = model_id) (ml_models st)"

section \<open>Numbers\<close>

definition min_reference_windows :: nat where
  "min_reference_windows = 10"

definition min_comparison_windows :: nat where
  "min_comparison_windows = 30"

definition default_alpha :: rat where
  "default_alpha = 1 / 100"

text \<open>\<open>float(window["features"][name])\<close>.\<close>

definition feature_value :: "corpus_env \<Rightarrow> window_out \<Rightarrow> string \<Rightarrow> py_error + rat" where
  "feature_value env w k =
     bind_py (case wo_features w of PDict d \<Rightarrow> require_key d k | _ \<Rightarrow> Inl (Type_Error ''indices must be integers''))
       (to_float (ce_float env))"

definition feature_columns :: "corpus_env \<Rightarrow> window_out list \<Rightarrow> py_error + rat list list" where
  "feature_columns env ws = sequence (map (\<lambda>k. sequence (map (\<lambda>w. feature_value env w k) ws)) feature_names)"

definition window_fingerprint :: "corpus_env \<Rightarrow> window_out \<Rightarrow> py_error + (rat \<times> rat \<times> rat list)" where
  "window_fingerprint env w =
     bind_py (to_float (ce_float env) (wo_start w)) (\<lambda>start.
     bind_py (to_float (ce_float env) (wo_end w)) (\<lambda>stop.
     bind_py (sequence (map (feature_value env w) feature_names)) (\<lambda>values.
       Inr (start, stop, values))))"

section \<open>The assessment\<close>

datatype refusal_reason =
    Metadata_Missing | Schema_Incompatible | Provenance_Incomplete | Reference_Tampered nat
  | Comparison_Missing | Not_Attested | Comparison_Tampered nat | Unverified_Windows | Different_Schema
  | Windows_Reused nat | Few_Reference | Few_Comparison | Unattainable rat rat

datatype drift_status = Insufficient_Data | Drift_Detected | No_Drift_Detected

record feature_report =
  fe_name :: string
  fe_test :: ks_test
  fe_correction :: correction
  fe_reference_min :: rat
  fe_reference_max :: rat
  fe_reference_mean :: rat
  fe_comparison_mean :: rat
  fe_out_of_range :: nat

record drift_result =
  dr_model :: string
  dr_comparison :: string
  dr_status :: drift_status
  dr_alpha :: rat
  dr_reference_count :: nat
  dr_comparison_count :: nat
  dr_drifted_count :: nat
  dr_out_of_range_rate :: "rat option"
  dr_features :: "feature_report list"
  dr_reasons :: "refusal_reason list"

definition refusal :: "string \<Rightarrow> string \<Rightarrow> rat \<Rightarrow> nat \<Rightarrow> nat \<Rightarrow> refusal_reason list \<Rightarrow> drift_result" where
  "refusal model_id dataset alpha n m reasons =
     \<lparr>dr_model = model_id, dr_comparison = dataset, dr_status = Insufficient_Data, dr_alpha = alpha, dr_reference_count = n,
      dr_comparison_count = m, dr_drifted_count = 0, dr_out_of_range_rate = None, dr_features = [], dr_reasons = reasons\<rparr>"

definition attestation_reasons :: "doc option \<Rightarrow> refusal_reason list" where
  "attestation_reasons dataset =
     (case dataset of
        None \<Rightarrow> [Comparison_Missing]
      | Some v \<Rightarrow> (case v of PDict d \<Rightarrow> if truthy (dget d ''verified_normal'') then [] else [Not_Attested] | _ \<Rightarrow> [Not_Attested]))"

definition size_reasons :: "rat \<Rightarrow> nat \<Rightarrow> nat \<Rightarrow> refusal_reason list" where
  "size_reasons alpha n m =
     (if n < min_reference_windows then [Few_Reference] else []) @
     (if m < min_comparison_windows then [Few_Comparison] else []) @
     (if n \<noteq> 0 \<and> m \<noteq> 0 \<and> alpha / of_nat (length feature_names) < minimum_attainable_p n m
      then [Unattainable alpha (minimum_attainable_p n m)] else [])"

definition feature_report_of :: "string \<Rightarrow> ks_test \<Rightarrow> correction \<Rightarrow> rat list \<Rightarrow> rat list \<Rightarrow> feature_report" where
  "feature_report_of k t c ref cmp =
     (let lower = fold min ref (hd ref); upper = fold max ref (hd ref) in
      \<lparr>fe_name = k, fe_test = t, fe_correction = c, fe_reference_min = lower, fe_reference_max = upper,
       fe_reference_mean = sum_list ref / of_nat (length ref), fe_comparison_mean = sum_list cmp / of_nat (length cmp),
       fe_out_of_range = length (filter (\<lambda>x. x < lower \<or> upper < x) cmp)\<rparr>)"

definition feature_reports :: "(nat \<Rightarrow> nat \<Rightarrow> int \<Rightarrow> rat) \<Rightarrow> rat \<Rightarrow> rat list list \<Rightarrow> rat list list \<Rightarrow> py_error + feature_report list" where
  "feature_reports asymptotic alpha refs cmps =
     bind_py (sequence (map2 (two_sample_ks asymptotic) refs cmps)) (\<lambda>tests.
       Inr (map (\<lambda>(k, t, c, ref, cmp). feature_report_of k t c ref cmp)
         (zip feature_names (zip tests (zip (holm_bonferroni (map ks_p_value tests) alpha) (zip refs cmps))))))"

definition conclusion :: "string \<Rightarrow> string \<Rightarrow> rat \<Rightarrow> nat \<Rightarrow> nat \<Rightarrow> feature_report list \<Rightarrow> drift_result" where
  "conclusion model_id dataset alpha n m features =
     (let drifted = filter (\<lambda>f. co_rejected (fe_correction f)) features in
      \<lparr>dr_model = model_id, dr_comparison = dataset, dr_status = (if drifted \<noteq> [] then Drift_Detected else No_Drift_Detected),
       dr_alpha = alpha, dr_reference_count = n, dr_comparison_count = m, dr_drifted_count = length drifted,
       dr_out_of_range_rate = Some (of_nat (sum_list (map fe_out_of_range features)) / of_nat (m * length feature_names)),
       dr_features = features, dr_reasons = []\<rparr>)"

definition assess_drift :: "corpus_env \<Rightarrow> (nat \<Rightarrow> nat \<Rightarrow> int \<Rightarrow> rat) \<Rightarrow> ml_store \<Rightarrow> corpus \<Rightarrow> comparison_source \<Rightarrow>
    string \<Rightarrow> string \<Rightarrow> rat \<Rightarrow> py_error + drift_result" where
  "assess_drift env asymptotic st own src model_id dataset alpha =
     (case read_ml_model model_id st of
        None \<Rightarrow> Inr (refusal model_id dataset alpha 0 0 [Metadata_Missing])
      | Some model \<Rightarrow>
          let ids = mm_training_window_ids model in
          bind_py (read_ml_training_windows_by_ids env ids own) (\<lambda>refs.
          let trained = verify_ml_training_windows env None (Some ids) own in
          bind_py (source_dataset env own src dataset) (\<lambda>attestation.
          bind_py (source_windows env own src dataset) (\<lambda>cmps.
          bind_py (source_verdict env own src dataset) (\<lambda>compared.
          bind_py (sequence (map (window_fingerprint env) refs)) (\<lambda>known_prints.
          bind_py (sequence (map (window_fingerprint env) cmps)) (\<lambda>prints.
          let overlap = length (filter (\<lambda>p. p \<in> set known_prints) prints);
              n = length refs; m = length cmps;
              reasons =
                (if mm_schema_version model \<noteq> feature_schema_version \<or> mm_schema_hash model \<noteq> schema_hash (ce_hash env) (ce_repr env)
                 then [Schema_Incompatible] else []) @
                (if n \<noteq> length ids then [Provenance_Incomplete] else []) @
                (if wv_ok trained then [] else [Reference_Tampered (length (wv_mismatched trained))]) @
                attestation_reasons attestation @
                (if wv_ok compared then [] else [Comparison_Tampered (length (wv_mismatched compared))]) @
                (if list_ex (\<lambda>w. \<not> wo_verified w) cmps then [Unverified_Windows] else []) @
                (if list_ex (\<lambda>w. wo_schema_hash w \<noteq> PStr (mm_schema_hash model)) cmps then [Different_Schema] else []) @
                (if overlap \<noteq> 0 then [Windows_Reused overlap] else []) @
                size_reasons alpha n m
          in if reasons \<noteq> [] then Inr (refusal model_id dataset alpha n m reasons)
             else bind_py (feature_columns env refs) (\<lambda>ref_columns.
                  bind_py (feature_columns env cmps) (\<lambda>cmp_columns.
                  bind_py (feature_reports asymptotic alpha ref_columns cmp_columns) (\<lambda>features.
                    Inr (conclusion model_id dataset alpha n m features)))))))))))"

record drift_digest =
  ds_status :: drift_status
  ds_drifted_count :: nat
  ds_drifted :: "string list"
  ds_rate :: "rat option"
  ds_reasons :: "refusal_reason list"

definition drift_summary :: "drift_result \<Rightarrow> drift_digest" where
  "drift_summary a =
     \<lparr>ds_status = dr_status a, ds_drifted_count = dr_drifted_count a,
      ds_drifted = map fe_name (filter (\<lambda>f. co_rejected (fe_correction f)) (dr_features a)),
      ds_rate = dr_out_of_range_rate a, ds_reasons = dr_reasons a\<rparr>"

end
