(* ===== verification/Drift_Attainable.thy ===== *)
theory Drift_Attainable
  imports Drift
begin

text \<open>
  The refusal by arithmetic: sample sizes whose smallest p-value exceeds the first Holm threshold cannot
  reject anything, and sizes that are not refused can.
\<close>

section \<open>The extreme orderings\<close>

lemma gap_bound: "\<bar>int (at_most ref v) * int (length cmp) - int (at_most cmp v) * int (length ref)\<bar> \<le> int (length ref * length cmp)"
proof -
  have a: "at_most ref v \<le> length ref" "at_most cmp v \<le> length cmp" by (simp_all add: at_most_def)
  have "at_most ref v * length cmp \<le> length ref * length cmp" "at_most cmp v * length ref \<le> length ref * length cmp"
    using mult_le_mono1 [OF a(1), of "length cmp"] mult_le_mono2 [OF a(2), of "length ref"] by (simp_all only: mult.commute)
  then have "int (at_most ref v * length cmp) \<le> int (length ref * length cmp)" "int (at_most cmp v * length ref) \<le> int (length ref * length cmp)"
    by (simp_all only: of_nat_le_iff)
  then show ?thesis unfolding of_nat_mult [symmetric] by linarith
qed

lemma ks_upper: "ks_integer_statistic ref cmp \<le> int (length ref * length cmp)"
proof -
  have "x \<le> int (length ref * length cmp)" if "x \<in> insert 0 (set (map (gap ref cmp) vs))" for x vs
    using that gap_bound [of ref _ cmp] by (auto simp: gap_def)
  from this [OF fold_max_in] show ?thesis unfolding ks_fold .
qed

lemma only_True: "count_list w False = 0 \<Longrightarrow> w = replicate (count_list w True) True"
  by (induction w) (auto split: if_splits)

lemma only_False: "count_list w True = 0 \<Longrightarrow> w = replicate (count_list w False) False"
  by (induction w) (auto split: if_splits)

lemma extreme_gap:
  assumes "0 < n" "0 < m" "i \<le> n" "j \<le> m" "int (n * m) \<le> \<bar>int i * int m - int j * int n\<bar>"
  shows "(i = n \<and> j = 0) \<or> (i = 0 \<and> j = m)"
proof -
  have b: "i * m \<le> n * m" "j * n \<le> n * m"
    using mult_le_mono1 [OF assms(3), of m] mult_le_mono2 [OF assms(4), of n] by (simp_all only: mult.commute)
  have "int (n * m) \<le> \<bar>int (i * m) - int (j * n)\<bar>" using assms(5) by (simp only: of_nat_mult)
  with b have "i * m = n * m \<and> j * n = 0 \<or> j * n = n * m \<and> i * m = 0" by linarith
  then show ?thesis using assms(1,2) by auto
qed

lemma extreme_paths:
  assumes "0 < n" "0 < m" "w \<in> interleavings n m" "int (n * m) \<le> path_statistic n m w"
  shows "w = replicate n True @ replicate m False \<or> w = replicate m False @ replicate n True"
proof -
  have c: "count_list w True = n" "count_list w False = m" using assms(3) by (simp_all add: interleavings_def)
  have "0 < path_statistic n m w" using assms(1,2,4) by (smt (verit) of_nat_0_less_iff nat_0_less_mult_iff)
  then have "path_statistic n m w \<in> set (map (\<lambda>k. prefix_gap n m (take k w)) [0..<Suc (length w)])"
    using fold_max_in [of "map (\<lambda>k. prefix_gap n m (take k w)) [0..<Suc (length w)]" 0] unfolding path_statistic_def by auto
  then obtain k where k: "int (n * m) \<le> prefix_gap n m (take k w)" using assms(4) unfolding set_map by (auto simp del: of_nat_mult upt_Suc)
  have split: "count_list (take k w) b + count_list (drop k w) b = count_list w b" for b
    by (metis append_take_drop_id count_list_append)
  have "count_list (take k w) True \<le> n" "count_list (take k w) False \<le> m" using split [of True] split [of False] c by simp_all
  note extreme_gap [OF assms(1,2) this k [unfolded prefix_gap_def]]
  then consider
      "count_list (take k w) True = n" "count_list (take k w) False = 0" | "count_list (take k w) True = 0" "count_list (take k w) False = m"
    by metis
  then show ?thesis
  proof cases
    case 1
    then have "take k w = replicate n True" "drop k w = replicate m False"
      using split [of True] split [of False] c only_True [of "take k w"] only_False [of "drop k w"] by simp_all
    then show ?thesis by (metis append_take_drop_id)
  next
    case 2
    then have "take k w = replicate m False" "drop k w = replicate n True"
      using split [of True] split [of False] c only_False [of "take k w"] only_True [of "drop k w"] by simp_all
    then show ?thesis by (metis append_take_drop_id)
  qed
qed

lemma exact_extreme:
  assumes "0 < n" "0 < m"
  shows "exact_two_sided_p n m (int (n * m)) = minimum_attainable_p n m"
proof -
  let ?a = "replicate n True @ replicate m False" and ?b = "replicate m False @ replicate n True"
  have count: "count_list (replicate k b) b = k" "b \<noteq> c \<Longrightarrow> count_list (replicate k b) c = 0" for b c and k :: nat
    by (induction k) auto
  have "{w \<in> interleavings n m. int (n * m) \<le> path_statistic n m w} = {?a, ?b}"
    using full_path [OF assms] extreme_paths [OF assms] by (auto simp: interleavings_def count)
  moreover have "?a \<noteq> ?b" using assms by (cases n; cases m) auto
  ultimately show ?thesis
    unfolding minimum_attainable_p_def exact_p_orderings inter_card by simp
qed

text \<open>Two samples that do not overlap.\<close>

definition below_sample :: "nat \<Rightarrow> rat list" where
  "below_sample n = map of_nat [0..<n]"

definition above_sample :: "nat \<Rightarrow> nat \<Rightarrow> rat list" where
  "above_sample n m = map of_nat [n..<n + m]"

lemma separated_ks:
  assumes "0 < n" "0 < m"
  shows "ks_integer_statistic (below_sample n) (above_sample n m) = int (n * m)"
proof -
  let ?r = "below_sample n" and ?c = "above_sample n m"
  have len: "length ?r = n" "length ?c = m" by (simp_all add: below_sample_def above_sample_def)
  have r: "at_most ?r (of_nat (n - 1)) = n" and c: "at_most ?c (of_nat (n - 1)) = 0"
    using assms by (auto simp: at_most_def below_sample_def above_sample_def filter_map comp_def filter_empty_conv)
  have "gap ?r ?c (of_nat (n - 1)) = int (n * m)" 
    unfolding gap_def r c len by simp
  moreover have "of_nat (n - 1) \<in> set (sort (remdups (?r @ ?c)))"
    using assms(1) imageI [of "n - 1" "{0..<n}" rat_of_nat] by (simp add: below_sample_def del: of_nat_diff)
  ultimately have "int (n * m) \<le> ks_integer_statistic ?r ?c"
    unfolding ks_fold by (intro fold_max_ge) (metis image_eqI insertI2 list.set_map)
  with ks_upper [of ?r ?c] show ?thesis by (simp add: len)
qed


section \<open>The refusal is exact\<close>

lemma first_threshold:
  assumes "list_ex co_rejected (holm_bonferroni ps alpha)"
  shows "\<exists>p \<in> set ps. p \<le> alpha / of_nat (length ps)"
proof -
  obtain i where i: "i < length ps" "co_rejected (holm_bonferroni ps alpha ! i)"
    using assms by (auto simp: list_ex_length holm_bonferroni_def)
  obtain k where k: "k < length ps" "i = holm_order ps ! k" using holm_ranked [OF i(1)] by blast
  have "ps ! (holm_order ps ! 0) \<le> alpha / of_nat (length ps - 0)"
    using i(2) unfolding k(2) holm_at [OF k(1)] by (auto dest: spec [of _ 0])
  moreover have "0 < length ps" using k(1) by linarith
  moreover from this have "holm_order ps ! 0 < length ps"
    using nth_mem [of 0 "holm_order ps"] by (simp add: holm_order_def)
  ultimately show ?thesis by auto
qed

lemma lowest_rejected:
  assumes "ps \<noteq> []" and "\<forall>p \<in> set ps. p \<le> alpha / of_nat (length ps)"
  shows "list_ex co_rejected (holm_bonferroni ps alpha)"
proof -
  have k: "0 < length ps" "length (holm_order ps) = length ps" using assms(1) by (simp_all add: holm_order_def)
  then have at: "holm_order ps ! 0 < length ps" using nth_mem [of 0 "holm_order ps"] by (simp add: holm_order_def)
  then have "ps ! (holm_order ps ! 0) \<in> set ps" by simp
  then have "co_rejected (holm_bonferroni ps alpha ! (holm_order ps ! 0))"
    unfolding holm_at [OF k(1)] using assms(2) by simp
  then show ?thesis using at by (auto simp: list_ex_length holm_bonferroni_def)
qed

lemma report_corrections:
  assumes "feature_reports asymptotic alpha refs cmps = Inr fs"
    and "length refs = length feature_names" "length cmps = length feature_names"
  shows "\<exists>tests. map2 (two_sample_ks asymptotic) refs cmps = map Inr tests \<and>
    map fe_correction fs = holm_bonferroni (map ks_p_value tests) alpha"
proof -
  obtain tests where t: "map2 (two_sample_ks asymptotic) refs cmps = map Inr tests"
    and fs: "fs = map (\<lambda>(k, t, c, ref, cmp). feature_report_of k t c ref cmp)
         (zip feature_names (zip tests (zip (holm_bonferroni (map ks_p_value tests) alpha) (zip refs cmps))))"
    using assms(1) by (auto simp: feature_reports_def bind_py_def sequence_Inr split: sum.splits)
  have len: "length tests = length feature_names" using arg_cong [OF t, of length] assms(2,3) by simp
  have "map fe_correction fs = holm_bonferroni (map ks_p_value tests) alpha"
    by (rule nth_equalityI)
      (simp_all add: fs feature_report_of_def Let_def len assms(2,3) holm_bonferroni_def)
  with t show ?thesis by blast
qed

lemma ks_p_exact:
  assumes "two_sample_ks asymptotic ref cmp = Inr t" and "(length ref + 1) * (length cmp + 1) \<le> exact_lattice_cells"
  shows "ks_p_value t = exact_two_sided_p (length ref) (length cmp) (ks_integer_statistic ref cmp)"
  using assms by (auto simp: two_sample_ks_def Let_def split: if_splits)

definition sized :: "nat \<Rightarrow> rat list list \<Rightarrow> bool" where
  "sized n columns \<longleftrightarrow> length columns = length feature_names \<and> list_all (\<lambda>c. length c = n) columns"

definition some_drift :: "(nat \<Rightarrow> nat \<Rightarrow> int \<Rightarrow> rat) \<Rightarrow> rat \<Rightarrow> rat list list \<Rightarrow> rat list list \<Rightarrow> bool" where
  "some_drift asymptotic alpha refs cmps \<longleftrightarrow>
     (case feature_reports asymptotic alpha refs cmps of Inl _ \<Rightarrow> False | Inr fs \<Rightarrow> list_ex (\<lambda>f. co_rejected (fe_correction f)) fs)"

lemma unattainable_silent:
  assumes "0 < n" "0 < m" "(n + 1) * (m + 1) \<le> exact_lattice_cells" "sized n refs" "sized m cmps" "some_drift asymptotic alpha refs cmps"
  shows "minimum_attainable_p n m \<le> alpha / of_nat (length feature_names)"
proof -
  obtain fs where fs: "feature_reports asymptotic alpha refs cmps = Inr fs" "list_ex (\<lambda>f. co_rejected (fe_correction f)) fs"
    using assms(6) by (auto simp: some_drift_def split: sum.splits)
  have len: "length refs = length feature_names" "length cmps = length feature_names" using assms(4,5) by (simp_all add: sized_def)
  obtain tests where t: "map2 (two_sample_ks asymptotic) refs cmps = map Inr tests"
      "map fe_correction fs = holm_bonferroni (map ks_p_value tests) alpha"
    using report_corrections [OF fs(1) len] by blast
  have "list_ex co_rejected (map fe_correction fs)" using fs(2) by (simp add: list_ex_iff)
  then obtain p where p: "p \<in> set (map ks_p_value tests)" "p \<le> alpha / of_nat (length tests)"
    using first_threshold t(2) by fastforce
  then obtain x where x: "x \<in> set tests" "p = ks_p_value x" by auto
  have "Inr x \<in> set (map2 (two_sample_ks asymptotic) refs cmps)" using x(1) by (simp add: t(1))
  then obtain ref cmp where rc: "two_sample_ks asymptotic ref cmp = Inr x" "ref \<in> set refs" "cmp \<in> set cmps"
    using set_zip_leftD set_zip_rightD by fastforce
  then have l: "length ref = n" "length cmp = m" using assms(4,5) by (simp_all add: sized_def list_all_iff)
  have "minimum_attainable_p n m \<le> p"
    using ks_p_exact [OF rc(1)] attainable_lower [OF assms(1,2)] ks_upper [of ref cmp] assms(3) x(2) by (simp add: l)
  moreover have "length tests = length feature_names" using arg_cong [OF t(1), of length] len by simp
  ultimately show ?thesis using p(2) by simp
qed

lemma names_count: "length feature_names = 34"
  by (simp add: feature_names_def feature_definitions_def)

lemma attainable_attained:
  assumes "0 < n" "0 < m" "(n + 1) * (m + 1) \<le> exact_lattice_cells" "minimum_attainable_p n m \<le> alpha / of_nat (length feature_names)"
  shows "some_drift asymptotic alpha (replicate 34 (below_sample n)) (replicate 34 (above_sample n m))"
proof -
  let ?r = "below_sample n" and ?c = "above_sample n m"
  have len: "length ?r = n" "length ?c = m" by (simp_all add: below_sample_def above_sample_def)
  obtain t where t: "two_sample_ks asymptotic ?r ?c = Inr t" using assms(1,2) by (auto simp: two_sample_ks_def Let_def len)
  then have p: "ks_p_value t = minimum_attainable_p n m"
    using ks_p_exact [OF t] assms(3) separated_ks [OF assms(1,2)] exact_extreme [OF assms(1,2)] by (simp add: len)
  have tests: "map2 (two_sample_ks asymptotic) (replicate 34 ?r) (replicate 34 ?c) = map Inr (replicate 34 t)"
    by (simp add: zip_replicate t)
  obtain fs where fs: "feature_reports asymptotic alpha (replicate 34 ?r) (replicate 34 ?c) = Inr fs"
    unfolding feature_reports_def tests sequence_Inr [THEN iffD2, OF refl] bind_value_Inr by blast
  have "map fe_correction fs = holm_bonferroni (map ks_p_value (replicate 34 t)) alpha"
  proof -
    obtain ts where ts: "map2 (two_sample_ks asymptotic) (replicate 34 ?r) (replicate 34 ?c) = map Inr ts"
        "map fe_correction fs = holm_bonferroni (map ks_p_value ts) alpha"
      using report_corrections [OF fs] by (auto simp: names_count)
    have "ts = replicate 34 t" using ts(1) unfolding tests by (simp only: inj_map_eq_map [OF inj_Inr] eq_commute [of _ ts])
    with ts(2) show ?thesis by simp
  qed
  moreover have "list_ex co_rejected (holm_bonferroni (map ks_p_value (replicate 34 t)) alpha)"
    using assms(4) by (intro lowest_rejected) (simp_all add: p names_count)
  ultimately have "list_ex co_rejected (map fe_correction fs)" by simp
  then show ?thesis by (simp add: some_drift_def fs list_ex_iff)
qed

text \<open>C26: The refusal by sample size is exact. While p-values are computed exactly, two sample sizes are
refused because their smallest p-value exceeds the first Holm threshold exactly when no data of those
sizes, in any of the 34 columns, could ever be reported as drift: a refused comparison hides nothing,
and one that is not refused can answer either way.\<close>

theorem attainability_refusal_exact:
  assumes "0 < n" and "0 < m" and "(n + 1) * (m + 1) \<le> exact_lattice_cells"
  shows "Unattainable alpha (minimum_attainable_p n m) \<in> set (size_reasons alpha n m) \<longleftrightarrow>
    \<not> (\<exists>refs cmps. sized n refs \<and> sized m cmps \<and> some_drift asymptotic alpha refs cmps)"
proof -
  have "Unattainable alpha (minimum_attainable_p n m) \<in> set (size_reasons alpha n m) \<longleftrightarrow>
      alpha / of_nat (length feature_names) < minimum_attainable_p n m"
    using assms(1,2) by (simp add: size_reasons_def)
  moreover have "sized n (replicate 34 (below_sample n))" "sized m (replicate 34 (above_sample n m))"
    by (simp_all add: sized_def names_count below_sample_def above_sample_def list_all_iff)
  ultimately show ?thesis
    using unattainable_silent [OF assms] attainable_attained [OF assms] by (meson not_le)
qed

theorem attainability_refusal_exact_witness:
  "\<not> (\<exists>refs cmps. sized 1 refs \<and> sized 1 cmps \<and> some_drift (\<lambda>_ _ _. 0) default_alpha refs cmps)"
proof -
  have "(1 + 1) * (1 + 1) \<le> exact_lattice_cells" by (simp add: exact_lattice_cells_def)
  moreover have "Unattainable default_alpha (minimum_attainable_p 1 1) \<in> set (size_reasons default_alpha 1 1)"
    by (simp add: size_reasons_def default_alpha_def minimum_attainable_p_def names_count)
  ultimately show ?thesis using attainability_refusal_exact [of 1 1 default_alpha "\<lambda>_ _ _. 0"] by simp
qed

end
