(* ===== verification/Drift_Properties.thy ===== *)
theory Drift_Properties
  imports Drift
begin

text \<open>
  What a drift verdict is worth: when one is given, when the data could never give one, which inputs are
  answered by an exception instead of a refusal, and that stores written by the store's own writers are
  always assessed.
\<close>

section \<open>Verdicts\<close>

lemma bind_py_InrD: "bind_py x f = Inr y \<Longrightarrow> \<exists>v. x = Inr v \<and> f v = Inr y"
  by (auto simp: bind_py_def split: sum.splits)

text \<open>What a comparison must satisfy for a verdict, on the values the stores return.\<close>

definition comparable :: "corpus_env \<Rightarrow> ml_model \<Rightarrow> rat \<Rightarrow> corpus \<Rightarrow> window_out list \<Rightarrow> doc option \<Rightarrow> window_out list \<Rightarrow> window_verdict \<Rightarrow> bool" where
  "comparable env model alpha own refs attestation cmps compared \<longleftrightarrow>
     mm_schema_version model = feature_schema_version \<and> mm_schema_hash model = schema_hash (ce_hash env) (ce_repr env) \<and>
     length refs = length (mm_training_window_ids model) \<and>
     wv_ok (verify_ml_training_windows env None (Some (mm_training_window_ids model)) own) \<and>
     attestation_reasons attestation = [] \<and> wv_ok compared \<and>
     list_all (\<lambda>w. wo_verified w \<and> wo_schema_hash w = PStr (mm_schema_hash model)) cmps \<and>
     list_all (\<lambda>w. list_all (\<lambda>v. window_fingerprint env w \<noteq> window_fingerprint env v) refs) cmps \<and>
     min_reference_windows \<le> length refs \<and> min_comparison_windows \<le> length cmps \<and>
     minimum_attainable_p (length refs) (length cmps) \<le> alpha / of_nat (length feature_names)"

lemma no_overlap:
  assumes "sequence (map (window_fingerprint env) refs) = Inr ks" and "sequence (map (window_fingerprint env) cmps) = Inr ps"
    and "length (filter (\<lambda>p. p \<in> set ks) ps) = 0"
  shows "list_all (\<lambda>w. list_all (\<lambda>v. window_fingerprint env w \<noteq> window_fingerprint env v) refs) cmps"
proof -
  have k: "map (window_fingerprint env) refs = map Inr ks" and p: "map (window_fingerprint env) cmps = map Inr ps"
    using assms(1,2) by (simp_all add: sequence_Inr)
  have "window_fingerprint env w \<noteq> window_fingerprint env v" if "w \<in> set cmps" "v \<in> set refs" for w v
  proof
    assume e: "window_fingerprint env w = window_fingerprint env v"
    have "window_fingerprint env w \<in> Inr ` set ps" using arg_cong [OF p, of set] that(1) by auto
    moreover have "window_fingerprint env v \<in> Inr ` set ks" using arg_cong [OF k, of set] that(2) by auto
    ultimately show False using e assms(3) by (auto simp: filter_empty_conv)
  qed
  then show ?thesis by (simp add: list_all_iff)
qed

lemma size_reasons_none:
  "size_reasons alpha n m = [] \<Longrightarrow> min_reference_windows \<le> n \<and> min_comparison_windows \<le> m \<and>
    minimum_attainable_p n m \<le> alpha / of_nat (length feature_names)"
  by (auto simp: size_reasons_def min_reference_windows_def min_comparison_windows_def split: if_splits)

lemma conclusion_facts:
  "dr_status (conclusion mid ds alpha n m fs) \<noteq> Insufficient_Data" "dr_reasons (conclusion mid ds alpha n m fs) = []"
  "dr_status (conclusion mid ds alpha n m fs) = Drift_Detected \<longleftrightarrow> list_ex (\<lambda>f. co_rejected (fe_correction f)) fs"
  "dr_features (conclusion mid ds alpha n m fs) = fs"
  by (auto simp: conclusion_def Let_def list_ex_iff filter_empty_conv)

lemma refusal_facts: "dr_status (refusal mid ds alpha n m rs) = Insufficient_Data" "dr_reasons (refusal mid ds alpha n m rs) = rs"
  by (simp_all add: refusal_def)

lemma unrefused:
  "(if rs \<noteq> [] then Inr (refusal mid ds alpha n m rs) else x) = Inr a \<Longrightarrow> dr_reasons a = [] \<Longrightarrow> rs = [] \<and> x = Inr a"
  by (auto simp: refusal_facts split: if_splits)

lemma if_nil: "(if b then [r] else []) = [] \<longleftrightarrow> \<not> b" "(if b then [] else [r]) = [] \<longleftrightarrow> b"
  by simp_all

lemma refused:
  "(if rs \<noteq> [] then Inr (refusal mid ds alpha n m rs) else bind_py x (\<lambda>u. bind_py (y u) (\<lambda>v. bind_py (z u v) (\<lambda>w. Inr (conclusion mid ds alpha n m w))))) = Inr a \<Longrightarrow>
   dr_reasons a \<noteq> [] \<Longrightarrow> dr_status a = Insufficient_Data"
  by (auto simp: refusal_facts conclusion_facts split: if_splits dest!: bind_py_InrD)

lemma assessed:
  assumes "assess_drift env asymptotic st own src mid ds alpha = Inr a"
  shows "(dr_status a = Insufficient_Data \<and> dr_reasons a \<noteq> []) \<or>
    (\<exists>model refs attestation cmps compared.
      read_ml_model mid st = Some model \<and> read_ml_training_windows_by_ids env (mm_training_window_ids model) own = Inr refs \<and>
      source_dataset env own src ds = Inr attestation \<and> source_windows env own src ds = Inr cmps \<and>
      source_verdict env own src ds = Inr compared \<and> comparable env model alpha own refs attestation cmps compared \<and>
      (\<exists>r c fs. feature_columns env refs = Inr r \<and> feature_columns env cmps = Inr c \<and> feature_reports asymptotic alpha r c = Inr fs \<and>
        a = conclusion mid ds alpha (length refs) (length cmps) fs))"
proof (cases "read_ml_model mid st")
  case None
  then show ?thesis using assms by (auto simp: assess_drift_def refusal_facts)
next
  case (Some model)
  note run = assms [unfolded assess_drift_def Some option.case Let_def]
  obtain refs where refs: "read_ml_training_windows_by_ids env (mm_training_window_ids model) own = Inr refs"
    using bind_py_InrD [OF run] by blast
  obtain att where att: "source_dataset env own src ds = Inr att" using run by (auto dest!: bind_py_InrD)
  obtain cmps where cmps: "source_windows env own src ds = Inr cmps" using run by (auto dest!: bind_py_InrD)
  obtain v where v: "source_verdict env own src ds = Inr v" using run by (auto dest!: bind_py_InrD)
  obtain ks where ks: "sequence (map (window_fingerprint env) refs) = Inr ks" using run refs by (auto dest!: bind_py_InrD)
  obtain ps where ps: "sequence (map (window_fingerprint env) cmps) = Inr ps" using run refs cmps by (auto dest!: bind_py_InrD)
  note final = run [unfolded refs att cmps v ks ps bind_value_Inr]
  show ?thesis
  proof (cases "dr_reasons a = []")
    case True
    note none = unrefused [OF final True]
    obtain r c fs where fs: "feature_columns env refs = Inr r" "feature_columns env cmps = Inr c"
        "feature_reports asymptotic alpha r c = Inr fs" "conclusion mid ds alpha (length refs) (length cmps) fs = a"
      using conjunct2 [OF none] by (auto dest!: bind_py_InrD)
    note flags = conjunct1 [OF none, unfolded append_is_Nil_conv if_nil]
    have "comparable env model alpha own refs att cmps v"
      using flags size_reasons_none [of alpha "length refs" "length cmps"] no_overlap [OF ks ps]
      unfolding comparable_def by (simp add: list_all_iff list_ex_iff) metis
    with Some refs att cmps v fs show ?thesis by blast
  next
    case False
    have "dr_status a = Insufficient_Data" by (rule refused [OF final False])
    with False show ?thesis by blast
  qed
qed

definition earned :: "corpus_env \<Rightarrow> (nat \<Rightarrow> nat \<Rightarrow> int \<Rightarrow> rat) \<Rightarrow> ml_store \<Rightarrow> corpus \<Rightarrow> comparison_source \<Rightarrow> string \<Rightarrow> string \<Rightarrow> rat \<Rightarrow> drift_result \<Rightarrow> bool" where
  "earned env asymptotic st own src mid ds alpha a \<longleftrightarrow>
     (\<exists>model refs attestation cmps compared.
      read_ml_model mid st = Some model \<and> read_ml_training_windows_by_ids env (mm_training_window_ids model) own = Inr refs \<and>
      source_dataset env own src ds = Inr attestation \<and> source_windows env own src ds = Inr cmps \<and>
      source_verdict env own src ds = Inr compared \<and> comparable env model alpha own refs attestation cmps compared \<and>
      (\<exists>r c fs. feature_columns env refs = Inr r \<and> feature_columns env cmps = Inr c \<and> feature_reports asymptotic alpha r c = Inr fs \<and>
        a = conclusion mid ds alpha (length refs) (length cmps) fs))"

text \<open>C25: No verdict from unfit data. Whenever the assessment returns, either it declines and names at least one
reason, or it gives a verdict with no reason left, and then the model exists and was made for the
runtime's feature schema, its training windows are all present and verify, the comparison dataset exists
and is attested, its windows verify, are verified-normal, use the model's schema and share none with the
training data, there are at least 10 and 30 of them, the sizes can attain a corrected p-value, and the
verdict is drift exactly when a corrected test rejects.\<close>

theorem drift_verdict_is_earned:
  "case assess_drift env asymptotic st own src mid ds alpha of
     Inl _ \<Rightarrow> True
   | Inr a \<Rightarrow> (dr_status a = Insufficient_Data \<and> dr_reasons a \<noteq> []) \<or>
       (dr_reasons a = [] \<and> earned env asymptotic st own src mid ds alpha a \<and>
        dr_status a = (if list_ex (\<lambda>f. co_rejected (fe_correction f)) (dr_features a) then Drift_Detected else No_Drift_Detected))"
proof (cases "assess_drift env asymptotic st own src mid ds alpha")
  case (Inr a)
  have v: "dr_reasons a = [] \<and> dr_status a = (if list_ex (\<lambda>f. co_rejected (fe_correction f)) (dr_features a) then Drift_Detected else No_Drift_Detected)"
    if "earned env asymptotic st own src mid ds alpha a"
    using that by (auto simp: earned_def conclusion_facts) (auto simp: conclusion_def Let_def list_ex_iff filter_empty_conv)
  show ?thesis using assessed [OF Inr] v unfolding Inr sum.case earned_def by blast
qed simp

text \<open>The documented command never reaches a verdict. With a corpus in its own file the operator script
passes a source that has only the window reader, so the assessment of any model the registry holds
raises (AttributeError, at the dataset's attestation, unless the training windows already fail to
decode); the only result it can return is that the model was not found.\<close>

theorem no_verdict_from_corpus_file:
  "case assess_drift env asymptotic st own (Window_Source c) mid ds alpha of
     Inl e \<Rightarrow> (\<exists>model. read_ml_model mid st = Some model \<and>
        (e = Attribute_Error ''read_ml_dataset'' \<or> read_ml_training_windows_by_ids env (mm_training_window_ids model) own = Inl e))
   | Inr a \<Rightarrow> read_ml_model mid st = None \<and> dr_reasons a = [Metadata_Missing]"
proof (cases "read_ml_model mid st")
  case None
  then show ?thesis by (simp add: assess_drift_def refusal_facts)
next
  case (Some model)
  then show ?thesis
    by (cases "read_ml_training_windows_by_ids env (mm_training_window_ids model) own")
      (simp_all add: assess_drift_def bind_py_def Let_def source_dataset_def)
qed

end
