(* ===== verification/Drift_Total.thy ===== *)
theory Drift_Total
  imports Drift_Properties
begin

text \<open>
  On corpora the store's own writers filled with 34-feature windows, an assessment always returns; on other
  inputs an exception takes the place of the refusal.
\<close>

section \<open>Stored rows decode\<close>

definition numeric_features :: "corpus_env \<Rightarrow> doc \<Rightarrow> bool" where
  "numeric_features env features \<longleftrightarrow>
     (case features of
        PDict d \<Rightarrow> list_all (\<lambda>k. case map_of d k of None \<Rightarrow> False | Some v \<Rightarrow> \<not> isl (to_float (ce_float env) v)) feature_names
      | _ \<Rightarrow> False)"

definition fit_op :: "corpus_env \<Rightarrow> corpus_op \<Rightarrow> bool" where
  "fit_op env a \<longleftrightarrow>
     (case a of
        Create_Dataset d \<Rightarrow> doc_ok (dt_environment d) \<and> doc_ok (PDict (dt_verification d))
      | Append_Window w \<Rightarrow> list_all doc_ok (window_docs w) \<and> numeric_features env (tw_features w))"

lemma canon_lookup:
  assumes "doc_ok (PDict d)" and "canon (PDict d) = PDict e"
  shows "map_of e k = map_option canon (map_of d k)"
proof -
  let ?c = "map (\<lambda>(k, v). (k, canon v)) d"
  have f: "map fst ?c = map fst d" by (induction d) auto
  have s: "distinct (map fst (sort_key fst kvs)) \<longleftrightarrow> distinct (map fst kvs)" for kvs :: "(string \<times> doc) list"
    by (simp add: distinct_map)
  have "distinct (map fst ?c)" using assms(1) unfolding f by simp
  moreover from this have "distinct (map fst (sort_key fst ?c))" unfolding s .
  ultimately have "map_of (sort_key fst ?c) = map_of ?c" by (simp add: map_of_inject_set)
  then show ?thesis using assms(2) map_of_map [of canon d] by (simp add: comp_def)
qed

lemma canon_number: "\<not> isl (to_float p v) \<Longrightarrow> canon v = v"
  by (cases v) (simp_all add: to_float_def)

lemma canon_numeric: "doc_ok v \<Longrightarrow> numeric_features env v \<Longrightarrow> numeric_features env (canon v)"
proof (cases v)
  case (PDict d)
  assume ok: "doc_ok v" and n: "numeric_features env v"
  obtain e where e: "canon (PDict d) = PDict e" by simp
  note look = canon_lookup [OF ok [unfolded PDict] e]
  have "list_all (\<lambda>k. case map_of e k of None \<Rightarrow> False | Some v \<Rightarrow> \<not> isl (to_float (ce_float env) v)) feature_names"
    using n canon_number unfolding look PDict numeric_features_def by (auto simp: list_all_iff split: option.splits)
  then show ?thesis by (simp add: numeric_features_def PDict e del: canon.simps)
qed (simp_all add: numeric_features_def)

definition readable_window :: "corpus_env \<Rightarrow> row \<Rightarrow> bool" where
  "readable_window env r \<longleftrightarrow>
     (\<exists>w. decode_window env r = Inr w \<and> numeric_features env (wo_features w) \<and> \<not> isl (to_float (ce_float env) (wo_start w)) \<and>
        \<not> isl (to_float (ce_float env) (wo_end w)))"

lemma stored_readable:
  assumes "float_text_ok (ce_repr env) (ce_json env)" and "list_all doc_ok (window_docs w)" and "numeric_features env (tw_features w)"
  shows "readable_window env ((window_row env w)(''id'' \<mapsto> i))"
  using assms(2,3) load_stored [OF assms(1)] canon_numeric [of "tw_features w" env]
  by (simp add: readable_window_def decode_window_def window_row_def window_docs_def bind_py_def unbind_def to_float_def del: doc_ok.simps canon.simps)

definition readable_corpus :: "corpus_env \<Rightarrow> corpus \<Rightarrow> bool" where
  "readable_corpus env c \<longleftrightarrow> list_all (readable_window env) (trows (cp_windows c)) \<and>
     list_all (\<lambda>r. \<not> isl (load_json env (rget r ''environment_json'')) \<and> \<not> isl (load_json env (rget r ''verification_json''))) (cp_datasets c)"

lemma fit_step:
  assumes "float_text_ok (ce_repr env) (ce_json env)" and "fit_op env a" and "readable_corpus env c"
  shows "readable_corpus env (corpus_step env a c)"
proof (cases a)
  case (Create_Dataset d)
  then have "doc_ok (dt_environment d)" "doc_ok (PDict (dt_verification d))" using assms(2) by (simp_all add: fit_op_def)
  then show ?thesis using assms(3) load_stored [OF assms(1)] Create_Dataset
    by (simp add: corpus_step_def create_ml_dataset_def readable_corpus_def del: doc_ok.simps canon.simps)
next
  case (Append_Window w)
  then have w: "list_all doc_ok (window_docs w)" "numeric_features env (tw_features w)" using assms(2) by (simp_all add: fit_op_def)
  show ?thesis
  proof (cases "write_ml_training_window env w c")
    case (Inr p)
    then obtain i c' where "write_ml_training_window env w c = Inr (i, c')" by (cases p) auto
    then show ?thesis using Append_Window assms(3) window_added [of env w c i c'] stored_readable [OF assms(1) w]
      by (auto simp: corpus_step_def readable_corpus_def)
  qed (use assms(3) Append_Window in \<open>simp add: corpus_step_def\<close>)
qed

lemma fit_run:
  assumes "float_text_ok (ce_repr env) (ce_json env)" and "list_all (fit_op env) ops"
  shows "readable_corpus env (corpus_run env ops)"
  unfolding corpus_run_def
proof (rule fold_invariant_of [where P = "readable_corpus env"])
  show "readable_corpus env empty_corpus" by (simp add: readable_corpus_def empty_corpus_def empty_table_def)
  fix a c assume "a \<in> set ops" "readable_corpus env c"
  with assms show "readable_corpus env (corpus_step env a c)" by (intro fit_step) (simp_all add: list_all_iff)
qed

section \<open>The assessment returns\<close>

lemma sequence_total: "list_all (\<lambda>x. \<not> isl (f x)) xs \<Longrightarrow> \<exists>ys. sequence (map f xs) = Inr ys"
proof -
  assume "list_all (\<lambda>x. \<not> isl (f x)) xs"
  then have "map f xs = map Inr (map (projr \<circ> f) xs)" by (induction xs) (auto simp: isl_def)
  then show ?thesis unfolding sequence_Inr by blast
qed

definition fit_window :: "corpus_env \<Rightarrow> window_out \<Rightarrow> bool" where
  "fit_window env w \<longleftrightarrow> numeric_features env (wo_features w) \<and> \<not> isl (to_float (ce_float env) (wo_start w)) \<and> \<not> isl (to_float (ce_float env) (wo_end w))"

lemma windows_decode:
  assumes "list_all (readable_window env) rs"
  shows "\<exists>ws. sequence (map (decode_window env) rs) = Inr ws \<and> list_all (fit_window env) ws"
  using assms
proof (induction rs)
  case (Cons r rs)
  then show ?case by (auto simp: readable_window_def fit_window_def bind_py_def)
qed simp

lemma fit_value:
  assumes "numeric_features env (wo_features w)" and "k \<in> set feature_names"
  shows "\<not> isl (feature_value env w k)"
  using assms
  by (auto simp: numeric_features_def feature_value_def require_key_def bind_py_def list_all_iff split: pyobj.splits option.splits)

lemma fit_fingerprint: "fit_window env w \<Longrightarrow> \<not> isl (window_fingerprint env w)"
proof -
  assume w: "fit_window env w"
  obtain vs where "sequence (map (feature_value env w) feature_names) = Inr vs"
    using sequence_total [of "feature_value env w" feature_names] fit_value [of env w] w by (auto simp: fit_window_def list_all_iff)
  with w show ?thesis by (auto simp: fit_window_def window_fingerprint_def bind_py_def split: sum.splits)
qed

lemma fit_columns:
  assumes "list_all (fit_window env) ws"
  shows "\<exists>cs. feature_columns env ws = Inr cs \<and> list_all (\<lambda>c. length c = length ws) cs"
proof -
  have "\<not> isl (sequence (map (\<lambda>w. feature_value env w k) ws))" if "k \<in> set feature_names" for k
    using sequence_total [of "\<lambda>w. feature_value env w k" ws] fit_value [OF _ that] assms by (auto simp: fit_window_def list_all_iff)
  then obtain cs where cs: "feature_columns env ws = Inr cs"
    using sequence_total [of "\<lambda>k. sequence (map (\<lambda>w. feature_value env w k) ws)" feature_names]
    by (auto simp: feature_columns_def list_all_iff)
  have "length c = length ws" if c: "c \<in> set cs" for c
  proof -
    have "map (\<lambda>k. sequence (map (\<lambda>w. feature_value env w k) ws)) feature_names = map Inr cs"
      using cs unfolding feature_columns_def sequence_Inr .
    then have "Inr c \<in> set (map (\<lambda>k. sequence (map (\<lambda>w. feature_value env w k) ws)) feature_names)" using c by simp
    then obtain k where "sequence (map (\<lambda>w. feature_value env w k) ws) = Inr c" by auto
    from arg_cong [OF this [unfolded sequence_Inr], of length] show ?thesis by simp
  qed
  with cs show ?thesis by (auto simp: list_all_iff)
qed

lemma reports_total:
  assumes "list_all (\<lambda>c. length c = n) refs" "list_all (\<lambda>c. length c = m) cmps" "0 < n" "0 < m"
  shows "\<not> isl (feature_reports asymptotic alpha refs cmps)"
proof -
  have "\<not> isl (two_sample_ks asymptotic r c)" if rc: "(r, c) \<in> set (zip refs cmps)" for r c
  proof -
    have "length r = n" "length c = m" using assms(1,2) set_zip_leftD [OF rc] set_zip_rightD [OF rc] by (simp_all add: list_all_iff)
    with assms(3,4) show ?thesis by (auto simp: two_sample_ks_def Let_def)
  qed
  then obtain ts where ts: "sequence (map2 (two_sample_ks asymptotic) refs cmps) = Inr ts"
    using sequence_total [of "\<lambda>(r, c). two_sample_ks asymptotic r c" "zip refs cmps"] by (fastforce simp: list_all_iff)
  show ?thesis unfolding feature_reports_def ts bind_value_Inr by simp
qed

lemma readable_reads:
  assumes "readable_corpus env c"
  shows "\<exists>ws. sequence (map (decode_window env) (filter p (trows (cp_windows c)))) = Inr ws \<and> list_all (fit_window env) ws"
    and "\<exists>ws. read_ml_training_windows env dataset c = Inr ws \<and> list_all (fit_window env) ws"
    and "\<exists>d. read_ml_dataset env k c = Inr d"
proof -
  show "\<exists>ws. sequence (map (decode_window env) (filter p (trows (cp_windows c)))) = Inr ws \<and> list_all (fit_window env) ws"
    using assms by (intro windows_decode) (auto simp: readable_corpus_def list_all_iff)
  show "\<exists>ws. read_ml_training_windows env dataset c = Inr ws \<and> list_all (fit_window env) ws"
    unfolding read_ml_training_windows_def using assms by (intro windows_decode) (auto simp: readable_corpus_def list_all_iff)
  show "\<exists>d. read_ml_dataset env k c = Inr d"
    using assms by (fastforce simp: read_ml_dataset_def readable_corpus_def list_all_iff find_Some_iff bind_py_def isl_def
        split: option.splits sum.splits)
qed

lemma assess_returns:
  assumes own: "readable_corpus env own" and src: "src = Own_Store \<or> (\<exists>c. src = Event_Store_At c \<and> readable_corpus env c)"
  shows "\<exists>a. assess_drift env asymptotic st own src mid ds alpha = Inr a"
proof (cases "read_ml_model mid st")
  case None
  then show ?thesis by (simp add: assess_drift_def)
next
  case (Some model)
  obtain refs where refs: "read_ml_training_windows_by_ids env (mm_training_window_ids model) own = Inr refs" "list_all (fit_window env) refs"
    unfolding read_ml_training_windows_by_ids_def using readable_reads(1) [OF own] by blast
  obtain att where att: "source_dataset env own src ds = Inr att"
    using src readable_reads(3) [OF own] readable_reads(3) by (auto simp: source_dataset_def) blast+
  obtain cmps where cmps: "source_windows env own src ds = Inr cmps" "list_all (fit_window env) cmps"
    using src readable_reads(2) [OF own] readable_reads(2) by (auto simp: source_windows_def) blast+
  obtain v where v: "source_verdict env own src ds = Inr v" using src by (auto simp: source_verdict_def)
  obtain ks where ks: "sequence (map (window_fingerprint env) refs) = Inr ks"
    using sequence_total [of "window_fingerprint env" refs] fit_fingerprint refs(2) by (auto simp: list_all_iff)
  obtain ps where ps: "sequence (map (window_fingerprint env) cmps) = Inr ps"
    using sequence_total [of "window_fingerprint env" cmps] fit_fingerprint cmps(2) by (auto simp: list_all_iff)
  obtain r where r: "feature_columns env refs = Inr r" "list_all (\<lambda>c. length c = length refs) r" using fit_columns [OF refs(2)] by blast
  obtain c where c: "feature_columns env cmps = Inr c" "list_all (\<lambda>k. length k = length cmps) c" using fit_columns [OF cmps(2)] by blast
  have fin: "size_reasons alpha (length refs) (length cmps) = [] \<Longrightarrow> \<exists>fs. feature_reports asymptotic alpha r c = Inr fs"
  proof -
    assume "size_reasons alpha (length refs) (length cmps) = []"
    then have "0 < length refs" "0 < length cmps"
      using size_reasons_none [of alpha "length refs" "length cmps"] unfolding min_reference_windows_def min_comparison_windows_def by linarith+
    from reports_total [OF r(2) c(2) this, of asymptotic alpha] show ?thesis
      by (cases "feature_reports asymptotic alpha r c") simp_all
  qed
  show ?thesis
    unfolding assess_drift_def Some option.case Let_def refs att cmps(1) v ks ps r(1) c(1) bind_value_Inr
    using fin by (cases "size_reasons alpha (length refs) (length cmps) = []") (auto simp: bind_value_Inr)
qed



section \<open>Concrete assessments\<close>

definition full_window :: window_in where
  "full_window = sample_window\<lparr>tw_features := PDict (map (\<lambda>k. (k, PInt 0)) feature_names)\<rparr>"

lemma distinct_names: "distinct feature_names"
  by (simp add: feature_names_def feature_definitions_def)

lemma full_fit: "list_all (fit_op sample_env) [Create_Dataset sample_dataset, Append_Window full_window]"
proof -
  have "map fst (map (\<lambda>k. (k, PInt 0 :: doc)) feature_names) = feature_names" by (simp add: comp_def)
  then have ok: "doc_ok (PDict (map (\<lambda>k. (k, PInt 0)) feature_names))" using distinct_names by (simp add: list_all_iff)
  have "map_of (map (\<lambda>k. (k, PInt 0 :: doc)) feature_names) k = Some (PInt 0)" if "k \<in> set feature_names" for k
    using that map_of_map_restrict [of "\<lambda>_. PInt 0 :: doc" feature_names] by simp
  then have "numeric_features sample_env (PDict (map (\<lambda>k. (k, PInt 0)) feature_names))"
    by (simp add: numeric_features_def list_all_iff to_float_def)
  then show ?thesis using ok by (simp add: fit_op_def full_window_def window_docs_def sample_dataset_def sample_window_def del: doc_ok.simps(2)) simp
qed

definition sample_registry :: ml_store where
  "sample_registry = empty_ml_store\<lparr>ml_models := [\<lparr>mm_id = ''m'', mm_version = ''1'', mm_algorithm = ''iforest'', mm_artifact_checksum = ''c'',
     mm_schema_version = ''v'', mm_schema_hash = ''h'', mm_training_window_ids = [1], mm_active = False, mm_created_at = 1\<rparr>]\<rparr>"


definition old_schema_corpus :: corpus where
  "old_schema_corpus = corpus_run sample_env [Create_Dataset sample_dataset, Append_Window sample_window]"

text \<open>The same corpus after one column of its window was overwritten with text that is not JSON.\<close>

definition damaged_corpus :: corpus where
  "damaged_corpus = old_schema_corpus\<lparr>cp_windows := update_where (\<lambda>_. True) (\<lambda>r. r(''features_json'' \<mapsto> SText ''?'')) (cp_windows old_schema_corpus)\<rparr>"

lemma old_rows: "trows (cp_windows old_schema_corpus) = [(window_row sample_env sample_window)(''id'' \<mapsto> SInt 1)]"
  by (simp add: old_schema_corpus_def sample_stored)

lemma old_decoded:
  "decode_window sample_env ((window_row sample_env sample_window)(''id'' \<mapsto> SInt 1)) =
    Inr \<lparr>wo_id = SInt 1, wo_start = PFloat 1, wo_end = PFloat 2, wo_features = PDict [(''a'', PInt 0), (''b'', PFloat (1 / 2))],
      wo_schema_hash = PStr ''h'', wo_verified = True\<rparr>"
proof -
  have docs: "doc_ok (tw_event_ids sample_window)" "doc_ok (tw_features sample_window)" "doc_ok (tw_context sample_window)"
      "doc_ok (PDict (tw_verification sample_window))"
    using sample_ok(2) by (simp_all add: window_docs_def)
  have c: "canon (tw_features sample_window) = PDict [(''a'', PInt 0), (''b'', PFloat (1 / 2))]"
    by (simp add: sample_window_def sort_key_def)
  show ?thesis
    using docs [THEN load_stored [OF sample_ok(1)]]
    by (simp add: decode_window_def window_row_def bind_py_def c unbind_def truthy_def del: canon.simps) (simp add: sample_window_def)
qed

lemma old_fingerprint:
  "wo_features w = PDict [(''a'', PInt 0), (''b'', x)] \<Longrightarrow> wo_start w = PFloat q \<Longrightarrow> wo_end w = PFloat r \<Longrightarrow>
   window_fingerprint env w = Inl (Key_Error (hd feature_names))"
  by (simp add: window_fingerprint_def feature_names_def feature_definitions_def to_float_def bind_py_def feature_value_def require_key_def)

lemma old_dataset: "read_ml_dataset sample_env ''d'' old_schema_corpus = Inr (Some (PDict [(''verified_normal'', PBool True)]))"
proof -
  have "doc_ok (PDict [])" "doc_ok (PDict [(''verified_normal'', PBool True)])" by simp_all
  note this [THEN load_stored [OF sample_ok(1)]]
  then show ?thesis
    by (simp add: read_ml_dataset_def old_schema_corpus_def corpus_run_def corpus_step_def create_ml_dataset_def write_ml_training_window_def
        sample_dataset_def empty_corpus_def sample_window_def empty_table_def insert_row_def truthy_def dget_def bind_py_def)
qed

lemma old_scope: "in_scope (Some ''d'') None ((window_row sample_env sample_window)(''id'' \<mapsto> SInt 1))"
  "in_scope None (Some [1]) ((window_row sample_env sample_window)(''id'' \<mapsto> SInt 1))"
  by (simp_all add: in_scope_def window_row_facts) (simp add: sample_window_def)

lemma registered: "\<exists>model. read_ml_model ''m'' sample_registry = Some model \<and> mm_training_window_ids model = [1]"
  by (simp add: read_ml_model_def sample_registry_def)

lemma damaged_rows: "trows (cp_windows damaged_corpus) = [(window_row sample_env sample_window)(''id'' \<mapsto> SInt 1, ''features_json'' \<mapsto> SText ''?'')]"
  by (simp add: damaged_corpus_def update_where_def old_rows)

lemma not_json: "load_json sample_env (SText ''?'') = Inl (Value_Error ''JSONDecodeError'')"
  by (simp add: load_json_def loads_def skip_ws_def json_ws_def scan_number_def begins_with_def Let_def is_digit_def numeral_eq_Suc)

text \<open>Where an exception takes the place of a refusal. A model trained under another feature schema, whose
windows lack a feature of the runtime, is not refused as incompatible: the fingerprints read the runtime's
features first and KeyError leaves the assessment. A training window whose JSON was damaged is reported by
the verification, but the assessment decodes it first and raises.\<close>

theorem refusals_that_raise:
  "assess_drift sample_env asymptotic sample_registry old_schema_corpus Own_Store ''m'' ''d'' alpha = Inl (Key_Error (hd feature_names)) \<and>
   wv_mismatched (verify_ml_training_windows sample_env None (Some [1]) damaged_corpus) = [SInt 1] \<and>
   assess_drift sample_env asymptotic sample_registry damaged_corpus Own_Store ''m'' ''d'' alpha = Inl (Value_Error ''JSONDecodeError'')"
proof (intro conjI)
  obtain model where m: "read_ml_model ''m'' sample_registry = Some model" "mm_training_window_ids model = [1]" using registered by blast
  let ?r = "(window_row sample_env sample_window)(''id'' \<mapsto> SInt 1)"
  let ?d = "?r(''features_json'' \<mapsto> SText ''?'')"
  have scope: "in_scope None (Some [1]) ?d" using old_scope(2) by (simp add: in_scope_def)
  have ids: "load_json sample_env (rget ?d ''event_ids_json'') = Inr (canon (tw_event_ids sample_window))"
    using load_stored [OF sample_ok(1), of "tw_event_ids sample_window"] sample_ok(2) by (simp add: window_row_def window_docs_def)
  have damaged: "decode_window sample_env ?d = Inl (Value_Error ''JSONDecodeError'')"
    unfolding decode_window_def ids bind_value_Inr by (simp add: not_json bind_py_def)
  have "row_content sample_env ?d = Inl (Value_Error ''JSONDecodeError'')"
    unfolding row_content_def ids bind_value_Inr by (simp add: not_json bind_py_def)
  then show "wv_mismatched (verify_ml_training_windows sample_env None (Some [1]) damaged_corpus) = [SInt 1]"
    using scope by (simp add: verify_ml_training_windows_def damaged_rows window_mismatch_def Let_def)
  show "assess_drift sample_env asymptotic sample_registry damaged_corpus Own_Store ''m'' ''d'' alpha = Inl (Value_Error ''JSONDecodeError'')"
    using scope damaged by (simp add: assess_drift_def m read_ml_training_windows_by_ids_def damaged_rows bind_py_def)
  show "assess_drift sample_env asymptotic sample_registry old_schema_corpus Own_Store ''m'' ''d'' alpha = Inl (Key_Error (hd feature_names))"
    using old_scope by (simp add: assess_drift_def m read_ml_training_windows_by_ids_def old_rows bind_py_def Let_def source_dataset_def source_windows_def
        source_verdict_def read_ml_training_windows_def old_decoded old_dataset old_fingerprint)
qed

end
