(* ===== verification/Config_Layers.thy ===== *)
theory Config_Layers
  imports Py_Value
begin

unbundle bit_operations_syntax

text \<open>
  Runtime configuration (\<^verbatim>\<open>observability/config.py\<close>): defaults, then the configuration file, then the environment,
  each value coerced or refused, and the joint validation. Settings are kept by field name, as the table of field
  specifications reads them. Number parsing, the text of containers, the file system and the YAML reader are
  parameters; floats carry the three IEEE specials, which environment texts reach.
\<close>

section \<open>Values\<close>

datatype flt = Fin rat | Pos_Inf | Neg_Inf | NaN

fun flt_le :: "flt \<Rightarrow> flt \<Rightarrow> bool" where
  "flt_le NaN y = False"
| "flt_le x NaN = False"
| "flt_le Neg_Inf y = True"
| "flt_le x Pos_Inf = True"
| "flt_le (Fin a) (Fin b) = (a \<le> b)"
| "flt_le x y = False"

definition flt_lt :: "flt \<Rightarrow> flt \<Rightarrow> bool" where
  "flt_lt x y \<longleftrightarrow> flt_le x y \<and> x \<noteq> y"

datatype setting = Text string | No_Text | Whole int | Flag bool | Number flt

type_synonym settings = "(string \<times> setting) list"

datatype coercer = Co_Str | Co_Optional | Co_Int | Co_Float | Co_Bool | Co_Mode

record config_io =
  cf_int :: "string \<Rightarrow> int option"
  cf_based :: "string \<Rightarrow> int option"
  cf_octal :: "string \<Rightarrow> int option"
  cf_float :: "string \<Rightarrow> flt option"
  cf_shown :: "doc \<Rightarrow> string"
  cf_is_file :: "string \<Rightarrow> bool"
  cf_yaml :: "string \<Rightarrow> py_error + doc"

text \<open>\<open>str(raw)\<close>.\<close>

definition text_of :: "config_io \<Rightarrow> doc \<Rightarrow> string" where
  "text_of cf raw =
     (case raw of PStr s \<Rightarrow> s | PInt i \<Rightarrow> int_str i | PBool b \<Rightarrow> (if b then ''True'' else ''False'') | PNone \<Rightarrow> ''None'' | _ \<Rightarrow> cf_shown cf raw)"

definition config_error :: "string \<Rightarrow> string \<Rightarrow> py_error" where
  "config_error key what = Runtime_Error (key @ what)"

definition or_refuse :: "string \<Rightarrow> string \<Rightarrow> ('a \<Rightarrow> setting) \<Rightarrow> 'a option \<Rightarrow> py_error + setting" where
  "or_refuse key what f v = (case v of None \<Rightarrow> Inl (config_error key what) | Some x \<Rightarrow> Inr (f x))"

definition as_bool :: "config_io \<Rightarrow> doc \<Rightarrow> string \<Rightarrow> py_error + setting" where
  "as_bool cf raw key =
     (case raw of
        PBool b \<Rightarrow> Inr (Flag b)
      | _ \<Rightarrow> let text = lower (strip (text_of cf raw)) in
            if text \<in> {''1'', ''true'', ''yes'', ''on''} then Inr (Flag True)
            else if text \<in> {''0'', ''false'', ''no'', ''off''} then Inr (Flag False)
            else Inl (config_error key '': expected a boolean''))"

definition as_int_setting :: "config_io \<Rightarrow> doc \<Rightarrow> string \<Rightarrow> py_error + setting" where
  "as_int_setting cf raw key = or_refuse key '': expected an integer'' Whole (cf_int cf (strip (text_of cf raw)))"

definition as_float_setting :: "config_io \<Rightarrow> doc \<Rightarrow> string \<Rightarrow> py_error + setting" where
  "as_float_setting cf raw key = or_refuse key '': expected a number'' Number (cf_float cf (strip (text_of cf raw)))"

definition as_str_setting :: "config_io \<Rightarrow> doc \<Rightarrow> string \<Rightarrow> py_error + setting" where
  "as_str_setting cf raw key = (if raw = PNone then Inl (config_error key '': expected a string, got null'') else Inr (Text (text_of cf raw)))"

definition as_optional_str :: "config_io \<Rightarrow> doc \<Rightarrow> string \<Rightarrow> py_error + setting" where
  "as_optional_str cf raw key =
     (if raw = PNone then Inr No_Text
      else let text = strip (text_of cf raw) in Inr (if text = [] then No_Text else Text text))"

definition as_mode :: "config_io \<Rightarrow> doc \<Rightarrow> string \<Rightarrow> py_error + setting" where
  "as_mode cf raw key =
     (case raw of
        PBool _ \<Rightarrow> Inl (config_error key '': file modes must be quoted'')
      | PInt _ \<Rightarrow> Inl (config_error key '': file modes must be quoted'')
      | PFloat _ \<Rightarrow> Inl (config_error key '': file modes must be quoted'')
      | _ \<Rightarrow> let text = strip (text_of cf raw) in
            or_refuse key '': expected an octal file mode'' Whole
              (if take 2 (lower text) \<in> {''0o'', ''0x'', ''0b''} then cf_based cf text else cf_octal cf text))"

definition coerce :: "config_io \<Rightarrow> coercer \<Rightarrow> doc \<Rightarrow> string \<Rightarrow> py_error + setting" where
  "coerce cf c =
     (case c of Co_Str \<Rightarrow> as_str_setting cf | Co_Optional \<Rightarrow> as_optional_str cf | Co_Int \<Rightarrow> as_int_setting cf
      | Co_Float \<Rightarrow> as_float_setting cf | Co_Bool \<Rightarrow> as_bool cf | Co_Mode \<Rightarrow> as_mode cf)"

section \<open>Fields\<close>

definition default_settings :: settings where
  "default_settings =
     [(''db_path'', Text ''phase2_events.db''), (''db_file_mode'', Whole 384), (''db_enforce_mode'', Flag True), (''api_host'', Text ''127.0.0.1''),
      (''api_port'', Whole 8000), (''api_require_auth'', Flag True), (''api_tokens'', No_Text), (''api_token_file'', No_Text),
      (''stale_after_seconds'', Number (Fin 300)), (''queue_size'', Whole 1024), (''backpressure_timeout_seconds'', Number (Fin 2)),
      (''health_interval_seconds'', Number (Fin 1)), (''ingest_batch_size'', Whole 50), (''restart_initial_backoff_seconds'', Number (Fin 1)),
      (''restart_max_backoff_seconds'', Number (Fin 60)), (''restart_healthy_runtime_seconds'', Number (Fin 60)), (''crash_loop_threshold'', Whole 5),
      (''crash_loop_window_seconds'', Number (Fin 300)), (''quarantine_dir'', No_Text), (''quarantine_max_batches'', Whole 128),
      (''retention_max_age_days'', Number (Fin 30)), (''retention_max_db_bytes'', Whole 2147483648),
      (''retention_interval_seconds'', Number (Fin 3600)), (''retention_vacuum_interval_seconds'', Number (Fin 86400)),
      (''retention_prune_batch'', Whole 5000), (''alert_min_free_disk_bytes'', Whole 536870912),
      (''alert_min_free_disk_ratio'', Number (Fin (1 / 20))), (''alert_max_queue_fill_ratio'', Number (Fin (4 / 5))),
      (''alert_collector_silence_seconds'', Number (Fin 120)), (''failure_memory_high_pct'', Number (Fin 90)),
      (''failure_memory_medium_pct'', Number (Fin 80)), (''failure_memory_min_available_mb'', Whole 128), (''failure_cpu_high_pct'', Number (Fin 95)),
      (''failure_disk_full_pct'', Number (Fin 99)), (''failure_consecutive_windows'', Whole 2), (''failure_clear_windows'', Whole 2),
      (''failure_clear_ratio'', Number (Fin (9 / 10))), (''failure_crash_loop_threshold'', Whole 3),
      (''failure_crash_loop_window_seconds'', Number (Fin 600))]"

text \<open>Field, file key, environment variable, coercer.\<close>

definition field_specs :: "(string \<times> string \<times> string \<times> coercer) list" where
  "field_specs =
     [(''db_path'', ''db_path'', ''SECURITY_DB_PATH'', Co_Str), (''db_file_mode'', ''db_file_mode'', ''SECURITY_DB_FILE_MODE'', Co_Mode),
      (''db_enforce_mode'', ''db_enforce_mode'', ''SECURITY_DB_ENFORCE_MODE'', Co_Bool), (''api_host'', ''api_host'', ''SECURITY_API_HOST'', Co_Str),
      (''api_port'', ''api_port'', ''SECURITY_API_PORT'', Co_Int),
      (''api_require_auth'', ''api_require_auth'', ''SECURITY_API_REQUIRE_AUTH'', Co_Bool),
      (''api_tokens'', ''api_tokens'', ''SECURITY_API_TOKENS'', Co_Optional),
      (''api_token_file'', ''api_token_file'', ''SECURITY_API_TOKEN_FILE'', Co_Optional),
      (''stale_after_seconds'', ''stale_after_seconds'', ''TELEMETRY_STALE_AFTER_SECONDS'', Co_Float),
      (''queue_size'', ''queue_size'', ''SECURITY_QUEUE_SIZE'', Co_Int),
      (''backpressure_timeout_seconds'', ''backpressure_timeout_seconds'', ''SECURITY_BACKPRESSURE_TIMEOUT'', Co_Float),
      (''health_interval_seconds'', ''health_interval_seconds'', ''SECURITY_HEALTH_INTERVAL'', Co_Float),
      (''ingest_batch_size'', ''ingest_batch_size'', ''SECURITY_INGEST_BATCH_SIZE'', Co_Int),
      (''restart_initial_backoff_seconds'', ''restart_initial_backoff_seconds'', ''SECURITY_RESTART_INITIAL_BACKOFF'', Co_Float),
      (''restart_max_backoff_seconds'', ''restart_max_backoff_seconds'', ''SECURITY_RESTART_MAX_BACKOFF'', Co_Float),
      (''restart_healthy_runtime_seconds'', ''restart_healthy_runtime_seconds'', ''SECURITY_RESTART_HEALTHY_RUNTIME'', Co_Float),
      (''crash_loop_threshold'', ''crash_loop_threshold'', ''SECURITY_CRASH_LOOP_THRESHOLD'', Co_Int),
      (''crash_loop_window_seconds'', ''crash_loop_window_seconds'', ''SECURITY_CRASH_LOOP_WINDOW'', Co_Float),
      (''quarantine_dir'', ''quarantine_dir'', ''SECURITY_QUARANTINE_DIR'', Co_Optional),
      (''quarantine_max_batches'', ''quarantine_max_batches'', ''SECURITY_QUARANTINE_MAX_BATCHES'', Co_Int),
      (''retention_max_age_days'', ''retention_max_age_days'', ''SECURITY_RETENTION_MAX_AGE_DAYS'', Co_Float),
      (''retention_max_db_bytes'', ''retention_max_db_bytes'', ''SECURITY_RETENTION_MAX_DB_BYTES'', Co_Int),
      (''retention_interval_seconds'', ''retention_interval_seconds'', ''SECURITY_RETENTION_INTERVAL'', Co_Float),
      (''retention_vacuum_interval_seconds'', ''retention_vacuum_interval_seconds'', ''SECURITY_VACUUM_INTERVAL'', Co_Float),
      (''retention_prune_batch'', ''retention_prune_batch'', ''SECURITY_RETENTION_PRUNE_BATCH'', Co_Int),
      (''alert_min_free_disk_bytes'', ''alert_min_free_disk_bytes'', ''SECURITY_ALERT_MIN_FREE_DISK_BYTES'', Co_Int),
      (''alert_min_free_disk_ratio'', ''alert_min_free_disk_ratio'', ''SECURITY_ALERT_MIN_FREE_DISK_RATIO'', Co_Float),
      (''alert_max_queue_fill_ratio'', ''alert_max_queue_fill_ratio'', ''SECURITY_ALERT_MAX_QUEUE_FILL_RATIO'', Co_Float),
      (''alert_collector_silence_seconds'', ''alert_collector_silence_seconds'', ''SECURITY_ALERT_COLLECTOR_SILENCE'', Co_Float),
      (''failure_memory_high_pct'', ''failure_memory_high_pct'', ''SECURITY_FAILURE_MEMORY_HIGH_PCT'', Co_Float),
      (''failure_memory_medium_pct'', ''failure_memory_medium_pct'', ''SECURITY_FAILURE_MEMORY_MEDIUM_PCT'', Co_Float),
      (''failure_memory_min_available_mb'', ''failure_memory_min_available_mb'', ''SECURITY_FAILURE_MEMORY_MIN_AVAILABLE_MB'', Co_Int),
      (''failure_cpu_high_pct'', ''failure_cpu_high_pct'', ''SECURITY_FAILURE_CPU_HIGH_PCT'', Co_Float),
      (''failure_disk_full_pct'', ''failure_disk_full_pct'', ''SECURITY_FAILURE_DISK_FULL_PCT'', Co_Float),
      (''failure_consecutive_windows'', ''failure_consecutive_windows'', ''SECURITY_FAILURE_CONSECUTIVE_WINDOWS'', Co_Int),
      (''failure_clear_windows'', ''failure_clear_windows'', ''SECURITY_FAILURE_CLEAR_WINDOWS'', Co_Int),
      (''failure_clear_ratio'', ''failure_clear_ratio'', ''SECURITY_FAILURE_CLEAR_RATIO'', Co_Float),
      (''failure_crash_loop_threshold'', ''failure_crash_loop_threshold'', ''SECURITY_FAILURE_CRASH_LOOP_THRESHOLD'', Co_Int),
      (''failure_crash_loop_window_seconds'', ''failure_crash_loop_window_seconds'', ''SECURITY_FAILURE_CRASH_LOOP_WINDOW'', Co_Float)]"

definition field :: "settings \<Rightarrow> string \<Rightarrow> setting" where
  "field s k = (case map_of s k of None \<Rightarrow> No_Text | Some v \<Rightarrow> v)"

definition whole :: "settings \<Rightarrow> string \<Rightarrow> int" where
  "whole s k = (case field s k of Whole i \<Rightarrow> i | _ \<Rightarrow> 0)"

definition number :: "settings \<Rightarrow> string \<Rightarrow> flt" where
  "number s k = (case field s k of Number q \<Rightarrow> q | Whole i \<Rightarrow> Fin (of_int i) | _ \<Rightarrow> NaN)"

section \<open>Validation\<close>

definition max_queue_size :: int where
  "max_queue_size = 1048576"

definition positive_fields :: "string list" where
  "positive_fields =
     [''queue_size'', ''health_interval_seconds'', ''ingest_batch_size'', ''restart_initial_backoff_seconds'', ''restart_max_backoff_seconds'',
      ''crash_loop_threshold'', ''crash_loop_window_seconds'', ''retention_interval_seconds'', ''retention_prune_batch'', ''stale_after_seconds'',
      ''failure_memory_high_pct'', ''failure_memory_medium_pct'', ''failure_memory_min_available_mb'', ''failure_cpu_high_pct'', ''failure_disk_full_pct'',
      ''failure_consecutive_windows'', ''failure_clear_windows'', ''failure_crash_loop_threshold'', ''failure_crash_loop_window_seconds'']"

definition non_negative_fields :: "string list" where
  "non_negative_fields =
     [''backpressure_timeout_seconds'', ''retention_max_age_days'', ''retention_max_db_bytes'', ''retention_vacuum_interval_seconds'',
      ''alert_min_free_disk_bytes'', ''quarantine_max_batches'', ''alert_collector_silence_seconds'']"

definition ratio_fields :: "string list" where
  "ratio_fields = [''alert_min_free_disk_ratio'', ''alert_max_queue_fill_ratio'']"

definition percent_fields :: "string list" where
  "percent_fields = [''failure_memory_high_pct'', ''failure_memory_medium_pct'', ''failure_disk_full_pct'']"

text \<open>The checks in order: whether each fires, and its message.\<close>

definition checks :: "settings \<Rightarrow> (bool \<times> string) list" where
  "checks s =
     map (\<lambda>k. (flt_le (number s k) (Fin 0), k @ '': must be positive'')) positive_fields @
     [(max_queue_size < whole s ''queue_size'', ''queue_size: too large'')] @
     map (\<lambda>k. (flt_lt (number s k) (Fin 0), k @ '': must not be negative'')) non_negative_fields @
     map (\<lambda>k. (\<not> (flt_le (Fin 0) (number s k) \<and> flt_le (number s k) (Fin 1)), k @ '': must be a ratio between 0 and 1'')) ratio_fields @
     [(flt_lt (number s ''restart_max_backoff_seconds'') (number s ''restart_initial_backoff_seconds''),
         ''restart_max_backoff_seconds must be >= restart_initial_backoff_seconds''),
      (\<not> (1 \<le> whole s ''api_port'' \<and> whole s ''api_port'' \<le> 65535), ''api_port: must be a valid TCP port''),
      (whole s ''db_file_mode'' AND 0x3F \<noteq> 0, ''db_file_mode: grants group or other access'')] @
     map (\<lambda>k. (flt_lt (Fin 100) (number s k), k @ '': is a percentage and must be <= 100'')) percent_fields @
     [(flt_le (number s ''failure_memory_high_pct'') (number s ''failure_memory_medium_pct''),
         ''failure_memory_medium_pct must be below failure_memory_high_pct''),
      (\<not> (flt_lt (Fin 0) (number s ''failure_clear_ratio'') \<and> flt_le (number s ''failure_clear_ratio'') (Fin 1)),
         ''failure_clear_ratio: must be in (0, 1]'')]"

definition validate_settings :: "settings \<Rightarrow> py_error + settings" where
  "validate_settings s = (case find fst (checks s) of None \<Rightarrow> Inr s | Some (_, message) \<Rightarrow> Inl (Runtime_Error message))"

section \<open>Loading\<close>

type_synonym environment = "(string \<times> string) list"

definition default_config_paths :: "string list" where
  "default_config_paths = [''/etc/linux-xai-security/config.yaml'', ''/etc/linux-xai-security/config.yml'']"

definition config_file_path :: "config_io \<Rightarrow> environment \<Rightarrow> py_error + string option" where
  "config_file_path cf env =
     (let requested = strip (case map_of env ''SECURITY_CONFIG_FILE'' of None \<Rightarrow> [] | Some s \<Rightarrow> s)
      in if requested \<noteq> []
         then (if cf_is_file cf requested then Inr (Some requested)
               else Inl (Runtime_Error ''SECURITY_CONFIG_FILE: not a readable file''))
         else Inr (find (cf_is_file cf) default_config_paths))"

definition file_keys :: "string list" where
  "file_keys = map (\<lambda>(name, file_key, env_key, c). file_key) field_specs"

definition read_config_file :: "config_io \<Rightarrow> string \<Rightarrow> py_error + rat pymap" where
  "read_config_file cf path =
     (case cf_yaml cf path of
        Inl e \<Rightarrow> Inl e
      | Inr document \<Rightarrow>
          (case document of
             PNone \<Rightarrow> Inr []
           | PDict d \<Rightarrow> (case find (\<lambda>k. k \<notin> set file_keys) (sort (map fst d)) of
                 Some k \<Rightarrow> Inl (Runtime_Error (''unknown keys: '' @ k)) | None \<Rightarrow> Inr d)
           | _ \<Rightarrow> Inl (Runtime_Error ''must contain a YAML mapping'')))"

text \<open>One turn of the loop over the fields: the file value is coerced even when the environment replaces it.\<close>

definition load_field :: "config_io \<Rightarrow> rat pymap \<Rightarrow> environment \<Rightarrow> string \<Rightarrow> string \<Rightarrow> coercer \<Rightarrow> py_error + setting option" where
  "load_field cf d env file_key env_key c =
     (case (case map_of d file_key of None \<Rightarrow> Inr None | Some raw \<Rightarrow> (case coerce cf c raw file_key of Inl e \<Rightarrow> Inl e | Inr v \<Rightarrow> Inr (Some v))) of
        Inl e \<Rightarrow> Inl e
      | Inr from_file \<Rightarrow>
          (case map_of env env_key of
             None \<Rightarrow> Inr from_file
           | Some raw \<Rightarrow> if raw = [] then Inr from_file
               else (case coerce cf c (PStr raw) env_key of Inl e \<Rightarrow> Inl e | Inr v \<Rightarrow> Inr (Some v))))"

fun load_fields :: "config_io \<Rightarrow> rat pymap \<Rightarrow> environment \<Rightarrow> (string \<times> string \<times> string \<times> coercer) list \<Rightarrow> py_error + settings" where
  "load_fields cf d env [] = Inr []"
| "load_fields cf d env ((name, file_key, env_key, c) # specs) =
     (case load_field cf d env file_key env_key c of
        Inl e \<Rightarrow> Inl e
      | Inr v \<Rightarrow> (case load_fields cf d env specs of
            Inl e \<Rightarrow> Inl e
          | Inr values \<Rightarrow> Inr ((case v of None \<Rightarrow> [] | Some x \<Rightarrow> [(name, x)]) @ values)))"

text \<open>\<open>Settings(**values)\<close>.\<close>

definition with_defaults :: "settings \<Rightarrow> settings" where
  "with_defaults values = map (\<lambda>(k, v). (k, case map_of values k of None \<Rightarrow> v | Some x \<Rightarrow> x)) default_settings"

definition load_settings :: "config_io \<Rightarrow> environment \<Rightarrow> string option \<Rightarrow> py_error + settings" where
  "load_settings cf env config_path =
     (case (case config_path of Some p \<Rightarrow> Inr (Some p) | None \<Rightarrow> config_file_path cf env) of
        Inl e \<Rightarrow> Inl e
      | Inr path \<Rightarrow>
          (case (case path of None \<Rightarrow> Inr [] | Some p \<Rightarrow> read_config_file cf p) of
             Inl e \<Rightarrow> Inl e
           | Inr d \<Rightarrow> (case load_fields cf d env field_specs of
                 Inl e \<Rightarrow> Inl e
               | Inr values \<Rightarrow> validate_settings (with_defaults values))))"

text \<open>\<open>Settings.replace\<close>; an unknown name is a \<open>TypeError\<close> of the constructor.\<close>

definition replace_settings :: "settings \<Rightarrow> settings \<Rightarrow> py_error + settings" where
  "replace_settings overrides s =
     (if list_all (\<lambda>(k, _). k \<in> set (map fst default_settings)) overrides
      then Inr (map (\<lambda>(k, v). (k, case map_of overrides k of None \<Rightarrow> v | Some x \<Rightarrow> x)) s)
      else Inl (Type_Error ''unexpected keyword argument''))"

end
