(* ===== verification/Monitoring.thy ===== *)
theory Monitoring
  imports Config_Layers Live_Ingestion Supervision Evidence_Tables
begin

text \<open>
  The operational rows of \<^verbatim>\<open>storage/sqlite_store.py\<close> and what is derived from them: the collector runtime row, the
  per-source rows, the snapshot of \<^verbatim>\<open>observability/metrics.py\<close> with its probes and its text exposition. The file system
  enters as the modes and sizes \<open>os.stat\<close> gives, a database failure as the call that raised.
\<close>

section \<open>The collector runtime row\<close>

definition collector_health_columns :: "(string \<times> sqlval) list" where
  "collector_health_columns =
     [(''status'', SText ''unknown''), (''detail'', SNull), (''error'', SNull), (''started_at'', SNull), (''stopped_at'', SNull),
      (''last_event_timestamp'', SNull), (''processed_count'', SInt 0), (''malformed_count'', SInt 0), (''dropped_event_count'', SInt 0),
      (''duplicate_count'', SInt 0), (''throughput'', SReal 0), (''updated_at'', SNull), (''queue_depth'', SInt 0), (''queue_capacity'', SInt 0),
      (''queue_high_water_mark'', SInt 0), (''backpressure_wait_seconds'', SReal 0), (''backpressure_wait_count'', SInt 0),
      (''first_drop_timestamp'', SNull), (''last_drop_timestamp'', SNull), (''kernel_lost_event_count'', SInt 0),
      (''first_kernel_loss_timestamp'', SNull), (''last_kernel_loss_timestamp'', SNull), (''quarantined_batch_count'', SInt 0),
      (''quarantined_event_count'', SInt 0)]"

text \<open>The values of an upsert: a missing key and an explicit None both give the declared default.\<close>

definition row_values :: "(string \<times> sqlval) list \<Rightarrow> row \<Rightarrow> row" where
  "row_values columns r = map_of (map (\<lambda>(c, d). (c, if rget r c = SNull then d else rget r c)) columns)"

definition write_collector_health :: "row \<Rightarrow> row option \<Rightarrow> row option" where
  "write_collector_health health runtime = Some ((row_values collector_health_columns health)(''id'' \<mapsto> SInt 1))"

definition read_collector_health :: "row option \<Rightarrow> row option" where
  "read_collector_health runtime = runtime"

definition status_name :: "ingest_status \<Rightarrow> string" where
  "status_name s =
     (case s of St_Unknown \<Rightarrow> ''unknown'' | St_Running \<Rightarrow> ''running'' | St_Stopping \<Rightarrow> ''stopping'' | St_Stopped \<Rightarrow> ''stopped'' | St_Failed \<Rightarrow> ''failed'')"

definition real_or_null :: "rat option \<Rightarrow> sqlval" where
  "real_or_null v = (case v of None \<Rightarrow> SNull | Some q \<Rightarrow> SReal q)"

text \<open>The dictionary \<open>_persist_health\<close> hands to the store.\<close>

definition health_report :: "ingest_health \<Rightarrow> string \<Rightarrow> string option \<Rightarrow> rat option \<Rightarrow> rat option \<Rightarrow> nat \<Rightarrow> nat \<Rightarrow> nat \<Rightarrow> rat \<Rightarrow> row" where
  "health_report h detail err started stopped depth capacity high now =
     (let elapsed = (case started of None \<Rightarrow> 1 / 1000 | Some t \<Rightarrow> if t = 0 then 1 / 1000 else max (now - t) (1 / 1000)) in
     [''status'' \<mapsto> SText (status_name (ih_status h)), ''detail'' \<mapsto> SText detail, ''error'' \<mapsto> text_opt err,
      ''started_at'' \<mapsto> real_or_null started, ''stopped_at'' \<mapsto> real_or_null stopped, ''last_event_timestamp'' \<mapsto> real_or_null (ih_last_event h),
      ''processed_count'' \<mapsto> SInt (int (ih_processed h)), ''malformed_count'' \<mapsto> SInt (int (ih_malformed h)),
      ''dropped_event_count'' \<mapsto> SInt (int (ih_dropped h)), ''duplicate_count'' \<mapsto> SInt (int (ih_duplicates h)),
      ''throughput'' \<mapsto> SReal (of_nat (ih_processed h) / elapsed), ''updated_at'' \<mapsto> SReal now, ''queue_depth'' \<mapsto> SInt (int depth),
      ''queue_capacity'' \<mapsto> SInt (int capacity), ''queue_high_water_mark'' \<mapsto> SInt (int high),
      ''backpressure_wait_seconds'' \<mapsto> SReal (ih_wait_seconds h), ''backpressure_wait_count'' \<mapsto> SInt (int (ih_wait_count h)),
      ''first_drop_timestamp'' \<mapsto> real_or_null (ih_first_drop h), ''last_drop_timestamp'' \<mapsto> real_or_null (ih_last_drop h),
      ''kernel_lost_event_count'' \<mapsto> SInt (ih_kernel_lost h), ''first_kernel_loss_timestamp'' \<mapsto> real_or_null (ih_first_kernel_loss h),
      ''last_kernel_loss_timestamp'' \<mapsto> real_or_null (ih_last_kernel_loss h), ''quarantined_batch_count'' \<mapsto> SInt (int (ih_quarantined_batches h)),
      ''quarantined_event_count'' \<mapsto> SInt (int (ih_quarantined_events h))])"

section \<open>The source rows\<close>

definition collector_source_columns :: "(string \<times> sqlval) list" where
  "collector_source_columns =
     [(''status'', SText ''unknown''), (''detail'', SNull), (''error'', SNull), (''started_at'', SNull), (''stopped_at'', SNull),
      (''last_event_timestamp'', SNull), (''processed_count'', SInt 0), (''restart_count'', SInt 0), (''consecutive_failures'', SInt 0),
      (''last_failure_at'', SNull), (''next_restart_at'', SNull), (''backoff_seconds'', SReal 0), (''crash_looping'', SInt 0),
      (''quarantined_batch_count'', SInt 0), (''quarantined_event_count'', SInt 0), (''updated_at'', SNull)]"

type_synonym sources = "(string \<times> row) list"

text \<open>An upsert by primary key: an existing row keeps its place.\<close>

fun upsert :: "'k \<Rightarrow> 'v \<Rightarrow> ('k \<times> 'v) list \<Rightarrow> ('k \<times> 'v) list" where
  "upsert k v [] = [(k, v)]"
| "upsert k v ((j, w) # kvs) = (if j = k then (k, v) # kvs else (j, w) # upsert k v kvs)"

definition write_source_state :: "string \<Rightarrow> row \<Rightarrow> sources \<Rightarrow> py_error + sources" where
  "write_source_state name state rows =
     (if name = [] then Inl (Value_Error ''source name is required'')
      else let r = row_values collector_source_columns state
           in Inr (upsert name (r(''crash_looping'' \<mapsto> SInt (if rget r ''crash_looping'' = SInt 0 then 0 else 1), ''name'' \<mapsto> SText name)) rows))"

definition read_source_states :: "sources \<Rightarrow> row list" where
  "read_source_states rows = map snd (sort_key fst rows)"

definition source_status_name :: "source_status \<Rightarrow> string" where
  "source_status_name s =
     (case s of Starting \<Rightarrow> ''starting'' | Running \<Rightarrow> ''running'' | Backoff \<Rightarrow> ''backoff'' | Degraded \<Rightarrow> ''degraded'' | Stopped \<Rightarrow> ''stopped'')"

text \<open>\<open>SourceState.to_dict\<close>.\<close>

definition source_row :: "source_state \<Rightarrow> row" where
  "source_row s =
     [''name'' \<mapsto> SText (so_name s), ''status'' \<mapsto> SText (source_status_name (so_status s)), ''detail'' \<mapsto> text_opt (so_detail s),
      ''error'' \<mapsto> text_opt (so_error s), ''started_at'' \<mapsto> real_or_null (so_started_at s), ''stopped_at'' \<mapsto> real_or_null (so_stopped_at s),
      ''last_event_timestamp'' \<mapsto> real_or_null (so_last_event s), ''processed_count'' \<mapsto> SInt (int (so_processed s)),
      ''restart_count'' \<mapsto> SInt (int (so_restart_count s)), ''consecutive_failures'' \<mapsto> SInt (int (so_consecutive_failures s)),
      ''last_failure_at'' \<mapsto> real_or_null (so_last_failure_at s), ''next_restart_at'' \<mapsto> real_or_null (so_next_restart_at s),
      ''backoff_seconds'' \<mapsto> SReal (so_backoff_seconds s), ''crash_looping'' \<mapsto> SInt (if so_crash_looping s then 1 else 0),
      ''quarantined_batch_count'' \<mapsto> SInt (int (so_quarantined_batches s)), ''quarantined_event_count'' \<mapsto> SInt (int (so_quarantined_events s)),
      ''updated_at'' \<mapsto> real_or_null (so_updated_at s)]"

section \<open>The snapshot\<close>

record disk_usage =
  du_total :: nat
  du_used :: nat
  du_free :: nat

definition free_ratio :: "disk_usage \<Rightarrow> rat" where
  "free_ratio d = (if du_total d = 0 then 1 else of_nat (du_free d) / of_nat (du_total d))"

record snapshot =
  sn_collected :: rat
  sn_event_count :: nat
  sn_latest :: "rat option"
  sn_oldest :: "rat option"
  sn_finding_count :: nat
  sn_severities :: "(string \<times> nat) list"
  sn_database_bytes :: nat
  sn_permissions :: "(string \<times> int option) list"
  sn_collector :: row
  sn_sources :: "row list"
  sn_disk :: disk_usage
  sn_error :: "string option"

definition data_age :: "snapshot \<Rightarrow> rat option" where
  "data_age s = map_option (\<lambda>t. max (sn_collected s - t) 0) (sn_latest s)"

text \<open>\<open>updated_at\<close> is a REAL column.\<close>

definition real_of :: "sqlval \<Rightarrow> rat option" where
  "real_of v = (case v of SReal q \<Rightarrow> Some q | SInt i \<Rightarrow> Some (of_int i) | _ \<Rightarrow> None)"

definition collector_age :: "snapshot \<Rightarrow> rat option" where
  "collector_age s = map_option (\<lambda>t. max (sn_collected s - t) 0) (real_of (rget (sn_collector s) ''updated_at''))"

definition column_text :: "sqlval \<Rightarrow> string" where
  "column_text v = (case v of SText s \<Rightarrow> s | SInt i \<Rightarrow> int_str i | _ \<Rightarrow> ''None'')"

definition degraded_sources :: "snapshot \<Rightarrow> string list" where
  "degraded_sources s = map (\<lambda>r. column_text (rget r ''name'')) (filter (\<lambda>r. rget r ''status'' = SText ''degraded'') (sn_sources s))"

definition insecure_files :: "snapshot \<Rightarrow> string list" where
  "insecure_files s =
     map fst (filter (\<lambda>(path, mode). case mode of None \<Rightarrow> False | Some m \<Rightarrow> m AND 0x3F \<noteq> 0) (sort_key fst (sn_permissions s)))"

text \<open>\<open>int(collector.get(c) or 0)\<close> on an INTEGER column.\<close>

definition counter_of :: "row \<Rightarrow> string \<Rightarrow> int" where
  "counter_of r c = (case rget r c of SInt i \<Rightarrow> i | _ \<Rightarrow> 0)"

definition queue_fill_ratio :: "snapshot \<Rightarrow> rat option" where
  "queue_fill_ratio s =
     (let capacity = counter_of (sn_collector s) ''queue_capacity''
      in if capacity = 0 then None else Some (of_int (counter_of (sn_collector s) ''queue_depth'') / of_int capacity))"

definition dropped_events :: "snapshot \<Rightarrow> int" where
  "dropped_events s = counter_of (sn_collector s) ''dropped_event_count''"

definition kernel_lost_events :: "snapshot \<Rightarrow> int" where
  "kernel_lost_events s = counter_of (sn_collector s) ''kernel_lost_event_count''"

definition quarantined_events :: "snapshot \<Rightarrow> int" where
  "quarantined_events s = counter_of (sn_collector s) ''quarantined_event_count''"

section \<open>Collecting it\<close>

text \<open>\<open>mo_files\<close>: mode and size of the database file and its two sidecars, None for a file that is not there.\<close>

record monitor_store =
  mo_events :: event_table
  mo_findings :: table
  mo_runtime :: "row option"
  mo_sources :: sources
  mo_files :: "(string \<times> (int \<times> nat) option) list"
  mo_disk :: "disk_usage option"

definition file_permissions :: "monitor_store \<Rightarrow> (string \<times> int option) list" where
  "file_permissions m = map (\<lambda>(path, stat). (path, map_option fst stat)) (mo_files m)"

definition database_bytes :: "monitor_store \<Rightarrow> nat" where
  "database_bytes m = sum_list (map (\<lambda>(path, stat). case stat of None \<Rightarrow> 0 | Some (mode, bytes) \<Rightarrow> bytes) (mo_files m))"

definition measured_disk :: "monitor_store \<Rightarrow> disk_usage" where
  "measured_disk m = (case mo_disk m of None \<Rightarrow> \<lparr>du_total = 0, du_used = 0, du_free = 0\<rparr> | Some d \<Rightarrow> d)"

text \<open>The assignments in order; a store call that raises ends them.\<close>

definition snapshot_steps :: "monitor_store \<Rightarrow> (snapshot \<Rightarrow> snapshot) list" where
  "snapshot_steps m =
     [\<lambda>s. s\<lparr>sn_event_count := count_events (mo_events m)\<rparr>,
      \<lambda>s. s\<lparr>sn_latest := latest_event_timestamp (mo_events m)\<rparr>,
      \<lambda>s. s\<lparr>sn_oldest := oldest_event_timestamp (mo_events m)\<rparr>,
      \<lambda>s. (let sev = map (\<lambda>(v, n). (column_text v, n)) (count_findings_by_severity (mo_findings m))
           in s\<lparr>sn_severities := sev, sn_finding_count := sum_list (map snd sev)\<rparr>),
      \<lambda>s. s\<lparr>sn_database_bytes := database_bytes m\<rparr>,
      \<lambda>s. s\<lparr>sn_permissions := file_permissions m\<rparr>,
      \<lambda>s. s\<lparr>sn_collector := (case read_collector_health (mo_runtime m) of None \<Rightarrow> Map.empty | Some r \<Rightarrow> r)\<rparr>,
      \<lambda>s. s\<lparr>sn_sources := read_source_states (mo_sources m)\<rparr>]"

definition blank_snapshot :: "rat \<Rightarrow> disk_usage \<Rightarrow> snapshot" where
  "blank_snapshot now disk =
     \<lparr>sn_collected = now, sn_event_count = 0, sn_latest = None, sn_oldest = None, sn_finding_count = 0, sn_severities = [],
      sn_database_bytes = 0, sn_permissions = [], sn_collector = Map.empty, sn_sources = [], sn_disk = disk, sn_error = None\<rparr>"

definition collect_snapshot :: "rat \<Rightarrow> (nat \<times> string) option \<Rightarrow> monitor_store \<Rightarrow> snapshot" where
  "collect_snapshot now failure m =
     (let s = blank_snapshot now (measured_disk m) in
      case failure of
        None \<Rightarrow> fold (\<lambda>f. f) (snapshot_steps m) s
      | Some (n, message) \<Rightarrow> (fold (\<lambda>f. f) (take n (snapshot_steps m)) s)\<lparr>sn_error := Some message\<rparr>)"

section \<open>Probes\<close>

definition alive :: "snapshot \<Rightarrow> bool" where
  "alive s = True"

datatype unready_reason = Database_Unavailable string | Files_Insecure "string list" | No_Telemetry | Data_Stale rat flt

definition unready_reasons :: "settings \<Rightarrow> snapshot \<Rightarrow> unready_reason list" where
  "unready_reasons cfg s =
     (case sn_error s of None \<Rightarrow> [] | Some e \<Rightarrow> if e = [] then [] else [Database_Unavailable e]) @
     (if insecure_files s \<noteq> [] then [Files_Insecure (insecure_files s)] else []) @
     (case data_age s of
        None \<Rightarrow> [No_Telemetry]
      | Some age \<Rightarrow> if flt_lt (number cfg ''stale_after_seconds'') (Fin age) then [Data_Stale age (number cfg ''stale_after_seconds'')] else [])"

record ready_detail =
  rd_reasons :: "unready_reason list"
  rd_event_count :: nat
  rd_age :: "rat option"
  rd_degraded :: "string list"

definition readiness :: "settings \<Rightarrow> snapshot \<Rightarrow> bool \<times> ready_detail" where
  "readiness cfg s =
     (unready_reasons cfg s = [],
      \<lparr>rd_reasons = unready_reasons cfg s, rd_event_count = sn_event_count s, rd_age = data_age s, rd_degraded = degraded_sources s\<rparr>)"

end
