(* ===== verification/Config_Properties.thy ===== *)
theory Config_Properties
  imports Config_Layers
begin

text \<open>What a started service may rely on: every value is the one written in the highest layer, and the bounds hold.\<close>

section \<open>Layers\<close>

lemma field_names: "map fst field_specs = map fst default_settings" "distinct (map fst default_settings)"
  by (simp_all add: field_specs_def default_settings_def)

definition env_value :: "environment \<Rightarrow> string \<Rightarrow> string option" where
  "env_value env k = (case map_of env k of None \<Rightarrow> None | Some raw \<Rightarrow> if raw = [] then None else Some raw)"

definition honoured :: "config_io \<Rightarrow> rat pymap \<Rightarrow> environment \<Rightarrow> setting \<Rightarrow> string \<times> string \<times> string \<times> coercer \<Rightarrow> bool" where
  "honoured cf d env v = (\<lambda>(name, file_key, env_key, c).
     (case env_value env env_key of
        Some raw \<Rightarrow> coerce cf c (PStr raw) env_key = Inr v
      | None \<Rightarrow> (case map_of d file_key of Some raw \<Rightarrow> coerce cf c raw file_key = Inr v | None \<Rightarrow> v = field default_settings name)))"

lemma load_field_honoured:
  "load_field cf d env file_key env_key c = Inr x \<Longrightarrow>
   honoured cf d env (case x of None \<Rightarrow> field default_settings name | Some v \<Rightarrow> v) (name, file_key, env_key, c)"
  by (auto simp: load_field_def honoured_def env_value_def split: option.splits sum.splits if_splits)

lemma load_fields_keys: "load_fields cf d env specs = Inr vals \<Longrightarrow> fst ` set vals \<subseteq> fst ` set specs"
proof (induction specs arbitrary: vals)
  case (Cons spec specs)
  obtain n f e k where spec: "spec = (n, f, e, k)" by (cases spec) auto
  obtain v rest where "load_fields cf d env specs = Inr rest" "vals = (case v of None \<Rightarrow> [] | Some x \<Rightarrow> [(n, x)]) @ rest"
    using Cons.prems by (auto simp: spec split: sum.splits)
  with Cons.IH [of rest] show ?case by (auto simp: spec split: option.splits)
qed simp

lemma load_fields_lookup:
  "load_fields cf d env specs = Inr vals \<Longrightarrow> distinct (map fst specs) \<Longrightarrow> (name, file_key, env_key, c) \<in> set specs \<Longrightarrow>
   load_field cf d env file_key env_key c = Inr (map_of vals name)"
proof (induction specs arbitrary: vals)
  case (Cons spec specs)
  obtain n f e k where spec: "spec = (n, f, e, k)" by (cases spec) auto
  obtain v rest where v: "load_field cf d env f e k = Inr v" and rest: "load_fields cf d env specs = Inr rest"
    and vals: "vals = (case v of None \<Rightarrow> [] | Some x \<Rightarrow> [(n, x)]) @ rest"
    using Cons.prems(1) by (auto simp: spec split: sum.splits)
  show ?case
  proof (cases "(name, file_key, env_key, c) = (n, f, e, k)")
    case True
    have "n \<notin> fst ` set rest" using load_fields_keys [OF rest] Cons.prems(2) spec by auto
    then have "map_of rest n = None" by (simp add: map_of_eq_None_iff)
    with True v show ?thesis by (auto simp: vals split: option.splits)
  next
    case False
    then have m: "(name, file_key, env_key, c) \<in> set specs" using Cons.prems(3) spec by auto
    then have "name \<noteq> n" using Cons.prems(2) spec by force
    with Cons.IH [OF rest _ m] Cons.prems(2) show ?thesis by (auto simp: vals split: option.splits)
  qed
qed simp

lemma with_defaults_field:
  assumes "name \<in> set (map fst default_settings)"
  shows "field (with_defaults vals) name = (case map_of vals name of None \<Rightarrow> field default_settings name | Some v \<Rightarrow> v)"
proof -
  have "map_of (map (\<lambda>(k, v). (k, case map_of vals k of None \<Rightarrow> v | Some x \<Rightarrow> x)) ds) name =
      map_option (\<lambda>v. case map_of vals name of None \<Rightarrow> v | Some x \<Rightarrow> x) (map_of ds name)" for ds
    by (induction ds) (auto split: option.split)
  moreover obtain v where "map_of default_settings name = Some v" using assms map_of_eq_None_iff [of default_settings name] by (metis not_None_eq list.set_map)
  ultimately show ?thesis unfolding field_def with_defaults_def by (simp split: option.split)
qed

lemma loaded:
  assumes "load_settings cf env (Some p) = Inr s"
  shows "\<exists>d vals. read_config_file cf p = Inr d \<and> load_fields cf d env field_specs = Inr vals \<and> s = with_defaults vals \<and>
    find fst (checks s) = None"
  using assms by (auto simp: load_settings_def validate_settings_def split: sum.splits option.splits prod.splits)

lemma loaded_any:
  assumes "load_settings cf env path = Inr s"
  shows "\<exists>d vals. load_fields cf d env field_specs = Inr vals \<and> s = with_defaults vals \<and> find fst (checks s) = None"
  using assms by (auto simp: load_settings_def validate_settings_def split: sum.splits option.splits prod.splits)

lemma fields_honoured:
  assumes "load_fields cf d env field_specs = Inr vals"
  shows "list_all (\<lambda>spec. honoured cf d env (field (with_defaults vals) (fst spec)) spec) field_specs"
proof -
  have "honoured cf d env (field (with_defaults vals) n) (n, f, e, c)" if m: "(n, f, e, c) \<in> set field_specs" for n f e c
  proof -
    have "n \<in> set (map fst default_settings)" using m field_names(1) by (metis fst_conv image_eqI list.set_map)
    then show ?thesis
      using load_field_honoured [OF load_fields_lookup [OF assms _ m], of n] field_names by (simp add: with_defaults_field)
  qed
  then show ?thesis by (auto simp: list_all_iff)
qed


section \<open>Bounds\<close>

definition kind_ok :: "coercer \<Rightarrow> setting \<Rightarrow> bool" where
  "kind_ok c v \<longleftrightarrow>
     (case v of
        Text _ \<Rightarrow> c \<in> {Co_Str, Co_Optional} | No_Text \<Rightarrow> c = Co_Optional | Whole _ \<Rightarrow> c \<in> {Co_Int, Co_Mode}
      | Flag _ \<Rightarrow> c = Co_Bool | Number _ \<Rightarrow> c = Co_Float)"

lemma coerce_kind: "coerce cf c raw key = Inr v \<Longrightarrow> kind_ok c v"
  by (cases c)
    (auto simp: coerce_def kind_ok_def as_str_setting_def as_optional_str_def as_int_setting_def as_float_setting_def as_bool_def as_mode_def
      or_refuse_def Let_def split: option.splits pyobj.splits if_splits)

lemma default_kinds: "list_all (\<lambda>(name, file_key, env_key, c). kind_ok c (field default_settings name)) field_specs"
proof -
  have both: "list_all2 (\<lambda>spec kv. fst spec = fst kv \<and> kind_ok (snd (snd (snd spec))) (snd kv)) field_specs default_settings"
    unfolding field_specs_def default_settings_def by (simp add: kind_ok_def)
  have "kind_ok c (field default_settings n)" if m: "(n, f, e, c) \<in> set field_specs" for n f e c
  proof -
    obtain i where i: "i < length field_specs" "field_specs ! i = (n, f, e, c)" using m by (metis in_set_conv_nth)
    note at = list_all2_nthD [OF both i(1)]
    have "default_settings ! i \<in> set default_settings" using both i(1) by (simp add: list_all2_lengthD)
    moreover have "default_settings ! i = (n, snd (default_settings ! i))" using at i(2) by (simp add: prod_eq_iff)
    ultimately have "map_of default_settings n = Some (snd (default_settings ! i))"
      using map_of_is_SomeI [OF field_names(2)] by metis
    then show ?thesis using at i(2) by (simp add: field_def)
  qed
  then show ?thesis by (auto simp: list_all_iff)
qed

lemma honoured_kind:
  assumes "honoured cf d env v spec" and "spec \<in> set field_specs"
  shows "case spec of (name, file_key, env_key, c) \<Rightarrow> kind_ok c v"
  using assms default_kinds by (auto simp: honoured_def list_all_iff split: option.splits dest: coerce_kind)

definition positive_number :: "flt \<Rightarrow> bool" where
  "positive_number x \<longleftrightarrow> x = NaN \<or> flt_lt (Fin 0) x"

definition settings_bounded :: "settings \<Rightarrow> bool" where
  "settings_bounded s \<longleftrightarrow> map fst s = map fst default_settings \<and>
     list_all (\<lambda>(name, file_key, env_key, c). kind_ok c (field s name)) field_specs \<and>
     list_all (\<lambda>k. positive_number (number s k)) positive_fields \<and>
     list_all (\<lambda>k. number s k = NaN \<or> flt_le (Fin 0) (number s k)) non_negative_fields \<and>
     list_all (\<lambda>k. flt_le (Fin 0) (number s k) \<and> flt_le (number s k) (Fin 1)) ratio_fields \<and>
     list_all (\<lambda>k. number s k = NaN \<or> flt_le (number s k) (Fin 100)) percent_fields \<and>
     1 \<le> whole s ''queue_size'' \<and> whole s ''queue_size'' \<le> max_queue_size \<and> 1 \<le> whole s ''ingest_batch_size'' \<and>
     1 \<le> whole s ''crash_loop_threshold'' \<and> 1 \<le> whole s ''failure_consecutive_windows'' \<and>
     1 \<le> whole s ''api_port'' \<and> whole s ''api_port'' \<le> 65535 \<and> whole s ''db_file_mode'' AND 0x3F = 0 \<and>
     flt_lt (Fin 0) (number s ''failure_clear_ratio'') \<and> flt_le (number s ''failure_clear_ratio'') (Fin 1)"

lemma flt_facts:
  "\<not> flt_le x (Fin 0) \<Longrightarrow> positive_number x"
  "\<not> flt_lt x (Fin a) \<Longrightarrow> x = NaN \<or> flt_le (Fin a) x"
  "\<not> flt_lt (Fin a) x \<Longrightarrow> x = NaN \<or> flt_le x (Fin a)"
  by (cases x; auto simp: positive_number_def flt_lt_def)+

lemma whole_positive:
  assumes "kind_ok c (field s k)" and "c \<in> {Co_Int, Co_Mode}" and "\<not> flt_le (number s k) (Fin 0)"
  shows "1 \<le> whole s k"
  using assms by (cases "field s k") (auto simp: kind_ok_def number_def whole_def)

lemma with_defaults_names: "map fst (with_defaults vals) = map fst default_settings"
  unfolding with_defaults_def by (rule nth_equalityI) (simp_all add: split_beta)


end
