(* ===== verification/Alerting.thy ===== *)
theory Alerting
  imports Monitoring Config_Properties "HOL-Library.Product_Lexorder" "HOL-Library.List_Lexorder" "HOL-Library.Char_ord"
begin

text \<open>
  The alert rules of \<^verbatim>\<open>observability/alerts.py\<close> over one snapshot, and the alert round of the unattended service
  (\<^verbatim>\<open>pipeline/service.py\<close>), which logs what was not firing before. Summaries are left out; the value and the
  threshold of an alert are kept.
\<close>

section \<open>Rules\<close>

datatype alert_severity = Critical | Warning

record alert =
  al_name :: string
  al_severity :: alert_severity
  al_source :: "string option"
  al_value :: "rat option"
  al_threshold :: "flt option"

definition critical :: "string \<Rightarrow> rat option \<Rightarrow> flt option \<Rightarrow> alert" where
  "critical n v t = \<lparr>al_name = n, al_severity = Critical, al_source = None, al_value = v, al_threshold = t\<rparr>"

definition warning :: "string \<Rightarrow> rat option \<Rightarrow> flt option \<Rightarrow> alert" where
  "warning n v t = \<lparr>al_name = n, al_severity = Warning, al_source = None, al_value = v, al_threshold = t\<rparr>"

definition count_alert :: "(string \<Rightarrow> rat option \<Rightarrow> flt option \<Rightarrow> alert) \<Rightarrow> string \<Rightarrow> int \<Rightarrow> alert list" where
  "count_alert f n i = (if i \<noteq> 0 then [f n (Some (of_int i)) (Some (Fin 0))] else [])"

text \<open>An empty or absent chain status is not looked at.\<close>

definition trust_alerts :: "snapshot \<Rightarrow> (string \<times> bool) list option \<Rightarrow> alert list" where
  "trust_alerts s verified =
     (case sn_error s of None \<Rightarrow> [] | Some e \<Rightarrow> if e = [] then [] else [critical ''database_unavailable'' None None]) @
     count_alert critical ''database_permissions_insecure'' (int (length (insecure_files s))) @
     (case verified of None \<Rightarrow> [] | Some status \<Rightarrow> count_alert critical ''evidence_chain_broken'' (int (length (filter (\<lambda>(t, b). \<not> b) status))))"

definition loss_alerts :: "snapshot \<Rightarrow> alert list" where
  "loss_alerts s =
     count_alert critical ''events_dropped'' (dropped_events s) @
     count_alert critical ''kernel_events_lost'' (kernel_lost_events s) @
     count_alert warning ''events_quarantined'' (quarantined_events s)"

definition collector_alerts :: "settings \<Rightarrow> snapshot \<Rightarrow> alert list" where
  "collector_alerts cfg s =
     map (\<lambda>n. (critical ''collector_degraded'' None None)\<lparr>al_source := Some n\<rparr>) (degraded_sources s) @
     (let limit = number cfg ''alert_collector_silence_seconds'' in
      case collector_age s of
        None \<Rightarrow> []
      | Some age \<Rightarrow> if flt_lt (Fin 0) limit \<and> flt_lt limit (Fin age) then [critical ''collector_health_stale'' (Some age) (Some limit)] else [])"

definition stale_alerts :: "settings \<Rightarrow> snapshot \<Rightarrow> alert list" where
  "stale_alerts cfg s =
     (let limit = number cfg ''stale_after_seconds'' in
      case data_age s of
        None \<Rightarrow> []
      | Some age \<Rightarrow> if flt_lt limit (Fin age) then [critical ''telemetry_stale'' (Some age) (Some limit)] else [])"

definition disk_alerts :: "settings \<Rightarrow> snapshot \<Rightarrow> alert list" where
  "disk_alerts cfg s =
     (let d = sn_disk s; floor_bytes = whole cfg ''alert_min_free_disk_bytes''; floor_ratio = number cfg ''alert_min_free_disk_ratio'' in
      if du_total d = 0 then []
      else if int (du_free d) < floor_bytes then [critical ''disk_space_low'' (Some (of_nat (du_free d))) (Some (Fin (of_int floor_bytes)))]
      else if flt_lt (Fin (free_ratio d)) floor_ratio then [warning ''disk_space_low_ratio'' (Some (free_ratio d)) (Some floor_ratio)]
      else [])"

definition queue_alerts :: "settings \<Rightarrow> snapshot \<Rightarrow> alert list" where
  "queue_alerts cfg s =
     (let limit = number cfg ''alert_max_queue_fill_ratio'' in
      case queue_fill_ratio s of
        None \<Rightarrow> []
      | Some fill \<Rightarrow> if flt_lt limit (Fin fill) then [warning ''ingest_queue_saturated'' (Some fill) (Some limit)] else [])"

definition alert_order :: "alert \<Rightarrow> nat \<times> string" where
  "alert_order a = (if al_severity a = Critical then 0 else 1, al_name a)"

definition evaluate_alerts :: "settings \<Rightarrow> snapshot \<Rightarrow> (string \<times> bool) list option \<Rightarrow> alert list" where
  "evaluate_alerts cfg s verified =
     sort_key alert_order (trust_alerts s verified @ loss_alerts s @ collector_alerts cfg s @ stale_alerts cfg s @ disk_alerts cfg s @ queue_alerts cfg s)"

definition alert_names :: "alert list \<Rightarrow> string list" where
  "alert_names = map al_name"

section \<open>The alert round\<close>

text \<open>
  \<open>_maybe_alert\<close> after its interval check: the alerts that were not firing, by name, are logged; the names
  that stopped are logged as cleared; the round's alerts are kept for the next one.
\<close>

record alert_round =
  rn_logged :: "alert list"
  rn_cleared :: "string list"
  rn_state :: "alert list"

definition alert_round_of :: "alert list \<Rightarrow> alert list \<Rightarrow> alert_round" where
  "alert_round_of before firing =
     \<lparr>rn_logged = filter (\<lambda>a. al_name a \<notin> set (alert_names before)) firing,
      rn_cleared = sort (remdups (filter (\<lambda>n. n \<notin> set (alert_names firing)) (alert_names before))),
      rn_state = firing\<rparr>"

record alert_clock =
  ac_last_check :: rat
  ac_state :: "alert list"

text \<open>\<open>self._last_alert_check\<close> starts at 0, which counts as never.\<close>

definition maybe_alert :: "rat \<Rightarrow> rat \<Rightarrow> alert list \<Rightarrow> alert_clock \<Rightarrow> alert_clock \<times> alert_round option" where
  "maybe_alert interval now firing c =
     (if ac_last_check c \<noteq> 0 \<and> now - ac_last_check c < interval then (c, None)
      else let r = alert_round_of (ac_state c) firing in (\<lparr>ac_last_check = now, ac_state = rn_state r\<rparr>, Some r))"

text \<open>\<open>_verify_chains\<close>: a verifier that raises is left out.\<close>

definition verify_chains :: "(string \<times> (py_error + bool)) list \<Rightarrow> (string \<times> bool) list" where
  "verify_chains verdicts = concat (map (\<lambda>(t, v). case v of Inl _ \<Rightarrow> [] | Inr b \<Rightarrow> [(t, b)]) verdicts)"

section \<open>Alerts and readiness are one answer\<close>

definition fires :: "string \<Rightarrow> alert list \<Rightarrow> bool" where
  "fires n as \<longleftrightarrow> list_ex (\<lambda>a. al_name a = n) as"

lemma made_names [simp]: "al_name (critical n v t) = n" "al_name (warning n v t) = n"
  by (simp_all add: critical_def warning_def)

lemma fires_simps [simp]:
  "\<not> fires n []" "fires n (a # as) \<longleftrightarrow> al_name a = n \<or> fires n as" "fires n (as @ bs) \<longleftrightarrow> fires n as \<or> fires n bs"
  "fires n (if b then as else bs) \<longleftrightarrow> (if b then fires n as else fires n bs)"
  "fires n (sort_key f as) \<longleftrightarrow> fires n as"
  by (auto simp: fires_def list_ex_iff)

lemma fires_count [simp]:
  "fires n (count_alert critical m i) \<longleftrightarrow> m = n \<and> i \<noteq> 0"
  "fires n (count_alert warning m i) \<longleftrightarrow> m = n \<and> i \<noteq> 0"
  by (auto simp: count_alert_def)

text \<open>The names each group of rules can raise, and when.\<close>

lemma fires_trust: "fires n (trust_alerts s verified) \<longleftrightarrow>
    ''database_unavailable'' = n \<and> (case sn_error s of None \<Rightarrow> False | Some e \<Rightarrow> e \<noteq> []) \<or>
    ''database_permissions_insecure'' = n \<and> insecure_files s \<noteq> [] \<or>
    ''evidence_chain_broken'' = n \<and> (case verified of None \<Rightarrow> False | Some status \<Rightarrow> list_ex (\<lambda>(t, b). \<not> b) status)"
  by (cases "sn_error s"; cases verified) (simp_all add: trust_alerts_def filter_empty_conv list_ex_iff case_prod_unfold)

lemma fires_loss: "fires n (loss_alerts s) \<longleftrightarrow>
    ''events_dropped'' = n \<and> dropped_events s \<noteq> 0 \<or> ''kernel_events_lost'' = n \<and> kernel_lost_events s \<noteq> 0 \<or>
    ''events_quarantined'' = n \<and> quarantined_events s \<noteq> 0"
  by (simp add: loss_alerts_def)

lemma fires_map_source: "fires n (map (\<lambda>k. (critical m v t)\<lparr>al_source := Some k\<rparr>) ks) \<longleftrightarrow> m = n \<and> ks \<noteq> []"
  by (induction ks) (auto simp: critical_def)

lemma fires_collector: "fires n (collector_alerts cfg s) \<longleftrightarrow>
    ''collector_degraded'' = n \<and> degraded_sources s \<noteq> [] \<or>
    ''collector_health_stale'' = n \<and> flt_lt (Fin 0) (number cfg ''alert_collector_silence_seconds'') \<and>
      (case collector_age s of None \<Rightarrow> False | Some age \<Rightarrow> flt_lt (number cfg ''alert_collector_silence_seconds'') (Fin age))"
  unfolding collector_alerts_def Let_def by (cases "collector_age s") (simp_all add: fires_map_source, blast)

lemma fires_stale: "fires n (stale_alerts cfg s) \<longleftrightarrow>
    ''telemetry_stale'' = n \<and> (case data_age s of None \<Rightarrow> False | Some age \<Rightarrow> flt_lt (number cfg ''stale_after_seconds'') (Fin age))"
  by (cases "data_age s") (simp_all add: stale_alerts_def Let_def)

lemma fires_disk: "fires n (disk_alerts cfg s) \<Longrightarrow> n \<in> {''disk_space_low'', ''disk_space_low_ratio''}"
  by (simp add: disk_alerts_def Let_def split: if_splits)

lemma fires_queue: "fires n (queue_alerts cfg s) \<Longrightarrow> ''ingest_queue_saturated'' = n"
  by (simp add: queue_alerts_def Let_def split: option.splits if_splits)

lemma fires_evaluate: "fires n (evaluate_alerts cfg s verified) \<longleftrightarrow>
    fires n (trust_alerts s verified) \<or> fires n (loss_alerts s) \<or> fires n (collector_alerts cfg s) \<or> fires n (stale_alerts cfg s) \<or>
    fires n (disk_alerts cfg s) \<or> fires n (queue_alerts cfg s)"
  by (simp add: evaluate_alerts_def)

lemma unavailable_alert:
  "fires ''database_unavailable'' (evaluate_alerts cfg s verified) \<longleftrightarrow> (case sn_error s of None \<Rightarrow> False | Some e \<Rightarrow> e \<noteq> [])"
  using fires_disk [of "''database_unavailable''" cfg s] fires_queue [of "''database_unavailable''" cfg s]
  unfolding fires_evaluate fires_trust fires_loss fires_collector fires_stale by (simp, blast)

lemma insecure_alert: "fires ''database_permissions_insecure'' (evaluate_alerts cfg s verified) \<longleftrightarrow> insecure_files s \<noteq> []"
  using fires_disk [of "''database_permissions_insecure''" cfg s] fires_queue [of "''database_permissions_insecure''" cfg s]
  unfolding fires_evaluate fires_trust fires_loss fires_collector fires_stale by (simp, blast)

lemma stale_alert:
  "fires ''telemetry_stale'' (evaluate_alerts cfg s verified) \<longleftrightarrow>
   (case data_age s of None \<Rightarrow> False | Some age \<Rightarrow> flt_lt (number cfg ''stale_after_seconds'') (Fin age))"
  using fires_disk [of "''telemetry_stale''" cfg s] fires_queue [of "''telemetry_stale''" cfg s]
  unfolding fires_evaluate fires_trust fires_loss fires_collector fires_stale by (simp, blast)

lemma dropped_alert: "fires ''events_dropped'' (evaluate_alerts cfg s verified) \<longleftrightarrow> dropped_events s \<noteq> 0"
  using fires_disk [of "''events_dropped''" cfg s] fires_queue [of "''events_dropped''" cfg s]
  unfolding fires_evaluate fires_trust fires_loss fires_collector fires_stale by (simp, blast)

text \<open>C31: Readiness and alerts cannot disagree. On one snapshot the readiness probe says ready exactly when some
telemetry has been stored and none of the three alerts for an unreadable database, readable files and stale
data fires, whatever the chain verification reported.\<close>

theorem readiness_matches_alerts:
  "fst (readiness cfg s) \<longleftrightarrow> data_age s \<noteq> None \<and>
     \<not> fires ''database_unavailable'' (evaluate_alerts cfg s verified) \<and>
     \<not> fires ''database_permissions_insecure'' (evaluate_alerts cfg s verified) \<and>
     \<not> fires ''telemetry_stale'' (evaluate_alerts cfg s verified)"
  unfolding unavailable_alert insecure_alert stale_alert
  by (auto simp: readiness_def unready_reasons_def split: option.splits)

end
