(* ===== verification/Alert_Properties.thy ===== *)
theory Alert_Properties
  imports Alerting
begin

text \<open>
  From the settings and the persisted rows to what an operator sees: which writes an alert reflects, what the
  service logs, and two settings that pass validation and switch a protection off.
\<close>

section \<open>Stores keyed by name\<close>

text \<open>An upserting table: the value read under a key is the last one written.\<close>

locale keyed_store =
  fixes put :: "'k \<Rightarrow> 'v \<Rightarrow> 's \<Rightarrow> 's"
    and look :: "'s \<Rightarrow> 'k \<Rightarrow> 'v option"
    and wf :: "'s \<Rightarrow> bool"
  assumes look_put: "look (put k v s) j = (if j = k then Some v else look s j)"
    and wf_put: "wf s \<Longrightarrow> wf (put k v s)"
begin

definition puts :: "('k \<times> 'v) list \<Rightarrow> 's \<Rightarrow> 's" where
  "puts ws s = fold (\<lambda>(k, v). put k v) ws s"

lemma last_put_wins: "look (puts ws s) k = (case map_of (rev ws) k of None \<Rightarrow> look s k | Some v \<Rightarrow> Some v)"
proof (induction ws arbitrary: s)
  case (Cons w ws)
  obtain j v where w: "w = (j, v)" by (cases w)
  have "puts (w # ws) s = puts ws (put j v s)" by (simp add: puts_def w)
  then show ?case using Cons.IH [of "put j v s"] by (simp add: w look_put map_add_def split: option.split)
qed (simp add: puts_def)

lemma wf_puts: "wf s \<Longrightarrow> wf (puts ws s)"
  unfolding puts_def by (induction ws arbitrary: s) (auto intro: wf_put)

end

lemma map_of_upsert: "map_of (upsert k v kvs) = (map_of kvs)(k \<mapsto> v)"
  by (induction kvs) (auto simp: fun_eq_iff)

lemma keys_upsert: "fst ` set (upsert k v kvs) = insert k (fst ` set kvs)"
proof (induction kvs)
  case (Cons kv kvs)
  then show ?case by (cases kv) auto
qed simp

lemma distinct_upsert: "distinct (map fst kvs) \<Longrightarrow> distinct (map fst (upsert k v kvs))"
proof (induction kvs)
  case (Cons kv kvs)
  then show ?case by (cases kv) (auto simp: keys_upsert)
qed simp

interpretation source_rows: keyed_store upsert map_of "\<lambda>kvs. distinct (map fst kvs)"
  by unfold_locales (simp_all add: map_of_upsert distinct_upsert)

section \<open>The runtime row\<close>

text \<open>C32: One row for all collectors. After any reports of any collectors, the drop alert and the drop counter
show the collector that reported last and nothing else: drops another collector has reported, before or
since, are neither counted nor alerted.\<close>

theorem drop_alert_sees_last_report:
  "(let runtime = fold write_collector_health (reports @ [health_report h detail err started stopped depth capacity high now]) before;
        s = collect_snapshot clock None (m\<lparr>mo_runtime := runtime\<rparr>)
    in dropped_events s = int (ih_dropped h) \<and> (fires ''events_dropped'' (evaluate_alerts cfg s verified) \<longleftrightarrow> ih_dropped h \<noteq> 0))"
  unfolding dropped_alert Let_def
  by (simp add: dropped_events_def collect_snapshot_def snapshot_steps_def blank_snapshot_def read_collector_health_def write_collector_health_def
      row_values_def collector_health_columns_def health_report_def counter_of_def rget_def Let_def)

section \<open>The log\<close>

lemma fires_iff: "fires n as \<longleftrightarrow> n \<in> al_name ` set as"
  unfolding fires_def list_ex_iff image_iff by (simp add: eq_commute)

lemma fires_filter: "fires n (filter (\<lambda>a. al_name a \<notin> S) as) \<longleftrightarrow> fires n as \<and> n \<notin> S"
  unfolding fires_iff by auto

lemma names_iff: "n \<in> set (alert_names as) \<longleftrightarrow> fires n as"
  by (simp add: alert_names_def fires_iff)

text \<open>What the service logs. A round logs an alert name exactly when it fires now and did not in the round
before, and clears it exactly when it did and does not now. Names are all it compares: while one collector
is degraded, a second one giving up is in the alert list and never in the log.\<close>

theorem alert_log_compares_names:
  "(fires n (rn_logged (alert_round_of before firing)) \<longleftrightarrow> fires n firing \<and> \<not> fires n before) \<and>
   (n \<in> set (rn_cleared (alert_round_of before firing)) \<longleftrightarrow> fires n before \<and> \<not> fires n firing) \<and>
   (degraded_sources s = [] \<or>
     filter (\<lambda>a. al_name a = ''collector_degraded'') (rn_logged (alert_round_of (evaluate_alerts cfg s verified) (evaluate_alerts cfg s' verified'))) = [])"
proof (intro conjI)
  show "fires n (rn_logged (alert_round_of before firing)) \<longleftrightarrow> fires n firing \<and> \<not> fires n before"
    using fires_filter [of n "set (alert_names before)" firing] by (simp add: alert_round_of_def names_iff)
  show "n \<in> set (rn_cleared (alert_round_of before firing)) \<longleftrightarrow> fires n before \<and> \<not> fires n firing"
    by (auto simp: alert_round_of_def names_iff)
  show "degraded_sources s = [] \<or>
     filter (\<lambda>a. al_name a = ''collector_degraded'') (rn_logged (alert_round_of (evaluate_alerts cfg s verified) (evaluate_alerts cfg s' verified'))) = []"
  proof (cases "degraded_sources s = []")
    case False
    then have "fires ''collector_degraded'' (evaluate_alerts cfg s verified)" by (simp add: fires_evaluate fires_collector)
    then have "\<not> fires ''collector_degraded'' (rn_logged (alert_round_of (evaluate_alerts cfg s verified) (evaluate_alerts cfg s' verified')))"
      using fires_filter [of "''collector_degraded''" "set (alert_names (evaluate_alerts cfg s verified))" "evaluate_alerts cfg s' verified'"]
      by (simp add: alert_round_of_def names_iff)
    then show ?thesis by (auto simp: fires_def list_ex_iff filter_empty_conv)
  qed simp
qed

end
