(* ===== verification/Alert_Gaps.thy ===== *)
theory Alert_Gaps
  imports Alert_Properties
begin

text \<open>
  From supervision to the alert list: a collector given up on is alerted under its name. And two settings the
  validation accepts that switch a protection off.
\<close>

section \<open>Degraded sources\<close>

definition persist_states :: "source_state list \<Rightarrow> sources \<Rightarrow> sources" where
  "persist_states ws rows = fold (\<lambda>st rows. case write_source_state (so_name st) (source_row st) rows of Inl _ \<Rightarrow> rows | Inr rows' \<Rightarrow> rows') ws rows"

definition stored_row :: "source_state \<Rightarrow> row" where
  "stored_row st = (let r = row_values collector_source_columns (source_row st)
     in r(''crash_looping'' \<mapsto> SInt (if rget r ''crash_looping'' = SInt 0 then 0 else 1), ''name'' \<mapsto> SText (so_name st)))"

lemma stored_row_reads:
  "rget (stored_row st) ''name'' = SText (so_name st)"
  "rget (stored_row st) ''status'' = SText (source_status_name (so_status st))"
  by (simp_all add: stored_row_def row_values_def collector_source_columns_def source_row_def rget_def Let_def)

lemma status_degraded: "source_status_name s = ''degraded'' \<longleftrightarrow> s = Degraded"
  by (cases s) (simp_all add: source_status_name_def)

lemma persist_puts:
  "list_all (\<lambda>st. so_name st \<noteq> []) ws \<Longrightarrow> persist_states ws rows = source_rows.puts (map (\<lambda>st. (so_name st, stored_row st)) ws) rows"
proof (induction ws arbitrary: rows)
  case (Cons w ws)
  then have "persist_states (w # ws) rows = persist_states ws (upsert (so_name w) (stored_row w) rows)"
    by (simp add: persist_states_def write_source_state_def stored_row_def Let_def)
  with Cons show ?case by (simp add: source_rows.puts_def)
qed (simp add: persist_states_def source_rows.puts_def)

text \<open>The last state written under a name.\<close>

definition last_state :: "source_state list \<Rightarrow> string \<Rightarrow> source_state option" where
  "last_state ws n = find (\<lambda>st. so_name st = n) (rev ws)"

lemma map_of_states: "map_of (map (\<lambda>st. (so_name st, stored_row st)) ws) n = map_option stored_row (find (\<lambda>st. so_name st = n) ws)"
  by (induction ws) auto

lemma row_under_name:
  assumes "list_all (\<lambda>st. so_name st \<noteq> []) ws"
  shows "map_of (persist_states ws []) n = map_option stored_row (last_state ws n)" "distinct (map fst (persist_states ws []))"
  unfolding persist_puts [OF assms]
  by (simp_all add: source_rows.last_put_wins source_rows.wf_puts last_state_def rev_map map_of_states split: option.split)

definition alerted_sources :: "alert list \<Rightarrow> string list" where
  "alerted_sources as = map (\<lambda>a. case al_source a of None \<Rightarrow> [] | Some n \<Rightarrow> n) (filter (\<lambda>a. al_name a = ''collector_degraded'') as)"

lemma alerted_degraded: "set (alerted_sources (evaluate_alerts cfg s verified)) = set (degraded_sources s)"
proof -
  have other: "filter (\<lambda>a. al_name a = ''collector_degraded'') as = []" if "\<not> fires ''collector_degraded'' as" for as
    using that by (auto simp: fires_def list_ex_iff filter_empty_conv)
  have off: "\<not> fires ''collector_degraded'' (trust_alerts s verified)" "\<not> fires ''collector_degraded'' (loss_alerts s)"
      "\<not> fires ''collector_degraded'' (stale_alerts cfg s)" "\<not> fires ''collector_degraded'' (disk_alerts cfg s)"
      "\<not> fires ''collector_degraded'' (queue_alerts cfg s)"
    using fires_disk [of "''collector_degraded''" cfg s] fires_queue [of "''collector_degraded''" cfg s]
    by (simp_all add: fires_trust fires_loss fires_stale) blast+
  have "set (alerted_sources (evaluate_alerts cfg s verified)) = set (alerted_sources (collector_alerts cfg s))"
    unfolding alerted_sources_def evaluate_alerts_def set_map set_filter set_sort set_append
    using off [THEN other] by (simp add: filter_empty_conv) blast
  also have "\<dots> = set (degraded_sources s)"
    unfolding alerted_sources_def collector_alerts_def Let_def
    by (cases "collector_age s") (auto simp: critical_def filter_map comp_def image_iff)
  finally show ?thesis .
qed

text \<open>C33: A collector given up on is alerted by name. Whatever states any supervisors wrote, in whatever order, the
collectors named by the degraded-collector alerts are exactly those whose last written state is degraded;
a later restart clears its own alert and no other, and no other collector's rows hide one.\<close>

theorem degraded_collectors_are_alerted:
  assumes "list_all (\<lambda>st. so_name st \<noteq> []) ws"
  shows "n \<in> set (alerted_sources (evaluate_alerts cfg (collect_snapshot now None (m\<lparr>mo_sources := persist_states ws []\<rparr>)) verified)) \<longleftrightarrow>
    (case last_state ws n of None \<Rightarrow> False | Some st \<Rightarrow> so_status st = Degraded)"
proof -
  let ?rows = "persist_states ws []"
  have src: "sn_sources (collect_snapshot now None (m\<lparr>mo_sources := ?rows\<rparr>)) = map snd (sort_key fst ?rows)"
    by (simp add: collect_snapshot_def snapshot_steps_def blank_snapshot_def read_source_states_def Let_def)
  have named: "\<exists>st. r = stored_row st \<and> so_name st = k \<and> last_state ws k = Some st" if "(k, r) \<in> set ?rows" for k r
  proof -
    have "map_of ?rows k = Some r" using that row_under_name(2) [OF assms] by simp
    then obtain st where "last_state ws k = Some st" "r = stored_row st" using row_under_name(1) [OF assms] by auto
    then show ?thesis by (auto simp: last_state_def find_Some_iff)
  qed
  have "n \<in> set (degraded_sources (collect_snapshot now None (m\<lparr>mo_sources := ?rows\<rparr>))) \<longleftrightarrow>
      (\<exists>r \<in> snd ` set ?rows. rget r ''status'' = SText ''degraded'' \<and> column_text (rget r ''name'') = n)"
    by (auto simp: degraded_sources_def src)
  also have "\<dots> \<longleftrightarrow> (case last_state ws n of None \<Rightarrow> False | Some st \<Rightarrow> so_status st = Degraded)"
  proof
    assume "\<exists>r \<in> snd ` set ?rows. rget r ''status'' = SText ''degraded'' \<and> column_text (rget r ''name'') = n"
    then obtain k r where r: "(k, r) \<in> set ?rows" "rget r ''status'' = SText ''degraded''" "column_text (rget r ''name'') = n" by auto
    obtain st where st: "r = stored_row st" "so_name st = k" "last_state ws k = Some st" using named [OF r(1)] by blast
    have "k = n" "so_status st = Degraded" using r(2,3) st(2) unfolding st(1) stored_row_reads by (simp_all add: column_text_def status_degraded)
    then show "case last_state ws n of None \<Rightarrow> False | Some st \<Rightarrow> so_status st = Degraded" using st(3) by simp
  next
    assume "case last_state ws n of None \<Rightarrow> False | Some st \<Rightarrow> so_status st = Degraded"
    then obtain st where st: "last_state ws n = Some st" "so_status st = Degraded" by (auto split: option.splits)
    have "map_of ?rows n = Some (stored_row st)" by (simp add: row_under_name(1) [OF assms] st(1))
    moreover have "so_name st = n" using st(1) by (auto simp: last_state_def find_Some_iff)
    ultimately have "stored_row st \<in> snd ` set ?rows" "column_text (rget (stored_row st) ''name'') = n"
        "rget (stored_row st) ''status'' = SText ''degraded''"
      using st(2) map_of_SomeD [of ?rows n "stored_row st"] rev_image_eqI [of "(n, stored_row st)" "set ?rows" "stored_row st" snd]
      unfolding stored_row_reads by (simp_all add: column_text_def status_degraded)
    then show "\<exists>r \<in> snd ` set ?rows. rget r ''status'' = SText ''degraded'' \<and> column_text (rget r ''name'') = n" by blast
  qed
  finally show ?thesis unfolding alerted_degraded .
qed

theorem degraded_collectors_are_alerted_witness:
  "''a'' \<in> set (alerted_sources (evaluate_alerts default_settings
     (collect_snapshot 9 None \<lparr>mo_events = empty_events, mo_findings = empty_table, mo_runtime = None,
        mo_sources = persist_states [(new_source_state ''a'')\<lparr>so_status := Degraded\<rparr>, new_source_state ''b''] [], mo_files = [], mo_disk = None\<rparr>) None))"
proof -
  have "list_all (\<lambda>st. so_name st \<noteq> []) [(new_source_state ''a'')\<lparr>so_status := Degraded\<rparr>, new_source_state ''b'']"
    by (simp add: new_source_state_def)
  note degraded_collectors_are_alerted [OF this, of "''a''" default_settings 9
      "\<lparr>mo_events = empty_events, mo_findings = empty_table, mo_runtime = None, mo_sources = [], mo_files = [], mo_disk = None\<rparr>" None]
  then show ?thesis by (simp add: last_state_def new_source_state_def)
qed

section \<open>Accepted settings that switch a protection off\<close>

definition plain_io :: config_io where
  "plain_io = \<lparr>cf_int = (\<lambda>_. None), cf_based = (\<lambda>_. None), cf_octal = (\<lambda>_. None),
     cf_float = (\<lambda>s. if s = ''nan'' then Some NaN else if s = ''0'' then Some (Fin 0) else None),
     cf_shown = (\<lambda>_. ''''), cf_is_file = (\<lambda>_. False), cf_yaml = (\<lambda>_. Inr PNone)\<rparr>"

lemma nan_loads: "load_settings plain_io [(''TELEMETRY_STALE_AFTER_SECONDS'', ''nan'')] None = Inr (with_defaults [(''stale_after_seconds'', Number NaN)])"
  by code_simp

lemma zero_loads: "load_settings plain_io [(''SECURITY_RESTART_HEALTHY_RUNTIME'', ''0'')] None = Inr (with_defaults [(''restart_healthy_runtime_seconds'', Number (Fin 0))])"
  by code_simp

lemma flt_lt_NaN [simp]: "\<not> flt_lt NaN x" "\<not> flt_lt x NaN"
  by (cases x; simp add: flt_lt_def)+

text \<open>NaN is accepted as a limit. With the staleness limit set to the text nan in the environment the
settings load, and then no snapshot, however old its newest event, raises the stale-telemetry alert or
makes the service unready for staleness.\<close>

theorem nan_limit_is_accepted:
  "case load_settings plain_io [(''TELEMETRY_STALE_AFTER_SECONDS'', ''nan'')] None of
     Inl _ \<Rightarrow> False
   | Inr cfg \<Rightarrow> \<not> fires ''telemetry_stale'' (evaluate_alerts cfg s verified) \<and>
       (fst (readiness cfg s) \<longleftrightarrow> data_age s \<noteq> None \<and> insecure_files s = [] \<and> (case sn_error s of None \<Rightarrow> True | Some e \<Rightarrow> e = []))"
proof -
  have "number (with_defaults [(''stale_after_seconds'', Number NaN)]) ''stale_after_seconds'' = NaN"
    by (simp add: number_def with_defaults_field default_settings_def)
  then show ?thesis
    unfolding nan_loads sum.case stale_alert
    by (auto simp: readiness_def unready_reasons_def split: option.splits)
qed

text \<open>\<open>RestartPolicy.__init__\<close> on finite settings.\<close>

definition finite_of :: "flt \<Rightarrow> rat" where
  "finite_of x = (case x of Fin q \<Rightarrow> q | _ \<Rightarrow> 0)"

definition supervision_of :: "settings \<Rightarrow> supervision_settings" where
  "supervision_of s =
     \<lparr>sv_initial_backoff = finite_of (number s ''restart_initial_backoff_seconds''), sv_max_backoff = finite_of (number s ''restart_max_backoff_seconds''),
      sv_healthy_runtime = finite_of (number s ''restart_healthy_runtime_seconds''), sv_crash_loop_threshold = whole s ''crash_loop_threshold'',
      sv_crash_loop_window = finite_of (number s ''crash_loop_window_seconds'')\<rparr>"

lemma short_memory:
  assumes "sv_healthy_runtime cfg \<le> runtime" and "record_failure cfg now runtime p = (delay, q)"
  shows "length (rp_failures q) \<le> 1"
proof -
  have "rp_failures q = dropWhile (\<lambda>t. t < now - sv_crash_loop_window cfg) [now]"
    using assms by (auto simp: record_failure_def trim_def Let_def)
  then show ?thesis by (metis length_dropWhile_le length_Cons list.size(3) One_nat_def)
qed

lemma never_degraded:
  assumes "sv_healthy_runtime cfg \<le> 0" and "2 \<le> sv_crash_loop_threshold cfg" and "list_all (\<lambda>a. 0 \<le> at_runtime a) as"
    and "so_status (su_state su) \<noteq> Degraded"
  shows "so_status (su_state (supervise fmt fmt1 cfg as su)) \<noteq> Degraded"
  using assms(3,4)
proof (induction as arbitrary: su)
  case (Cons a as)
  obtain go su' where step: "supervise_attempt fmt fmt1 cfg a su = (go, su')" by (cases "supervise_attempt fmt fmt1 cfg a su")
  have "so_status (su_state su') \<noteq> Degraded"
  proof -
    have "\<not> fst (is_crash_looping cfg now (snd (record_failure cfg t (at_runtime a) p)))" for now t p
    proof -
      obtain d q where q: "record_failure cfg t (at_runtime a) p = (d, q)" by (cases "record_failure cfg t (at_runtime a) p")
      have "sv_healthy_runtime cfg \<le> at_runtime a" using assms(1) Cons.prems(1) by simp
      from short_memory [OF this q] have "length (dropWhile (\<lambda>t. t < now - sv_crash_loop_window cfg) (rp_failures q)) \<le> 1"
        using length_dropWhile_le order_trans by blast
      then show ?thesis using assms(2) by (simp add: q is_crash_looping_def trim_def Let_def)
    qed
    then show ?thesis
      using step by (auto simp: supervise_attempt_def update_state_def Let_def split_beta split: option.splits if_splits)
  qed
  then show ?case using Cons by (simp add: step)
qed simp

text \<open>Zero healthy runtime is accepted and disables the crash-loop guard. The setting is the one number of the
restart policy that is not validated: with the environment setting it to 0 the settings load, every failed
attempt counts as a healthy run that clears the failure window, and no sequence of attempts, however
short-lived and however many, is ever given up on.\<close>

theorem zero_healthy_runtime_never_degrades:
  "case load_settings plain_io [(''SECURITY_RESTART_HEALTHY_RUNTIME'', ''0'')] None of
     Inl _ \<Rightarrow> False
   | Inr cfg \<Rightarrow> so_status (su_state (supervise fmt fmt1 (supervision_of cfg)
       (map (\<lambda>a. a\<lparr>at_runtime := \<bar>at_runtime a\<bar>\<rparr>) attempts) (new_supervisor name))) \<noteq> Degraded"
proof -
  let ?s = "with_defaults [(''restart_healthy_runtime_seconds'', Number (Fin 0))]"
  have "sv_healthy_runtime (supervision_of ?s) = 0"
    by (simp add: supervision_of_def number_def finite_of_def with_defaults_field default_settings_def)
  moreover have "sv_crash_loop_threshold (supervision_of ?s) = 5"
  proof -
    have "field ?s ''crash_loop_threshold'' = Whole 5" by (subst with_defaults_field) (simp_all add: default_settings_def field_def)
    then show ?thesis by (simp add: supervision_of_def whole_def)
  qed
  ultimately show ?thesis
    unfolding zero_loads sum.case by (intro never_degraded) (simp_all add: new_supervisor_def new_source_state_def list_all_iff)
qed

end
