(* ===== verification/Metrics_Text.thy ===== *)
theory Metrics_Text
  imports Monitoring Json_Text "HOL-Library.Product_Lexorder" "HOL-Library.List_Lexorder" "HOL-Library.Char_ord"
begin

text \<open>
  The Prometheus text of \<^verbatim>\<open>observability/metrics.py\<close>, line by line, and what source names and severities can do to it.
  \<open>fr\<close> is \<open>repr\<close> on floats.
\<close>

section \<open>Lines\<close>

datatype sample = Sample_Int int | Sample_Float rat | Sample_None

definition sample_opt :: "rat option \<Rightarrow> sample" where
  "sample_opt v = (case v of None \<Rightarrow> Sample_None | Some q \<Rightarrow> Sample_Float q)"

definition metric_number :: "(rat \<Rightarrow> string) \<Rightarrow> sample \<Rightarrow> string" where
  "metric_number fr v = (case v of Sample_Int i \<Rightarrow> int_str i | Sample_Float q \<Rightarrow> fr q | Sample_None \<Rightarrow> ''NaN'')"

text \<open>The three replacements of \<open>_escape\<close>, character by character.\<close>

definition escape_char :: "char \<Rightarrow> string" where
  "escape_char c =
     (if c = CHR 0x5C then [CHR 0x5C, CHR 0x5C] else if c = CHR 0x22 then [CHR 0x5C, CHR 0x22] else if c = CHR 0x0A then [CHR 0x20] else [c])"

definition escape_label :: "string \<Rightarrow> string" where
  "escape_label s = concat (map escape_char s)"

definition metric_prefix :: string where
  "metric_prefix = ''linux_xai''"

definition metric_line :: "(rat \<Rightarrow> string) \<Rightarrow> string \<Rightarrow> sample \<Rightarrow> string" where
  "metric_line fr name v = metric_prefix @ ''_'' @ name @ '' '' @ metric_number fr v"

text \<open>Every labelled metric has one label.\<close>

definition labelled_line :: "(rat \<Rightarrow> string) \<Rightarrow> string \<Rightarrow> string \<Rightarrow> string \<Rightarrow> sample \<Rightarrow> string" where
  "labelled_line fr name key label v =
     metric_prefix @ ''_'' @ name @ ''{'' @ key @ ''='' @ CHR 0x22 # escape_label label @ CHR 0x22 # ''} '' @ metric_number fr v"

definition comment_lines :: "string \<Rightarrow> string \<Rightarrow> string \<Rightarrow> string list" where
  "comment_lines name kind hlp =
     [''# HELP '' @ metric_prefix @ ''_'' @ name @ '' '' @ hlp, ''# TYPE '' @ metric_prefix @ ''_'' @ name @ '' '' @ kind]"

definition emit :: "(rat \<Rightarrow> string) \<Rightarrow> string \<Rightarrow> string \<Rightarrow> string \<Rightarrow> sample \<Rightarrow> string list" where
  "emit fr name kind hlp v = comment_lines name kind hlp @ [metric_line fr name v]"

text \<open>\<open>float(collector.get(c) or 0.0)\<close> on a REAL column.\<close>

definition float_of :: "row \<Rightarrow> string \<Rightarrow> rat" where
  "float_of r c = (case real_of (rget r c) of None \<Rightarrow> 0 | Some q \<Rightarrow> q)"

definition source_label :: "row \<Rightarrow> string" where
  "source_label r = column_text (rget r ''name'')"

section \<open>The exposition\<close>

definition store_metrics :: "(rat \<Rightarrow> string) \<Rightarrow> snapshot \<Rightarrow> string list" where
  "store_metrics fr s =
     emit fr ''up'' ''gauge'' ''1 when the API can read its database.'' (Sample_Int (if sn_error s \<in> {None, Some []} then 1 else 0)) @
     emit fr ''scrape_timestamp_seconds'' ''gauge'' ''Unix time at which this snapshot was collected.'' (Sample_Float (sn_collected s)) @
     emit fr ''events_stored'' ''gauge'' ''Canonical events currently retained in the database.'' (Sample_Int (int (sn_event_count s))) @
     emit fr ''event_age_seconds'' ''gauge'' ''Age of the newest stored event; NaN when no events exist.'' (sample_opt (data_age s)) @
     emit fr ''oldest_event_timestamp_seconds'' ''gauge'' ''Timestamp of the oldest retained event, i.e. the investigation coverage floor.'' (sample_opt (sn_oldest s)) @
     emit fr ''database_bytes'' ''gauge'' ''On-disk size of the database including WAL sidecars.'' (Sample_Int (int (sn_database_bytes s))) @
     emit fr ''disk_free_bytes'' ''gauge'' ''Free space on the filesystem holding the database.'' (Sample_Int (int (du_free (sn_disk s)))) @
     emit fr ''disk_total_bytes'' ''gauge'' ''Total size of the filesystem holding the database.'' (Sample_Int (int (du_total (sn_disk s)))) @
     emit fr ''findings_total'' ''gauge'' ''Detection findings persisted.'' (Sample_Int (int (sn_finding_count s)))"

definition severity_metrics :: "(rat \<Rightarrow> string) \<Rightarrow> snapshot \<Rightarrow> string list" where
  "severity_metrics fr s =
     comment_lines ''findings_by_severity'' ''gauge'' ''Detection findings by severity.'' @
     map (\<lambda>(severity, n). labelled_line fr ''findings_by_severity'' ''severity'' severity (Sample_Int (int n))) (sort (sn_severities s))"

definition collector_metrics :: "(rat \<Rightarrow> string) \<Rightarrow> snapshot \<Rightarrow> string list" where
  "collector_metrics fr s =
     emit fr ''events_processed_total'' ''counter'' ''Events accepted by the ingestion consumer since the collector started.'' (Sample_Int (counter_of (sn_collector s) ''processed_count'')) @
     emit fr ''events_dropped_total'' ''counter'' ''Events discarded because the ingestion queue stayed full past the backpressure timeout.'' (Sample_Int (dropped_events s)) @
     emit fr ''events_malformed_total'' ''counter'' ''Records rejected by normalization or refused by the writer.'' (Sample_Int (counter_of (sn_collector s) ''malformed_count'')) @
     emit fr ''events_duplicate_total'' ''counter'' ''Events already present, identified by content hash.'' (Sample_Int (counter_of (sn_collector s) ''duplicate_count'')) @
     emit fr ''kernel_lost_events_total'' ''counter'' ''Samples the kernel perf ring discarded before userspace read them.'' (Sample_Int (kernel_lost_events s)) @
     emit fr ''quarantined_batches_total'' ''counter'' ''Batches written aside after a failed database write, awaiting replay.'' (Sample_Int (counter_of (sn_collector s) ''quarantined_batch_count'')) @
     emit fr ''quarantined_events_total'' ''counter'' ''Events held in quarantine batches.'' (Sample_Int (quarantined_events s)) @
     emit fr ''ingest_throughput_events_per_second'' ''gauge'' ''Mean events per second over the current collector lifetime.'' (Sample_Float (float_of (sn_collector s) ''throughput'')) @
     emit fr ''queue_depth'' ''gauge'' ''Events waiting in the ingestion queue.'' (Sample_Int (counter_of (sn_collector s) ''queue_depth'')) @
     emit fr ''queue_capacity'' ''gauge'' ''Ingestion queue capacity.'' (Sample_Int (counter_of (sn_collector s) ''queue_capacity'')) @
     emit fr ''queue_high_water_mark'' ''gauge'' ''Deepest the ingestion queue has been since the collector started.'' (Sample_Int (counter_of (sn_collector s) ''queue_high_water_mark'')) @
     emit fr ''backpressure_wait_seconds_total'' ''counter'' ''Seconds the producer spent blocked on a full queue.'' (Sample_Float (float_of (sn_collector s) ''backpressure_wait_seconds'')) @
     emit fr ''collector_health_age_seconds'' ''gauge'' ''Age of the last collector health report; NaN when none has been written.'' (sample_opt (collector_age s))"

definition source_metrics :: "(rat \<Rightarrow> string) \<Rightarrow> snapshot \<Rightarrow> string list" where
  "source_metrics fr s =
     comment_lines ''source_up'' ''gauge'' ''1 when a supervised collector is running.'' @
     map (\<lambda>r. labelled_line fr ''source_up'' ''source'' (source_label r) (Sample_Int (if rget r ''status'' = SText ''running'' then 1 else 0))) (sn_sources s) @
     comment_lines ''source_degraded'' ''gauge'' ''1 when a collector has been given up on.'' @
     map (\<lambda>r. labelled_line fr ''source_degraded'' ''source'' (source_label r) (Sample_Int (if rget r ''status'' = SText ''degraded'' then 1 else 0))) (sn_sources s) @
     comment_lines ''source_restarts_total'' ''counter'' ''Collector restarts performed by the supervisor.'' @
     map (\<lambda>r. labelled_line fr ''source_restarts_total'' ''source'' (source_label r) (Sample_Int (counter_of r ''restart_count''))) (sn_sources s)"

definition exposition_lines :: "(rat \<Rightarrow> string) \<Rightarrow> snapshot \<Rightarrow> string list" where
  "exposition_lines fr s =
     store_metrics fr s @ severity_metrics fr s @ collector_metrics fr s @ source_metrics fr s @
     emit fr ''database_files_insecure'' ''gauge'' ''Database files whose mode grants group or other access; must be 0.'' (Sample_Int (int (length (insecure_files s))))"

definition render_prometheus :: "(rat \<Rightarrow> string) \<Rightarrow> snapshot \<Rightarrow> string" where
  "render_prometheus fr s = join_text [CHR 0x0A] (exposition_lines fr s) @ [CHR 0x0A]"

section \<open>Labels cannot add lines\<close>

fun split_lines :: "string \<Rightarrow> string list" where
  "split_lines [] = []"
| "split_lines (c # s) =
     (if c = CHR 0x0A then [] # split_lines s
      else case split_lines s of [] \<Rightarrow> [[c]] | l # ls \<Rightarrow> (c # l) # ls)"

definition one_line :: "string \<Rightarrow> bool" where
  "one_line l \<longleftrightarrow> CHR 0x0A \<notin> set l"

lemma split_exposition_line: "one_line l \<Longrightarrow> split_lines (l @ CHR 0x0A # r) = l # split_lines r"
  by (induction l) (auto simp: one_line_def)

lemma split_joined: "list_all one_line ls \<Longrightarrow> ls \<noteq> [] \<Longrightarrow> split_lines (join_text [CHR 0x0A] ls @ [CHR 0x0A]) = ls"
proof (induction ls)
  case (Cons l ls)
  show ?case
  proof (cases ls)
    case Nil
    then show ?thesis using Cons.prems split_exposition_line [of l "[]"] by simp
  next
    case (Cons k ks)
    then show ?thesis using Cons.IH Cons.prems split_exposition_line [of l "join_text [CHR 0x0A] ls @ [CHR 0x0A]"] by simp
  qed
qed simp

lemma one_line_append [simp]: "one_line (a @ b) \<longleftrightarrow> one_line a \<and> one_line b" "one_line (c # a) \<longleftrightarrow> c \<noteq> CHR 0x0A \<and> one_line a" "one_line []"
  by (auto simp: one_line_def)

lemma escaped_one_line [simp]: "one_line (escape_label s)"
  by (induction s) (simp_all add: escape_label_def escape_char_def)

lemma number_one_line: "(\<And>q. one_line (fr q)) \<Longrightarrow> one_line (metric_number fr v)"
  using newline_not_in_int_str by (cases v) (simp_all add: metric_number_def one_line_def)

definition sample_line :: "string \<Rightarrow> bool" where
  "sample_line l \<longleftrightarrow> take 10 l = metric_prefix @ ''_''"

definition comment_line :: "string \<Rightarrow> bool" where
  "comment_line l \<longleftrightarrow> take 7 l \<in> {''# HELP '', ''# TYPE ''}"

definition metric_shape :: "nat \<Rightarrow> string list \<Rightarrow> bool" where
  "metric_shape n ls \<longleftrightarrow> list_all one_line ls \<and> list_all (\<lambda>l. sample_line l \<or> comment_line l) ls \<and> length (filter sample_line ls) = n"

lemma shape_append: "metric_shape n as \<Longrightarrow> metric_shape k bs \<Longrightarrow> metric_shape (n + k) (as @ bs)"
  by (simp add: metric_shape_def)

lemma not_both: "comment_line l \<Longrightarrow> \<not> sample_line l"
  by (cases l) (auto simp: comment_line_def sample_line_def metric_prefix_def)

lemma comment_lines_comment: "l \<in> set (comment_lines name kind hlp) \<Longrightarrow> comment_line l"
  by (auto simp: comment_lines_def comment_line_def)

lemma comments_shape: "one_line name \<Longrightarrow> one_line kind \<Longrightarrow> one_line hlp \<Longrightarrow> metric_shape 0 (comment_lines name kind hlp)"
  using comment_lines_comment [of _ name kind hlp] not_both
  by (auto simp: metric_shape_def list_all_iff filter_empty_conv) (auto simp: comment_lines_def metric_prefix_def)

lemma line_sample: "sample_line (metric_line fr name v)" "sample_line (labelled_line fr name key label v)"
  by (simp_all add: sample_line_def metric_line_def labelled_line_def metric_prefix_def)

lemma emit_shape:
  assumes "\<And>q. one_line (fr q)" and "one_line name" "one_line kind" "one_line hlp"
  shows "metric_shape 1 (emit fr name kind hlp v)"
proof -
  have "metric_shape 1 [metric_line fr name v]"
    using line_sample(1) number_one_line [OF assms(1)] assms(2) by (simp add: metric_shape_def) (simp add: metric_line_def metric_prefix_def)
  from shape_append [OF comments_shape [OF assms(2-4)] this] show ?thesis by (simp add: emit_def)
qed

lemma labelled_shape:
  assumes "\<And>q. one_line (fr q)" and "one_line name" "one_line key"
  shows "metric_shape (length xs) (map (\<lambda>x. labelled_line fr name key (f x) (g x)) xs)"
proof (induction xs)
  case (Cons x xs)
  have "metric_shape 1 [labelled_line fr name key (f x) (g x)]"
    using line_sample(2) number_one_line [OF assms(1)] assms(2,3) by (simp add: metric_shape_def) (simp add: labelled_line_def metric_prefix_def)
  from shape_append [OF this Cons.IH] show ?case by simp
qed (simp add: metric_shape_def)

lemma emits_shape:
  assumes fr: "\<And>q. one_line (fr q)"
  shows "metric_shape 9 (store_metrics fr s)" "metric_shape 13 (collector_metrics fr s)"
    "metric_shape 1 (emit fr ''database_files_insecure'' ''gauge'' ''Database files whose mode grants group or other access; must be 0.'' v)"
proof -
  show "metric_shape 9 (store_metrics fr s)"
  proof -
    have "metric_shape (1 + (1 + (1 + (1 + (1 + (1 + (1 + (1 + 1)))))))) (store_metrics fr s)"
      unfolding store_metrics_def by (intro shape_append emit_shape fr) simp_all
    then show ?thesis by (simp add: eval_nat_numeral)
  qed
  show "metric_shape 13 (collector_metrics fr s)"
  proof -
    have "metric_shape (1 + (1 + (1 + (1 + (1 + (1 + (1 + (1 + (1 + (1 + (1 + (1 + 1)))))))))))) (collector_metrics fr s)"
      unfolding collector_metrics_def by (intro shape_append emit_shape fr) simp_all
    then show ?thesis by (simp add: eval_nat_numeral)
  qed
qed (intro emit_shape fr; simp)

text \<open>C30: Names from outside cannot forge metrics. Whatever severities, source names and other texts the database
holds, the exposition splits into its lines at the newlines, every line is a comment or a sample of this
program, and there are exactly 23 plain samples, one per stored severity and three per source.\<close>

theorem exposition_is_line_safe:
  assumes "\<And>q. one_line (fr q)"
  shows "split_lines (render_prometheus fr s) = exposition_lines fr s \<and>
    metric_shape (23 + length (sn_severities s) + 3 * length (sn_sources s)) (exposition_lines fr s)"
proof -
  let ?n = "length (sn_sources s)"
  have sev: "metric_shape (0 + length (sort (sn_severities s))) (severity_metrics fr s)"
    unfolding severity_metrics_def case_prod_unfold by (intro shape_append comments_shape labelled_shape assms) simp_all
  have src: "metric_shape (0 + (?n + (0 + (?n + (0 + ?n))))) (source_metrics fr s)"
    unfolding source_metrics_def by (intro shape_append comments_shape labelled_shape assms) simp_all
  have shape: "metric_shape (9 + ((0 + length (sort (sn_severities s))) + (13 + ((0 + (?n + (0 + (?n + (0 + ?n))))) + 1)))) (exposition_lines fr s)"
    unfolding exposition_lines_def by (intro shape_append sev src emits_shape assms)
  moreover have "exposition_lines fr s \<noteq> []" by (simp add: exposition_lines_def emit_def)
  ultimately have "split_lines (render_prometheus fr s) = exposition_lines fr s"
    unfolding render_prometheus_def by (intro split_joined) (simp_all add: metric_shape_def)
  with shape show ?thesis by (simp add: algebra_simps)
qed

theorem exposition_is_line_safe_witness:
  "split_lines (render_prometheus (\<lambda>q. int_str (fst (quotient_of q))) (blank_snapshot 5 \<lparr>du_total = 9, du_used = 4, du_free = 5\<rparr>\<lparr>sn_severities := [([CHR 0x0A], 2)]\<rparr>))
   = exposition_lines (\<lambda>q. int_str (fst (quotient_of q))) (blank_snapshot 5 \<lparr>du_total = 9, du_used = 4, du_free = 5\<rparr>\<lparr>sn_severities := [([CHR 0x0A], 2)]\<rparr>)"
proof -
  have "one_line (int_str (fst (quotient_of q)))" for q using newline_not_in_int_str by (simp add: one_line_def)
  then show ?thesis using exposition_is_line_safe [of "\<lambda>q. int_str (fst (quotient_of q))"] by blast
qed

section \<open>Labels read back\<close>

text \<open>Reading an escaped label up to its closing quote.\<close>

fun read_label :: "string \<Rightarrow> (string \<times> string) option" where
  "read_label [] = None"
| "read_label [c] = (if c = CHR 0x22 then Some ([], []) else None)"
| "read_label (c # d # s) =
     (if c = CHR 0x22 then Some ([], d # s)
      else if c = CHR 0x5C then map_option (apfst (Cons d)) (read_label s)
      else map_option (apfst (Cons c)) (read_label (d # s)))"

text \<open>Labels round-trip. Reading the escaped text of any name up to its closing quote gives the name with
newlines as spaces, and what followed; two names that differ otherwise never share a label.\<close>

theorem label_round_trip:
  "read_label (escape_label v @ CHR 0x22 # rest) = Some (map (\<lambda>c. if c = CHR 0x0A then CHR 0x20 else c) v, rest)"
proof (induction v)
  case Nil
  show ?case by (cases rest) (simp_all add: escape_label_def)
next
  case (Cons c v)
  obtain d s where ds: "escape_label v @ CHR 0x22 # rest = d # s" by (cases "escape_label v @ CHR 0x22 # rest") auto
  have e: "escape_label (c # v) = escape_char c @ escape_label v" by (simp add: escape_label_def)
  show ?case using Cons unfolding e append_assoc by (auto simp: escape_char_def ds)
qed

end
