(* ===== verification/Journal_Stream.thy ===== *)
theory Journal_Stream
  imports Event_Stream "HOL-Library.Monad_Syntax"
begin

text \<open>
  The streaming journald collectors of \<^verbatim>\<open>telemetry/journald/\<close>: the cursor file, the command line, the probe of a stored
  cursor, the reading of one journalctl process, the collector loop with its checkpoints, and the two predicates that turn
  journal records into telemetry. The process is what it printed and how it ended; the clock, the outcome of each
  checkpoint and of each write to standard output come with the line they follow.
\<close>

section \<open>The cursor file\<close>

definition cursor_char :: "char \<Rightarrow> bool" where
  "cursor_char c \<longleftrightarrow>
     (let n = of_char c :: nat in 48 \<le> n \<and> n \<le> 57 \<or> 65 \<le> n \<and> n \<le> 90 \<or> 97 \<le> n \<and> n \<le> 122 \<or> c = CHR ''='' \<or> c = CHR '';'')"

definition is_valid_cursor :: "doc \<Rightarrow> bool" where
  "is_valid_cursor v =
     (case v of PStr s \<Rightarrow> 16 \<le> length s \<and> length s \<le> 512 \<and> list_all cursor_char s | _ \<Rightarrow> False)"

text \<open>A directory as the contents of its files; \<open>load\<close> gives None for a file that is absent or holds no cursor.\<close>

type_synonym files = "string \<rightharpoonup> string"

definition load_cursor :: "string \<Rightarrow> files \<Rightarrow> string option" where
  "load_cursor path fs =
     (case fs path of None \<Rightarrow> None | Some raw \<Rightarrow> if is_valid_cursor (PStr (strip raw)) then Some (strip raw) else None)"

text \<open>What \<open>save\<close> does after the validity test: create the temporary file, write it, rename it.\<close>

definition save_steps :: "string \<Rightarrow> string \<Rightarrow> string \<Rightarrow> (files \<Rightarrow> files) list" where
  "save_steps path temp cursor =
     [\<lambda>fs. fs(temp \<mapsto> []),
      \<lambda>fs. fs(temp \<mapsto> cursor),
      \<lambda>fs. (case fs temp of None \<Rightarrow> fs | Some s \<Rightarrow> (fs(temp := None))(path \<mapsto> s))]"

text \<open>The outcome of the operating system calls: all succeed, or one raises after \<open>n\<close> steps.\<close>

datatype save_outcome = Saves | Save_Raises nat

definition save_cursor :: "string \<Rightarrow> string \<Rightarrow> save_outcome \<Rightarrow> string \<Rightarrow> files \<Rightarrow> bool \<times> files" where
  "save_cursor path temp outcome cursor fs =
     (if \<not> is_valid_cursor (PStr cursor) then (False, fs)
      else case outcome of
        Saves \<Rightarrow> (True, fold (\<lambda>f. f) (save_steps path temp cursor) fs)
      | Save_Raises n \<Rightarrow>
          (False, if n = 0 then fs else (fold (\<lambda>f. f) (take (min n 2) (save_steps path temp cursor)) fs)(temp := None)))"

section \<open>journalctl\<close>

definition build_command :: "string list \<Rightarrow> string option \<Rightarrow> string \<Rightarrow> bool \<Rightarrow> string list" where
  "build_command journalctl cursor since follow =
     journalctl @ [''--no-pager'', ''--output=json''] @
     (case cursor of Some c \<Rightarrow> [''--after-cursor='' @ c] | None \<Rightarrow> [''--since='' @ since]) @
     (if follow then [''--follow''] else [])"

datatype cursor_verdict = Resumable | Unresolvable | Unreadable_Journal

text \<open>How the one-shot probe ended: a timeout, an OSError, or an exit status with its two outputs.\<close>

datatype probe_end = Probe_Timeout | Probe_Os_Error | Probe_Exit int string string

definition resolve_cursor :: "probe_end \<Rightarrow> cursor_verdict" where
  "resolve_cursor p =
     (case p of
        Probe_Timeout \<Rightarrow> Unreadable_Journal
      | Probe_Os_Error \<Rightarrow> Unreadable_Journal
      | Probe_Exit status out err \<Rightarrow>
          if status \<noteq> 0 then Unreadable_Journal else if strip out = [] then Unresolvable else Resumable)"

text \<open>
  One line of standard output with what happens while it is handled: the clock at its checkpoint, how a checkpoint ends
  and whether standard output accepts writes.
\<close>

record journal_line =
  jl_text :: string
  jl_now :: rat
  jl_save :: save_outcome
  jl_pipe :: bool

text \<open>A journalctl process. \<open>jp_stop\<close>: the number of lines handled when a stop was requested.\<close>

record journal_process =
  jp_os_error :: bool
  jp_lines :: "journal_line list"
  jp_stop :: "nat option"
  jp_status :: int
  jp_stderr :: string

text \<open>The records the reader yields, each with its cursor when that is valid; other lines are skipped.\<close>

definition record_of_line :: "(string \<Rightarrow> rat option) \<Rightarrow> journal_line \<Rightarrow> (rat pymap \<times> string option \<times> journal_line) option" where
  "record_of_line pf l =
     (if strip (jl_text l) = [] then None
      else case loads pf (strip (jl_text l)) of
        Some (PDict d) \<Rightarrow>
          Some (d, if is_valid_cursor (dget d ''__CURSOR'') then Some (the_str (dget d ''__CURSOR'')) else None, l)
      | _ \<Rightarrow> None)"

definition stream_records :: "(string \<Rightarrow> rat option) \<Rightarrow> journal_process \<Rightarrow> (rat pymap \<times> string option \<times> journal_line) list" where
  "stream_records pf p =
     List.map_filter (record_of_line pf) (case jp_stop p of None \<Rightarrow> jp_lines p | Some k \<Rightarrow> take k (jp_lines p))"

definition seek_failure_marker :: string where
  "seek_failure_marker = ''failed to seek to cursor''"

datatype stream_end = Stream_Finished | Stale_Cursor | Read_Error

definition finish_stream :: "string option \<Rightarrow> journal_process \<Rightarrow> stream_end" where
  "finish_stream cursor p =
     (if jp_status p = 0 \<or> jp_stop p \<noteq> None then Stream_Finished
      else if cursor \<noteq> None \<and> contains seek_failure_marker (lower (jp_stderr p)) then Stale_Cursor
      else Read_Error)"

section \<open>The collector\<close>

text \<open>What is printed: an event, or one of the notices with its fields.\<close>

datatype emission =
    Event_Line "rat pymap"
  | Startup_Notice bool
  | No_Cursor_Notice
  | Discard_Notice string cursor_verdict
  | Malformed_Notice
  | Not_Saved_Notice
  | Failure_Notice
  | Shutdown_Notice nat nat

record journal_collector =
  jc_records :: nat
  jc_emitted :: nat
  jc_checkpoints :: nat
  jc_discarded :: nat
  jc_pending :: "string option"
  jc_saved :: "string option"
  jc_last :: "rat option"
  jc_output :: "emission list"
  jc_files :: files

text \<open>\<open>jf_normalize\<close>: Inl an exception of the predicate, Inr what it returned.\<close>

record journal_config =
  jf_normalize :: "rat pymap \<Rightarrow> py_error + rat pymap option"
  jf_interval :: rat
  jf_path :: string
  jf_temp :: string

definition new_collector :: "files \<Rightarrow> emission list \<Rightarrow> journal_collector" where
  "new_collector fs out =
     \<lparr>jc_records = 0, jc_emitted = 0, jc_checkpoints = 0, jc_discarded = 0, jc_pending = None, jc_saved = None,
      jc_last = None, jc_output = out, jc_files = fs\<rparr>"

text \<open>The state a statement leaves, or the state in which a write to standard output raised.\<close>

datatype stepped = Continues journal_collector | Broken_Pipe journal_collector

definition say :: "bool \<Rightarrow> emission \<Rightarrow> journal_collector \<Rightarrow> stepped" where
  "say pipe e c = (if pipe then Continues (c\<lparr>jc_output := jc_output c @ [e]\<rparr>) else Broken_Pipe c)"

definition checkpoint :: "journal_config \<Rightarrow> bool \<Rightarrow> rat \<Rightarrow> save_outcome \<Rightarrow> bool \<Rightarrow> journal_collector \<Rightarrow> stepped" where
  "checkpoint cf force now outcome pipe c =
     (case jc_pending c of
        None \<Rightarrow> Continues c
      | Some cursor \<Rightarrow>
          if jc_saved c = Some cursor then Continues c
          else if \<not> force \<and> (case jc_last c of None \<Rightarrow> False | Some t \<Rightarrow> now - t < jf_interval cf) then Continues c
          else (case save_cursor (jf_path cf) (jf_temp cf) outcome cursor (jc_files c) of
              (True, fs) \<Rightarrow>
                Continues (c\<lparr>jc_files := fs, jc_saved := Some cursor, jc_checkpoints := jc_checkpoints c + 1, jc_last := Some now\<rparr>)
            | (False, fs) \<Rightarrow>
                (case say pipe Not_Saved_Notice (c\<lparr>jc_files := fs\<rparr>) of
                   Broken_Pipe c \<Rightarrow> Broken_Pipe c
                 | Continues c \<Rightarrow> Continues (c\<lparr>jc_last := Some now\<rparr>))))"

text \<open>The statements of the loop body, in order.\<close>

definition emit_event :: "journal_config \<Rightarrow> rat pymap \<times> string option \<times> journal_line \<Rightarrow> journal_collector \<Rightarrow> stepped" where
  "emit_event cf x c =
     (case x of (d, cursor, l) \<Rightarrow>
       let c = c\<lparr>jc_records := jc_records c + 1\<rparr> in
       case jf_normalize cf d of
         Inl err \<Rightarrow> say (jl_pipe l) Malformed_Notice c
       | Inr None \<Rightarrow> Continues c
       | Inr (Some event) \<Rightarrow>
           (case say (jl_pipe l) (Event_Line event) c of
              Broken_Pipe c \<Rightarrow> Broken_Pipe c
            | Continues c \<Rightarrow> Continues (c\<lparr>jc_emitted := jc_emitted c + 1\<rparr>)))"

definition advance_cursor :: "rat pymap \<times> string option \<times> journal_line \<Rightarrow> journal_collector \<Rightarrow> stepped" where
  "advance_cursor x c =
     (case x of (d, None, l) \<Rightarrow> Continues c | (d, Some cursor, l) \<Rightarrow> Continues (c\<lparr>jc_pending := Some cursor\<rparr>))"

definition loop_body :: "journal_config \<Rightarrow> rat pymap \<times> string option \<times> journal_line \<Rightarrow> (journal_collector \<Rightarrow> stepped) list" where
  "loop_body cf x =
     (case x of (d, cursor, l) \<Rightarrow>
        [emit_event cf x, advance_cursor x, checkpoint cf False (jl_now l) (jl_save l) (jl_pipe l)])"

fun execute :: "(journal_collector \<Rightarrow> stepped) list \<Rightarrow> journal_collector \<Rightarrow> stepped" where
  "execute [] c = Continues c"
| "execute (s # ss) c = (case s c of Broken_Pipe c \<Rightarrow> Broken_Pipe c | Continues c \<Rightarrow> execute ss c)"

definition loop_statements :: "journal_config \<Rightarrow> (string \<Rightarrow> rat option) \<Rightarrow> journal_process \<Rightarrow> (journal_collector \<Rightarrow> stepped) list" where
  "loop_statements cf pf p = (if jp_os_error p then [] else concat (map (loop_body cf) (stream_records pf p)))"

datatype consumed = Consumed journal_collector stream_end | Pipe_Raised journal_collector

definition consume :: "journal_config \<Rightarrow> (string \<Rightarrow> rat option) \<Rightarrow> string option \<Rightarrow> journal_process \<Rightarrow> journal_collector \<Rightarrow> consumed" where
  "consume cf pf cursor p c =
     (case execute (loop_statements cf pf p) c of
        Broken_Pipe c \<Rightarrow> Pipe_Raised c
      | Continues c \<Rightarrow> Consumed c (if jp_os_error p then Read_Error else finish_stream cursor p))"

text \<open>
  What a run meets: the probe, the first process, the second one if the first finds the cursor stale, and the last
  checkpoint. The notices outside the loop are written successfully.
\<close>

record journal_run =
  jr_follow :: bool
  jr_probe :: probe_end
  jr_first :: journal_process
  jr_second :: journal_process
  jr_end :: rat
  jr_end_save :: save_outcome
  jr_end_pipe :: bool

datatype run_end = Exit_Code int | Run_Raises

definition notice :: "emission \<Rightarrow> journal_collector \<Rightarrow> journal_collector" where
  "notice e c = c\<lparr>jc_output := jc_output c @ [e]\<rparr>"

definition resolve_or_discard :: "journal_run \<Rightarrow> string \<Rightarrow> journal_collector \<Rightarrow> string option \<times> journal_collector" where
  "resolve_or_discard r cursor c =
     (case resolve_cursor (jr_probe r) of
        Resumable \<Rightarrow> (Some cursor, c)
      | v \<Rightarrow> (None, notice (Discard_Notice cursor v) (c\<lparr>jc_discarded := jc_discarded c + 1\<rparr>)))"

definition start_collector :: "journal_config \<Rightarrow> journal_run \<Rightarrow> journal_collector \<Rightarrow> string option \<times> journal_collector" where
  "start_collector cf r c =
     (let c = notice (Startup_Notice (jr_follow r)) c in
      case load_cursor (jf_path cf) (jc_files c) of
        None \<Rightarrow> (None, notice No_Cursor_Notice c)
      | Some cursor \<Rightarrow> resolve_or_discard r cursor c)"

text \<open>The handler of a cursor that went stale between the probe and the read.\<close>

definition read_again :: "journal_config \<Rightarrow> (string \<Rightarrow> rat option) \<Rightarrow> journal_run \<Rightarrow> string option \<Rightarrow> journal_collector \<Rightarrow> consumed" where
  "read_again cf pf r cursor c =
     consume cf pf None (jr_second r)
       (notice (Discard_Notice (case cursor of None \<Rightarrow> [] | Some s \<Rightarrow> s) Unreadable_Journal) (c\<lparr>jc_discarded := jc_discarded c + 1\<rparr>))"

definition end_run :: "journal_config \<Rightarrow> journal_run \<Rightarrow> consumed \<Rightarrow> run_end \<times> journal_collector" where
  "end_run cf r result =
     (case result of
        Pipe_Raised c \<Rightarrow>
          (Run_Raises, case checkpoint cf True (jr_end r) (jr_end_save r) (jr_end_pipe r) c of Continues c \<Rightarrow> c | Broken_Pipe c \<Rightarrow> c)
      | Consumed c how \<Rightarrow>
          (let (code, c) = (if how = Stream_Finished then (0, c) else (1, notice Failure_Notice c)) in
           case checkpoint cf True (jr_end r) (jr_end_save r) (jr_end_pipe r) c of
             Broken_Pipe c \<Rightarrow> (Run_Raises, c)
           | Continues c \<Rightarrow> (Exit_Code code, if code = 0 then notice (Shutdown_Notice (jc_records c) (jc_emitted c)) c else c)))"

definition run_journal :: "journal_config \<Rightarrow> (string \<Rightarrow> rat option) \<Rightarrow> journal_run \<Rightarrow> journal_collector \<Rightarrow> run_end \<times> journal_collector" where
  "run_journal cf pf r c =
     (let (cursor, c) = start_collector cf r c in
      case consume cf pf cursor (jr_first r) c of
        Consumed c Stale_Cursor \<Rightarrow> end_run cf r (read_again cf pf r cursor c)
      | result \<Rightarrow> end_run cf r result)"

section \<open>The notices on the wire\<close>

definition notice_record :: "string \<Rightarrow> string \<Rightarrow> rat \<Rightarrow> rat pymap \<Rightarrow> rat pymap" where
  "notice_record event_type message now extra =
     [(''event_type'', PStr event_type), (''message'', PStr message), (''timestamp'', PFloat now)] @ extra"

definition verdict_name :: "cursor_verdict \<Rightarrow> string" where
  "verdict_name v = (case v of Resumable \<Rightarrow> ''resumable'' | Unresolvable \<Rightarrow> ''unresolvable'' | Unreadable_Journal \<Rightarrow> ''unreadable'')"

text \<open>The report of a discarded cursor; \<open>since\<close> is the quoted window expression.\<close>

definition discard_message :: "string \<Rightarrow> string \<Rightarrow> string \<Rightarrow> string" where
  "discard_message name detail since =
     ''journald '' @ name @ '' cannot resume from its stored cursor ('' @ detail @ ''); falling back to --since '' @ since @
     ''. Telemetry between the stored cursor and that window is unrecoverable.''"

definition discard_record :: "string \<Rightarrow> string \<Rightarrow> string \<Rightarrow> string \<Rightarrow> cursor_verdict \<Rightarrow> rat \<Rightarrow> rat pymap" where
  "discard_record name detail since cursor v now =
     notice_record ''telemetry_warning'' (discard_message name detail since) now
       [(''stale_cursor'', PStr cursor), (''recovery'', PStr ''since_window''), (''reason'', PStr (verdict_name v))]"

end
