(* ===== verification/Journal_Resume.thy ===== *)
theory Journal_Resume
  imports Journal_Stream "HOL-Library.Sublist"
begin

text \<open>
  Restarting a journald collector: what its cursor file says after any sequence of runs, each killed at any statement of
  its loop or brought to its end. The journal is the list of its entries; what journalctl prints for a cursor or for a
  time window is a hypothesis.
\<close>

section \<open>The cursor file\<close>

lemma cursor_char_not_space: "cursor_char c \<Longrightarrow> \<not> is_space c"
  by (auto simp: cursor_char_def is_space_def Let_def)

lemma dropWhile_none: "list_all (\<lambda>c. \<not> P c) s \<Longrightarrow> dropWhile P s = s"
  by (cases s) simp_all

lemma strip_cursor: "is_valid_cursor (PStr s) \<Longrightarrow> strip s = s"
proof -
  assume "is_valid_cursor (PStr s)"
  then have "list_all (\<lambda>c. \<not> is_space c) s"
    by (auto simp: is_valid_cursor_def list_all_iff cursor_char_not_space)
  then show ?thesis by (simp add: strip_def dropWhile_none list_all_iff)
qed

lemma saved_files:
  assumes "save_cursor path temp outcome cursor fs = (saved, fs')" and "temp \<noteq> path"
  shows "if saved then is_valid_cursor (PStr cursor) \<and> fs' path = Some cursor else fs' path = fs path"
proof (cases outcome)
  case Saves
  then show ?thesis using assms by (auto simp: save_cursor_def save_steps_def split: if_splits)
next
  case (Save_Raises n)
  have "n = 0 \<or> min n 2 = Suc 0 \<or> min n 2 = Suc (Suc 0)" by linarith
  then show ?thesis using assms Save_Raises by (auto simp: save_cursor_def save_steps_def split: if_splits)
qed

text \<open>A kill between any two steps of a save leaves the old cursor or the new one.\<close>

lemma save_is_atomic:
  assumes "temp \<noteq> path"
  shows "(fold (\<lambda>f. f) (take n (save_steps path temp cursor)) fs) path \<in> {fs path, Some cursor}"
proof -
  have "n = 0 \<or> n = 1 \<or> n = 2 \<or> 3 \<le> n" by linarith
  then show ?thesis using assms by (auto simp: save_steps_def numeral_eq_Suc)
qed

lemma load_saved: "is_valid_cursor (PStr c) \<Longrightarrow> fs path = Some c \<Longrightarrow> load_cursor path fs = Some c"
  by (simp add: load_cursor_def strip_cursor)

section \<open>Runs and kills\<close>

type_synonym journal = "(string \<times> rat pymap) list"

definition state_of :: "stepped \<Rightarrow> journal_collector" where
  "state_of s = (case s of Continues c \<Rightarrow> c | Broken_Pipe c \<Rightarrow> c)"

text \<open>\<open>Killed n\<close>: the process is killed after \<open>n\<close> statements of the loop over the first process; \<open>Killed_Later n\<close> over the second.\<close>

datatype kill = Not_Killed | Killed nat | Killed_Later nat

record journal_session =
  js_run :: journal_run
  js_kill :: kill
  js_window :: nat

text \<open>What a session leaves: the files, all output so far, and where in the journal the window reads so far began.\<close>

record journal_past =
  jh_files :: files
  jh_output :: "emission list"
  jh_windows :: "nat list"

definition leave :: "journal_past \<Rightarrow> nat list \<Rightarrow> journal_collector \<Rightarrow> journal_past" where
  "leave h ws c = h\<lparr>jh_files := jc_files c, jh_output := jc_output c, jh_windows := ws @ jh_windows h\<rparr>"

definition journal_session_step :: "journal_config \<Rightarrow> (string \<Rightarrow> rat option) \<Rightarrow> journal_session \<Rightarrow> journal_past \<Rightarrow> journal_past" where
  "journal_session_step cf pf s h =
     (let r = js_run s;
          (cursor, c) = start_collector cf r (new_collector (jh_files h) (jh_output h));
          ws = (if cursor = None then [js_window s] else []) in
      case js_kill s of
        Killed n \<Rightarrow> leave h ws (state_of (execute (take n (loop_statements cf pf (jr_first r))) c))
      | k \<Rightarrow>
          (case consume cf pf cursor (jr_first r) c of
             Consumed c Stale_Cursor \<Rightarrow>
               (case k of
                  Killed_Later n \<Rightarrow>
                    leave h (js_window s # ws) (state_of (execute (take n (loop_statements cf pf (jr_second r)))
                      (notice (Discard_Notice (case cursor of None \<Rightarrow> [] | Some t \<Rightarrow> t) Unreadable_Journal) (c\<lparr>jc_discarded := jc_discarded c + 1\<rparr>))))
                | _ \<Rightarrow> leave h (js_window s # ws) (snd (end_run cf r (read_again cf pf r cursor c))))
           | result \<Rightarrow> leave h ws (snd (end_run cf r result))))"

fun journal_sessions :: "journal_config \<Rightarrow> (string \<Rightarrow> rat option) \<Rightarrow> journal_session list \<Rightarrow> journal_past \<Rightarrow> journal_past" where
  "journal_sessions cf pf [] h = h"
| "journal_sessions cf pf (s # ss) h = journal_sessions cf pf ss (journal_session_step cf pf s h)"

text \<open>A session that is not killed is the program's own run.\<close>

lemma unkilled_session_is_run:
  assumes "js_kill s = Not_Killed"
  shows "\<exists>ws. journal_session_step cf pf s h = leave h ws (snd (run_journal cf pf (js_run s) (new_collector (jh_files h) (jh_output h))))"
  using assms by (auto simp: journal_session_step_def run_journal_def Let_def split: prod.splits consumed.splits stream_end.splits)

section \<open>What journalctl prints\<close>

text \<open>
  Documented behaviour: after a cursor, the entries that follow its entry, in order; for a time window, the entries from
  some entry on; in both cases as far as the reader got.
\<close>

definition served :: "(string \<Rightarrow> rat option) \<Rightarrow> journal \<Rightarrow> nat \<Rightarrow> string option \<Rightarrow> journal_process \<Rightarrow> bool" where
  "served pf J window cursor p \<longleftrightarrow>
     prefix (map (\<lambda>(d, c, l). (c, d)) (stream_records pf p))
       (map (\<lambda>(c, d). (Some c, d)) (case cursor of None \<Rightarrow> drop window J | Some c \<Rightarrow> drop 1 (dropWhile (\<lambda>e. fst e \<noteq> c) J)))"

fun journal_served :: "journal_config \<Rightarrow> (string \<Rightarrow> rat option) \<Rightarrow> journal \<Rightarrow> journal_session list \<Rightarrow> journal_past \<Rightarrow> bool" where
  "journal_served cf pf J [] h \<longleftrightarrow> True"
| "journal_served cf pf J (s # ss) h \<longleftrightarrow>
     served pf J (js_window s) (fst (start_collector cf (js_run s) (new_collector (jh_files h) (jh_output h)))) (jr_first (js_run s)) \<and>
     served pf J (js_window s) None (jr_second (js_run s)) \<and> journal_served cf pf J ss (journal_session_step cf pf s h)"

section \<open>Nothing before the stored cursor is missing\<close>

definition printed :: "journal_config \<Rightarrow> journal \<Rightarrow> nat \<Rightarrow> nat \<Rightarrow> emission list \<Rightarrow> bool" where
  "printed cf J b m out \<longleftrightarrow> (\<forall>j < m. b \<le> j \<longrightarrow> (\<forall>ev. jf_normalize cf (snd (J ! j)) = Inr (Some ev) \<longrightarrow> Event_Line ev \<in> set out))"

text \<open>A cursor of an entry up to which everything from a window's start is printed.\<close>

definition entry_covered :: "journal_config \<Rightarrow> journal \<Rightarrow> nat list \<Rightarrow> emission list \<Rightarrow> string \<Rightarrow> bool" where
  "entry_covered cf J ws out t \<longleftrightarrow>
     (\<exists>i < length J. fst (J ! i) = t \<and> (\<exists>b \<in> set ws. b \<le> i \<and> printed cf J b (Suc i) out))"

definition cursor_sound :: "journal_config \<Rightarrow> journal \<Rightarrow> nat list \<Rightarrow> files \<Rightarrow> emission list \<Rightarrow> bool" where
  "cursor_sound cf J ws fs out \<longleftrightarrow> (\<forall>t. load_cursor (jf_path cf) fs = Some t \<longrightarrow> entry_covered cf J ws out t)"

text \<open>While the loop runs from window \<open>b\<close> and has printed everything below entry \<open>m\<close>.\<close>

definition loop_sound :: "journal_config \<Rightarrow> journal \<Rightarrow> nat list \<Rightarrow> nat \<Rightarrow> nat \<Rightarrow> journal_collector \<Rightarrow> bool" where
  "loop_sound cf J ws b m c \<longleftrightarrow>
     b \<in> set ws \<and> printed cf J b m (jc_output c) \<and> cursor_sound cf J ws (jc_files c) (jc_output c) \<and>
     (\<forall>t. jc_pending c = Some t \<longrightarrow> entry_covered cf J ws (jc_output c) t)"

lemma printed_mono: "printed cf J b m out \<Longrightarrow> set out \<subseteq> set out' \<Longrightarrow> m' \<le> m \<Longrightarrow> printed cf J b m' out'"
  unfolding printed_def by (meson order_less_le_trans subsetD)

lemma entry_covered_mono:
  assumes "entry_covered cf J ws out t" "set out \<subseteq> set out'" "set ws \<subseteq> set ws'"
  shows "entry_covered cf J ws' out' t"
proof -
  obtain i b where i: "i < length J" "fst (J ! i) = t" and b: "b \<in> set ws" "b \<le> i" "printed cf J b (Suc i) out"
    using assms(1) unfolding entry_covered_def by blast
  have "b \<in> set ws'" using b(1) assms(3) by blast
  then show ?thesis
    unfolding entry_covered_def using i b(2) printed_mono [OF b(3) assms(2) order_refl]
    by (intro exI [of _ i] conjI bexI [of _ b])
qed

lemma cursor_sound_mono:
  "cursor_sound cf J ws fs out \<Longrightarrow> set out \<subseteq> set out' \<Longrightarrow> set ws \<subseteq> set ws' \<Longrightarrow> cursor_sound cf J ws' fs out'"
  unfolding cursor_sound_def using entry_covered_mono by blast

lemma cursor_sound_cong: "fs' (jf_path cf) = fs (jf_path cf) \<Longrightarrow> cursor_sound cf J ws fs' out = cursor_sound cf J ws fs out"
  by (simp add: cursor_sound_def load_cursor_def)

lemma loop_sound_more:
  assumes "loop_sound cf J ws b m c" "jc_files c' = jc_files c" "jc_pending c' = jc_pending c"
    "set (jc_output c) \<subseteq> set (jc_output c')" "set ws \<subseteq> set ws'" "b' \<in> set ws'" "printed cf J b' m' (jc_output c')"
  shows "loop_sound cf J ws' b' m' c'"
  using assms entry_covered_mono [OF _ assms(4,5)] cursor_sound_mono [OF _ assms(4,5)] by (simp add: loop_sound_def)

lemma loop_sound_output:
  assumes "loop_sound cf J ws b m c"
  shows "loop_sound cf J ws b m (c\<lparr>jc_output := jc_output c @ out\<rparr>)"
proof (rule loop_sound_more [OF assms])
  show "b \<in> set ws" "printed cf J b m (jc_output (c\<lparr>jc_output := jc_output c @ out\<rparr>))"
    using assms by (auto simp: loop_sound_def printed_def)
qed simp_all

lemma loop_sound_cong:
  "loop_sound cf J ws b m c \<Longrightarrow> jc_output c' = jc_output c \<Longrightarrow> jc_files c' = jc_files c \<Longrightarrow> jc_pending c' = jc_pending c
    \<Longrightarrow> loop_sound cf J ws b m c'"
  by (simp add: loop_sound_def)

lemma say_sound:
  assumes "loop_sound cf J ws b m c"
  shows "loop_sound cf J ws b m (state_of (say pipe e c))"
  using loop_sound_output [OF assms] assms by (simp add: say_def state_of_def)

lemma saved_is_sound:
  assumes sound: "loop_sound cf J ws b m c" and temp: "jf_temp cf \<noteq> jf_path cf" and pend: "jc_pending c = Some t"
    and sav: "save_cursor (jf_path cf) (jf_temp cf) outcome t (jc_files c) = (saved, fs)"
  shows "cursor_sound cf J ws fs (jc_output c)"
proof (cases saved)
  case True
  with saved_files [OF sav temp] have "is_valid_cursor (PStr t)" "fs (jf_path cf) = Some t" by simp_all
  then have load: "load_cursor (jf_path cf) fs = Some t" by (rule load_saved)
  with sound pend load show ?thesis by (simp add: loop_sound_def cursor_sound_def)
next
  case False
  with saved_files [OF sav temp] have "fs (jf_path cf) = jc_files c (jf_path cf)" by simp
  from cursor_sound_cong [where fs = "jc_files c" and fs' = fs, OF this] show ?thesis using sound by (simp add: loop_sound_def)
qed

lemma checkpoint_sound:
  assumes sound: "loop_sound cf J ws b m c" and temp: "jf_temp cf \<noteq> jf_path cf"
  shows "loop_sound cf J ws b m (state_of (checkpoint cf force now outcome pipe c))"
proof (cases "jc_pending c")
  case None
  then show ?thesis using sound by (simp add: checkpoint_def state_of_def)
next
  case (Some t)
  obtain saved fs where sav: "save_cursor (jf_path cf) (jf_temp cf) outcome t (jc_files c) = (saved, fs)" by fastforce
  have files: "loop_sound cf J ws b m (c\<lparr>jc_files := fs\<rparr>)"
    using sound saved_is_sound [OF sound temp Some sav] by (simp add: loop_sound_def)
  have ok: "loop_sound cf J ws b m (c\<lparr>jc_files := fs, jc_saved := Some t, jc_checkpoints := jc_checkpoints c + 1, jc_last := Some now\<rparr>)"
    by (rule loop_sound_cong [OF files]) simp_all
  have bad: "loop_sound cf J ws b m (state_of (case say pipe Not_Saved_Notice (c\<lparr>jc_files := fs\<rparr>) of
      Broken_Pipe c \<Rightarrow> Broken_Pipe c | Continues c \<Rightarrow> Continues (c\<lparr>jc_last := Some now\<rparr>)))"
  proof (cases "say pipe Not_Saved_Notice (c\<lparr>jc_files := fs\<rparr>)")
    case (Continues c')
    with say_sound [OF files, of pipe Not_Saved_Notice] have "loop_sound cf J ws b m c'" by (simp add: state_of_def)
    then have "loop_sound cf J ws b m (c'\<lparr>jc_last := Some now\<rparr>)" by (rule loop_sound_cong) simp_all
    with Continues show ?thesis by (simp add: state_of_def)
  next
    case (Broken_Pipe c')
    with say_sound [OF files, of pipe Not_Saved_Notice] show ?thesis by (simp add: state_of_def)
  qed
  show ?thesis
    using sound Some sav ok bad by (cases saved) (auto simp: checkpoint_def state_of_def)
qed

lemma loop_sound_step:
  assumes "loop_sound cf J ws b m c"
    and "\<And>ev. jf_normalize cf (snd (J ! m)) = Inr (Some ev) \<Longrightarrow> Event_Line ev \<in> set (jc_output c)"
  shows "loop_sound cf J ws b (Suc m) c"
  using assms unfolding loop_sound_def printed_def by (metis less_Suc_eq)

lemma emit_sound:
  assumes sound: "loop_sound cf J ws b m c" and entry: "J ! m = (t, d)"
  shows "case emit_event cf (d, cursor, l) c of
      Continues c' \<Rightarrow> loop_sound cf J ws b (Suc m) c' | Broken_Pipe c' \<Rightarrow> loop_sound cf J ws b m c'"
proof -
  let ?c = "c\<lparr>jc_records := jc_records c + 1\<rparr>"
  have c: "loop_sound cf J ws b m ?c" by (rule loop_sound_cong [OF sound]) simp_all
  have say: "loop_sound cf J ws b m (?c\<lparr>jc_output := jc_output ?c @ [e]\<rparr>)" for e by (rule loop_sound_output [OF c])
  show ?thesis
  proof (cases "jf_normalize cf d")
    case (Inl err)
    have "loop_sound cf J ws b (Suc m) (?c\<lparr>jc_output := jc_output ?c @ [Malformed_Notice]\<rparr>)"
      by (rule loop_sound_step [OF say]) (simp add: entry Inl)
    with c Inl show ?thesis by (simp add: emit_event_def say_def Let_def)
  next
    case (Inr found)
    show ?thesis
    proof (cases found)
      case None
      have "loop_sound cf J ws b (Suc m) ?c" by (rule loop_sound_step [OF c]) (simp add: entry Inr None)
      with Inr None show ?thesis by (simp add: emit_event_def Let_def)
    next
      case (Some ev)
      have "loop_sound cf J ws b (Suc m) (?c\<lparr>jc_output := jc_output ?c @ [Event_Line ev]\<rparr>)"
        by (rule loop_sound_step [OF say]) (simp add: entry Inr Some)
      then have "loop_sound cf J ws b (Suc m) (?c\<lparr>jc_output := jc_output ?c @ [Event_Line ev], jc_emitted := jc_emitted c + 1\<rparr>)"
        by (rule loop_sound_cong) simp_all
      with c Inr Some show ?thesis by (simp add: emit_event_def say_def Let_def)
    qed
  qed
qed

lemma advance_sound:
  assumes "loop_sound cf J ws b (Suc m) c" and "b \<le> m" "m < length J" "fst (J ! m) = t"
  shows "loop_sound cf J ws b (Suc m) (c\<lparr>jc_pending := Some t\<rparr>)"
proof -
  have "entry_covered cf J ws (jc_output c) t"
    unfolding entry_covered_def using assms by (intro exI [of _ m] conjI bexI [of _ b]) (simp_all add: loop_sound_def)
  with assms show ?thesis by (simp add: loop_sound_def)
qed

lemma execute_append:
  "execute (ss @ ts) c = (case execute ss c of Broken_Pipe c \<Rightarrow> Broken_Pipe c | Continues c \<Rightarrow> execute ts c)"
  by (induction ss arbitrary: c) (auto split: stepped.split)

text \<open>The loop body, stopped after any of its statements.\<close>

lemma body_sound:
  assumes sound: "loop_sound cf J ws b m c" and temp: "jf_temp cf \<noteq> jf_path cf"
    and m: "b \<le> m" "m < length J" and entry: "J ! m = (t, d)"
  shows "case execute (take n (loop_body cf (d, Some t, l))) c of
      Broken_Pipe c' \<Rightarrow> \<exists>m'. loop_sound cf J ws b m' c'
    | Continues c' \<Rightarrow> if 3 \<le> n then loop_sound cf J ws b (Suc m) c' else \<exists>m'. loop_sound cf J ws b m' c'"
proof (cases n)
  case 0
  then show ?thesis using sound by auto
next
  case (Suc n1)
  show ?thesis
  proof (cases "emit_event cf (d, Some t, l) c")
    case (Broken_Pipe c1)
    then show ?thesis using emit_sound [OF sound entry, of "Some t" l] Suc by (auto simp: loop_body_def)
  next
    case (Continues c1)
    then have c1: "loop_sound cf J ws b (Suc m) c1" using emit_sound [OF sound entry, of "Some t" l] by simp
    have c2: "loop_sound cf J ws b (Suc m) (c1\<lparr>jc_pending := Some t\<rparr>)"
      by (rule advance_sound [OF c1 m]) (simp add: entry)
    have c3: "loop_sound cf J ws b (Suc m) (state_of (checkpoint cf False (jl_now l) (jl_save l) (jl_pipe l) (c1\<lparr>jc_pending := Some t\<rparr>)))"
      by (rule checkpoint_sound [OF c2 temp])
    have "n1 = 0 \<or> n1 = Suc 0 \<or> (\<exists>k. n1 = Suc (Suc k))" by presburger
    then show ?thesis
      using Continues Suc c1 c2 c3
      by (cases "checkpoint cf False (jl_now l) (jl_save l) (jl_pipe l) (c1\<lparr>jc_pending := Some t\<rparr>)")
        (auto simp: loop_body_def advance_cursor_def state_of_def)
  qed
qed

text \<open>The loop over what journalctl printed, stopped after any number of statements.\<close>

lemma loop_sound_run:
  assumes temp: "jf_temp cf \<noteq> jf_path cf"
  shows "loop_sound cf J ws b m c \<Longrightarrow> b \<le> m \<Longrightarrow>
    prefix (map (\<lambda>(d, c, l). (c, d)) xs) (map (\<lambda>(c, d). (Some c, d)) (drop m J)) \<Longrightarrow>
    \<exists>m'. loop_sound cf J ws b m' (state_of (execute (take n (concat (map (loop_body cf) xs))) c))"
proof (induction xs arbitrary: m c n)
  case Nil
  then show ?case by (auto simp: state_of_def)
next
  case (Cons x xs)
  obtain d u l where x: "x = (d, u, l)" by (cases x) auto
  have m: "m < length J" using Cons.prems(3) by (cases "m < length J") auto
  obtain t d' where e: "J ! m = (t, d')" by fastforce
  have "drop m J = (t, d') # drop (Suc m) J" using Cons_nth_drop_Suc [OF m] e by simp
  with Cons.prems(3) x e have entry: "J ! m = (t, d)" and u: "u = Some t"
      and rest: "prefix (map (\<lambda>(d, c, l). (c, d)) xs) (map (\<lambda>(c, d). (Some c, d)) (drop (Suc m) J))" by auto
  have len: "length (loop_body cf x) = 3" by (simp add: loop_body_def x)
  have body: "case execute (take n (loop_body cf x)) c of
      Broken_Pipe c' \<Rightarrow> \<exists>m'. loop_sound cf J ws b m' c'
    | Continues c' \<Rightarrow> if 3 \<le> n then loop_sound cf J ws b (Suc m) c' else \<exists>m'. loop_sound cf J ws b m' c'"
    using body_sound [OF Cons.prems(1) temp Cons.prems(2) m entry] by (simp add: x u)
  show ?case
  proof (cases "execute (take n (loop_body cf x)) c")
    case (Broken_Pipe c')
    with body show ?thesis by (simp add: execute_append state_of_def)
  next
    case (Continues c')
    show ?thesis
    proof (cases "3 \<le> n")
      case True
      with body Continues have "loop_sound cf J ws b (Suc m) c'" by simp
      from Cons.IH [OF this _ rest] Cons.prems(2) Continues show ?thesis by (simp add: execute_append len)
    next
      case False
      with body Continues show ?thesis by (simp add: execute_append len state_of_def)
    qed
  qed
qed

text \<open>The loop of one process, stopped anywhere, and the end of a run.\<close>

lemma process_sound:
  assumes "jf_temp cf \<noteq> jf_path cf" "loop_sound cf J ws b m c" "b \<le> m"
    and "prefix (map (\<lambda>(d, c, l). (c, d)) (stream_records pf p)) (map (\<lambda>(c, d). (Some c, d)) (drop m J))"
  shows "\<exists>m'. loop_sound cf J ws b m' (state_of (execute (take n (loop_statements cf pf p)) c))"
proof (cases "jp_os_error p")
  case True
  then show ?thesis using assms(2) by (auto simp: loop_statements_def state_of_def)
next
  case False
  then show ?thesis using loop_sound_run [OF assms] by (simp add: loop_statements_def)
qed

definition collector_of :: "consumed \<Rightarrow> journal_collector" where
  "collector_of r = (case r of Consumed c how \<Rightarrow> c | Pipe_Raised c \<Rightarrow> c)"

lemma consume_collector: "collector_of (consume cf pf cursor p c) = state_of (execute (loop_statements cf pf p) c)"
  by (simp add: consume_def collector_of_def state_of_def split: stepped.split)

lemma notice_sound: "loop_sound cf J ws b m c \<Longrightarrow> loop_sound cf J ws b m (notice e c)"
  unfolding notice_def by (rule loop_sound_output)

lemma end_run_sound:
  assumes "jf_temp cf \<noteq> jf_path cf" "loop_sound cf J ws b m (collector_of result)"
  shows "loop_sound cf J ws b m (snd (end_run cf r result))"
proof (cases result)
  case (Pipe_Raised c)
  have "loop_sound cf J ws b m (state_of (checkpoint cf True (jr_end r) (jr_end_save r) (jr_end_pipe r) c))"
    using assms Pipe_Raised by (intro checkpoint_sound) (simp_all add: collector_of_def)
  with Pipe_Raised show ?thesis by (simp add: end_run_def state_of_def)
next
  case (Consumed c how)
  have c: "loop_sound cf J ws b m c" using assms(2) Consumed by (simp add: collector_of_def)
  have k: "loop_sound cf J ws b m (state_of (checkpoint cf True (jr_end r) (jr_end_save r) (jr_end_pipe r) c'))"
    if "loop_sound cf J ws b m c'" for c' using checkpoint_sound [OF that assms(1)] .
  show ?thesis
  proof (cases "how = Stream_Finished")
    case True
    with k [OF c] show ?thesis by (auto simp: end_run_def Consumed state_of_def intro: notice_sound split: stepped.splits)
  next
    case False
    with k [OF notice_sound [OF c, of Failure_Notice]] show ?thesis
      by (auto simp: end_run_def Consumed state_of_def split: stepped.splits)
  qed
qed

lemma after_cursor_entry:
  assumes "distinct (map fst J)" "i < length J"
  shows "drop 1 (dropWhile (\<lambda>e. fst e \<noteq> fst (J ! i)) J) = drop (Suc i) J"
proof -
  have split: "J = take i J @ J ! i # drop (Suc i) J" using assms(2) by (rule id_take_nth_drop)
  have "fst (J ! i) \<notin> set (map fst (take i J))" using assms(1) split by (metis distinct_append not_distinct_conv_prefix distinct.simps(2) list.simps(9) map_append disjoint_iff list.set_intros(1))
  then have before: "fst e \<noteq> fst (J ! i)" if "e \<in> set (take i J)" for e using that by (metis image_eqI list.set_map)
  have "dropWhile (\<lambda>e. fst e \<noteq> fst (J ! i)) (take i J @ J ! i # drop (Suc i) J) = J ! i # drop (Suc i) J"
    using before by (subst dropWhile_append2) auto
  then show ?thesis using split by simp
qed

text \<open>Where the loop starts: at the window, or just after the stored cursor's entry.\<close>

lemma start_sound:
  assumes start: "start_collector cf r (new_collector fs out) = (cursor, c)" and sound: "cursor_sound cf J ws fs out"
    and dist: "distinct (map fst J)" and served: "served pf J w cursor p"
  shows "\<exists>b m. b \<le> m \<and> loop_sound cf J (if cursor = None then w # ws else ws) b m c \<and>
    prefix (map (\<lambda>(d, c, l). (c, d)) (stream_records pf p)) (map (\<lambda>(c, d). (Some c, d)) (drop m J))"
proof (cases cursor)
  case None
  have c: "jc_files c = fs \<and> jc_pending c = None \<and> set out \<subseteq> set (jc_output c)"
    using start None by (auto simp: start_collector_def resolve_or_discard_def new_collector_def notice_def Let_def
        split: option.splits cursor_verdict.splits)
  then have "loop_sound cf J (w # ws) w w c"
    using cursor_sound_mono [OF sound, of "jc_output c" "w # ws"] by (auto simp: loop_sound_def printed_def)
  with None served show ?thesis by (auto simp: served_def)
next
  case (Some t)
  have c: "load_cursor (jf_path cf) fs = Some t" "jc_files c = fs" "jc_pending c = None" "set out \<subseteq> set (jc_output c)"
    using start Some by (auto simp: start_collector_def resolve_or_discard_def new_collector_def notice_def Let_def
        split: option.splits cursor_verdict.splits)
  from sound c(1) obtain i b where i: "i < length J" "fst (J ! i) = t" and b: "b \<in> set ws" "b \<le> i" "printed cf J b (Suc i) out"
    by (auto simp: cursor_sound_def entry_covered_def)
  have "loop_sound cf J ws b (Suc i) c"
    using c b cursor_sound_mono [OF sound c(4) subset_refl] printed_mono [OF b(3) c(4) order_refl] by (simp add: loop_sound_def)
  moreover have "drop 1 (dropWhile (\<lambda>e. fst e \<noteq> t) J) = drop (Suc i) J" using after_cursor_entry [OF dist i(1)] i(2) by simp
  moreover have "b \<le> Suc i" using b(2) by simp
  ultimately show ?thesis using Some served by (auto simp: served_def)
qed

lemma loop_sound_cursor: "loop_sound cf J ws b m c \<Longrightarrow> cursor_sound cf J ws (jc_files c) (jc_output c)"
  by (simp add: loop_sound_def)

lemma read_again_sound:
  assumes temp: "jf_temp cf \<noteq> jf_path cf" and c: "loop_sound cf J ws b m c" and served: "served pf J w None p"
  shows "\<exists>m'. loop_sound cf J (w # ws) w m' (state_of (execute (take n (loop_statements cf pf p))
      (notice (Discard_Notice t v) (c\<lparr>jc_discarded := k\<rparr>))))"
proof (rule process_sound [OF temp])
  show "loop_sound cf J (w # ws) w w (notice (Discard_Notice t v) (c\<lparr>jc_discarded := k\<rparr>))"
    by (rule loop_sound_more [OF c]) (auto simp: notice_def printed_def)
  show "prefix (map (\<lambda>(d, c, l). (c, d)) (stream_records pf p)) (map (\<lambda>(c, d). (Some c, d)) (drop w J))"
    using served by (simp add: served_def)
qed simp

lemma session_cases:
  assumes start: "start_collector cf (js_run s) (new_collector (jh_files h) (jh_output h)) = (cursor, c)"
    and result: "result = consume cf pf cursor (jr_first (js_run s)) c"
    and vs: "vs = (if cursor = None then [js_window s] else [])"
  shows "js_kill s = Killed n \<Longrightarrow> journal_session_step cf pf s h = leave h vs (state_of (execute (take n (loop_statements cf pf (jr_first (js_run s)))) c))"
    and "\<forall>n. js_kill s \<noteq> Killed n \<Longrightarrow> \<forall>c1. result \<noteq> Consumed c1 Stale_Cursor \<Longrightarrow>
      journal_session_step cf pf s h = leave h vs (snd (end_run cf (js_run s) result))"
    and "js_kill s = Not_Killed \<Longrightarrow> result = Consumed c1 Stale_Cursor \<Longrightarrow>
      journal_session_step cf pf s h = leave h (js_window s # vs) (snd (end_run cf (js_run s) (read_again cf pf (js_run s) cursor c1)))"
    and "js_kill s = Killed_Later n \<Longrightarrow> result = Consumed c1 Stale_Cursor \<Longrightarrow>
      journal_session_step cf pf s h = leave h (js_window s # vs) (state_of (execute (take n (loop_statements cf pf (jr_second (js_run s))))
        (notice (Discard_Notice (case cursor of None \<Rightarrow> [] | Some t \<Rightarrow> t) Unreadable_Journal) (c1\<lparr>jc_discarded := jc_discarded c1 + 1\<rparr>))))"
proof -
  assume "\<forall>n. js_kill s \<noteq> Killed n" "\<forall>c1. result \<noteq> Consumed c1 Stale_Cursor"
  then show "journal_session_step cf pf s h = leave h vs (snd (end_run cf (js_run s) result))"
    by (cases "js_kill s"; cases result; cases "case result of Consumed c1 how \<Rightarrow> how | Pipe_Raised c1 \<Rightarrow> Read_Error")
      (simp_all add: journal_session_step_def start result [symmetric] vs [symmetric] Let_def)
qed (simp_all add: journal_session_step_def start result [symmetric] vs [symmetric] Let_def)

lemma session_sound:
  assumes temp: "jf_temp cf \<noteq> jf_path cf" and dist: "distinct (map fst J)"
    and sound: "cursor_sound cf J (jh_windows h) (jh_files h) (jh_output h)"
    and first: "served pf J (js_window s) (fst (start_collector cf (js_run s) (new_collector (jh_files h) (jh_output h)))) (jr_first (js_run s))"
    and second: "served pf J (js_window s) None (jr_second (js_run s))"
    and h': "h' = journal_session_step cf pf s h"
  shows "cursor_sound cf J (jh_windows h') (jh_files h') (jh_output h')"
proof -
  let ?r = "js_run s" let ?w = "js_window s"
  obtain cursor c where start: "start_collector cf ?r (new_collector (jh_files h) (jh_output h)) = (cursor, c)" by fastforce
  define vs where "vs = (if cursor = None then [?w] else [])"
  define ws where "ws = vs @ jh_windows h"
  have ws: "(if cursor = None then ?w # jh_windows h else jh_windows h) = ws" by (simp add: ws_def vs_def)
  have "served pf J ?w cursor (jr_first ?r)" using first start by simp
  from start_sound [OF start sound dist this] ws obtain b m where bm: "b \<le> m" and c: "loop_sound cf J ws b m c"
    and p: "prefix (map (\<lambda>(d, c, l). (c, d)) (stream_records pf (jr_first ?r))) (map (\<lambda>(c, d). (Some c, d)) (drop m J))"
    by auto
  have left: "cursor_sound cf J (jh_windows (leave h vs c')) (jh_files (leave h vs c')) (jh_output (leave h vs c'))"
    if "\<exists>b m. loop_sound cf J (vs @ jh_windows h) b m c'" for vs c' using that by (auto simp: leave_def loop_sound_def)
  have killed: "\<exists>m. loop_sound cf J ws b m (state_of (execute (take n (loop_statements cf pf (jr_first ?r))) c))" for n
    by (rule process_sound [OF temp c bm p])
  define result where "result = consume cf pf cursor (jr_first ?r) c"
  obtain m1 where m1: "loop_sound cf J ws b m1 (collector_of result)"
    using killed [of "length (loop_statements cf pf (jr_first ?r))"] by (auto simp: result_def consume_collector)
  note cases = session_cases [OF start result_def vs_def]
  have plain: ?thesis if "h' = leave h vs (snd (end_run cf ?r result))"
    using that left [of vs "snd (end_run cf ?r result)"] end_run_sound [OF temp m1, of ?r] by (auto simp: ws_def)
  have later: ?thesis if "h' = leave h (?w # vs) c'" "\<exists>m. loop_sound cf J (?w # ws) ?w m c'" for c'
    using that left [of "?w # vs" c'] by (auto simp: ws_def)
  show ?thesis
  proof (cases "\<exists>c1. result = Consumed c1 Stale_Cursor")
    case False
    show ?thesis
    proof (cases "\<exists>n. js_kill s = Killed n")
      case True
      then obtain n where "js_kill s = Killed n" ..
      from cases(1) [OF this] left [of vs] killed [of n] show ?thesis by (auto simp: h' ws_def)
    qed (use False cases(2) plain h' in blast)
  next
    case True
    then obtain c1 where c1: "result = Consumed c1 Stale_Cursor" ..
    then have s1: "loop_sound cf J ws b m1 c1" using m1 by (simp add: collector_of_def)
    note again = read_again_sound [OF temp s1 second]
    have "\<exists>m. loop_sound cf J (?w # ws) ?w m (collector_of (read_again cf pf ?r cursor c1))"
      using again [of "length (loop_statements cf pf (jr_second ?r))"] by (simp add: read_again_def consume_collector)
    then have ended: "\<exists>m. loop_sound cf J (?w # ws) ?w m (snd (end_run cf ?r (read_again cf pf ?r cursor c1)))"
      using end_run_sound [OF temp] by blast
    show ?thesis
    proof (cases "js_kill s")
      case Not_Killed
      show ?thesis by (rule later [OF _ ended]) (simp add: h' cases(3) [OF Not_Killed c1])
    next
      case (Killed n)
      from cases(1) [OF this] left [of vs] killed [of n] show ?thesis by (auto simp: h' ws_def)
    next
      case (Killed_Later n)
      show ?thesis by (rule later [OF _ again]) (simp add: h' cases(4) [OF Killed_Later c1])
    qed
  qed
qed

section \<open>Every window read is announced\<close>

definition announces :: "emission \<Rightarrow> bool" where
  "announces e = (case e of No_Cursor_Notice \<Rightarrow> True | Discard_Notice _ _ \<Rightarrow> True | _ \<Rightarrow> False)"

definition announced :: "emission list \<Rightarrow> nat" where
  "announced out = length (filter announces out)"

lemma announced_append [simp]: "announced (out @ out') = announced out + announced out'"
  by (simp add: announced_def)

lemma announced_cons [simp]: "announced [] = 0" "announced (e # out) = (if announces e then 1 else 0) + announced out"
  by (simp_all add: announced_def)

lemma checkpoint_quiet: "announced (jc_output (state_of (checkpoint cf force now outcome pipe c))) = announced (jc_output c)"
  by (auto simp: checkpoint_def say_def state_of_def announces_def split: option.split prod.split bool.split stepped.split if_splits)

lemma statement_quiet:
  assumes "s \<in> set (loop_statements cf pf p)"
  shows "announced (jc_output (state_of (s c))) = announced (jc_output c)"
proof -
  from assms obtain d u l where "s \<in> set (loop_body cf (d, u, l))" by (auto simp: loop_statements_def split: if_splits)
  then consider "s = emit_event cf (d, u, l)" | "s = advance_cursor (d, u, l)" | "s = checkpoint cf False (jl_now l) (jl_save l) (jl_pipe l)"
    by (auto simp: loop_body_def)
  then show ?thesis
  proof cases
    case 3
    then show ?thesis by (simp only: checkpoint_quiet)
  qed (auto simp: emit_event_def advance_cursor_def say_def state_of_def announces_def Let_def split: option.split sum.split)
qed

lemma execute_quiet:
  "(\<And>s c. s \<in> set ss \<Longrightarrow> announced (jc_output (state_of (s c))) = announced (jc_output c)) \<Longrightarrow>
    announced (jc_output (state_of (execute ss c))) = announced (jc_output c)"
proof (induction ss arbitrary: c)
  case Nil
  show ?case by (simp add: state_of_def)
next
  case (Cons s ss)
  from Cons.prems [of s c] have s: "announced (jc_output (state_of (s c))) = announced (jc_output c)" by simp
  show ?case
  proof (cases "s c")
    case (Continues c1)
    with Cons.IH [of c1] Cons.prems s show ?thesis by (simp add: state_of_def)
  next
    case (Broken_Pipe c1)
    with s show ?thesis by (simp add: state_of_def)
  qed
qed

lemma process_quiet: "announced (jc_output (state_of (execute (take n (loop_statements cf pf p)) c))) = announced (jc_output c)"
  by (rule execute_quiet) (auto dest: in_set_takeD intro: statement_quiet)

lemma end_run_quiet: "announced (jc_output (snd (end_run cf r result))) = announced (jc_output (collector_of result))"
proof -
  have k: "announced (jc_output (state_of (checkpoint cf True (jr_end r) (jr_end_save r) (jr_end_pipe r) c))) = announced (jc_output c)" for c
    by (rule checkpoint_quiet)
  show ?thesis
  proof (cases result)
    case (Pipe_Raised c)
    with k [of c] show ?thesis by (simp add: end_run_def collector_of_def state_of_def)
  next
    case (Consumed c how)
    with k [of c] k [of "notice Failure_Notice c"] show ?thesis
      by (cases "how = Stream_Finished")
        (auto simp: end_run_def collector_of_def state_of_def notice_def announces_def split: stepped.splits)
  qed
qed

lemma consume_quiet: "announced (jc_output (collector_of (consume cf pf cursor p c))) = announced (jc_output c)"
  using process_quiet [where cf = cf and pf = pf and p = p and n = "length (loop_statements cf pf p)"] by (simp add: consume_collector)

lemma session_announced:
  assumes "length (jh_windows h) = announced (jh_output h)"
  shows "length (jh_windows (journal_session_step cf pf s h)) = announced (jh_output (journal_session_step cf pf s h))"
proof -
  obtain cursor c where start: "start_collector cf (js_run s) (new_collector (jh_files h) (jh_output h)) = (cursor, c)" by fastforce
  define vs where "vs = (if cursor = None then [js_window s] else [])"
  define result where "result = consume cf pf cursor (jr_first (js_run s)) c"
  note cases = session_cases [OF start result_def vs_def]
  have c: "announced (jc_output c) = length vs + announced (jh_output h)"
    using start by (auto simp: vs_def start_collector_def resolve_or_discard_def new_collector_def notice_def announces_def Let_def
        split: option.splits cursor_verdict.splits)
  have res: "announced (jc_output (collector_of result)) = announced (jc_output c)" by (simp add: result_def consume_quiet)
  show ?thesis
  proof (cases "\<exists>c1. result = Consumed c1 Stale_Cursor")
    case False
    with cases(1,2) assms c res show ?thesis
      by (cases "js_kill s") (simp_all add: leave_def process_quiet end_run_quiet)
  next
    case True
    then obtain c1 where c1: "result = Consumed c1 Stale_Cursor" ..
    then have "announced (jc_output c1) = announced (jc_output c)" using res by (simp add: collector_of_def)
    then show ?thesis
      using cases(1) cases(3) [OF _ c1] cases(4) [OF _ c1] assms c
      by (cases "js_kill s")
        (simp_all add: leave_def process_quiet end_run_quiet read_again_def consume_quiet notice_def announces_def)
  qed
qed

lemma sessions_announced:
  "length (jh_windows h) = announced (jh_output h) \<Longrightarrow>
    length (jh_windows (journal_sessions cf pf ss h)) = announced (jh_output (journal_sessions cf pf ss h))"
  by (induction ss arbitrary: h) (simp_all add: session_announced)

lemma sessions_sound:
  assumes "jf_temp cf \<noteq> jf_path cf" "distinct (map fst J)"
  shows "cursor_sound cf J (jh_windows h) (jh_files h) (jh_output h) \<Longrightarrow> journal_served cf pf J ss h \<Longrightarrow>
    h' = journal_sessions cf pf ss h \<Longrightarrow> cursor_sound cf J (jh_windows h') (jh_files h') (jh_output h')"
proof (induction ss arbitrary: h)
  case (Cons s ss)
  from Cons.prems(2) have "cursor_sound cf J (jh_windows (journal_session_step cf pf s h)) (jh_files (journal_session_step cf pf s h))
      (jh_output (journal_session_step cf pf s h))"
    by (intro session_sound [OF assms Cons.prems(1) _ _ refl]) simp_all
  from Cons.IH [OF this] Cons.prems show ?case by simp
qed simp

end
