(* ===== verification/Journal_Monitors.thy ===== *)
theory Journal_Monitors
  imports Journal_Stream
begin

text \<open>
  The two predicates of the journald collectors: PAM session and authentication records
  (\<^verbatim>\<open>auth_session_monitor.py\<close>) and unit lifecycle statements of the service manager (\<^verbatim>\<open>service_monitor.py\<close>). Each
  regular expression is the search its pattern describes; every choice in the patterns is determined by the next character,
  except the end of a unit name, where the longest one wins. Text is ASCII.
\<close>

section \<open>Searching\<close>

text \<open>A literal part of a pattern, without regard to case.\<close>

definition after_ci :: "string \<Rightarrow> string \<Rightarrow> string option" where
  "after_ci lit s = (if lower (take (length lit) s) = lower lit then Some (drop (length lit) s) else None)"

text \<open>One or more characters of a class.\<close>

definition some_of :: "(char \<Rightarrow> bool) \<Rightarrow> string \<Rightarrow> (string \<times> string) option" where
  "some_of P s = (if takeWhile P s = [] then None else Some (takeWhile P s, dropWhile P s))"

fun search :: "(string \<Rightarrow> 'a option) \<Rightarrow> string \<Rightarrow> 'a option" where
  "search m [] = m []"
| "search m (c # cs) = (case m (c # cs) of Some x \<Rightarrow> Some x | None \<Rightarrow> search m cs)"

section \<open>PAM records\<close>

definition pam_service :: "string \<Rightarrow> (string \<times> string) option" where
  "pam_service s =
     do {
       r \<leftarrow> after_ci ''pam_'' s;
       (tool, r) \<leftarrow> some_of (\<lambda>c. c \<noteq> CHR ''('') r;
       r \<leftarrow> after_ci ''('' r;
       some_of (\<lambda>c. c \<notin> set '':()'') r
     }"

definition pam_session_at :: "string \<Rightarrow> (string \<times> string \<times> string) option" where
  "pam_session_at s =
     do {
       (service, r) \<leftarrow> pam_service s;
       r \<leftarrow> after_ci '':session): session '' r;
       (action, r) \<leftarrow> (case after_ci ''opened'' r of Some t \<Rightarrow> Some (take 6 r, t)
                      | None \<Rightarrow> (case after_ci ''closed'' r of Some t \<Rightarrow> Some (take 6 r, t) | None \<Rightarrow> None));
       r \<leftarrow> after_ci '' for user '' r;
       (account, r) \<leftarrow> some_of (\<lambda>c. \<not> is_space c \<and> c \<noteq> CHR ''('') r;
       Some (service, action, account)
     }"

definition pam_failure_at :: "string \<Rightarrow> string option" where
  "pam_failure_at s =
     do {
       (service, r) \<leftarrow> pam_service s;
       r \<leftarrow> after_ci '':auth): authentication failure'' r;
       Some service
     }"

text \<open>\<open>int(value)\<close> with its errors as None.\<close>

definition journal_integer :: "(string \<Rightarrow> int option) \<Rightarrow> doc \<Rightarrow> int option" where
  "journal_integer parse_int v =
     (if v = PNone then None else case to_int parse_int v of Inl e \<Rightarrow> None | Inr i \<Rightarrow> Some i)"

definition int_doc :: "int option \<Rightarrow> doc" where
  "int_doc v = (case v of None \<Rightarrow> PNone | Some i \<Rightarrow> PInt i)"

text \<open>The record's time; a missing or non-positive one drops the record.\<close>

definition record_time :: "(string \<Rightarrow> int option) \<Rightarrow> rat pymap \<Rightarrow> rat option" where
  "record_time parse_int d =
     (case journal_integer parse_int (or_else (dget d ''__REALTIME_TIMESTAMP'') (dget d ''_SOURCE_REALTIME_TIMESTAMP'')) of
        None \<Rightarrow> None
      | Some us \<Rightarrow> if us \<le> 0 then None else Some (of_int us / 1000000))"

definition pam_fields :: "string \<Rightarrow> (string \<times> string \<times> string \<times> doc) option" where
  "pam_fields message =
     (case search pam_session_at message of
        Some (service, action, account) \<Rightarrow> Some (''session_'' @ lower action, ''success'', service, PStr account)
      | None \<Rightarrow>
          (case search pam_failure_at message of
             Some service \<Rightarrow> Some (''authentication'', ''failure'', service, PNone)
           | None \<Rightarrow> None))"

definition normalize_auth_record :: "(string \<Rightarrow> int option) \<Rightarrow> rat pymap \<Rightarrow> rat pymap option" where
  "normalize_auth_record parse_int d =
     (case dget d ''MESSAGE'' of
        PStr message \<Rightarrow>
          do {
            (action, result, service, account) \<leftarrow> pam_fields message;
            timestamp \<leftarrow> record_time parse_int d;
            Some [(''event_type'', PStr ''auth_session''), (''timestamp'', PFloat timestamp),
                  (''pid'', int_doc (journal_integer parse_int (or_else (dget d ''_PID'') (dget d ''SYSLOG_PID'')))),
                  (''uid'', int_doc (journal_integer parse_int (dget d ''_UID''))),
                  (''comm'', or_else (dget d ''SYSLOG_IDENTIFIER'') (dget d ''_COMM'')),
                  (''action'', PStr action), (''result'', PStr result), (''service'', PStr service), (''account'', account),
                  (''message'', PStr message), (''source'', PStr ''journald_pam''), (''version'', PStr ''1.0'')]
          }
      | _ \<Rightarrow> None)"

section \<open>Unit lifecycle statements\<close>

definition word_char :: "char \<Rightarrow> bool" where
  "word_char c \<longleftrightarrow>
     (let n = of_char c :: nat in 48 \<le> n \<and> n \<le> 57 \<or> 65 \<le> n \<and> n \<le> 90 \<or> 97 \<le> n \<and> n \<le> 122 \<or> c = CHR ''_'')"

definition begins_with_word :: "string \<Rightarrow> bool" where
  "begins_with_word s = (case s of [] \<Rightarrow> False | c # _ \<Rightarrow> word_char c)"

definition unit_suffixes :: "string list" where
  "unit_suffixes = [''.service'', ''.target'', ''.scope'', ''.timer'', ''.socket'', ''.path'']"

text \<open>A suffix at the front of the text, ending at a word boundary.\<close>

definition unit_suffix :: "string \<Rightarrow> string option" where
  "unit_suffix s = find (\<lambda>u. take (length u) s = u \<and> \<not> begins_with_word (drop (length u) s)) unit_suffixes"

text \<open>The match that starts here, after the character \<open>prev\<close>: the longest name before a suffix.\<close>

definition unit_at :: "bool \<Rightarrow> string \<Rightarrow> string option" where
  "unit_at prev_word s =
     (if prev_word = begins_with_word s then None
      else let run = length (takeWhile (\<lambda>c. \<not> is_space c) s) in
        case find (\<lambda>n. unit_suffix (drop n s) \<noteq> None) (rev [1..<Suc run]) of
          None \<Rightarrow> None
        | Some n \<Rightarrow> map_option (\<lambda>u. take n s @ u) (unit_suffix (drop n s)))"

fun search_unit :: "bool \<Rightarrow> string \<Rightarrow> string option" where
  "search_unit prev_word [] = unit_at prev_word []"
| "search_unit prev_word (c # cs) =
     (case unit_at prev_word (c # cs) of Some u \<Rightarrow> Some u | None \<Rightarrow> search_unit (word_char c) cs)"

definition starts_with :: "string \<Rightarrow> string \<Rightarrow> bool" where
  "starts_with p s \<longleftrightarrow> take (length p) s = p"

definition lifecycle :: "string \<Rightarrow> (string \<times> string \<times> string) option" where
  "lifecycle message =
     (case search_unit False message of
        None \<Rightarrow> None
      | Some unit \<Rightarrow>
          if starts_with ''Started '' message then Some (unit, ''started'', ''success'')
          else if starts_with ''Stopped '' message then Some (unit, ''stopped'', ''success'')
          else if starts_with ''Failed to start '' message \<or> contains '' entered failed state.'' message
          then Some (unit, ''failed'', ''failure'')
          else None)"

definition normalize_service_record :: "(string \<Rightarrow> int option) \<Rightarrow> rat pymap \<Rightarrow> rat pymap option" where
  "normalize_service_record parse_int d =
     (let identifier = or_else (dget d ''SYSLOG_IDENTIFIER'') (dget d ''_COMM'') in
      case (dget d ''_SYSTEMD_UNIT'', dget d ''MESSAGE'') of
        (PStr reporter, PStr message) \<Rightarrow>
          if reporter = [] \<or> identifier \<noteq> PStr ''systemd'' then None
          else do {
            (unit, action, result) \<leftarrow> lifecycle message;
            timestamp \<leftarrow> record_time parse_int d;
            Some [(''event_type'', PStr ''service_state''), (''timestamp'', PFloat timestamp),
                  (''pid'', int_doc (journal_integer parse_int (or_else (dget d ''_PID'') (dget d ''SYSLOG_PID'')))),
                  (''uid'', int_doc (journal_integer parse_int (dget d ''_UID''))), (''comm'', identifier),
                  (''unit'', PStr unit), (''reporter_unit'', PStr reporter), (''action'', PStr action), (''result'', PStr result),
                  (''message'', PStr message), (''source'', PStr ''journald_systemd''), (''version'', PStr ''1.0'')]
          }
      | _ \<Rightarrow> None)"

text \<open>The one-shot reader: every line that parses to an object and matches.\<close>

definition parse_journal_json :: "(string \<Rightarrow> rat option) \<Rightarrow> (rat pymap \<Rightarrow> rat pymap option) \<Rightarrow> string list \<Rightarrow> rat pymap list" where
  "parse_journal_json pf monitor lines =
     List.map_filter (\<lambda>line. case loads pf line of Some (PDict d) \<Rightarrow> monitor d | _ \<Rightarrow> None) lines"

end
