(* ===== verification/Journal_Properties.thy ===== *)
theory Journal_Properties
  imports Journal_Resume Journal_Monitors Ingestion_Accounting Event_Identity
begin

text \<open>
  The properties of the journald collectors: what a stored cursor guarantees after any restarts, how much a kill can make
  a collector read again, what becomes of its records in the pipeline, and where the gap report and the end-to-end promise
  fall short of the module's description.
\<close>

section \<open>At least once\<close>

definition first_past :: "files \<Rightarrow> journal_past" where
  "first_past fs = \<lparr>jh_files = fs, jh_output = [], jh_windows = []\<rparr>"

text \<open>C34: Restarts lose nothing that the cursor passed. Start a collector with no usable cursor and run it any number of
times, each run ending by itself or killed at any statement, with any clock, any failing checkpoints and any failing
writes. If the cursor file then holds a cursor, it is that of a journal entry, and every matching entry from the start of
some window read up to it has been printed; and each window read, the only way to leave entries out, was announced.\<close>

theorem no_record_is_skipped:
  assumes "jf_temp cf \<noteq> jf_path cf" "distinct (map fst J)" "load_cursor (jf_path cf) fs = None"
    and "journal_served cf pf J ss (first_past fs)"
    and "load_cursor (jf_path cf) (jh_files (journal_sessions cf pf ss (first_past fs))) = Some t"
  shows "(\<exists>i < length J. fst (J ! i) = t \<and> (\<exists>b \<in> set (jh_windows (journal_sessions cf pf ss (first_past fs))). b \<le> i \<and>
      (\<forall>j ev. b \<le> j \<and> j \<le> i \<and> jf_normalize cf (snd (J ! j)) = Inr (Some ev) \<longrightarrow>
        Event_Line ev \<in> set (jh_output (journal_sessions cf pf ss (first_past fs)))))) \<and>
    length (jh_windows (journal_sessions cf pf ss (first_past fs))) = announced (jh_output (journal_sessions cf pf ss (first_past fs)))"
proof -
  let ?h = "journal_sessions cf pf ss (first_past fs)"
  have "cursor_sound cf J (jh_windows ?h) (jh_files ?h) (jh_output ?h)"
    by (rule sessions_sound [OF assms(1,2) _ assms(4) refl]) (simp add: first_past_def cursor_sound_def assms(3))
  then have "entry_covered cf J (jh_windows ?h) (jh_output ?h) t" using assms(5) by (simp add: cursor_sound_def)
  moreover have "length (jh_windows ?h) = announced (jh_output ?h)" by (rule sessions_announced) (simp add: first_past_def)
  ultimately show ?thesis by (simp add: entry_covered_def printed_def less_Suc_eq_le) blast
qed

definition example_cursor :: "string \<Rightarrow> string" where
  "example_cursor s = ''s=0123456789abcd;i='' @ s"

definition example_line :: "string \<Rightarrow> rat \<Rightarrow> journal_line" where
  "example_line s now =
     \<lparr>jl_text = ''{'' @ [CHR 0x22] @ ''__CURSOR'' @ [CHR 0x22, CHR '':'', CHR 0x22] @ example_cursor s @ [CHR 0x22, CHR ''}''],
      jl_now = now, jl_save = Saves, jl_pipe = True\<rparr>"

definition example_record :: "string \<Rightarrow> rat pymap" where
  "example_record s = [(''__CURSOR'', PStr (example_cursor s))]"

definition example_process :: "string list \<Rightarrow> journal_process" where
  "example_process ss = \<lparr>jp_os_error = False, jp_lines = map (\<lambda>s. example_line s 0) ss, jp_stop = None, jp_status = 0, jp_stderr = []\<rparr>"

definition example_run :: "string list \<Rightarrow> journal_run" where
  "example_run ss =
     \<lparr>jr_follow = True, jr_probe = Probe_Exit 0 ''entry'' [], jr_first = example_process ss, jr_second = example_process [],
      jr_end = 0, jr_end_save = Saves, jr_end_pipe = True\<rparr>"

definition example_config :: journal_config where
  "example_config = \<lparr>jf_normalize = (\<lambda>d. Inr (Some d)), jf_interval = 2, jf_path = ''cursor'', jf_temp = ''temp''\<rparr>"

text \<open>A run killed after its second record was printed, before the next checkpoint, and a second run that reads it again.\<close>

definition example_sessions :: "journal_session list" where
  "example_sessions =
     [\<lparr>js_run = example_run [''1'', ''2'', ''3''], js_kill = Killed 4, js_window = 0\<rparr>,
      \<lparr>js_run = example_run [''2'', ''3''], js_kill = Not_Killed, js_window = 0\<rparr>]"

lemma example_served:
  "journal_served example_config (\<lambda>_. None) (map (\<lambda>s. (example_cursor s, example_record s)) [''1'', ''2'', ''3'']) example_sessions
     (first_past Map.empty)"
  by code_simp

lemma example_resumed:
  "load_cursor ''cursor'' (jh_files (journal_sessions example_config (\<lambda>_. None) example_sessions (first_past Map.empty))) = Some (example_cursor ''3'')"
  by code_simp

theorem no_record_is_skipped_witness:
  "let h = journal_sessions example_config (\<lambda>_. None) example_sessions (first_past Map.empty);
       J = map (\<lambda>s. (example_cursor s, example_record s)) [''1'', ''2'', ''3''] in
   (\<exists>i < length J. fst (J ! i) = example_cursor ''3'' \<and> (\<exists>b \<in> set (jh_windows h). b \<le> i \<and>
      (\<forall>j ev. b \<le> j \<and> j \<le> i \<and> jf_normalize example_config (snd (J ! j)) = Inr (Some ev) \<longrightarrow> Event_Line ev \<in> set (jh_output h)))) \<and>
   length (jh_windows h) = announced (jh_output h)"
proof -
  have "jf_temp example_config \<noteq> jf_path example_config" "jf_path example_config = ''cursor''" by (simp_all add: example_config_def)
  moreover have "distinct (map fst (map (\<lambda>s. (example_cursor s, example_record s)) [''1'', ''2'', ''3'']))"
    by (simp add: example_cursor_def)
  ultimately show ?thesis
    unfolding Let_def using example_resumed
    by (intro no_record_is_skipped [OF _ _ _ example_served]) (simp_all add: load_cursor_def)
qed

section \<open>What a kill costs\<close>

lemma concat_thirds:
  "(\<And>x. length (f x) = 3) \<Longrightarrow> k \<le> length xs \<Longrightarrow> 3 * k \<le> n \<Longrightarrow> n < 3 * k + 3 \<Longrightarrow>
    take n (concat (map f xs)) = concat (map f (take k xs)) @ (if k < length xs then take (n - 3 * k) (f (xs ! k)) else [])"
proof (induction xs arbitrary: k n)
  case (Cons x xs)
  show ?case
  proof (cases k)
    case 0
    with Cons.prems show ?thesis by simp
  next
    case (Suc k')
    have len: "length (f x) = 3" by (rule Cons.prems(1))
    have "take (n - 3) (concat (map f xs)) =
        concat (map f (take k' xs)) @ (if k' < length xs then take (n - 3 - 3 * k') (f (xs ! k')) else [])"
      using Cons.prems Suc by (intro Cons.IH) auto
    then show ?thesis using Suc Cons.prems(3) len by (auto simp: diff_diff_left)
  qed
qed simp

text \<open>The cursor file after \<open>k\<close> records: it is at record \<open>p\<close>, and no later one came an interval after it.\<close>

definition lag_bounded ::
  "journal_config \<Rightarrow> (rat pymap \<times> string option \<times> journal_line) list \<Rightarrow> nat \<Rightarrow> journal_collector \<Rightarrow> bool" where
  "lag_bounded cf xs k c \<longleftrightarrow>
     (if k = 0 then jc_saved c = None \<and> jc_last c = None
      else \<exists>p < k. jc_saved c = fst (snd (xs ! p)) \<and> jc_files c (jf_path cf) = fst (snd (xs ! p)) \<and> jc_last c = Some (jl_now (snd (snd (xs ! p)))) \<and>
        (\<forall>q. p < q \<and> q < k \<longrightarrow> jl_now (snd (snd (xs ! q))) - jl_now (snd (snd (xs ! p))) < jf_interval cf))"

lemma emit_frame:
  assumes "jl_pipe l"
  shows "\<exists>c'. emit_event cf (d, u, l) c = Continues c' \<and> jc_saved c' = jc_saved c \<and> jc_last c' = jc_last c \<and>
    jc_files c' = jc_files c \<and> jc_pending c' = jc_pending c"
  using assms by (auto simp: emit_event_def say_def Let_def split: sum.split option.split)

lemma save_succeeds:
  assumes "is_valid_cursor (PStr t)" "temp \<noteq> path"
  shows "\<exists>fs'. save_cursor path temp Saves t fs = (True, fs') \<and> fs' path = Some t"
  using assms by (simp add: save_cursor_def save_steps_def)

lemma body_lag:
  assumes temp: "jf_temp cf \<noteq> jf_path cf" and lag: "lag_bounded cf xs k c" and k: "k < length xs"
    and xk: "xs ! k = (d, Some t, l)" and ok: "jl_pipe l" "jl_save l = Saves" "is_valid_cursor (PStr t)"
    and new: "\<forall>p < k. fst (snd (xs ! p)) \<noteq> Some t"
  shows "\<exists>c'. execute (loop_body cf (xs ! k)) c = Continues c' \<and> lag_bounded cf xs (Suc k) c'"
proof -
  from emit_frame [OF ok(1), of cf d "Some t" c] obtain c1 where emit: "emit_event cf (d, Some t, l) c = Continues c1"
    and c1: "jc_saved c1 = jc_saved c" "jc_last c1 = jc_last c" "jc_files c1 = jc_files c" by blast
  from save_succeeds [OF ok(3) temp, of "jc_files c1"] obtain fs where sav: "save_cursor (jf_path cf) (jf_temp cf) Saves t (jc_files c1) = (True, fs)"
    and fs: "fs (jf_path cf) = Some t" by blast
  let ?c = "c1\<lparr>jc_pending := Some t\<rparr>"
  have run: "execute (loop_body cf (d, Some t, l)) c = (case checkpoint cf False (jl_now l) Saves True ?c of Continues c \<Rightarrow> Continues c | Broken_Pipe c \<Rightarrow> Broken_Pipe c)"
    using ok by (simp add: loop_body_def emit advance_cursor_def split: stepped.split)
  show ?thesis
  proof (cases "k = 0")
    case True
    with lag c1 sav fs show ?thesis by (simp add: run checkpoint_def lag_bounded_def xk [unfolded True])
  next
    case False
    with lag obtain p where p: "p < k" "jc_saved c = fst (snd (xs ! p))" "jc_files c (jf_path cf) = fst (snd (xs ! p))"
        "jc_last c = Some (jl_now (snd (snd (xs ! p))))"
        "\<forall>q. p < q \<and> q < k \<longrightarrow> jl_now (snd (snd (xs ! q))) - jl_now (snd (snd (xs ! p))) < jf_interval cf"
      by (auto simp: lag_bounded_def)
    have "jc_saved c1 \<noteq> Some t" using new p(1,2) c1 by auto
    show ?thesis
    proof (cases "jl_now l - jl_now (snd (snd (xs ! p))) < jf_interval cf")
      case True
      have "lag_bounded cf xs (Suc k) ?c"
        using p c1 True xk by (auto simp: lag_bounded_def less_Suc_eq intro!: exI [of _ p])
      then show ?thesis using True p(4) c1 by (simp add: run checkpoint_def xk)
    next
      case False
      then show ?thesis using p(4) c1 sav fs \<open>jc_saved c1 \<noteq> Some t\<close>
        by (auto simp: run checkpoint_def lag_bounded_def xk intro!: exI [of _ k])
    qed
  qed
qed

lemma stream_cursor_valid:
  assumes "(d, u, l) \<in> set (stream_records pf p)"
  shows "u = Some t \<Longrightarrow> is_valid_cursor (PStr t)" and "l \<in> set (jp_lines p)"
proof -
  from assms obtain l' where l': "l' \<in> set (jp_lines p)" "record_of_line pf l' = Some (d, u, l)"
    by (auto simp: stream_records_def map_filter_def dest: in_set_takeD split: option.splits)
  then show "l \<in> set (jp_lines p)" by (auto simp: record_of_line_def split: if_splits option.splits pyobj.splits)
  show "is_valid_cursor (PStr t)" if "u = Some t"
    using l'(2) that by (auto simp: record_of_line_def is_valid_cursor_def the_str_def split: if_splits option.splits pyobj.splits)
qed

lemma loop_lag:
  assumes temp: "jf_temp cf \<noteq> jf_path cf" and fresh: "jc_saved c = None" "jc_last c = None"
    and lines: "\<forall>l \<in> set (jp_lines p). jl_pipe l \<and> jl_save l = Saves"
    and cursors: "distinct (map (fst \<circ> snd) (stream_records pf p))" "None \<notin> set (map (fst \<circ> snd) (stream_records pf p))"
  shows "k \<le> length (stream_records pf p) \<Longrightarrow>
    \<exists>c'. execute (concat (map (loop_body cf) (take k (stream_records pf p)))) c = Continues c' \<and> lag_bounded cf (stream_records pf p) k c'"
proof (induction k)
  case 0
  then show ?case using fresh by (simp add: lag_bounded_def)
next
  case (Suc k)
  let ?xs = "stream_records pf p"
  have k: "k < length ?xs" using Suc.prems by simp
  from Suc obtain c1 where c1: "execute (concat (map (loop_body cf) (take k ?xs))) c = Continues c1" "lag_bounded cf ?xs k c1" by auto
  obtain d u l where xk: "?xs ! k = (d, u, l)" by (cases "?xs ! k") auto
  have mem: "(d, u, l) \<in> set ?xs" using xk nth_mem [OF k] by simp
  have "u \<noteq> None" using cursors(2) mem by force
  then obtain t where u: "u = Some t" by blast
  have new: "fst (snd (?xs ! p')) \<noteq> Some t" if "p' < k" for p'
  proof
    assume "fst (snd (?xs ! p')) = Some t"
    then have "map (fst \<circ> snd) ?xs ! p' = map (fst \<circ> snd) ?xs ! k" using that k xk u by simp
    moreover have "p' < length (map (fst \<circ> snd) ?xs)" "k < length (map (fst \<circ> snd) ?xs)" using that k by simp_all
    ultimately have "p' = k" using nth_eq_iff_index_eq [OF cursors(1)] by blast
    with that show False by simp
  qed
  have "\<exists>c'. execute (loop_body cf (?xs ! k)) c1 = Continues c' \<and> lag_bounded cf ?xs (Suc k) c'"
  proof (rule body_lag [OF temp c1(2) k])
    show "?xs ! k = (d, Some t, l)" using xk u by simp
    show "jl_pipe l" "jl_save l = Saves" using lines stream_cursor_valid(2) [OF mem] by simp_all
    show "is_valid_cursor (PStr t)" using stream_cursor_valid(1) [OF mem u] .
    show "\<forall>p' < k. fst (snd (?xs ! p')) \<noteq> Some t" using new by blast
  qed
  then obtain c' where c': "execute (loop_body cf (?xs ! k)) c1 = Continues c'" "lag_bounded cf ?xs (Suc k) c'" by blast
  have "execute (concat (map (loop_body cf) (take (Suc k) ?xs))) c = Continues c'"
    using c1(1) c'(1) by (simp add: take_Suc_conv_app_nth [OF k] execute_append)
  with c'(2) show ?case by blast
qed

text \<open>C35: A kill costs at most one interval. Kill a collector after \<open>n\<close> statements of its loop, \<open>k\<close> whole records, while
checkpoints and writes succeed: the file holds the cursor of one of those records, and every record after it that was
already handled came less than the checkpoint interval after it. So what a restart reads again, apart from the record in
progress, is less than an interval of records.\<close>

theorem reread_is_bounded:
  assumes "jf_temp cf \<noteq> jf_path cf" "\<not> jp_os_error p" "\<forall>l \<in> set (jp_lines p). jl_pipe l \<and> jl_save l = Saves"
    and "distinct (map (fst \<circ> snd) (stream_records pf p))" "None \<notin> set (map (fst \<circ> snd) (stream_records pf p))"
    and "jc_saved c = None" "jc_last c = None"
    and "0 < k" "k \<le> length (stream_records pf p)" "3 * k \<le> n" "n < 3 * k + 3"
  shows "\<exists>q < k. load_cursor (jf_path cf) (jc_files (state_of (execute (take n (loop_statements cf pf p)) c))) = fst (snd (stream_records pf p ! q)) \<and>
    (\<forall>j. q < j \<and> j < k \<longrightarrow> jl_now (snd (snd (stream_records pf p ! j))) - jl_now (snd (snd (stream_records pf p ! q))) < jf_interval cf)"
proof -
  let ?xs = "stream_records pf p"
  from loop_lag [OF assms(1,6,7,3,4,5,9)] obtain c1
    where c1: "execute (concat (map (loop_body cf) (take k ?xs))) c = Continues c1" "lag_bounded cf ?xs k c1" by blast
  define rest where "rest = (if k < length ?xs then take (n - 3 * k) (loop_body cf (?xs ! k)) else [])"
  have "take n (concat (map (loop_body cf) ?xs)) = concat (map (loop_body cf) (take k ?xs)) @ rest"
    unfolding rest_def by (rule concat_thirds) (use assms in \<open>auto simp: loop_body_def\<close>)
  then have run: "execute (take n (loop_statements cf pf p)) c = execute rest c1"
    using assms(2) c1(1) by (simp add: loop_statements_def execute_append)
  have files: "jc_files (state_of (execute rest c1)) = jc_files c1"
  proof (cases "k < length ?xs")
    case True
    obtain d u l where xk: "?xs ! k = (d, u, l)" by (cases "?xs ! k") auto
    have "jl_pipe l" using xk nth_mem [OF True] stream_cursor_valid(2) assms(3) by (metis (no_types, lifting))
    from emit_frame [OF this, of cf d u c1] obtain c2 where c2: "emit_event cf (d, u, l) c1 = Continues c2" "jc_files c2 = jc_files c1" by blast
    have "n - 3 * k = 0 \<or> n - 3 * k = 1 \<or> n - 3 * k = 2" using assms(11) by linarith
    then show ?thesis
      using c2 by (auto simp: rest_def True xk loop_body_def advance_cursor_def state_of_def numeral_2_eq_2 split: option.split)
  qed (simp add: rest_def state_of_def)
  from c1(2) assms(8) obtain q where q: "q < k" "jc_files c1 (jf_path cf) = fst (snd (?xs ! q))"
    "\<forall>j. q < j \<and> j < k \<longrightarrow> jl_now (snd (snd (?xs ! j))) - jl_now (snd (snd (?xs ! q))) < jf_interval cf"
    by (auto simp: lag_bounded_def)
  have mem: "?xs ! q \<in> set ?xs" using q(1) assms(9) by simp
  obtain d u l where xq: "?xs ! q = (d, u, l)" by (cases "?xs ! q") auto
  have "u \<noteq> None" using assms(5) mem xq by force
  then obtain t where u: "u = Some t" by blast
  have "load_cursor (jf_path cf) (jc_files c1) = Some t"
    using q(2) stream_cursor_valid(1) [OF mem [unfolded xq] u] by (intro load_saved) (simp_all add: xq u)
  with q show ?thesis unfolding run files by (intro exI [of _ q]) (simp add: xq u)
qed

lemma example_stream:
  "map (fst \<circ> snd) (stream_records (\<lambda>_. None) (example_process [''1'', ''2'', ''3''])) = map (Some \<circ> example_cursor) [''1'', ''2'', ''3'']"
  by code_simp

theorem reread_is_bounded_witness:
  "\<exists>q < 1. load_cursor ''cursor'' (jc_files (state_of (execute (take 4 (loop_statements example_config (\<lambda>_. None) (example_process [''1'', ''2'', ''3''])))
      (new_collector Map.empty [])))) = fst (snd (stream_records (\<lambda>_. None) (example_process [''1'', ''2'', ''3'']) ! q)) \<and>
    (\<forall>j. q < j \<and> j < 1 \<longrightarrow> jl_now (snd (snd (stream_records (\<lambda>_. None) (example_process [''1'', ''2'', ''3'']) ! j)))
      - jl_now (snd (snd (stream_records (\<lambda>_. None) (example_process [''1'', ''2'', ''3'']) ! q))) < 2)"
proof -
  have path: "jf_path example_config = ''cursor''" "jf_interval example_config = 2" by (simp_all add: example_config_def)
  have len: "length (stream_records (\<lambda>_. None) (example_process [''1'', ''2'', ''3''])) = 3"
    using arg_cong [OF example_stream, of length] by simp
  show ?thesis
    by (rule reread_is_bounded [where cf = example_config and k = 1 and n = 4, unfolded path])
      (simp_all only: example_stream len, simp_all add: example_config_def example_process_def example_line_def example_cursor_def new_collector_def)
qed

section \<open>What the pipeline keeps\<close>

lemma event_type_found:
  assumes "event_type_of (dget raw ''event_type'') = Some kind"
  shows "truthy (dget raw ''event_type'')" "get_or raw ''event_type'' (PStr []) = dget raw ''event_type''"
proof -
  from assms obtain s where s: "dget raw ''event_type'' = PStr s" by (auto simp: event_type_of_def split: pyobj.splits)
  with assms have "s = kind_name kind" by (auto simp: event_type_of_def find_Some_iff)
  then have "s \<noteq> []" by (simp add: kind_name_def split: event_kind.split)
  with s show "truthy (dget raw ''event_type'')" by (simp add: truthy_def)
  show "get_or raw ''event_type'' (PStr []) = dget raw ''event_type''"
    using s by (auto simp: dget_def get_or_def split: option.splits)
qed

text \<open>A record with a known type, a float time and a numeric or absent user becomes an event that keeps the rest.\<close>

lemma normalize_keeps:
  assumes kind: "event_type_of (dget raw ''event_type'') = Some kind" and time: "dget raw ''timestamp'' = PFloat q"
    and uid: "dget raw ''uid'' = int_doc u"
  shows "\<exists>e. normalize pf parse_int ident clock raw = Some e \<and> ev_kind e = kind \<and> ev_timestamp e = PFloat q \<and>
    ev_source e = get_or raw ''source'' (PStr ''telemetry_bcc'') \<and> ev_comm e = dget raw ''comm'' \<and> ev_payload e = build_payload kind raw"
proof -
  let ?r = "coerced parse_int q (int_doc u) raw"
  have uid': "normal_uid parse_int (int_doc u) = Inr (int_doc u)" by (cases u) (simp_all add: normal_uid_def int_doc_def)
  have reads: "get_or ?r ''event_type'' (PStr []) = dget raw ''event_type''" "get_or ?r ''timestamp'' (PFloat 0) = PFloat q"
    "get_or ?r ''source'' (PStr ''telemetry_bcc'') = get_or raw ''source'' (PStr ''telemetry_bcc'')" "dget ?r ''comm'' = dget raw ''comm''"
    by (simp_all add: coerced_def field_reads event_type_found [OF kind] Let_def)
  have payload: "build_payload kind ?r = build_payload kind raw"
    by (simp add: build_payload_def copy_keys_def coerced_def field_reads Let_def)
  obtain e0 where e0: "from_raw_json ?r = Some e0" "ev_kind e0 = kind" "ev_timestamp e0 = PFloat q"
      "ev_source e0 = get_or raw ''source'' (PStr ''telemetry_bcc'')" "ev_comm e0 = dget raw ''comm''" "ev_payload e0 = build_payload kind raw"
    by (simp add: from_raw_json_def reads kind payload)
  have "normalize pf parse_int ident clock raw = Some (stamped ident clock ?r e0)"
    by (simp add: normalize_def event_type_found(1) [OF kind] time uid uid' coerce_float_def from_raw_stamped e0)
  with e0 show ?thesis by (simp add: stamped_def)
qed

text \<open>Two records that agree on every key but those of a discard report become the same event.\<close>

definition discard_fields :: "string list" where
  "discard_fields = [''stale_cursor'', ''recovery'', ''reason'']"

lemma normalize_cong:
  assumes "\<And>k. k \<notin> set discard_fields \<Longrightarrow> map_of raw k = map_of raw' k"
  shows "normalize pf parse_int ident clock raw = normalize pf parse_int ident clock raw'"
proof -
  have d: "k \<notin> set discard_fields \<Longrightarrow> dget raw k = dget raw' k" "k \<notin> set discard_fields \<Longrightarrow> get_or raw k x = get_or raw' k x" for k x
    using assms by (simp_all add: dget_def get_or_def)
  have c: "k \<notin> set discard_fields \<Longrightarrow> dget (coerced parse_int t u raw) k = dget (coerced parse_int t u raw') k"
    "k \<notin> set discard_fields \<Longrightarrow> get_or (coerced parse_int t u raw) k x = get_or (coerced parse_int t u raw') k x" for k x t u
    by (simp_all add: coerced_def field_reads d discard_fields_def Let_def)
  have p: "build_payload kind (coerced parse_int t u raw) = build_payload kind (coerced parse_int t u raw')" for kind t u
    by (simp add: build_payload_def copy_keys_def c discard_fields_def Let_def)
  have f: "from_raw_json (coerced parse_int t u raw) = from_raw_json (coerced parse_int t u raw')" for t u
    by (cases "event_type_of (get_or (coerced parse_int t u raw') ''event_type'' (PStr []))")
      (simp_all add: from_raw_json_def p c discard_fields_def)
  have s: "stamped ident clock (coerced parse_int t u raw) = stamped ident clock (coerced parse_int t u raw')" for t u
    by (rule ext) (simp add: stamped_def dget_fill c discard_fields_def)
  show ?thesis
    by (cases "coerce_float pf (dget raw' ''timestamp'')"; cases "normal_uid parse_int (dget raw' ''uid'')")
      (simp_all add: normalize_def from_raw_stamped f s d discard_fields_def)
qed

text \<open>C36: The report of a gap does not say which gap. The notice names the cursor that was discarded and why, but the
event the pipeline makes of it keeps only the message, so two discarded cursors give the same event; and since the notice
has no source, the event is attributed to the BCC probes.\<close>

theorem gap_cursor_is_not_stored:
  "normalize pf parse_int ident clock (discard_record name detail since cursor v now) =
     normalize pf parse_int ident clock (discard_record name detail since cursor' v' now) \<and>
   (\<exists>e. normalize pf parse_int ident clock (discard_record name detail since cursor v now) = Some e \<and>
     ev_kind e = Telemetry_Warning \<and> ev_source e = PStr ''telemetry_bcc'' \<and>
     ev_payload e = PDict [(''message'', PStr (discard_message name detail since))])"
proof
  show "normalize pf parse_int ident clock (discard_record name detail since cursor v now) =
     normalize pf parse_int ident clock (discard_record name detail since cursor' v' now)"
    by (rule normalize_cong) (simp add: discard_record_def notice_record_def discard_fields_def)
  let ?r = "discard_record name detail since cursor v now"
  have "event_type_of (dget ?r ''event_type'') = Some Telemetry_Warning"
    by (simp add: discard_record_def notice_record_def dget_def event_type_of_def event_kinds_def kind_name_def)
  from normalize_keeps [OF this, of now None pf parse_int ident clock]
  show "\<exists>e. normalize pf parse_int ident clock ?r = Some e \<and> ev_kind e = Telemetry_Warning \<and>
      ev_source e = PStr ''telemetry_bcc'' \<and> ev_payload e = PDict [(''message'', PStr (discard_message name detail since))]"
    by (auto simp: discard_record_def notice_record_def dget_def get_or_def int_doc_def build_payload_def copy_keys_def)
qed

lemma record_time_positive: "record_time parse_int d = Some q \<Longrightarrow> 0 < q"
  by (auto simp: record_time_def split: option.splits if_splits)

text \<open>What the monitors print is what the pipeline stores. Every record the authentication predicate accepts becomes an
event of kind auth_session, with a positive time, the source journald_pam and a payload of its five fields; every record
the service predicate accepts becomes a service_state event with the unit, the reporter, the action and the result.\<close>

theorem journal_records_become_events:
  "normalize_auth_record parse_int d = Some r \<Longrightarrow>
     \<exists>e q. normalize pf parse_int ident clock r = Some e \<and> ev_kind e = Auth_Session \<and> ev_timestamp e = PFloat q \<and> 0 < q \<and>
       ev_source e = PStr ''journald_pam'' \<and>
       ev_payload e = PDict (map (\<lambda>k. (k, dget r k)) [''action'', ''result'', ''service'', ''account'', ''message''])"
  "normalize_service_record parse_int d = Some r \<Longrightarrow>
     \<exists>e q. normalize pf parse_int ident clock r = Some e \<and> ev_kind e = Service_State \<and> ev_timestamp e = PFloat q \<and> 0 < q \<and>
       ev_source e = PStr ''journald_systemd'' \<and> ev_comm e = PStr ''systemd'' \<and>
       ev_payload e = PDict (map (\<lambda>k. (k, dget r k)) [''unit'', ''reporter_unit'', ''action'', ''result'', ''message''])"
proof -
  assume some: "normalize_auth_record parse_int d = Some r"
  then obtain message where m: "dget d ''MESSAGE'' = PStr message"
    by (cases "dget d ''MESSAGE''") (simp_all add: normalize_auth_record_def)
  from some obtain action result service account q where q: "record_time parse_int d = Some q"
    and r: "r = [(''event_type'', PStr ''auth_session''), (''timestamp'', PFloat q),
                  (''pid'', int_doc (journal_integer parse_int (or_else (dget d ''_PID'') (dget d ''SYSLOG_PID'')))),
                  (''uid'', int_doc (journal_integer parse_int (dget d ''_UID''))),
                  (''comm'', or_else (dget d ''SYSLOG_IDENTIFIER'') (dget d ''_COMM'')),
                  (''action'', PStr action), (''result'', PStr result), (''service'', PStr service), (''account'', account),
                  (''message'', PStr message), (''source'', PStr ''journald_pam''), (''version'', PStr ''1.0'')]"
    by (cases "pam_fields message"; cases "record_time parse_int d") (auto simp: normalize_auth_record_def m)
  show "\<exists>e q. normalize pf parse_int ident clock r = Some e \<and> ev_kind e = Auth_Session \<and> ev_timestamp e = PFloat q \<and> 0 < q \<and>
       ev_source e = PStr ''journald_pam'' \<and>
       ev_payload e = PDict (map (\<lambda>k. (k, dget r k)) [''action'', ''result'', ''service'', ''account'', ''message''])"
  proof -
    have "event_type_of (dget r ''event_type'') = Some Auth_Session"
      by (simp add: r dget_def event_type_of_def event_kinds_def kind_name_def)
    from normalize_keeps [OF this, of q "journal_integer parse_int (dget d ''_UID'')" pf parse_int ident clock]
    show ?thesis using record_time_positive [OF q] by (auto simp: r dget_def get_or_def build_payload_def copy_keys_def)
  qed
next
  assume some: "normalize_service_record parse_int d = Some r"
  then obtain message reporter where m: "dget d ''MESSAGE'' = PStr message" "dget d ''_SYSTEMD_UNIT'' = PStr reporter"
    by (cases "dget d ''MESSAGE''"; cases "dget d ''_SYSTEMD_UNIT''") (simp_all add: normalize_service_record_def Let_def)
  have sender: "or_else (dget d ''SYSLOG_IDENTIFIER'') (dget d ''_COMM'') = PStr ''systemd''"
    using some m by (simp add: normalize_service_record_def Let_def split: if_splits)
  from some obtain unit action result q where q: "record_time parse_int d = Some q"
    and r: "r = [(''event_type'', PStr ''service_state''), (''timestamp'', PFloat q),
                  (''pid'', int_doc (journal_integer parse_int (or_else (dget d ''_PID'') (dget d ''SYSLOG_PID'')))),
                  (''uid'', int_doc (journal_integer parse_int (dget d ''_UID''))), (''comm'', PStr ''systemd''),
                  (''unit'', PStr unit), (''reporter_unit'', PStr reporter), (''action'', PStr action), (''result'', PStr result),
                  (''message'', PStr message), (''source'', PStr ''journald_systemd''), (''version'', PStr ''1.0'')]"
    by (cases "lifecycle message"; cases "record_time parse_int d")
      (auto simp: normalize_service_record_def m sender Let_def split: if_splits)
  show "\<exists>e q. normalize pf parse_int ident clock r = Some e \<and> ev_kind e = Service_State \<and> ev_timestamp e = PFloat q \<and> 0 < q \<and>
       ev_source e = PStr ''journald_systemd'' \<and> ev_comm e = PStr ''systemd'' \<and>
       ev_payload e = PDict (map (\<lambda>k. (k, dget r k)) [''unit'', ''reporter_unit'', ''action'', ''result'', ''message''])"
  proof -
    have "event_type_of (dget r ''event_type'') = Some Service_State"
      by (simp add: r dget_def event_type_of_def event_kinds_def kind_name_def)
    from normalize_keeps [OF this, of q "journal_integer parse_int (dget d ''_UID'')" pf parse_int ident clock]
    show ?thesis using record_time_positive [OF q] by (auto simp: r dget_def get_or_def build_payload_def copy_keys_def)
  qed
qed

text \<open>The service predicate believes SYSLOG_IDENTIFIER, which the sender of a message chooses: once it says systemd, the
trusted name of the sending process plays no part.\<close>

theorem lifecycle_sender_is_unchecked:
  assumes "dget d ''SYSLOG_IDENTIFIER'' = PStr ''systemd''"
  shows "normalize_service_record parse_int (AList.update ''_COMM'' v d) = normalize_service_record parse_int d"
proof -
  have get: "dget (AList.update ''_COMM'' v d) k = dget d k" if "k \<noteq> ''_COMM''" for k
    using that by (simp add: dget_def update_conv')
  show ?thesis
    by (cases "dget d ''_SYSTEMD_UNIT''"; cases "dget d ''MESSAGE''")
      (simp_all add: normalize_service_record_def get assms or_else_def truthy_def record_time_def Let_def)
qed

text \<open>The cursor vouches for printing, not for storing. A collector prints a record and checkpoints its cursor at once; the
ingestion service takes the record and ends without storing or counting it; the collector then starts just after it.\<close>

theorem cursor_passes_lost_event:
  assumes "jf_temp cf \<noteq> jf_path cf" "jf_normalize cf d = Inr (Some ev)" "is_valid_cursor (PStr t)"
    and "jl_pipe l" "jl_save l = Saves" "resolve_cursor (jr_probe r) = Resumable" "2 \<le> ic_queue_size ic"
  shows "\<exists>c. execute (loop_body cf (d, Some t, l)) (new_collector fs []) = Continues c \<and> jc_output c = [Event_Line ev] \<and>
    fst (start_collector cf r (new_collector (jc_files c) (jc_output c))) = Some t \<and>
    (\<exists>steps s. ingest_run ic steps (start_ingest [Telemetry ev] table) = Some s \<and> in_table s = table \<and>
       ih_status (in_health s) = St_Stopped \<and> counted s = 0)"
proof -
  from save_succeeds [OF assms(3,1), of fs] obtain fs' where sav: "save_cursor (jf_path cf) (jf_temp cf) Saves t fs = (True, fs')"
    and fs': "fs' (jf_path cf) = Some t" by blast
  let ?c = "(new_collector fs [])\<lparr>jc_records := 1, jc_output := [Event_Line ev], jc_emitted := 1, jc_pending := Some t, jc_files := fs',
      jc_saved := Some t, jc_checkpoints := 1, jc_last := Some (jl_now l)\<rparr>"
  have "execute (loop_body cf (d, Some t, l)) (new_collector fs []) = Continues ?c"
    using assms sav by (simp add: loop_body_def emit_event_def say_def advance_cursor_def checkpoint_def new_collector_def Let_def)
  moreover have "fst (start_collector cf r (new_collector (jc_files ?c) (jc_output ?c))) = Some t"
    using load_saved [OF assms(3), of fs' "jf_path cf", OF fs'] assms(6)
    by (simp add: start_collector_def resolve_or_discard_def new_collector_def notice_def Let_def)
  moreover have "\<exists>s. ingest_run ic [Get_Times_Out, Take 0, Source_Ends, Signal_Done, After_Timeout all_well, Put_Sentinel]
      (start_ingest [Telemetry ev] table) = Some s \<and> in_table s = table \<and> ih_status (in_health s) = St_Stopped \<and> counted s = 0"
    using assms(7) by (simp add: all_well_def start_ingest_def new_health_def leave_loop_def flush_def queue_full_def counted_def ingest_defs Let_def)
  moreover have "jc_output ?c = [Event_Line ev]" by simp
  ultimately show ?thesis by blast
qed

end
