(* ===== verification/Schema_Migrations.thy ===== *)
theory Schema_Migrations
  imports Evidence_Chain
begin

text \<open>
  The schema migrations of \<^verbatim>\<open>storage/migrations.py\<close>: every statement of every migration, what SQLite does with it, the
  version table, and \<open>migrate\<close> as a process whose transactions can be interrupted and interleave with those of other
  processes. A table's schema is its columns with their declarations; the rows are kept for the two evidence tables, whose
  hash chain migration 8 writes. \<open>H\<close> is the digest and \<open>fr\<close> the text of a float.
\<close>

section \<open>Statements\<close>

record db_index =
  ix_table :: string
  ix_columns :: "string list"
  ix_unique :: bool
  ix_where :: "string option"

definition index_on :: "string \<Rightarrow> string list \<Rightarrow> bool \<Rightarrow> string option \<Rightarrow> db_index" where
  "index_on t cs unique clause = \<lparr>ix_table = t, ix_columns = cs, ix_unique = unique, ix_where = clause\<rparr>"

datatype ddl =
    Create_Table string "(string \<times> string) list"
  | Add_Column string string string
  | Create_Index string db_index
  | Drop_Index string
  | Backfill string "string list"

definition quoted :: "string \<Rightarrow> string" where
  "quoted s = [CHR 0x27] @ s @ [CHR 0x27]"

definition one_of :: "string \<Rightarrow> string list \<Rightarrow> string" where
  "one_of column names = column @ '' IN ('' @ join_text '', '' (map quoted names) @ '')''"

section \<open>The migrations\<close>

definition baseline_monitoring :: "ddl list" where
  "baseline_monitoring =
     [Create_Table ''events''
        [(''id'', ''INTEGER PRIMARY KEY AUTOINCREMENT''), (''event_type'', ''TEXT NOT NULL''), (''timestamp'', ''REAL NOT NULL''),
         (''timestamp_ns'', ''INTEGER''), (''pid'', ''INTEGER''), (''ppid'', ''INTEGER''), (''uid'', ''INTEGER''),
         (''gid'', ''INTEGER''), (''comm'', ''TEXT''), (''executable'', ''TEXT''), (''parent_comm'', ''TEXT''),
         (''ancestry_json'', ''TEXT NOT NULL DEFAULT '' @ quoted ''[]''), (''source'', ''TEXT''),
         (''version'', ''TEXT''), (''payload_json'', ''TEXT NOT NULL''), (''event_hash'', ''TEXT'')],
      Add_Column ''events'' ''ppid'' ''INTEGER'',
      Add_Column ''events'' ''executable'' ''TEXT'',
      Add_Column ''events'' ''event_hash'' ''TEXT'',
      Add_Column ''events'' ''parent_comm'' ''TEXT'',
      Add_Column ''events'' ''ancestry_json'' (''TEXT NOT NULL DEFAULT '' @ quoted ''[]''),
      Create_Index ''idx_events_event_type'' (index_on ''events'' [''event_type''] False None),
      Create_Index ''idx_events_timestamp'' (index_on ''events'' [''timestamp''] False None),
      Create_Index ''idx_events_hash'' (index_on ''events'' [''event_hash''] True (Some ''event_hash IS NOT NULL'')),
      Create_Table ''collector_runtime''
        [(''id'', ''INTEGER PRIMARY KEY CHECK (id = 1)''), (''status'', ''TEXT NOT NULL''), (''detail'', ''TEXT''),
         (''error'', ''TEXT''), (''started_at'', ''REAL''), (''stopped_at'', ''REAL''), (''last_event_timestamp'', ''REAL''),
         (''processed_count'', ''INTEGER NOT NULL DEFAULT 0''), (''malformed_count'', ''INTEGER NOT NULL DEFAULT 0''),
         (''dropped_event_count'', ''INTEGER NOT NULL DEFAULT 0''), (''duplicate_count'', ''INTEGER NOT NULL DEFAULT 0''),
         (''throughput'', ''REAL NOT NULL DEFAULT 0.0''), (''updated_at'', ''REAL'')],
      Create_Table ''event_features''
        [(''id'', ''INTEGER PRIMARY KEY AUTOINCREMENT''), (''event_type'', ''TEXT''), (''window_start'', ''REAL''),
         (''window_end'', ''REAL''), (''total_events'', ''INTEGER''), (''unique_commands'', ''INTEGER''),
         (''unique_uids'', ''INTEGER''), (''command_frequency'', ''TEXT''), (''uid_activity'', ''TEXT''),
         (''anomaly_score'', ''REAL''), (''created_at'', ''REAL'')],
      Create_Table ''behavior_baselines''
        [(''id'', ''INTEGER PRIMARY KEY AUTOINCREMENT''), (''baseline_name'', ''TEXT''), (''window_start'', ''REAL''),
         (''window_end'', ''REAL''), (''normal_count'', ''INTEGER''), (''feature_summary'', ''TEXT''), (''status'', ''TEXT''),
         (''created_at'', ''REAL'')],
      Create_Table ''anomaly_scores''
        [(''id'', ''INTEGER PRIMARY KEY AUTOINCREMENT''), (''event_id'', ''INTEGER''), (''event_type'', ''TEXT''),
         (''timestamp'', ''REAL''), (''anomaly_score'', ''REAL''), (''score_bucket'', ''TEXT''), (''explanation'', ''TEXT''),
         (''created_at'', ''REAL'')],
      Create_Table ''behavior_risks''
        [(''id'', ''INTEGER PRIMARY KEY AUTOINCREMENT''), (''window_start'', ''REAL NOT NULL''), (''window_end'', ''REAL NOT NULL''),
         (''entity_type'', ''TEXT NOT NULL''), (''entity_key'', ''TEXT NOT NULL''), (''anomaly_score'', ''REAL NOT NULL''),
         (''risk_level'', ''TEXT NOT NULL''), (''contributing_features'', ''TEXT NOT NULL''), (''explanation'', ''TEXT NOT NULL''),
         (''mode'', ''TEXT NOT NULL''), (''created_at'', ''REAL'')]]"

definition baseline_evidence :: "ddl list" where
  "baseline_evidence =
     [Create_Table ''detection_findings''
        [(''id'', ''INTEGER PRIMARY KEY AUTOINCREMENT''), (''source_risk_id'', ''INTEGER''), (''window_start'', ''REAL NOT NULL''),
         (''window_end'', ''REAL NOT NULL''), (''entity_type'', ''TEXT NOT NULL''), (''entity_key'', ''TEXT NOT NULL''),
         (''risk_score'', ''REAL NOT NULL''), (''severity'', ''TEXT NOT NULL''), (''behavior_score'', ''REAL NOT NULL''),
         (''rule_score'', ''REAL NOT NULL''), (''context_score'', ''REAL NOT NULL''), (''evidence_json'', ''TEXT NOT NULL''),
         (''explanation'', ''TEXT NOT NULL''), (''mode'', ''TEXT NOT NULL''), (''provenance_hash'', ''TEXT''),
         (''detector_version'', ''TEXT''), (''created_at'', ''REAL'')],
      Add_Column ''detection_findings'' ''provenance_hash'' ''TEXT'',
      Add_Column ''detection_findings'' ''detector_version'' ''TEXT'',
      Create_Index ''idx_detection_findings_provenance'' (index_on ''detection_findings'' [''provenance_hash''] True (Some ''provenance_hash IS NOT NULL'')),
      Create_Table ''finding_explanations''
        [(''id'', ''INTEGER PRIMARY KEY AUTOINCREMENT''), (''finding_id'', ''INTEGER NOT NULL UNIQUE''),
         (''explanation_json'', ''TEXT NOT NULL'')],
      Create_Table ''policy_decisions''
        [(''id'', ''INTEGER PRIMARY KEY AUTOINCREMENT''), (''finding_id'', ''INTEGER''), (''policy_id'', ''TEXT NOT NULL''),
         (''decision'', ''TEXT NOT NULL''), (''reason'', ''TEXT NOT NULL''), (''risk_score'', ''REAL NOT NULL''),
         (''severity'', ''TEXT NOT NULL''), (''required_approval'', ''INTEGER NOT NULL''), (''proposed_action'', ''TEXT NOT NULL''),
         (''limitations_json'', ''TEXT NOT NULL''), (''timestamp'', ''REAL NOT NULL''), (''dry_run'', ''INTEGER NOT NULL''),
         (''advisory_rejection'', ''TEXT'')],
      Create_Table ''assistant_responses''
        [(''finding_id'', ''INTEGER PRIMARY KEY''), (''response_json'', ''TEXT NOT NULL''), (''created_at'', ''REAL NOT NULL'')],
      Create_Table ''ml_datasets''
        [(''id'', ''TEXT PRIMARY KEY''), (''name'', ''TEXT NOT NULL''), (''schema_version'', ''TEXT NOT NULL''),
         (''schema_hash'', ''TEXT NOT NULL''), (''environment_json'', ''TEXT NOT NULL''), (''verification_json'', ''TEXT NOT NULL''),
         (''created_at'', ''REAL NOT NULL'')],
      Create_Table ''ml_training_windows''
        [(''id'', ''INTEGER PRIMARY KEY AUTOINCREMENT''), (''dataset_id'', ''TEXT NOT NULL REFERENCES ml_datasets(id)''),
         (''window_start'', ''REAL NOT NULL''), (''window_end'', ''REAL NOT NULL''), (''event_ids_json'', ''TEXT NOT NULL''),
         (''features_json'', ''TEXT NOT NULL''), (''schema_version'', ''TEXT NOT NULL''), (''schema_hash'', ''TEXT NOT NULL''),
         (''collector_context_json'', ''TEXT NOT NULL''),
         (''verified_normal'', ''INTEGER NOT NULL CHECK (verified_normal IN (0, 1))''), (''verification_json'', ''TEXT NOT NULL''),
         (''immutable_hash'', ''TEXT NOT NULL UNIQUE''), (''created_at'', ''REAL NOT NULL'')],
      Create_Index ''idx_ml_training_windows_dataset'' (index_on ''ml_training_windows'' [''dataset_id'', ''id''] False None),
      Create_Table ''ml_models''
        [(''id'', ''TEXT PRIMARY KEY''), (''version'', ''TEXT NOT NULL''), (''algorithm'', ''TEXT NOT NULL''),
         (''hyperparameters_json'', ''TEXT NOT NULL''), (''artifact_path'', ''TEXT NOT NULL''),
         (''artifact_checksum'', ''TEXT NOT NULL''), (''schema_version'', ''TEXT NOT NULL''), (''schema_hash'', ''TEXT NOT NULL''),
         (''training_window_ids_json'', ''TEXT NOT NULL''), (''runtime_json'', ''TEXT NOT NULL''),
         (''evaluation_json'', ''TEXT NOT NULL''), (''active'', ''INTEGER NOT NULL DEFAULT 0 CHECK (active IN (0, 1))''),
         (''created_at'', ''REAL NOT NULL'')],
      Create_Index ''idx_ml_models_active'' (index_on ''ml_models'' [''active'', ''created_at''] False None)]"

definition apply_baseline :: "ddl list" where
  "apply_baseline = baseline_monitoring @ baseline_evidence"

definition apply_backpressure_telemetry :: "ddl list" where
  "apply_backpressure_telemetry =
     [Add_Column ''collector_runtime'' ''queue_depth'' ''INTEGER NOT NULL DEFAULT 0'',
      Add_Column ''collector_runtime'' ''queue_capacity'' ''INTEGER NOT NULL DEFAULT 0'',
      Add_Column ''collector_runtime'' ''queue_high_water_mark'' ''INTEGER NOT NULL DEFAULT 0'',
      Add_Column ''collector_runtime'' ''backpressure_wait_seconds'' ''REAL NOT NULL DEFAULT 0.0'',
      Add_Column ''collector_runtime'' ''backpressure_wait_count'' ''INTEGER NOT NULL DEFAULT 0'',
      Add_Column ''collector_runtime'' ''first_drop_timestamp'' ''REAL'',
      Add_Column ''collector_runtime'' ''last_drop_timestamp'' ''REAL'']"

definition apply_event_identity :: "ddl list" where
  "apply_event_identity =
     [Add_Column ''events'' ''timestamp_monotonic'' ''REAL'',
      Add_Column ''events'' ''host_id'' ''TEXT'',
      Add_Column ''events'' ''boot_id'' ''TEXT'',
      Add_Column ''events'' ''agent_id'' ''TEXT'',
      Create_Index ''idx_events_host'' (index_on ''events'' [''host_id'', ''timestamp''] False None)]"

definition apply_kernel_loss_telemetry :: "ddl list" where
  "apply_kernel_loss_telemetry =
     [Add_Column ''collector_runtime'' ''kernel_lost_event_count'' ''INTEGER NOT NULL DEFAULT 0'',
      Add_Column ''collector_runtime'' ''first_kernel_loss_timestamp'' ''REAL'',
      Add_Column ''collector_runtime'' ''last_kernel_loss_timestamp'' ''REAL'']"

definition apply_hot_path_indexes :: "ddl list" where
  "apply_hot_path_indexes =
     [Create_Index ''idx_events_type_timestamp'' (index_on ''events'' [''event_type'', ''timestamp''] False None),
      Create_Index ''idx_events_timestamp_id'' (index_on ''events'' [''timestamp'', ''id''] False None),
      Drop_Index ''idx_events_event_type'',
      Drop_Index ''idx_events_timestamp'',
      Create_Index ''idx_detection_findings_window'' (index_on ''detection_findings'' [''window_start'', ''id''] False None),
      Create_Index ''idx_behavior_risks_window'' (index_on ''behavior_risks'' [''window_start'', ''id''] False None),
      Create_Index ''idx_policy_decisions_time'' (index_on ''policy_decisions'' [''timestamp'', ''id''] False None),
      Create_Index ''idx_behavior_baselines_ready'' (index_on ''behavior_baselines'' [''baseline_name'', ''status'', ''id''] False None),
      Create_Index ''idx_anomaly_scores_event'' (index_on ''anomaly_scores'' [''event_id''] False None)]"

definition apply_maintenance_log :: "ddl list" where
  "apply_maintenance_log =
     [Create_Table ''maintenance_log''
        [(''id'', ''INTEGER PRIMARY KEY AUTOINCREMENT''), (''action'', ''TEXT NOT NULL''), (''reason'', ''TEXT NOT NULL''),
         (''events_deleted'', ''INTEGER NOT NULL DEFAULT 0''), (''rows_deleted'', ''INTEGER NOT NULL DEFAULT 0''),
         (''cutoff_timestamp'', ''REAL''), (''oldest_retained_timestamp'', ''REAL''), (''db_bytes_before'', ''INTEGER''),
         (''db_bytes_after'', ''INTEGER''), (''duration_seconds'', ''REAL NOT NULL DEFAULT 0.0''), (''detail'', ''TEXT''),
         (''created_at'', ''REAL NOT NULL'')],
      Create_Index ''idx_maintenance_log_time'' (index_on ''maintenance_log'' [''created_at'', ''id''] False None)]"

definition apply_collector_sources :: "ddl list" where
  "apply_collector_sources =
     [Create_Table ''collector_sources''
        [(''name'', ''TEXT PRIMARY KEY''), (''status'', ''TEXT NOT NULL''), (''detail'', ''TEXT''), (''error'', ''TEXT''),
         (''started_at'', ''REAL''), (''stopped_at'', ''REAL''), (''last_event_timestamp'', ''REAL''),
         (''processed_count'', ''INTEGER NOT NULL DEFAULT 0''), (''restart_count'', ''INTEGER NOT NULL DEFAULT 0''),
         (''consecutive_failures'', ''INTEGER NOT NULL DEFAULT 0''), (''last_failure_at'', ''REAL''), (''next_restart_at'', ''REAL''),
         (''backoff_seconds'', ''REAL NOT NULL DEFAULT 0.0''), (''crash_looping'', ''INTEGER NOT NULL DEFAULT 0''),
         (''quarantined_batch_count'', ''INTEGER NOT NULL DEFAULT 0''), (''quarantined_event_count'', ''INTEGER NOT NULL DEFAULT 0''),
         (''updated_at'', ''REAL'')],
      Create_Index ''idx_collector_sources_status'' (index_on ''collector_sources'' [''status'', ''name''] False None),
      Add_Column ''collector_runtime'' ''quarantined_batch_count'' ''INTEGER NOT NULL DEFAULT 0'',
      Add_Column ''collector_runtime'' ''quarantined_event_count'' ''INTEGER NOT NULL DEFAULT 0'']"

definition apply_evidence_chain :: "ddl list" where
  "apply_evidence_chain =
     [Add_Column ''detection_findings'' ''correlation_id'' ''TEXT'',
      Add_Column ''detection_findings'' ''suppressed'' ''INTEGER NOT NULL DEFAULT 0'',
      Add_Column ''detection_findings'' ''suppression_reason'' ''TEXT'',
      Add_Column ''detection_findings'' ''chain_seq'' ''INTEGER'',
      Add_Column ''detection_findings'' ''chain_prev_hash'' ''TEXT'',
      Add_Column ''detection_findings'' ''chain_hash'' ''TEXT'',
      Add_Column ''policy_decisions'' ''chain_seq'' ''INTEGER'',
      Add_Column ''policy_decisions'' ''chain_prev_hash'' ''TEXT'',
      Add_Column ''policy_decisions'' ''chain_hash'' ''TEXT'',
      Create_Index ''idx_detection_findings_chain'' (index_on ''detection_findings'' [''chain_seq''] True (Some ''chain_seq IS NOT NULL'')),
      Create_Index ''idx_policy_decisions_chain'' (index_on ''policy_decisions'' [''chain_seq''] True (Some ''chain_seq IS NOT NULL'')),
      Backfill ''detection_findings'' finding_chain_columns,
      Backfill ''policy_decisions'' policy_chain_columns]"

definition apply_triage_annotations :: "ddl list" where
  "apply_triage_annotations =
     [Create_Table ''triage_annotations''
        [(''id'', ''INTEGER PRIMARY KEY AUTOINCREMENT''), (''finding_id'', ''INTEGER NOT NULL''),
         (''action'', ''TEXT NOT NULL CHECK ('' @ one_of ''action'' 
            [''acknowledge'', ''annotate'', ''disposition'', ''suppress'', ''unsuppress''] @ '')''),
         (''disposition'', ''TEXT CHECK (disposition IS NULL OR '' @ one_of ''disposition'' 
            [''true-positive'', ''false-positive'', ''benign''] @ '')''),
         (''note'', ''TEXT''), (''actor'', ''TEXT''), (''created_at'', ''REAL NOT NULL''), (''chain_seq'', ''INTEGER''),
         (''chain_prev_hash'', ''TEXT''), (''chain_hash'', ''TEXT'')],
      Create_Index ''idx_triage_annotations_finding'' (index_on ''triage_annotations'' [''finding_id'', ''id''] False None),
      Create_Index ''idx_triage_annotations_chain'' (index_on ''triage_annotations'' [''chain_seq''] True (Some ''chain_seq IS NOT NULL''))]"

definition apply_ml_lifecycle :: "ddl list" where
  "apply_ml_lifecycle =
     [Create_Table ''ml_drift_assessments''
        [(''id'', ''INTEGER PRIMARY KEY AUTOINCREMENT''), (''model_id'', ''TEXT NOT NULL''),
         (''comparison_dataset_id'', ''TEXT NOT NULL''),
         (''status'', ''TEXT NOT NULL CHECK ('' @ one_of ''status'' 
            [''no_drift_detected'', ''drift_detected'', ''insufficient_data''] @ '')''),
         (''method'', ''TEXT NOT NULL''), (''alpha'', ''REAL NOT NULL''), (''reference_window_count'', ''INTEGER NOT NULL''),
         (''comparison_window_count'', ''INTEGER NOT NULL''), (''drifted_feature_count'', ''INTEGER NOT NULL''),
         (''out_of_range_rate'', ''REAL''), (''features_json'', ''TEXT NOT NULL''), (''reasons_json'', ''TEXT NOT NULL''),
         (''actor'', ''TEXT''), (''created_at'', ''REAL NOT NULL'')],
      Create_Index ''idx_ml_drift_assessments_model'' (index_on ''ml_drift_assessments'' [''model_id'', ''id''] False None),
      Create_Table ''ml_model_lifecycle''
        [(''id'', ''INTEGER PRIMARY KEY AUTOINCREMENT''), (''model_id'', ''TEXT NOT NULL''), (''from_state'', ''TEXT''),
         (''to_state'', ''TEXT NOT NULL CHECK ('' @ one_of ''to_state'' 
            [''trained'', ''evaluated'', ''eligible'', ''ineligible'', ''active'', ''drift_assessed'', ''retraining_required'', ''drifted'', ''retired''] @ '')''),
         (''reason'', ''TEXT NOT NULL''), (''evidence_json'', ''TEXT NOT NULL''),
         (''activation_eligible'', ''INTEGER NOT NULL DEFAULT 0 CHECK (activation_eligible IN (0, 1))''), (''actor'', ''TEXT''),
         (''created_at'', ''REAL NOT NULL''), (''chain_seq'', ''INTEGER''), (''chain_prev_hash'', ''TEXT''),
         (''chain_hash'', ''TEXT'')],
      Create_Index ''idx_ml_model_lifecycle_model'' (index_on ''ml_model_lifecycle'' [''model_id'', ''id''] False None),
      Create_Index ''idx_ml_model_lifecycle_chain'' (index_on ''ml_model_lifecycle'' [''chain_seq''] True (Some ''chain_seq IS NOT NULL''))]"

definition apply_login_session :: "ddl list" where
  "apply_login_session =
     [Add_Column ''events'' ''session_id'' ''TEXT'',
      Create_Index ''idx_events_boot_session'' (index_on ''events'' [''boot_id'', ''session_id''] False None)]"

record migration =
  mg_version :: nat
  mg_description :: string
  mg_statements :: "ddl list"

definition migrations :: "migration list" where
  "migrations =
     [\<lparr>mg_version = 1, mg_description = ''baseline schema as of the introduction of versioned migrations'', mg_statements = apply_baseline\<rparr>,
      \<lparr>mg_version = 2, mg_description = ''collector_runtime backpressure and event-loss telemetry'', mg_statements = apply_backpressure_telemetry\<rparr>,
      \<lparr>mg_version = 3, mg_description = ''event observation identity and monotonic timestamp'', mg_statements = apply_event_identity\<rparr>,
      \<lparr>mg_version = 4, mg_description = ''collector_runtime kernel perf-buffer loss accounting'', mg_statements = apply_kernel_loss_telemetry\<rparr>,
      \<lparr>mg_version = 5, mg_description = ''hot-path composite indexes, replacing redundant single-column indexes'', mg_statements = apply_hot_path_indexes\<rparr>,
      \<lparr>mg_version = 6, mg_description = ''maintenance log for retention, pruning, and vacuum actions'', mg_statements = apply_maintenance_log\<rparr>,
      \<lparr>mg_version = 7, mg_description = ''per-source collector supervision state and batch quarantine accounting'', mg_statements = apply_collector_sources\<rparr>,
      \<lparr>mg_version = 8, mg_description = ''append-only hash chain over evidence tables plus finding correlation and suppression'', mg_statements = apply_evidence_chain\<rparr>,
      \<lparr>mg_version = 9, mg_description = ''append-only hash-chained triage annotation layer (analyst acknowledge/annotate/disposition/suppress)'', mg_statements = apply_triage_annotations\<rparr>,
      \<lparr>mg_version = 10, mg_description = ''ML drift assessments and append-only hash-chained model lifecycle log'', mg_statements = apply_ml_lifecycle\<rparr>,
      \<lparr>mg_version = 11, mg_description = ''login session identity on events, for per-session holdout independence'', mg_statements = apply_login_session\<rparr>]"

definition latest_version :: nat where
  "latest_version = mg_version (last migrations)"

section \<open>What the statements do\<close>

text \<open>\<open>db_rows\<close>: the rows of a table; only the evidence tables are ever read here.\<close>

record database =
  db_tables :: "string \<rightharpoonup> (string \<times> string) list"
  db_indexes :: "string \<rightharpoonup> db_index"
  db_rows :: "string \<Rightarrow> table"
  db_versions :: "(nat \<times> string \<times> rat) list"

definition new_database :: database where
  "new_database = \<lparr>db_tables = Map.empty, db_indexes = Map.empty, db_rows = (\<lambda>_. empty_table), db_versions = []\<rparr>"

text \<open>The value an added column has in the rows already there.\<close>

definition column_default :: "string \<Rightarrow> sqlval" where
  "column_default declaration =
     (if declaration = ''INTEGER NOT NULL DEFAULT 0'' then SInt 0
      else if declaration = ''REAL NOT NULL DEFAULT 0.0'' then SReal 0
      else if declaration = ''TEXT NOT NULL DEFAULT '' @ quoted ''[]'' then SText ''[]''
      else SNull)"

definition table_info :: "database \<Rightarrow> string \<Rightarrow> string list" where
  "table_info db t = (case db_tables db t of None \<Rightarrow> [] | Some cols \<Rightarrow> map fst cols)"

definition run_statement :: "(string \<Rightarrow> string) \<Rightarrow> (rat \<Rightarrow> string) \<Rightarrow> ddl \<Rightarrow> database \<Rightarrow> py_error + database" where
  "run_statement H fr s db =
     (case s of
        Create_Table t cols \<Rightarrow>
          (case db_tables db t of
             Some _ \<Rightarrow> Inr db
           | None \<Rightarrow> Inr (db\<lparr>db_tables := (db_tables db)(t \<mapsto> cols), db_rows := (db_rows db)(t := empty_table)\<rparr>))
      | Add_Column t c declaration \<Rightarrow>
          if c \<in> set (table_info db t) then Inr db
          else (case db_tables db t of
             None \<Rightarrow> Inl (Runtime_Error ''no such table'')
           | Some cols \<Rightarrow>
               Inr (db\<lparr>db_tables := (db_tables db)(t \<mapsto> cols @ [(c, declaration)]),
                       db_rows := (db_rows db)(t := (db_rows db t)\<lparr>trows := map (\<lambda>r. r(c \<mapsto> column_default declaration)) (trows (db_rows db t))\<rparr>)\<rparr>))
      | Create_Index i ix \<Rightarrow>
          (case db_indexes db i of
             Some _ \<Rightarrow> Inr db
           | None \<Rightarrow>
               if db_tables db (ix_table ix) = None then Inl (Runtime_Error ''no such table'')
               else if \<not> set (ix_columns ix) \<subseteq> set (table_info db (ix_table ix)) then Inl (Runtime_Error ''no such column'')
               else Inr (db\<lparr>db_indexes := (db_indexes db)(i \<mapsto> ix)\<rparr>))
      | Drop_Index i \<Rightarrow> Inr (db\<lparr>db_indexes := (db_indexes db)(i := None)\<rparr>)
      | Backfill t cols \<Rightarrow>
          if db_tables db t = None then Inl (Runtime_Error ''no such table'')
          else Inr (db\<lparr>db_rows := (db_rows db)(t := backfill_chain H fr cols (db_rows db t))\<rparr>))"

fun run_statements :: "(string \<Rightarrow> string) \<Rightarrow> (rat \<Rightarrow> string) \<Rightarrow> ddl list \<Rightarrow> database \<Rightarrow> py_error + database" where
  "run_statements H fr [] db = Inr db"
| "run_statements H fr (s # ss) db = (case run_statement H fr s db of Inl e \<Rightarrow> Inl e | Inr db \<Rightarrow> run_statements H fr ss db)"

section \<open>Versions and transactions\<close>

definition current_version :: "database \<Rightarrow> nat" where
  "current_version db = fold max (map fst (db_versions db)) 0"

text \<open>One migration with its version row. An exception or a kill at any point leaves the database as it was.\<close>

definition apply_migration :: "(string \<Rightarrow> string) \<Rightarrow> (rat \<Rightarrow> string) \<Rightarrow> rat \<Rightarrow> migration \<Rightarrow> database \<Rightarrow> py_error + database" where
  "apply_migration H fr now m db =
     (case run_statements H fr (mg_statements m) db of
        Inl e \<Rightarrow> Inl e
      | Inr db \<Rightarrow>
          if mg_version m \<in> fst ` set (db_versions db) then Inl (Integrity_Error ''UNIQUE constraint failed'')
          else Inr (db\<lparr>db_versions := db_versions db @ [(mg_version m, mg_description m, now)]\<rparr>))"

text \<open>A process in \<open>migrate\<close>: not started, in its loop with the version it first read, returned, raised, or killed.\<close>

datatype migrator = Not_Migrating | Migrating nat "migration list" | Migrated nat | Migrate_Raised py_error | Killed_Migrator

datatype interruption = Undisturbed | Raises_At | Killed_At

definition open_migrator :: "database \<Rightarrow> migrator" where
  "open_migrator db =
     (if latest_version < current_version db then Migrate_Raised (Runtime_Error ''SchemaVersionError'')
      else Migrating (current_version db) migrations)"

text \<open>
  The next thing a process does: open, skip a migration it need not run, run one in a transaction that excludes the other
  processes and checks the version again, or return.
\<close>

definition migrator_step ::
  "(string \<Rightarrow> string) \<Rightarrow> (rat \<Rightarrow> string) \<Rightarrow> rat \<Rightarrow> interruption \<Rightarrow> migrator \<Rightarrow> database \<Rightarrow> migrator \<times> database" where
  "migrator_step H fr now how p db =
     (case p of
        Not_Migrating \<Rightarrow> (open_migrator db, db)
      | Migrating seen [] \<Rightarrow> (Migrated (current_version db), db)
      | Migrating seen (m # ms) \<Rightarrow>
          if mg_version m \<le> seen then (Migrating seen ms, db)
          else if how = Killed_At then (Killed_Migrator, db)
          else if how = Raises_At then (Migrate_Raised (Runtime_Error ''OperationalError''), db)
          else if mg_version m \<le> current_version db then (Migrating seen ms, db)
          else (case apply_migration H fr now m db of Inl e \<Rightarrow> (Migrate_Raised e, db) | Inr db' \<Rightarrow> (Migrating seen ms, db'))
      | _ \<Rightarrow> (p, db))"

text \<open>\<open>migrate\<close> alone and undisturbed; \<open>clock\<close> gives the time each version row is written.\<close>

fun migrate_loop ::
  "(string \<Rightarrow> string) \<Rightarrow> (rat \<Rightarrow> string) \<Rightarrow> (nat \<Rightarrow> rat) \<Rightarrow> nat \<Rightarrow> migration list \<Rightarrow> database \<Rightarrow> (py_error + nat) \<times> database" where
  "migrate_loop H fr clock seen [] db = (Inr (current_version db), db)"
| "migrate_loop H fr clock seen (m # ms) db =
     (if mg_version m \<le> seen \<or> mg_version m \<le> current_version db then migrate_loop H fr clock seen ms db
      else case apply_migration H fr (clock (mg_version m)) m db of
        Inl e \<Rightarrow> (Inl e, db)
      | Inr db' \<Rightarrow> migrate_loop H fr clock seen ms db')"

definition migrate :: "(string \<Rightarrow> string) \<Rightarrow> (rat \<Rightarrow> string) \<Rightarrow> (nat \<Rightarrow> rat) \<Rightarrow> database \<Rightarrow> (py_error + nat) \<times> database" where
  "migrate H fr clock db =
     (if latest_version < current_version db then (Inl (Runtime_Error ''SchemaVersionError''), db)
      else migrate_loop H fr clock (current_version db) migrations db)"

end
