(* ===== verification/Migration_Properties.thy ===== *)
theory Migration_Properties
  imports Schema_Migrations Monitoring Event_Stream
begin

text \<open>
  What the migrations guarantee: any pre-framework database is brought to a schema that has every column the writers of
  this development write; processes that start at once do together what one of them would do alone; replaying every
  migration over a complete schema changes nothing; and the refusal of newer databases has a window.
\<close>

section \<open>Columns that are guaranteed\<close>

definition all_statements :: "ddl list" where
  "all_statements = concat (map mg_statements migrations)"

text \<open>Columns of the baseline that older tables lack, and the columns a legacy table is known to have.\<close>

definition retrofitted :: "string \<Rightarrow> string list" where
  "retrofitted t =
     (if t = ''events'' then [''ppid'', ''executable'', ''event_hash'', ''parent_comm'', ''ancestry_json'']
      else if t = ''detection_findings'' then [''provenance_hash'', ''detector_version'']
      else [])"

definition core_columns :: "string \<Rightarrow> (string \<times> string) list \<Rightarrow> string list" where
  "core_columns t cols = filter (\<lambda>c. c \<notin> set (retrofitted t)) (map fst cols)"

definition created :: "ddl list \<Rightarrow> (string \<times> (string \<times> string) list) list" where
  "created ss = List.map_filter (\<lambda>s. case s of Create_Table t cols \<Rightarrow> Some (t, cols) | _ \<Rightarrow> None) ss"

definition legacy_for :: "ddl list \<Rightarrow> database \<Rightarrow> bool" where
  "legacy_for ss db \<longleftrightarrow>
     (\<forall>(t, cols) \<in> set (created ss). db_tables db t \<noteq> None \<longrightarrow> set (core_columns t cols) \<subseteq> set (table_info db t))"

text \<open>A database from before the framework: no version row, and the tables it has carry their original columns.\<close>

definition legacy_database :: "database \<Rightarrow> bool" where
  "legacy_database db \<longleftrightarrow> db_versions db = [] \<and> legacy_for all_statements db"

text \<open>The columns known to exist after a statement, None where the statement could fail.\<close>

type_synonym known_columns = "(string \<times> string list) list"

definition gain :: "ddl \<Rightarrow> known_columns \<Rightarrow> known_columns option" where
  "gain s k =
     (case s of
        Create_Table t cols \<Rightarrow> Some (AList.update t ((case map_of k t of None \<Rightarrow> [] | Some cs \<Rightarrow> cs) @ core_columns t cols) k)
      | Add_Column t c d \<Rightarrow> (case map_of k t of None \<Rightarrow> None | Some cs \<Rightarrow> Some (AList.update t (c # cs) k))
      | Create_Index i ix \<Rightarrow>
          (case map_of k (ix_table ix) of None \<Rightarrow> None | Some cs \<Rightarrow> if list_all (\<lambda>c. c \<in> set cs) (ix_columns ix) then Some k else None)
      | Drop_Index i \<Rightarrow> Some k
      | Backfill t cols \<Rightarrow> if map_of k t = None then None else Some k)"

fun gains :: "ddl list \<Rightarrow> known_columns \<Rightarrow> known_columns option" where
  "gains [] k = Some k"
| "gains (s # ss) k = (case gain s k of None \<Rightarrow> None | Some k' \<Rightarrow> gains ss k')"

definition knows :: "known_columns \<Rightarrow> database \<Rightarrow> bool" where
  "knows k db \<longleftrightarrow> (\<forall>t cs. map_of k t = Some cs \<longrightarrow> db_tables db t \<noteq> None \<and> set cs \<subseteq> set (table_info db t))"

lemma created_Cons [simp]:
  "created (s # ss) = (case s of Create_Table t cols \<Rightarrow> [(t, cols)] | _ \<Rightarrow> []) @ created ss"
  by (simp add: created_def map_filter_simps split: ddl.split)

lemma legacy_elsewhere:
  assumes "legacy_for (s # ss) db" "t \<notin> fst ` set (created ss)" "\<And>u. u \<noteq> t \<Longrightarrow> db_tables db' u = db_tables db u"
  shows "legacy_for ss db'"
  unfolding legacy_for_def
proof (clarify)
  fix u cols c y
  assume u: "(u, cols) \<in> set (created ss)" and old: "db_tables db' u = Some y" and c: "c \<in> set (core_columns u cols)"
  have "u \<noteq> t" using u assms(2) by force
  then have "db_tables db' u = db_tables db u" by (rule assms(3))
  moreover have "set (core_columns u cols) \<subseteq> set (table_info db u)"
    using assms(1) u old calculation by (auto simp: legacy_for_def)
  ultimately show "c \<in> set (table_info db' u)" using c by (auto simp: table_info_def)
qed

lemma gain_sound:
  assumes "knows k db" and "gain s k = Some k'"
    and "legacy_for (s # ss) db" and "distinct (map fst (created (s # ss)))"
  shows "\<exists>db'. run_statement H fr s db = Inr db' \<and> knows k' db' \<and> legacy_for ss db' \<and> db_versions db' = db_versions db"
proof (cases s)
  case (Create_Table t cols)
  have k': "k' = AList.update t ((case map_of k t of None \<Rightarrow> [] | Some cs \<Rightarrow> cs) @ core_columns t cols) k"
    using assms(2) by (simp add: gain_def Create_Table)
  show ?thesis
  proof (cases "db_tables db t")
    case None
    then have "map_of k t = None" using assms(1) unfolding knows_def by (metis option.exhaust)
    let ?db = "db\<lparr>db_tables := (db_tables db)(t \<mapsto> cols), db_rows := (db_rows db)(t := empty_table)\<rparr>"
    have "legacy_for ss ?db" by (rule legacy_elsewhere [OF assms(3)]) (use assms(4) Create_Table in \<open>auto\<close>)
    moreover have "knows k' ?db"
      using assms(1) None \<open>map_of k t = None\<close> by (auto simp: k' update_conv' knows_def table_info_def core_columns_def)
    ultimately show ?thesis using None by (simp add: Create_Table run_statement_def)
  next
    case (Some old)
    with assms(1,3) show ?thesis
      by (cases "map_of k t") (auto simp: Create_Table run_statement_def k' update_conv' knows_def legacy_for_def)
  qed
next
  case (Add_Column t c d)
  then obtain cs where k: "map_of k t = Some cs" and k': "k' = AList.update t (c # cs) k"
    using assms(2) by (auto simp: gain_def split: option.splits)
  obtain cols where cols: "db_tables db t = Some cols" using assms(1) k unfolding knows_def by (metis option.exhaust)
  have sub: "set cs \<subseteq> set (table_info db t)" using assms(1) k unfolding knows_def by blast
  have tail: "legacy_for ss db" using assms(3) by (simp add: legacy_for_def Add_Column)
  show ?thesis
  proof (cases "c \<in> set (table_info db t)")
    case True
    have "knows k' db" using assms(1) cols sub True by (simp add: k' update_conv' knows_def)
    with True tail show ?thesis by (simp add: Add_Column run_statement_def)
  next
    case False
    let ?db = "db\<lparr>db_tables := (db_tables db)(t \<mapsto> cols @ [(c, d)]),
      db_rows := (db_rows db)(t := (db_rows db t)\<lparr>trows := map (\<lambda>r. r(c \<mapsto> column_default d)) (trows (db_rows db t))\<rparr>)\<rparr>"
    have info: "table_info ?db u = (if u = t then table_info db t @ [c] else table_info db u)" for u
      by (simp add: table_info_def cols)
    have "knows k' ?db" using assms(1) sub by (auto simp: k' update_conv' knows_def info)
    moreover have "legacy_for ss ?db" using tail cols by (fastforce simp: legacy_for_def info)
    ultimately show ?thesis using False cols by (simp add: Add_Column run_statement_def)
  qed
next
  case (Create_Index i ix)
  obtain cs where cs: "map_of k (ix_table ix) = Some cs" "set (ix_columns ix) \<subseteq> set cs" and k': "k' = k"
    using assms(2) by (auto simp: gain_def Create_Index list_all_iff split: option.splits if_splits)
  have there: "db_tables db (ix_table ix) \<noteq> None" "set (ix_columns ix) \<subseteq> set (table_info db (ix_table ix))"
    using assms(1) cs unfolding knows_def by blast+
  have tail: "legacy_for ss db" using assms(3) by (simp add: legacy_for_def Create_Index)
  show ?thesis
    using assms(1) tail there
    by (cases "db_indexes db i") (simp_all add: Create_Index run_statement_def k' knows_def legacy_for_def table_info_def)
next
  case (Drop_Index i)
  then show ?thesis using assms(1,2,3) by (auto simp: gain_def run_statement_def knows_def legacy_for_def table_info_def)
next
  case (Backfill t cols)
  then show ?thesis
    using assms(1,2,3) by (auto simp: gain_def run_statement_def knows_def legacy_for_def table_info_def split: if_splits)
qed

lemma gains_sound:
  "knows k db \<Longrightarrow> gains ss k = Some k' \<Longrightarrow> legacy_for ss db \<Longrightarrow> distinct (map fst (created ss)) \<Longrightarrow>
    \<exists>db'. run_statements H fr ss db = Inr db' \<and> knows k' db' \<and> db_versions db' = db_versions db"
proof (induction ss arbitrary: k db)
  case (Cons s ss)
  then obtain k1 where k1: "gain s k = Some k1" "gains ss k1 = Some k'" by (auto split: option.splits)
  from gain_sound [OF Cons.prems(1) k1(1) Cons.prems(3,4)] obtain db1
    where db1: "run_statement H fr s db = Inr db1" "knows k1 db1" "legacy_for ss db1" "db_versions db1 = db_versions db" by blast
  have "distinct (map fst (created ss))" using Cons.prems(4) by simp
  from Cons.IH [OF db1(2) k1(2) db1(3) this] db1 show ?case by auto
qed simp

section \<open>Running alone\<close>

lemma run_statements_append:
  "run_statements H fr (ss @ ts) db = (case run_statements H fr ss db of Inl e \<Rightarrow> Inl e | Inr db \<Rightarrow> run_statements H fr ts db)"
  by (induction ss arbitrary: db) (auto split: sum.split)

text \<open>No statement reads or writes the version rows.\<close>

lemma statement_versions:
  "run_statement H fr s (db\<lparr>db_versions := v\<rparr>) = map_sum id (\<lambda>d. d\<lparr>db_versions := v\<rparr>) (run_statement H fr s db)"
  by (cases s) (simp_all add: run_statement_def table_info_def split: option.split)

lemma statements_versions:
  "run_statements H fr ss (db\<lparr>db_versions := v\<rparr>) = map_sum id (\<lambda>d. d\<lparr>db_versions := v\<rparr>) (run_statements H fr ss db)"
  by (induction ss arbitrary: db) (auto simp: statement_versions split: sum.split)

lemma statement_keeps_versions: "run_statement H fr s db = Inr db' \<Longrightarrow> db_versions db' = db_versions db"
  by (cases s) (auto simp: run_statement_def split: option.splits if_splits)

lemma statements_keep_versions: "run_statements H fr ss db = Inr db' \<Longrightarrow> db_versions db' = db_versions db"
  by (induction ss arbitrary: db) (auto dest: statement_keeps_versions split: sum.splits)

lemma fold_max_append: "fold max (xs @ [x]) (n :: nat) = max x (fold max xs n)"
  by simp

lemma current_version_add: "current_version (db\<lparr>db_versions := db_versions db @ [(v, d, t)]\<rparr>) = max v (current_version db)"
  by (simp add: current_version_def)

lemma versions_fold_ge: "n \<le> fold max xs (n :: nat)" "x \<in> set xs \<Longrightarrow> x \<le> fold max xs (n :: nat)"
proof (induction xs arbitrary: n)
  case (Cons y ys)
  { case 1 show ?case using Cons(1) [of "max y n"] by simp }
  { case 2 then show ?case using Cons(1) [of "max y n"] Cons(2) [of "max y n"] by auto }
qed simp_all

lemma version_le_current: "v \<in> fst ` set (db_versions db) \<Longrightarrow> v \<le> current_version db"
  unfolding current_version_def by (rule versions_fold_ge(2)) simp

lemma current_version_cong: "db_versions d = db_versions d' \<Longrightarrow> current_version d = current_version d'"
  by (simp add: current_version_def)

text \<open>Migrations in increasing order above the current version run one after the other.\<close>

lemma migrate_loop_runs:
  "sorted_wrt (<) (map mg_version ms) \<Longrightarrow> list_all (\<lambda>m. seen < mg_version m \<and> current_version db < mg_version m) ms \<Longrightarrow>
    run_statements H fr (concat (map mg_statements ms)) db = Inr db1 \<Longrightarrow>
    migrate_loop H fr clock seen ms db =
      (let db' = db1\<lparr>db_versions := db_versions db @ map (\<lambda>m. (mg_version m, mg_description m, clock (mg_version m))) ms\<rparr>
       in (Inr (current_version db'), db'))"
proof (induction ms arbitrary: db db1)
  case Nil
  then show ?case by (simp add: Let_def)
next
  case (Cons m ms)
  let ?row = "(mg_version m, mg_description m, clock (mg_version m))"
  from Cons.prems(3) obtain d where d: "run_statements H fr (mg_statements m) db = Inr d"
      "run_statements H fr (concat (map mg_statements ms)) d = Inr db1"
    by (auto simp: run_statements_append split: sum.splits)
  have v: "db_versions d = db_versions db" by (rule statements_keep_versions [OF d(1)])
  have fresh: "mg_version m \<notin> fst ` set (db_versions db)"
    using Cons.prems(2) version_le_current [of "mg_version m" db] by auto
  let ?d = "d\<lparr>db_versions := db_versions db @ [?row]\<rparr>"
  have step: "apply_migration H fr (clock (mg_version m)) m db = Inr ?d"
    using d(1) v fresh by (simp add: apply_migration_def)
  have cur: "current_version ?d = mg_version m"
    using Cons.prems(2) current_version_add [of d] current_version_cong [OF v] v by (simp add: max_def)
  have "migrate_loop H fr clock seen ms ?d =
      (let db' = (db1\<lparr>db_versions := db_versions db @ [?row]\<rparr>)\<lparr>db_versions := db_versions ?d @ map (\<lambda>m. (mg_version m, mg_description m, clock (mg_version m))) ms\<rparr>
       in (Inr (current_version db'), db'))"
  proof (rule Cons.IH)
    show "sorted_wrt (<) (map mg_version ms)" using Cons.prems(1) by simp
    show "list_all (\<lambda>m. seen < mg_version m \<and> current_version ?d < mg_version m) ms"
      using Cons.prems(1,2) by (simp add: cur list_all_iff)
    show "run_statements H fr (concat (map mg_statements ms)) ?d = Inr (db1\<lparr>db_versions := db_versions db @ [?row]\<rparr>)"
      by (simp add: statements_versions d(2))
  qed
  then show ?case using Cons.prems(2) step by (simp add: Let_def)
qed

lemma migration_versions: "map mg_version migrations = [1, 2, 3, 4, 5, 6, 7, 8, 9, 10, 11]"
  by (simp add: migrations_def)

lemma latest_version_11 [simp]: "latest_version = 11"
  by (simp add: latest_version_def migrations_def)

section \<open>Every column the code writes\<close>

definition chain_columns :: "string list" where
  "chain_columns = [''chain_seq'', ''chain_prev_hash'', ''chain_hash'']"

definition written_columns :: "(string \<times> string list) list" where
  "written_columns =
     [(''events'', map fst event_columns), (''collector_runtime'', ''id'' # map fst collector_health_columns),
      (''collector_sources'', ''name'' # map fst collector_source_columns),
      (''detection_findings'', finding_chain_columns @ chain_columns), (''policy_decisions'', policy_chain_columns @ chain_columns),
      (''triage_annotations'', triage_chain_columns @ chain_columns), (''ml_model_lifecycle'', ml_lifecycle_chain_columns @ chain_columns),
      (''ml_drift_assessments'', ''id'' # ml_drift_core_columns)]"

definition covers_written :: "known_columns \<Rightarrow> bool" where
  "covers_written k \<longleftrightarrow>
     list_all (\<lambda>(t, cs). case map_of k t of None \<Rightarrow> False | Some known \<Rightarrow> list_all (\<lambda>c. c \<in> set known) cs) written_columns"

lemma written_columns_guaranteed: "case gains all_statements [] of None \<Rightarrow> False | Some k \<Rightarrow> covers_written k"
  by code_simp

lemma created_distinct: "distinct (map fst (created all_statements))"
  by code_simp

lemma migrate_from_unversioned:
  assumes "run_statements H fr all_statements db = Inr db1" "db_versions db = []"
  shows "migrate H fr clock db =
    (Inr 11, db1\<lparr>db_versions := map (\<lambda>m. (mg_version m, mg_description m, clock (mg_version m))) migrations\<rparr>)"
proof -
  let ?db = "db1\<lparr>db_versions := map (\<lambda>m. (mg_version m, mg_description m, clock (mg_version m))) migrations\<rparr>"
  have none: "current_version db = 0" using assms(2) by (simp add: current_version_def)
  have "migrate_loop H fr clock 0 migrations db = (Inr (current_version ?db), ?db)"
    using migrate_loop_runs [of migrations 0 db H fr db1 clock] assms migration_versions none
    by (simp add: all_statements_def Let_def list_all_iff migrations_def)
  moreover have "current_version ?db = 11" by (simp add: current_version_def migrations_def)
  ultimately show ?thesis by (simp add: migrate_def none)
qed


text \<open>An events table without the retrofitted columns.\<close>

definition old_event_columns :: "string list" where
  "old_event_columns =
     [''id'', ''event_type'', ''timestamp'', ''timestamp_ns'', ''pid'', ''uid'', ''gid'', ''comm'', ''source'', ''version'', ''payload_json'']"

definition old_events :: database where
  "old_events = new_database\<lparr>db_tables := [''events'' \<mapsto> map (\<lambda>c. (c, ''TEXT'')) old_event_columns]\<rparr>"

lemma old_events_legacy: "legacy_database old_events"
proof -
  have info: "table_info old_events t = (if t = ''events'' then old_event_columns else [])" for t
    by (simp add: table_info_def old_events_def new_database_def comp_def)
  have core: "list_all (\<lambda>c. c \<in> set old_event_columns) (core_columns ''events'' (the (map_of (created all_statements) ''events'')))"
    by code_simp
  have "legacy_for all_statements old_events"
    unfolding legacy_for_def
  proof (clarify)
    fix t cols c y
    assume *: "(t, cols) \<in> set (created all_statements)" "db_tables old_events t = Some y" "c \<in> set (core_columns t cols)"
    then have "t = ''events''" by (simp add: old_events_def new_database_def split: if_splits)
    moreover have "map_of (created all_statements) t = Some cols" by (rule map_of_is_SomeI [OF created_distinct *(1)])
    ultimately show "c \<in> set (table_info old_events t)" using core *(3) by (simp add: info list_all_iff)
  qed
  then show ?thesis by (simp add: legacy_database_def old_events_def new_database_def)
qed


section \<open>Starting together\<close>

text \<open>What the database becomes when migrations are applied one after the other, at some times.\<close>

inductive applied :: "(string \<Rightarrow> string) \<Rightarrow> (rat \<Rightarrow> string) \<Rightarrow> migration list \<Rightarrow> database \<Rightarrow> database \<Rightarrow> bool"
  for H fr where
  applied_none: "applied H fr [] db db"
| applied_next: "applied H fr ms db db1 \<Longrightarrow> apply_migration H fr now m db1 = Inr db2 \<Longrightarrow> applied H fr (ms @ [m]) db db2"

text \<open>A schedule: which process moves, when, and how it is disturbed.\<close>

definition schedule_step ::
  "(string \<Rightarrow> string) \<Rightarrow> (rat \<Rightarrow> string) \<Rightarrow> nat \<times> rat \<times> interruption \<Rightarrow> (nat \<Rightarrow> migrator) \<times> database \<Rightarrow> (nat \<Rightarrow> migrator) \<times> database" where
  "schedule_step H fr e w =
     (case (e, w) of ((p, now, how), procs, db) \<Rightarrow>
        (case migrator_step H fr now how (procs p) db of (m, db') \<Rightarrow> (procs(p := m), db')))"

definition run_schedule ::
  "(string \<Rightarrow> string) \<Rightarrow> (rat \<Rightarrow> string) \<Rightarrow> (nat \<times> rat \<times> interruption) list \<Rightarrow> database \<Rightarrow> (nat \<Rightarrow> migrator) \<times> database" where
  "run_schedule H fr es db = fold (schedule_step H fr) es (\<lambda>_. Not_Migrating, db)"

definition between :: "nat \<Rightarrow> nat \<Rightarrow> migration list" where
  "between v k = filter (\<lambda>m. v < mg_version m \<and> mg_version m \<le> k) migrations"

lemma migration_nth: "j < 11 \<Longrightarrow> mg_version (migrations ! j) = Suc j"
proof -
  assume "j < 11"
  moreover have "length migrations = 11" by (simp add: migrations_def)
  moreover have "map mg_version migrations = map Suc [0..<11]" by (simp add: migrations_def upt_rec)
  ultimately show ?thesis by (metis nth_map length_map nth_upt add_0 length_upt minus_nat.diff_0)
qed

lemma drop_migrations: "drop j migrations = m # ms \<Longrightarrow> j < 11 \<and> m = migrations ! j \<and> ms = drop (Suc j) migrations"
proof -
  assume d: "drop j migrations = m # ms"
  have len: "length migrations = 11" by (simp add: migrations_def)
  have j: "j < 11" using d len by (metis drop_all linorder_not_le list.distinct(1))
  then show ?thesis using Cons_nth_drop_Suc [of j migrations] d len by simp
qed

lemma between_Suc: "v \<le> k \<Longrightarrow> k < 11 \<Longrightarrow> between v (Suc k) = between v k @ [migrations ! k]"
proof -
  assume vk: "v \<le> k" "k < 11"
  have m: "migrations = take k migrations @ migrations ! k # drop (Suc k) migrations"
    using vk(2) by (intro id_take_nth_drop) (simp add: migrations_def)
  have len: "length migrations = 11" by (simp add: migrations_def)
  have low: "mg_version x \<le> k" if "x \<in> set (take k migrations)" for x
  proof -
    from that obtain i where "i < length (take k migrations)" "x = take k migrations ! i" by (metis in_set_conv_nth)
    then have "i < k" "x = migrations ! i" by (simp_all)
    with vk(2) show ?thesis using migration_nth [of i] by simp
  qed
  have high: "Suc k < mg_version x" if "x \<in> set (drop (Suc k) migrations)" for x
  proof -
    from that obtain i where i: "i < length (drop (Suc k) migrations)" "x = drop (Suc k) migrations ! i" by (metis in_set_conv_nth)
    then have "x = migrations ! (Suc k + i)" "Suc k + i < 11" using len by simp_all
    then show ?thesis using migration_nth [of "Suc k + i"] by simp
  qed
  have f: "filter P migrations = filter P (take k migrations) @ (if P (migrations ! k) then [migrations ! k] else []) @ filter P (drop (Suc k) migrations)" for P
    by (subst m) simp
  have a: "filter (\<lambda>m. v < mg_version m \<and> mg_version m \<le> Suc k) (take k migrations) = filter (\<lambda>m. v < mg_version m \<and> mg_version m \<le> k) (take k migrations)"
    by (rule filter_cong [OF refl]) (use low in \<open>fastforce\<close>)
  have b: "filter (\<lambda>m. v < mg_version m \<and> mg_version m \<le> Suc k) (drop (Suc k) migrations) = []"
    "filter (\<lambda>m. v < mg_version m \<and> mg_version m \<le> k) (drop (Suc k) migrations) = []"
    using high by (force simp: filter_empty_conv)+
  show ?thesis unfolding between_def by (subst (1 2) f) (simp add: a b migration_nth vk le_imp_less_Suc)
qed

lemma apply_migration_version:
  assumes "apply_migration H fr now m db = Inr db'"
  shows "current_version db' = max (mg_version m) (current_version db)"
proof -
  from assms obtain d where d: "run_statements H fr (mg_statements m) db = Inr d"
    "db' = d\<lparr>db_versions := db_versions d @ [(mg_version m, mg_description m, now)]\<rparr>"
    by (auto simp: apply_migration_def split: sum.splits if_splits)
  then show ?thesis using current_version_add [of d] current_version_cong [OF statements_keep_versions [OF d(1)]] by simp
qed

text \<open>Where a process stands when the database is at version \<open>k\<close>.\<close>

definition migrator_ok :: "nat \<Rightarrow> migrator \<Rightarrow> bool" where
  "migrator_ok k p \<longleftrightarrow>
     (case p of
        Migrating seen ms \<Rightarrow> seen \<le> k \<and> (\<exists>j. ms = drop j migrations \<and> j \<le> k)
      | Migrated n \<Rightarrow> n = 11 \<and> k = 11
      | _ \<Rightarrow> True)"

definition serial_state :: "(string \<Rightarrow> string) \<Rightarrow> (rat \<Rightarrow> string) \<Rightarrow> database \<Rightarrow> (nat \<Rightarrow> migrator) \<times> database \<Rightarrow> bool" where
  "serial_state H fr db w \<longleftrightarrow>
     (case w of (procs, db') \<Rightarrow> \<exists>k. current_version db \<le> k \<and> k \<le> 11 \<and> applied H fr (between (current_version db) k) db db' \<and>
        current_version db' = k \<and> (\<forall>p. migrator_ok k (procs p)))"

lemma migrator_ok_mono: "migrator_ok k p \<Longrightarrow> k \<le> k' \<Longrightarrow> k' \<le> 11 \<Longrightarrow> migrator_ok k' p"
  by (auto simp: migrator_ok_def split: migrator.splits intro: le_trans)

lemma step_serial:
  assumes v0: "v0 \<le> k" "k \<le> 11" and app: "applied H fr (between v0 k) db d" and cur: "current_version d = k" and ok: "migrator_ok k p"
    and step: "migrator_step H fr now how p d = (p', d')"
  shows "\<exists>k'. k \<le> k' \<and> k' \<le> 11 \<and> applied H fr (between v0 k') db d' \<and> current_version d' = k' \<and> migrator_ok k' p'"
proof (cases "\<exists>seen m ms. p = Migrating seen (m # ms)")
  case True
  then obtain seen m ms where p: "p = Migrating seen (m # ms)" by blast
  with ok obtain j where j: "m # ms = drop j migrations" "j \<le> k" and seen: "seen \<le> k" by (auto simp: migrator_ok_def)
  from drop_migrations [OF j(1) [symmetric]] have m: "j < 11" "m = migrations ! j" "ms = drop (Suc j) migrations" by simp_all
  have vm: "mg_version m = Suc j" using migration_nth [OF m(1)] m(2) by simp
  have skip: "migrator_ok k (Migrating seen ms)" if "Suc j \<le> k"
    using that seen m(3) by (auto simp: migrator_ok_def)
  consider (skip) "p' = Migrating seen ms" "d' = d" "Suc j \<le> k"
    | (stop) "p' = Killed_Migrator \<or> (\<exists>e. p' = Migrate_Raised e)" "d' = d"
    | (run) "p' = Migrating seen ms" "apply_migration H fr now m d = Inr d'" "k < Suc j"
    using step seen cur vm by (auto simp: p migrator_step_def split: if_splits sum.splits)
  then show ?thesis
  proof cases
    case skip
    with skip v0 app cur \<open>Suc j \<le> k \<Longrightarrow> migrator_ok k (Migrating seen ms)\<close> show ?thesis by blast
  next
    case stop
    then have "migrator_ok k p'" by (auto simp: migrator_ok_def)
    with stop v0 app cur show ?thesis by blast
  next
    case run
    have k: "k = j" using run(3) j(2) by simp
    have "applied H fr (between v0 (Suc k)) db d'"
      using applied_next [OF app run(2)] between_Suc [OF v0(1)] m k by simp
    moreover have "current_version d' = Suc k" using apply_migration_version [OF run(2)] vm cur k by simp
    moreover have "migrator_ok (Suc k) p'" using run(1) seen m(3) k by (auto simp: migrator_ok_def)
    ultimately show ?thesis using m(1) k by (intro exI [of _ "Suc k"]) simp
  qed
next
  case False
  have len: "length migrations = 11" by (simp add: migrations_def)
  have "d' = d \<and> migrator_ok k p'"
  proof (cases p)
    case Not_Migrating
    have "\<exists>j. migrations = drop j migrations \<and> j \<le> k" by (intro exI [of _ 0]) simp
    with Not_Migrating show ?thesis using step v0 cur
      by (auto simp: migrator_step_def open_migrator_def migrator_ok_def)
  next
    case (Migrating seen ms)
    with False have ms: "ms = []" by (cases ms) auto
    with ok Migrating obtain j where "[] = drop j migrations" "j \<le> k" by (auto simp: migrator_ok_def)
    then have "k = 11" using len v0(2) by simp
    with step Migrating ms cur show ?thesis by (auto simp: migrator_step_def migrator_ok_def)
  qed (use step ok in \<open>auto simp: migrator_step_def\<close>)
  with v0 app cur show ?thesis by blast
qed

lemma schedule_serial:
  assumes "serial_state H fr db w"
  shows "serial_state H fr db (fold (schedule_step H fr) es w)"
  using assms
proof (induction es arbitrary: w)
  case (Cons e es)
  obtain q now how where e: "e = (q, now, how)" by (cases e) auto
  obtain procs d where w: "w = (procs, d)" by fastforce
  from Cons.prems obtain k where k: "current_version db \<le> k" "k \<le> 11" "applied H fr (between (current_version db) k) db d"
      "current_version d = k" "\<forall>p. migrator_ok k (procs p)" by (auto simp: serial_state_def w)
  obtain p' d' where step: "migrator_step H fr now how (procs q) d = (p', d')" by fastforce
  from step_serial [OF k(1-4) _ step] k(5) obtain k' where k': "k \<le> k'" "k' \<le> 11"
      "applied H fr (between (current_version db) k') db d'" "current_version d' = k'" "migrator_ok k' p'" by blast
  have "\<forall>p. migrator_ok k' ((procs(q := p')) p)" using k(5) k' migrator_ok_mono by auto
  then have "serial_state H fr db (procs(q := p'), d')"
    using k(1) k' unfolding serial_state_def by (auto intro!: exI [of _ k'])
  then show ?case using Cons.IH by (simp add: schedule_step_def e w step)
qed simp

text \<open>C39: Processes that start together do what one would do alone. Let any number of processes run \<open>migrate\<close> on one
database that is not newer than this build, their transactions interleaved in any order, each of them disturbed by
exceptions or killed at any point. At every moment the database is the original one with a gapless run of the next
migrations applied once each and in order, its recorded version is the last of them, and a process that has returned
returned version 11 with all of them applied.\<close>

theorem concurrent_startup_is_serial:
  assumes "current_version db \<le> latest_version" and "run_schedule H fr es db = (procs, db')"
  shows "\<exists>k. current_version db \<le> k \<and> k \<le> latest_version \<and> applied H fr (between (current_version db) k) db db' \<and>
    current_version db' = k \<and> (\<forall>p n. procs p = Migrated n \<longrightarrow> n = latest_version \<and> k = latest_version)"
proof -
  have "between (current_version db) (current_version db) = []" by (auto simp: between_def filter_empty_conv)
  then have "serial_state H fr db (\<lambda>_. Not_Migrating, db)"
    using assms(1) applied_none [of H fr db] by (auto simp: serial_state_def migrator_ok_def)
  from schedule_serial [OF this, of es] assms(2) have "serial_state H fr db (procs, db')" by (simp add: run_schedule_def)
  then obtain k where "current_version db \<le> k" "k \<le> 11" "applied H fr (between (current_version db) k) db db'" "current_version db' = k"
      "\<forall>p. migrator_ok k (procs p)" by (auto simp: serial_state_def)
  moreover have "n = 11 \<and> k = 11" if "procs p = Migrated n" for p n
    using spec [OF calculation(5), of p] that by (simp add: migrator_ok_def)
  ultimately show ?thesis by (intro exI [of _ k]) auto
qed

text \<open>The newest database two processes can leave an old one with: version rows 1 to 11.\<close>

theorem concurrent_startup_is_serial_witness:
  "\<exists>k. current_version new_database \<le> k \<and> k \<le> latest_version \<and>
    applied (\<lambda>s. s) (\<lambda>_. []) (between (current_version new_database) k) new_database
      (snd (run_schedule (\<lambda>s. s) (\<lambda>_. []) [(0, 1, Undisturbed), (1, 1, Undisturbed), (0, 2, Undisturbed), (1, 3, Killed_At)] new_database)) \<and>
    current_version (snd (run_schedule (\<lambda>s. s) (\<lambda>_. []) [(0, 1, Undisturbed), (1, 1, Undisturbed), (0, 2, Undisturbed), (1, 3, Killed_At)] new_database)) = k \<and>
    (\<forall>p n. fst (run_schedule (\<lambda>s. s) (\<lambda>_. []) [(0, 1, Undisturbed), (1, 1, Undisturbed), (0, 2, Undisturbed), (1, 3, Killed_At)] new_database) p = Migrated n
      \<longrightarrow> n = latest_version \<and> k = latest_version)"
  by (rule concurrent_startup_is_serial) (simp_all add: new_database_def current_version_def)

section \<open>A newer build in between\<close>

text \<open>C40: The refusal of newer databases has a window. A process of this build opens a database that it may upgrade; before
its first transaction a newer build brings the database to a later version. Every transaction then finds its migration
already recorded, and \<open>migrate\<close> returns the later version instead of raising, after which the store writes into a schema
it does not know.\<close>

theorem newer_build_is_not_refused:
  assumes "open_migrator db = Migrating seen migrations" and "latest_version < current_version newer"
  shows "fst (fold (\<lambda>now (p, d). migrator_step H fr now Undisturbed p d) (replicate 12 0) (Migrating seen migrations, newer)) =
      Migrated (current_version newer) \<and>
    open_migrator newer = Migrate_Raised (Runtime_Error ''SchemaVersionError'')"
proof -
  have skip: "migrator_step H fr now Undisturbed (Migrating seen (m # ms)) newer = (Migrating seen ms, newer)"
    if "mg_version m \<le> 11" for m ms now using that assms(2) by (simp add: migrator_step_def)
  have finish: "migrator_step H fr now Undisturbed (Migrating seen []) newer = (Migrated (current_version newer), newer)" for now
    by (simp add: migrator_step_def)
  show ?thesis
    using assms(2) by (simp add: numeral_eq_Suc migrations_def skip finish open_migrator_def)
qed

text \<open>A database two migrations behind, and what a build with one more migration makes of it.\<close>

definition version_rows :: "nat list \<Rightarrow> database" where
  "version_rows vs = new_database\<lparr>db_versions := map (\<lambda>v. (v, [], 0)) vs\<rparr>"

theorem newer_build_is_not_refused_witness:
  "fst (fold (\<lambda>now (p, d). migrator_step (\<lambda>s. s) (\<lambda>_. []) now Undisturbed p d) (replicate 12 0) (Migrating 9 migrations, version_rows [1..<13])) =
      Migrated (current_version (version_rows [1..<13])) \<and>
    open_migrator (version_rows [1..<13]) = Migrate_Raised (Runtime_Error ''SchemaVersionError'')"
  by (rule newer_build_is_not_refused [of "version_rows [1..<10]"])
    (simp_all add: open_migrator_def version_rows_def current_version_def upt_rec)

section \<open>Replaying every migration\<close>

text \<open>A schema with every table, column and index in place, the two superseded indexes gone, and every evidence row chained.\<close>

definition superseded :: "string list" where
  "superseded = [''idx_events_event_type'', ''idx_events_timestamp'']"

definition holds_already :: "database \<Rightarrow> ddl \<Rightarrow> bool" where
  "holds_already db s =
     (case s of
        Create_Table t cols \<Rightarrow> db_tables db t \<noteq> None
      | Add_Column t c d \<Rightarrow> c \<in> set (table_info db t)
      | Create_Index i ix \<Rightarrow> i \<in> set superseded \<or> db_indexes db i \<noteq> None
      | Drop_Index i \<Rightarrow> db_indexes db i = None
      | Backfill t cols \<Rightarrow> db_tables db t \<noteq> None \<and> list_all (\<lambda>r. rget r ''chain_seq'' \<noteq> SNull) (trows (db_rows db t)))"

definition complete_schema :: "database \<Rightarrow> bool" where
  "complete_schema db \<longleftrightarrow> list_all (holds_already db) all_statements \<and> {''event_type'', ''timestamp''} \<subseteq> set (table_info db ''events'')"

definition touches_superseded :: "ddl \<Rightarrow> bool" where
  "touches_superseded s = (case s of Create_Index i ix \<Rightarrow> i \<in> set superseded | Drop_Index i \<Rightarrow> i \<in> set superseded | _ \<Rightarrow> False)"

definition index_effect :: "ddl \<Rightarrow> (string \<rightharpoonup> db_index) \<Rightarrow> (string \<rightharpoonup> db_index)" where
  "index_effect s f =
     (case s of Create_Index i ix \<Rightarrow> if f i = None then f(i \<mapsto> ix) else f | Drop_Index i \<Rightarrow> f(i := None) | _ \<Rightarrow> f)"

lemma superseded_statements:
  "filter touches_superseded all_statements =
     [Create_Index ''idx_events_event_type'' (index_on ''events'' [''event_type''] False None),
      Create_Index ''idx_events_timestamp'' (index_on ''events'' [''timestamp''] False None),
      Drop_Index ''idx_events_event_type'', Drop_Index ''idx_events_timestamp'']"
  by code_simp

lemma backfill_chained: "list_all (\<lambda>r. rget r ''chain_seq'' \<noteq> SNull) (trows t) \<Longrightarrow> backfill_chain H fr cols t = t"
proof -
  assume "list_all (\<lambda>r. rget r ''chain_seq'' \<noteq> SNull) (trows t)"
  then have "filter (\<lambda>r. rget r ''chain_seq'' = SNull) (trows t) = []" by (simp add: list_all_iff filter_empty_conv)
  then show ?thesis by (simp add: backfill_chain_def Let_def)
qed

text \<open>One statement over a complete schema: it only ever moves the superseded indexes.\<close>

lemma replay_statement:
  assumes "holds_already db s" "touches_superseded s \<Longrightarrow> s \<in> set (filter touches_superseded all_statements)"
    and events: "{''event_type'', ''timestamp''} \<subseteq> set (table_info db ''events'')"
    and f: "\<forall>i. i \<notin> set superseded \<longrightarrow> f i = db_indexes db i"
  shows "run_statement H fr s (db\<lparr>db_indexes := f\<rparr>) = Inr (db\<lparr>db_indexes := if touches_superseded s then index_effect s f else f\<rparr>)"
proof (cases s)
  case (Create_Index i ix)
  show ?thesis
  proof (cases "i \<in> set superseded")
    case True
    then have "touches_superseded s" by (simp add: touches_superseded_def Create_Index)
    from assms(2) [OF this] have "ix_table ix = ''events''" "set (ix_columns ix) \<subseteq> {''event_type'', ''timestamp''}"
      unfolding superseded_statements by (auto simp: Create_Index index_on_def)
    moreover have "db_tables db ''events'' \<noteq> None" using events by (cases "db_tables db ''events''") (simp_all add: table_info_def)
    ultimately have "db_tables db (ix_table ix) \<noteq> None" "set (ix_columns ix) \<subseteq> set (table_info db (ix_table ix))"
      using events by (simp_all, blast)
    then show ?thesis using True
      by (cases "f i") (simp_all add: Create_Index run_statement_def touches_superseded_def index_effect_def table_info_def)
  next
    case False
    with assms(1) f show ?thesis by (auto simp: Create_Index run_statement_def touches_superseded_def holds_already_def)
  qed
next
  case (Drop_Index i)
  have "f(i := None) = f" if "i \<notin> set superseded" using assms(1) f that by (auto simp: Drop_Index holds_already_def)
  then show ?thesis by (auto simp: Drop_Index run_statement_def touches_superseded_def index_effect_def)
qed (use assms(1) in \<open>auto simp: run_statement_def touches_superseded_def holds_already_def table_info_def backfill_chained\<close>)

lemma replay_statements:
  "list_all (holds_already db) ss \<Longrightarrow> set (filter touches_superseded ss) \<subseteq> set (filter touches_superseded all_statements) \<Longrightarrow>
    {''event_type'', ''timestamp''} \<subseteq> set (table_info db ''events'') \<Longrightarrow> \<forall>i. i \<notin> set superseded \<longrightarrow> f i = db_indexes db i \<Longrightarrow>
    run_statements H fr ss (db\<lparr>db_indexes := f\<rparr>) = Inr (db\<lparr>db_indexes := fold index_effect (filter touches_superseded ss) f\<rparr>)"
proof (induction ss arbitrary: f)
  case (Cons s ss)
  let ?f = "if touches_superseded s then index_effect s f else f"
  have "run_statement H fr s (db\<lparr>db_indexes := f\<rparr>) = Inr (db\<lparr>db_indexes := ?f\<rparr>)"
    by (rule replay_statement) (use Cons.prems in auto)
  moreover have "\<forall>i. i \<notin> set superseded \<longrightarrow> ?f i = db_indexes db i"
    using Cons.prems(4) by (auto simp: index_effect_def touches_superseded_def split: ddl.splits)
  ultimately show ?case using Cons.IH [of ?f] Cons.prems by (simp split: if_splits)
qed simp

lemma replay_complete:
  assumes "complete_schema db"
  shows "run_statements H fr all_statements db = Inr db"
proof -
  have holds: "list_all (holds_already db) all_statements" "{''event_type'', ''timestamp''} \<subseteq> set (table_info db ''events'')"
    using assms by (simp_all add: complete_schema_def)
  have gone: "db_indexes db ''idx_events_event_type'' = None" "db_indexes db ''idx_events_timestamp'' = None"
  proof -
    have "{Drop_Index ''idx_events_event_type'', Drop_Index ''idx_events_timestamp''} \<subseteq> set (filter touches_superseded all_statements)"
      unfolding superseded_statements by simp
    then show "db_indexes db ''idx_events_event_type'' = None" "db_indexes db ''idx_events_timestamp'' = None"
      using holds(1) by (auto simp: list_all_iff holds_already_def)
  qed
  have "fold index_effect (filter touches_superseded all_statements) (db_indexes db) = db_indexes db"
    unfolding superseded_statements using gone by (auto simp: index_effect_def)
  then show ?thesis using replay_statements [OF holds(1) subset_refl holds(2), of "db_indexes db" H fr] by simp
qed

text \<open>A backfill leaves no row outside the chain.\<close>

lemma backfill_rows_chained:
  "\<forall>r \<in> set (trows t). rget r ''chain_seq'' \<noteq> SNull \<or> rget r ''id'' \<in> (\<lambda>r. rget r ''id'') ` set ps \<Longrightarrow>
    \<forall>r \<in> set (trows (backfill_rows H fr cols q h ps t)). rget r ''chain_seq'' \<noteq> SNull"
proof (induction ps arbitrary: q h t)
  case (Cons p ps)
  let ?l = "next_link H fr q h cols p"
  let ?t = "update_where (\<lambda>r. rget r ''id'' = rget p ''id'') (set_chain ?l) t"
  have "\<forall>r \<in> set (trows ?t). rget r ''chain_seq'' \<noteq> SNull \<or> rget r ''id'' \<in> (\<lambda>r. rget r ''id'') ` set ps"
    using Cons.prems by (auto simp: update_where_def set_chain_def)
  from Cons.IH [OF this] show ?case by (simp add: Let_def)
qed simp

lemma backfill_chains: "\<forall>r \<in> set (trows (backfill_chain H fr cols t)). rget r ''chain_seq'' \<noteq> SNull"
  unfolding backfill_chain_def Let_def by (rule backfill_rows_chained) auto

text \<open>A statement that has run holds from then on.\<close>

definition lasting :: "database \<Rightarrow> ddl \<Rightarrow> bool" where
  "lasting db s \<longleftrightarrow> touches_superseded s \<or>
     (case s of Drop_Index i \<Rightarrow> False | Backfill t cols \<Rightarrow> ''chain_seq'' \<in> set (table_info db t) \<and> holds_already db s | _ \<Rightarrow> holds_already db s)"

definition orderly :: "ddl \<Rightarrow> bool" where
  "orderly s = (case s of Drop_Index i \<Rightarrow> i \<in> set superseded | _ \<Rightarrow> True)"

lemma info_grows:
  assumes "run_statement H fr s db = Inr db'"
  shows "set (table_info db t) \<subseteq> set (table_info db' t)"
proof (cases s)
  case (Create_Table u cols)
  have "table_info db' t = (if t = u \<and> db_tables db u = None then map fst cols else table_info db t)"
    using assms by (cases "db_tables db u") (auto simp: Create_Table run_statement_def, simp_all add: table_info_def)
  then show ?thesis by (cases "t = u \<and> db_tables db u = None") (auto simp: table_info_def)
next
  case (Add_Column u c d)
  show ?thesis
  proof (cases "c \<in> set (table_info db u)")
    case False
    then obtain cols where u: "db_tables db u = Some cols" using assms by (auto simp: Add_Column run_statement_def split: option.splits)
    have "table_info db' t = (if t = u then table_info db u @ [c] else table_info db t)"
      using assms False by (auto simp: Add_Column run_statement_def u) (simp_all add: table_info_def u)
    then show ?thesis by auto
  qed (use assms in \<open>simp add: Add_Column run_statement_def\<close>)
qed (use assms in \<open>auto simp: run_statement_def table_info_def split: option.splits if_splits\<close>)

lemma tables_stay: "run_statement H fr s db = Inr db' \<Longrightarrow> db_tables db t \<noteq> None \<Longrightarrow> db_tables db' t \<noteq> None"
  by (cases s) (auto simp: run_statement_def split: option.splits if_splits)

lemma indexes_stay:
  "run_statement H fr s db = Inr db' \<Longrightarrow> orderly s \<Longrightarrow> i \<notin> set superseded \<Longrightarrow> db_indexes db i \<noteq> None \<Longrightarrow> db_indexes db' i \<noteq> None"
  by (cases s) (auto simp: run_statement_def orderly_def split: option.splits if_splits)

lemma chained_stays:
  assumes "run_statement H fr s db = Inr db'" "db_tables db t \<noteq> None" "''chain_seq'' \<in> set (table_info db t)"
    and "list_all (\<lambda>r. rget r ''chain_seq'' \<noteq> SNull) (trows (db_rows db t))"
  shows "list_all (\<lambda>r. rget r ''chain_seq'' \<noteq> SNull) (trows (db_rows db' t))"
proof (cases s)
  case (Add_Column u c d)
  have "rget (r(c \<mapsto> v)) ''chain_seq'' = rget r ''chain_seq''" if "c \<noteq> ''chain_seq''" for r :: row and v
    using that by simp
  moreover have "c \<noteq> ''chain_seq''" if "u = t" "c \<notin> set (table_info db u)" using that assms(3) by auto
  ultimately show ?thesis
    using assms(1,4) by (cases "db_tables db u") (auto simp: Add_Column run_statement_def list_all_iff split: if_splits)
next
  case (Backfill u cols)
  then show ?thesis using assms by (auto simp: run_statement_def list_all_iff backfill_chains split: if_splits)
qed (use assms in \<open>auto simp: run_statement_def split: option.splits if_splits\<close>)

lemma lasting_stays:
  assumes "run_statement H fr s db = Inr db'" "orderly s" "lasting db u"
  shows "lasting db' u"
proof (cases u)
  case (Create_Table t cols)
  then show ?thesis using assms tables_stay [OF assms(1)] by (auto simp: lasting_def holds_already_def)
next
  case (Add_Column t c d)
  then show ?thesis using assms info_grows [OF assms(1), of t] by (auto simp: lasting_def holds_already_def)
next
  case (Create_Index i ix)
  then show ?thesis using assms indexes_stay [OF assms(1,2), of i] by (auto simp: lasting_def holds_already_def)
next
  case (Drop_Index i)
  then show ?thesis using assms(3) by (simp add: lasting_def)
next
  case (Backfill t cols)
  then show ?thesis
    using assms(3) tables_stay [OF assms(1), of t] info_grows [OF assms(1), of t] chained_stays [OF assms(1), of t]
    by (auto simp: lasting_def holds_already_def touches_superseded_def)
qed

lemma run_holds:
  assumes "run_statement H fr s db = Inr db'" "orderly s"
    and "\<And>t cols. s = Backfill t cols \<Longrightarrow> ''chain_seq'' \<in> set (table_info db t)"
  shows "lasting db' s"
proof (cases s)
  case (Backfill t cols)
  have "db_tables db t \<noteq> None" "db' = db\<lparr>db_rows := (db_rows db)(t := backfill_chain H fr cols (db_rows db t))\<rparr>"
    using assms(1) by (simp_all add: Backfill run_statement_def split: if_splits)
  then show ?thesis using assms(3) [OF Backfill] backfill_chains [of H fr cols "db_rows db t"]
    by (simp add: Backfill lasting_def holds_already_def table_info_def list_all_iff)
qed (use assms in \<open>auto simp: run_statement_def lasting_def holds_already_def orderly_def touches_superseded_def table_info_def
      split: option.splits if_splits\<close>)

fun chain_ready :: "ddl list \<Rightarrow> string list \<Rightarrow> bool" where
  "chain_ready [] ts \<longleftrightarrow> True"
| "chain_ready (s # ss) ts \<longleftrightarrow>
     (case s of
        Add_Column t c d \<Rightarrow> chain_ready ss (if c = ''chain_seq'' then t # ts else ts)
      | Backfill t cols \<Rightarrow> t \<in> set ts \<and> chain_ready ss ts
      | _ \<Rightarrow> chain_ready ss ts)"

lemma run_statements_last:
  "run_statements H fr ss db = Inr db' \<Longrightarrow> list_all orderly ss \<Longrightarrow> chain_ready ss ts \<Longrightarrow>
    \<forall>t \<in> set ts. ''chain_seq'' \<in> set (table_info db t) \<Longrightarrow> list_all (lasting db) done_already \<Longrightarrow>
    list_all (lasting db') (done_already @ ss)"
proof (induction ss arbitrary: db ts done_already)
  case (Cons s ss)
  then obtain db1 where db1: "run_statement H fr s db = Inr db1" "run_statements H fr ss db1 = Inr db'"
    by (auto split: sum.splits)
  have o: "orderly s" "list_all orderly ss" using Cons.prems(2) by simp_all
  have grows: "\<forall>t \<in> set ts. ''chain_seq'' \<in> set (table_info db1 t)" using Cons.prems(4) info_grows [OF db1(1)] by blast
  have s: "lasting db1 s"
    by (rule run_holds [OF db1(1) o(1)]) (use Cons.prems(3,4) in auto)
  have before: "list_all (lasting db1) (done_already @ [s])"
    using Cons.prems(5) lasting_stays [OF db1(1) o(1)] s by (simp add: list_all_iff)
  obtain ts' where ts': "chain_ready ss ts'" "\<forall>t \<in> set ts'. ''chain_seq'' \<in> set (table_info db1 t)"
  proof (cases "\<exists>t d. s = Add_Column t ''chain_seq'' d")
    case True
    then obtain t d where s: "s = Add_Column t ''chain_seq'' d" by blast
    then have "''chain_seq'' \<in> set (table_info db1 t)" using db1(1)
      by (force simp: run_statement_def table_info_def split: option.splits if_splits)
    then show ?thesis using that [of "t # ts"] Cons.prems(3) s grows by simp
  next
    case False
    then have "chain_ready ss ts" using Cons.prems(3) by (auto split: ddl.splits if_splits)
    then show ?thesis using that grows by blast
  qed
  from Cons.IH [OF db1(2) o(2) ts' before] show ?case by simp
qed simp

lemma index_effect_pointwise: "f i = g i \<Longrightarrow> index_effect s f i = index_effect s g i"
  by (cases s; cases "g i") (auto simp: index_effect_def)

lemma index_effects_pointwise: "f i = g i \<Longrightarrow> fold index_effect xs f i = fold index_effect xs g i"
proof (induction xs arbitrary: f g)
  case (Cons x xs)
  have "index_effect x f i = index_effect x g i" using Cons.prems by (rule index_effect_pointwise)
  then have "fold index_effect xs (index_effect x f) i = fold index_effect xs (index_effect x g) i" by (rule Cons.IH)
  then show ?case by simp
qed simp

lemma superseded_tracked:
  "run_statements H fr ss db = Inr db' \<Longrightarrow> i \<in> set superseded \<Longrightarrow>
    db_indexes db' i = fold index_effect (filter touches_superseded ss) (db_indexes db) i"
proof (induction ss arbitrary: db)
  case (Cons s ss)
  then obtain db1 where db1: "run_statement H fr s db = Inr db1" "run_statements H fr ss db1 = Inr db'"
    by (auto split: sum.splits)
  let ?f = "if touches_superseded s then index_effect s (db_indexes db) else db_indexes db"
  have "db_indexes db1 i = ?f i"
    using db1(1) Cons.prems(2) by (cases s) (auto simp: run_statement_def touches_superseded_def index_effect_def split: option.splits if_splits)
  then have "fold index_effect (filter touches_superseded ss) (db_indexes db1) i = fold index_effect (filter touches_superseded ss) ?f i"
    by (rule index_effects_pointwise)
  with Cons.IH [OF db1(2) Cons.prems(2)] show ?case by (simp split: if_splits)
qed simp

lemma statements_orderly: "list_all orderly all_statements"
  by code_simp

lemma chain_ready_mono: "chain_ready ss ts \<Longrightarrow> set ts \<subseteq> set ts' \<Longrightarrow> chain_ready ss ts'"
proof (induction ss arbitrary: ts ts')
  case (Cons s ss)
  show ?case
  proof (cases s)
    case (Add_Column t c d)
    have "chain_ready ss (if c = ''chain_seq'' then t # ts else ts)" using Cons.prems(1) unfolding Add_Column by simp
    moreover have "set (if c = ''chain_seq'' then t # ts else ts) \<subseteq> set (if c = ''chain_seq'' then t # ts' else ts')"
      using Cons.prems(2) by (cases "c = ''chain_seq''") (simp_all, blast)
    ultimately have "chain_ready ss (if c = ''chain_seq'' then t # ts' else ts')" by (rule Cons.IH)
    then show ?thesis unfolding Add_Column by simp
  next
    case (Backfill t cols)
    have "chain_ready ss ts" "t \<in> set ts" using Cons.prems(1) unfolding Backfill by simp_all
    then show ?thesis using Cons.IH [OF _ Cons.prems(2)] Cons.prems(2) unfolding Backfill by auto
  next
    case (Create_Table t cols)
    have "chain_ready ss ts" using Cons.prems(1) unfolding Create_Table by simp
    then show ?thesis using Cons.IH [OF _ Cons.prems(2)] unfolding Create_Table by simp
  next
    case (Create_Index i ix)
    have "chain_ready ss ts" using Cons.prems(1) unfolding Create_Index by simp
    then show ?thesis using Cons.IH [OF _ Cons.prems(2)] unfolding Create_Index by simp
  next
    case (Drop_Index i)
    have "chain_ready ss ts" using Cons.prems(1) unfolding Drop_Index by simp
    then show ?thesis using Cons.IH [OF _ Cons.prems(2)] unfolding Drop_Index by simp
  qed
qed simp

lemma chain_ready_append: "chain_ready a ts \<Longrightarrow> chain_ready b ts \<Longrightarrow> chain_ready (a @ b) ts"
proof (induction a arbitrary: ts)
  case (Cons s ss)
  show ?case
  proof (cases s)
    case (Add_Column t c d)
    have "chain_ready b (if c = ''chain_seq'' then t # ts else ts)" by (rule chain_ready_mono [OF Cons.prems(2)]) auto
    with Cons Add_Column show ?thesis by simp
  qed (use Cons in auto)
qed simp

definition backfills :: "ddl \<Rightarrow> bool" where
  "backfills s = (case s of Backfill t cols \<Rightarrow> True | _ \<Rightarrow> False)"

lemma chain_ready_without: "list_all (\<lambda>s. \<not> backfills s) ss \<Longrightarrow> chain_ready ss ts"
  by (induction ss arbitrary: ts) (auto simp: backfills_def split: ddl.splits)

lemma statements_chain_ready: "chain_ready all_statements []"
proof -
  have split: "all_statements = concat (map mg_statements (take 7 migrations)) @ apply_evidence_chain @ concat (map mg_statements (drop 8 migrations))"
    by (simp add: all_statements_def migrations_def)
  have "list_all (\<lambda>s. \<not> backfills s) (concat (map mg_statements (take 7 migrations)))"
    "list_all (\<lambda>s. \<not> backfills s) (concat (map mg_statements (drop 8 migrations)))"
    by code_simp+
  note outer = this [THEN chain_ready_without [of _ "[]"]]
  have "chain_ready apply_evidence_chain []" by (simp add: apply_evidence_chain_def)
  from chain_ready_append [OF outer(1) chain_ready_append [OF this outer(2)]] show ?thesis unfolding split .
qed

lemmas statements_in_order = statements_orderly statements_chain_ready

lemma run_completes:
  assumes "run_statements H fr all_statements db = Inr db'" "{''event_type'', ''timestamp''} \<subseteq> set (table_info db' ''events'')"
  shows "complete_schema db'"
proof -
  have last: "list_all (lasting db') all_statements"
    using run_statements_last [OF assms(1) statements_in_order, of "[]"] by simp
  have gone: "db_indexes db' i = None" if "i \<in> set superseded" for i
    using superseded_tracked [OF assms(1) that] that unfolding superseded_statements
    by (auto simp: index_effect_def superseded_def)
  have "holds_already db' s" if s: "s \<in> set all_statements" for s
  proof -
    have l: "lasting db' s" and o: "orderly s" using last statements_in_order(1) s by (auto simp: list_all_iff)
    show ?thesis
      using l o gone by (cases s) (auto simp: lasting_def orderly_def holds_already_def touches_superseded_def)
  qed
  then show ?thesis using assms(2) by (simp add: complete_schema_def list_all_iff)
qed


lemma events_columns_known:
  "case gains all_statements [] of None \<Rightarrow> False
    | Some k \<Rightarrow> (case map_of k ''events'' of None \<Rightarrow> False | Some cs \<Rightarrow> list_all (\<lambda>c. c \<in> set cs) [''event_type'', ''timestamp''])"
  by code_simp

text \<open>C38: Replaying the migrations changes nothing. Migrate any database from before the framework, lose its version rows (a
restore without them, or a kill between a schema change and its record in an older build), and migrate again, at any later
time: every statement runs again, the second run succeeds with version 11, and tables, columns, indexes and rows are the
same as before it; in particular no evidence row is chained twice and no link of the chain changes.\<close>

theorem replay_changes_nothing:
  assumes "legacy_database db" and "migrate H fr clock db = (Inr 11, db')"
  shows "\<exists>db''. migrate H fr clock' (db'\<lparr>db_versions := []\<rparr>) = (Inr 11, db'') \<and>
    db_tables db'' = db_tables db' \<and> db_indexes db'' = db_indexes db' \<and> db_rows db'' = db_rows db'"
proof -
  obtain k cs where k: "gains all_statements [] = Some k" "map_of k ''events'' = Some cs" "{''event_type'', ''timestamp''} \<subseteq> set cs"
    using events_columns_known by (auto split: option.splits)
  have "knows [] db" by (simp add: knows_def)
  from gains_sound [OF this k(1) _ created_distinct, of H fr] assms(1) obtain db1
    where db1: "run_statements H fr all_statements db = Inr db1" "knows k db1" by (auto simp: legacy_database_def)
  have "{''event_type'', ''timestamp''} \<subseteq> set (table_info db1 ''events'')" using db1(2) k(2,3) unfolding knows_def by blast
  from replay_complete [OF run_completes [OF db1(1) this], of H fr]
  have "run_statements H fr all_statements (db1\<lparr>db_versions := []\<rparr>) = Inr (db1\<lparr>db_versions := []\<rparr>)"
    by (simp add: statements_versions)
  from migrate_from_unversioned [OF this]
  have again: "migrate H fr clock' (db1\<lparr>db_versions := []\<rparr>) =
      (Inr 11, db1\<lparr>db_versions := map (\<lambda>m. (mg_version m, mg_description m, clock' (mg_version m))) migrations\<rparr>)" by simp
  have "db' = db1\<lparr>db_versions := map (\<lambda>m. (mg_version m, mg_description m, clock (mg_version m))) migrations\<rparr>"
    using migrate_from_unversioned [OF db1(1)] assms by (simp add: legacy_database_def)
  with again show ?thesis by simp
qed

theorem replay_changes_nothing_witness:
  "\<exists>db''. migrate (\<lambda>s. s) (\<lambda>_. []) (\<lambda>_. 5) (snd (migrate (\<lambda>s. s) (\<lambda>_. []) (\<lambda>_. 0) old_events)\<lparr>db_versions := []\<rparr>) = (Inr 11, db'') \<and>
    db_tables db'' = db_tables (snd (migrate (\<lambda>s. s) (\<lambda>_. []) (\<lambda>_. 0) old_events)) \<and>
    db_indexes db'' = db_indexes (snd (migrate (\<lambda>s. s) (\<lambda>_. []) (\<lambda>_. 0) old_events)) \<and>
    db_rows db'' = db_rows (snd (migrate (\<lambda>s. s) (\<lambda>_. []) (\<lambda>_. 0) old_events))"
proof (rule replay_changes_nothing [OF old_events_legacy])
  obtain db1 where "run_statements (\<lambda>s. s) (\<lambda>_. []) all_statements old_events = Inr db1"
    using gains_sound [of "[]" old_events all_statements _ "\<lambda>s. s" "\<lambda>_. []"] written_columns_guaranteed created_distinct old_events_legacy
    by (auto simp: knows_def legacy_database_def split: option.splits)
  from migrate_from_unversioned [OF this, of "\<lambda>_. 0"]
  show "migrate (\<lambda>s. s) (\<lambda>_. []) (\<lambda>_. 0) old_events = (Inr 11, snd (migrate (\<lambda>s. s) (\<lambda>_. []) (\<lambda>_. 0) old_events))"
    by (simp add: old_events_def new_database_def)
qed

end
