(* ===== verification/Spec2Isabelle.thy ===== *)
theory Spec2Isabelle
  imports Triage Evidence_Tables Ml_Gaps Retention Failure_Hysteresis Supervision Policy_Safety Ingestion_Accounting Event_Identity Explanation_Properties
    Drift_Attainable Drift_Total Alert_Gaps Metrics_Text Journal_Properties
    Migration_Properties
begin

text \<open>
  A verification development for the Linux XAI security assistant. (Header completed below.)
\<close>

end
